(* ===== verification/Spark_Prelude.thy ===== *)
theory Spark_Prelude
  imports Main "HOL-Library.AList" "HOL-Library.Multiset" "HOL-Library.Word"
begin

text \<open>
  Shared vocabulary of the development.

  \<^item> Unsigned amounts (Rust \<open>u64\<close>, \<open>u128\<close>) are natural numbers with the wrap-around of a
    release build (\<^verbatim>\<open>[profile.release]\<close> of the workspace sets no overflow checks)
    written out: \<open>wrap64\<close>, \<open>add_u64\<close>, \<open>sum_u64\<close>.
  \<^item> \<open>Result<T, E>\<close> is \<open>'e + 'a\<close> with \<open>Inl\<close> the error, and \<open>qbind\<close> is the \<open>?\<close> operator.
  \<^item> A \<open>HashMap\<close> is an association list with distinct keys. Its list order stands for the
    unspecified iteration order of the map: nothing is ever assumed about it.
  \<^item> \<open>SystemTime\<close> is the number of clock ticks since the epoch.
\<close>

named_theorems hmap \<open>lookups, key sets and values of association lists\<close>
named_theorems arith64 \<open>machine arithmetic that does not overflow\<close>

type_synonym u64 = nat
type_synonym u128 = nat
type_synonym system_time = nat
type_synonym public_key = string
type_synonym ('e, 'a) rust_result = "'e + 'a"
type_synonym ('k, 'v) hash_map = "('k \<times> 'v) list"

subsection \<open>Machine arithmetic\<close>

definition wrap64 :: "nat \<Rightarrow> u64" where
  "wrap64 n = n mod 2 ^ 64"

definition add_u64 :: "u64 \<Rightarrow> u64 \<Rightarrow> u64" where
  "add_u64 a b = wrap64 (a + b)"

definition sum_u64 :: "u64 list \<Rightarrow> u64" where
  "sum_u64 xs = fold (\<lambda>x acc. add_u64 acc x) xs 0"

definition wrap128 :: "nat \<Rightarrow> u128" where
  "wrap128 n = n mod 2 ^ 128"

definition sum_u128 :: "u128 list \<Rightarrow> u128" where
  "sum_u128 xs = fold (\<lambda>x acc. wrap128 (acc + x)) xs 0"

lemma wrap64_small [arith64, simp]: "n < 2 ^ 64 \<Longrightarrow> wrap64 n = n"
  by (simp add: wrap64_def)

lemma wrap64_less [simp]: "wrap64 n < 2 ^ 64"
  by (simp add: wrap64_def)

lemma wrap64_le: "wrap64 n \<le> n"
  by (simp add: wrap64_def)

lemma add_u64_small [arith64, simp]: "a + b < 2 ^ 64 \<Longrightarrow> add_u64 a b = a + b"
  by (simp add: add_u64_def)

lemma fold_add_u64: "fold (\<lambda>x acc. add_u64 acc x) xs (wrap64 n) = wrap64 (n + sum_list xs)"
  by (induction xs arbitrary: n)
     (simp_all add: add_u64_def wrap64_def mod_add_left_eq flip: add.assoc)

lemma sum_u64_wrap: "sum_u64 xs = wrap64 (sum_list xs)"
  using fold_add_u64 [of xs 0] by (simp add: sum_u64_def)

lemma sum_u64_small [arith64]: "sum_list xs < 2 ^ 64 \<Longrightarrow> sum_u64 xs = sum_list xs"
  by (simp add: sum_u64_wrap)

lemma sum_u64_le: "sum_u64 xs \<le> sum_list xs"
  by (simp add: sum_u64_wrap wrap64_le)

lemma fold_sum_u128: "fold (\<lambda>x acc. wrap128 (acc + x)) xs (wrap128 n) = wrap128 (n + sum_list xs)"
  by (induction xs arbitrary: n)
     (simp_all add: wrap128_def mod_add_left_eq flip: add.assoc)

lemma sum_u128_wrap: "sum_u128 xs = wrap128 (sum_list xs)"
  using fold_sum_u128 [of xs 0] by (simp add: sum_u128_def wrap128_def)

lemma sum_u128_small [arith64]: "sum_list xs < 2 ^ 128 \<Longrightarrow> sum_u128 xs = sum_list xs"
  by (simp add: sum_u128_wrap wrap128_def)

subsection \<open>Results\<close>

definition qbind :: "('e, 'a) rust_result \<Rightarrow> ('a \<Rightarrow> ('e, 'b) rust_result) \<Rightarrow> ('e, 'b) rust_result" where
  "qbind r f = (case r of Inl e \<Rightarrow> Inl e | Inr x \<Rightarrow> f x)"

definition ok_or :: "'a option \<Rightarrow> 'e \<Rightarrow> ('e, 'a) rust_result" where
  "ok_or x e = (case x of None \<Rightarrow> Inl e | Some y \<Rightarrow> Inr y)"

definition is_ok :: "('e, 'a) rust_result \<Rightarrow> bool" where
  "is_ok r = (case r of Inl e \<Rightarrow> False | Inr x \<Rightarrow> True)"

lemma qbind_simps [simp]: "qbind (Inl e) f = Inl e" "qbind (Inr x) f = f x"
  by (simp_all add: qbind_def)

lemma ok_or_simps [simp]: "ok_or None e = Inl e" "ok_or (Some x) e = Inr x"
  by (simp_all add: ok_or_def)

lemma is_ok_simps [simp]: "\<not> is_ok (Inl e)" "is_ok (Inr x)"
  by (simp_all add: is_ok_def)

lemma qbind_eq_Inr [simp]: "qbind r f = Inr y \<longleftrightarrow> (\<exists>x. r = Inr x \<and> f x = Inr y)"
  by (cases r) auto

lemma ok_or_eq_Inr [simp]: "ok_or x e = Inr y \<longleftrightarrow> x = Some y"
  by (cases x) auto

subsection \<open>Hash maps as association lists\<close>

abbreviation hm_get :: "('k, 'v) hash_map \<Rightarrow> 'k \<Rightarrow> 'v option" where
  "hm_get \<equiv> map_of"

abbreviation hm_insert :: "'k \<Rightarrow> 'v \<Rightarrow> ('k, 'v) hash_map \<Rightarrow> ('k, 'v) hash_map" where
  "hm_insert \<equiv> AList.update"

abbreviation hm_remove :: "'k \<Rightarrow> ('k, 'v) hash_map \<Rightarrow> ('k, 'v) hash_map" where
  "hm_remove \<equiv> AList.delete"

abbreviation hm_values :: "('k, 'v) hash_map \<Rightarrow> 'v list" where
  "hm_values m \<equiv> map snd m"

abbreviation hm_keys :: "('k, 'v) hash_map \<Rightarrow> 'k list" where
  "hm_keys m \<equiv> map fst m"

definition hm_contains :: "'k \<Rightarrow> ('k, 'v) hash_map \<Rightarrow> bool" where
  "hm_contains k m = (map_of m k \<noteq> None)"

definition hm_retain :: "('k \<Rightarrow> 'v \<Rightarrow> bool) \<Rightarrow> ('k, 'v) hash_map \<Rightarrow> ('k, 'v) hash_map" where
  "hm_retain P m = filter (\<lambda>(k, v). P k v) m"

definition wf_map :: "('k, 'v) hash_map \<Rightarrow> bool" where
  "wf_map m = distinct (map fst m)"

lemmas hm_get_insert [hmap] = AList.update_conv'
lemmas hm_get_remove [hmap] = AList.delete_conv'

lemma hm_contains_iff [hmap, simp]: "hm_contains k m \<longleftrightarrow> k \<in> fst ` set m"
  by (simp add: hm_contains_def map_of_eq_None_iff)

lemma keys_insert [hmap, simp]: "fst ` set (hm_insert k v m) = insert k (fst ` set m)"
  by (simp add: dom_update)

lemma keys_remove [hmap, simp]: "fst ` set (hm_remove k m) = fst ` set m - {k}"
  by (auto simp: AList.delete_eq image_iff)

lemma wf_map_Nil [simp]: "wf_map []"
  by (simp add: wf_map_def)

lemma wf_map_insert [simp]: "wf_map m \<Longrightarrow> wf_map (hm_insert k v m)"
  by (simp add: wf_map_def distinct_update)

lemma wf_map_remove [simp]: "wf_map m \<Longrightarrow> wf_map (hm_remove k m)"
  by (simp add: wf_map_def distinct_delete)

lemma wf_map_retain [simp]: "wf_map m \<Longrightarrow> wf_map (hm_retain P m)"
  by (simp add: wf_map_def hm_retain_def distinct_map_filter)

lemma wf_map_in [hmap]: "wf_map m \<Longrightarrow> (k, v) \<in> set m \<longleftrightarrow> map_of m k = Some v"
  by (simp add: wf_map_def)

lemma hm_get_retain [hmap]:
  "wf_map m \<Longrightarrow> map_of (hm_retain P m) k = (case map_of m k of None \<Rightarrow> None
     | Some v \<Rightarrow> if P k v then Some v else None)"
  by (induction m) (auto simp: hm_retain_def wf_map_def map_of_eq_None_iff split: option.splits)

lemma keys_retain_subset: "fst ` set (hm_retain P m) \<subseteq> fst ` set m"
  by (auto simp: hm_retain_def)

lemma insert_fresh: "k \<notin> fst ` set m \<Longrightarrow> hm_insert k v m = m @ [(k, v)]"
  by (induction m) auto

lemma set_insert_subset: "set (hm_insert k v m) \<subseteq> insert (k, v) (set m)"
  by (induction m) auto

lemma set_remove_subset: "set (hm_remove k m) \<subseteq> set m"
  by (auto simp: AList.delete_eq)

lemma in_remove_iff: "(k', v) \<in> set (hm_remove k m) \<longleftrightarrow> (k', v) \<in> set m \<and> k' \<noteq> k"
  by (auto simp: AList.delete_eq)

lemma in_insert_wf:
  "wf_map m \<Longrightarrow> (k', v') \<in> set (hm_insert k v m) \<longleftrightarrow>
     (if k' = k then v' = v else (k', v') \<in> set m)"
  by (simp add: wf_map_in [OF wf_map_insert] update_conv' wf_map_in)
     (auto simp: wf_map_in)

lemma mset_remove:
  assumes "wf_map m" and "map_of m k = Some v"
  shows "mset m = add_mset (k, v) (mset (hm_remove k m))"
  using assms
proof (induction m)
  case (Cons kv m)
  then show ?case
    by (cases kv) (auto simp: wf_map_def)
qed simp

lemma mset_values_remove:
  assumes "wf_map m" and "map_of m k = Some v"
  shows "mset (hm_values m) = add_mset v (mset (hm_values (hm_remove k m)))"
  using arg_cong [OF mset_remove [OF assms], of "image_mset snd"] by simp

lemma mset_values_insert_fresh:
  "k \<notin> fst ` set m \<Longrightarrow> mset (hm_values (hm_insert k v m)) = add_mset v (mset (hm_values m))"
  by (simp add: insert_fresh)

subsection \<open>Lists\<close>

fun position :: "('a \<Rightarrow> bool) \<Rightarrow> 'a list \<Rightarrow> nat option" where
  "position P [] = None"
| "position P (x # xs) = (if P x then Some 0 else map_option Suc (position P xs))"

definition swap_remove :: "nat \<Rightarrow> 'a list \<Rightarrow> 'a \<times> 'a list" where
  "swap_remove i xs =
     (xs ! i, if Suc i = length xs then butlast xs else (butlast xs)[i := last xs])"

lemma position_Some:
  "position P xs = Some i \<Longrightarrow> i < length xs \<and> P (xs ! i) \<and> (\<forall>j < i. \<not> P (xs ! j))"
proof (induction xs arbitrary: i)
  case (Cons x xs)
  then show ?case
    by (auto split: if_splits simp: less_Suc_eq_0_disj nth_Cons')
qed simp

lemma position_None: "position P xs = None \<longleftrightarrow> (\<forall>x \<in> set xs. \<not> P x)"
  by (induction xs) auto

lemma mset_swap_remove:
  assumes "i < length xs"
  shows "mset xs = add_mset (xs ! i) (mset (snd (swap_remove i xs)))"
proof (cases xs rule: rev_cases)
  case (snoc ys y)
  show ?thesis
  proof (cases "i = length ys")
    case False
    with assms snoc have i: "i < length ys" by simp
    then have "mset (ys[i := y]) = add_mset y (mset ys - {#ys ! i#})"
      by (simp add: mset_update)
    moreover have "ys ! i \<in># mset ys" using i by simp
    ultimately show ?thesis
      using snoc i by (simp add: swap_remove_def nth_append)
  qed (simp add: snoc swap_remove_def)
qed (use assms in simp)

lemma sum_list_mset_mono:
  fixes f :: "'a \<Rightarrow> nat"
  assumes "mset xs \<subseteq># mset ys"
  shows "sum_list (map f xs) \<le> sum_list (map f ys)"
proof -
  from assms obtain M where "mset ys = mset xs + M"
    using mset_subset_eq_exists_conv by blast
  then have "sum_mset (image_mset f (mset ys)) = sum_mset (image_mset f (mset xs)) + sum_mset (image_mset f M)"
    by simp
  then show ?thesis by (simp flip: sum_mset_sum_list)
qed

lemma sum_list_mset_cong:
  fixes f :: "'a \<Rightarrow> nat"
  assumes "mset xs = mset ys"
  shows "sum_list (map f xs) = sum_list (map f ys)"
  using assms by (metis mset_map sum_mset_sum_list)

lemma subset_mset_not_in:
  assumes "mset xs \<subseteq># mset (y # ys)" and "y \<notin> set xs"
  shows "mset xs \<subseteq># mset ys"
proof (rule mset_subset_eqI)
  fix a
  have "count (mset xs) a \<le> count (mset (y # ys)) a"
    using assms(1) by (rule mset_subset_eq_count)
  moreover have "count (mset xs) y = 0"
    using assms(2) by (simp add: count_eq_zero_iff)
  ultimately show "count (mset xs) a \<le> count (mset ys) a"
    by (metis add_mset_add_single count_add_mset le0 mset.simps(2))
qed

lemma distinct_submset:
  assumes "mset xs \<subseteq># mset ys" and "distinct ys"
  shows "distinct xs"
  unfolding distinct_count_atmost_1
proof
  fix a
  have "count (mset xs) a \<le> count (mset ys) a" using assms(1) by (rule mset_subset_eq_count)
  also have "\<dots> \<le> 1" using assms(2) by (simp add: distinct_count_atmost_1)
  finally have "count (mset xs) a \<le> 1" .
  moreover have "0 < count (mset xs) a \<longleftrightarrow> a \<in> set xs" by (simp add: count_greater_zero_iff)
  ultimately show "count (mset xs) a = (if a \<in> set xs then 1 else 0)" by (cases "count (mset xs) a") auto
qed

lemma distinct_subset_mset:
  assumes "distinct xs" and "set xs \<subseteq> set ys"
  shows "mset xs \<subseteq># mset ys"
proof (rule mset_subset_eqI)
  fix a
  show "count (mset xs) a \<le> count (mset ys) a"
  proof (cases "a \<in> set xs")
    case True
    with assms have "count (mset xs) a = 1" "a \<in> set ys" by (auto simp: distinct_count_atmost_1)
    then show ?thesis by (metis One_nat_def Suc_leI count_greater_zero_iff set_mset_mset)
  next
    case False
    then have "count (mset xs) a = 0" by (simp add: count_eq_zero_iff)
    then show ?thesis by (metis le0)
  qed
qed

end
