(* ===== verification/Tree_Model.thy ===== *)
theory Tree_Model
  imports Spark_Prelude "HOL-Library.List_Lexorder" "HOL-Library.Char_ord"
begin

text \<open>
  The data of the Spark leaf tree: \<^verbatim>\<open>crates/spark/src/tree/mod.rs\<close> and
  \<^verbatim>\<open>crates/spark/src/tree/error.rs\<close>.

  A bitcoin transaction is a public structure of an external crate, and is kept with all its
  fields; what the crate computes from it (ids, weights) is a parameter where it is used.
  Scripts, witness elements and transaction ids are byte strings; public keys are their
  serialised form.
\<close>

type_synonym sequence = "32 word"
type_synonym txid = string
type_synonym script = string
type_synonym bitcoin_outpoint = "txid \<times> nat"

record tx_in =
  txi_previous_output :: bitcoin_outpoint
  txi_script_sig :: script
  txi_sequence :: sequence
  txi_witness :: "string list"

record tx_out =
  txo_value :: u64
  txo_script_pubkey :: script

record transaction =
  tx_version :: nat
  tx_lock_time :: "32 word"
  tx_input :: "tx_in list"
  tx_output :: "tx_out list"

type_synonym tree_node_id = string
type_synonym leaves_reservation_id = string

subsection \<open>Statuses\<close>

datatype tree_node_status =
    Creating | Available | FrozenByIssuer | TransferLocked | SplitLocked | Splitted
  | Aggregated | OnChain | Exited | AggregateLock | Investigation | Lost | Reimbursed
  | RenewLocked | ParentExited | UnknownStatus

definition tree_node_status_from_str :: "string \<Rightarrow> tree_node_status" where
  "tree_node_status_from_str s =
     (if s = ''CREATING'' then Creating
      else if s = ''AVAILABLE'' then Available
      else if s = ''FROZEN_BY_ISSUER'' then FrozenByIssuer
      else if s = ''TRANSFER_LOCKED'' then TransferLocked
      else if s = ''SPLIT_LOCKED'' then SplitLocked
      else if s = ''SPLITTED'' then Splitted
      else if s = ''AGGREGATED'' then Aggregated
      else if s = ''ON_CHAIN'' then OnChain
      else if s = ''EXITED'' then Exited
      else if s = ''AGGREGATE_LOCK'' then AggregateLock
      else if s = ''INVESTIGATION'' then Investigation
      else if s = ''LOST'' then Lost
      else if s = ''REIMBURSED'' then Reimbursed
      else if s = ''RENEW_LOCKED'' then RenewLocked
      else if s = ''PARENT_EXITED'' then ParentExited
      else UnknownStatus)"

fun tree_node_status_display :: "tree_node_status \<Rightarrow> string" where
  "tree_node_status_display Creating = ''Creating''"
| "tree_node_status_display Available = ''Available''"
| "tree_node_status_display FrozenByIssuer = ''FrozenByIssuer''"
| "tree_node_status_display TransferLocked = ''TransferLocked''"
| "tree_node_status_display SplitLocked = ''SplitLocked''"
| "tree_node_status_display Splitted = ''Splitted''"
| "tree_node_status_display Aggregated = ''Aggregated''"
| "tree_node_status_display OnChain = ''OnChain''"
| "tree_node_status_display Exited = ''Exited''"
| "tree_node_status_display AggregateLock = ''AggregateLock''"
| "tree_node_status_display Investigation = ''Investigation''"
| "tree_node_status_display Lost = ''Lost''"
| "tree_node_status_display Reimbursed = ''Reimbursed''"
| "tree_node_status_display RenewLocked = ''RenewLocked''"
| "tree_node_status_display ParentExited = ''ParentExited''"
| "tree_node_status_display UnknownStatus = ''Unknown''"

subsection \<open>Nodes\<close>

record signing_keyshare =
  ks_owner_identifiers :: "string list"
  ks_threshold :: nat
  ks_public_key :: public_key

record tree_node =
  tn_id :: tree_node_id
  tn_tree_id :: string
  tn_value :: u64
  tn_parent_node_id :: "tree_node_id option"
  tn_node_tx :: transaction
  tn_refund_tx :: "transaction option"
  tn_direct_tx :: "transaction option"
  tn_direct_refund_tx :: "transaction option"
  tn_direct_from_cpfp_refund_tx :: "transaction option"
  tn_vout :: nat
  tn_verifying_public_key :: public_key
  tn_owner_identity_public_key :: "public_key option"
  tn_signing_keyshare :: signing_keyshare
  tn_status :: tree_node_status

record leaf_pedigree =
  lp_leaf :: tree_node
  lp_ancestors :: "tree_node list"

definition tree_node_id_from_str :: "string \<Rightarrow> (string, tree_node_id) rust_result" where
  "tree_node_id_from_str s =
     (if s = [] then Inl ''TreeNodeId cannot be empty'' else Inr s)"

subsection \<open>Errors\<close>

text \<open>\<open>TSE_Panic\<close> is not a constructor of the source: it stands for a panic (an index out of
  range), so that a panicking call is a branch of the model.\<close>

datatype tree_service_error =
    TSE_InsufficientFunds
  | TSE_RpcError string
  | TSE_UnselectableAmount
  | TSE_InvalidAmount
  | TSE_SignerError string
  | TSE_NonReservableLeaves
  | TSE_ServiceError string
  | TSE_ProcessorShutdown
  | TSE_ResourceBusy nat nat
  | TSE_Generic string
  | TSE_Panic

subsection \<open>Sequence numbers of a node\<close>

definition first_sequence :: "transaction \<Rightarrow> (tree_service_error, sequence) rust_result" where
  "first_sequence tx = (case tx_input tx of [] \<Rightarrow> Inl TSE_Panic | i # _ \<Rightarrow> Inr (txi_sequence i))"

definition node_sequence :: "tree_node \<Rightarrow> (tree_service_error, sequence) rust_result" where
  "node_sequence n = first_sequence (tn_node_tx n)"

definition refund_sequence :: "tree_node \<Rightarrow> (tree_service_error, sequence) rust_result" where
  "refund_sequence n =
     qbind (ok_or (tn_refund_tx n) (TSE_Generic ''No refund tx'')) first_sequence"

definition as_u16 :: "sequence \<Rightarrow> 16 word" where
  "as_u16 s = ucast s"

definition needs_node_tx_renewed :: "tree_node \<Rightarrow> (tree_service_error, bool) rust_result" where
  "needs_node_tx_renewed n = qbind (node_sequence n) (\<lambda>s. Inr (as_u16 s \<le> 100))"

definition needs_refund_tx_renewed :: "tree_node \<Rightarrow> (tree_service_error, bool) rust_result" where
  "needs_refund_tx_renewed n = qbind (refund_sequence n) (\<lambda>s. Inr (as_u16 s \<le> 100))"

definition is_zero_timelock :: "tree_node \<Rightarrow> (tree_service_error, bool) rust_result" where
  "is_zero_timelock n = qbind (node_sequence n) (\<lambda>s. Inr (as_u16 s = 0))"

definition direct_refund_tx ::
  "tree_node \<Rightarrow> (tree_service_error, transaction option) rust_result" where
  "direct_refund_tx n =
     qbind (is_zero_timelock n) (\<lambda>z. Inr (if z then None else tn_direct_tx n))"

subsection \<open>Wallet snapshots\<close>

record leaves =
  lv_available :: "tree_node list"
  lv_not_available :: "tree_node list"
  lv_available_missing_from_operators :: "tree_node list"
  lv_reserved_for_payment :: "tree_node list"
  lv_reserved_for_swap :: "tree_node list"

definition leaves_available_balance :: "leaves \<Rightarrow> u64" where
  "leaves_available_balance l = sum_u64 (map tn_value (lv_available l))"

definition missing_operators_balance :: "leaves \<Rightarrow> u64" where
  "missing_operators_balance l =
     sum_u64 (map tn_value (lv_available_missing_from_operators l))"

definition payment_reserved_balance :: "leaves \<Rightarrow> u64" where
  "payment_reserved_balance l = sum_u64 (map tn_value (lv_reserved_for_payment l))"

definition swap_reserved_balance :: "leaves \<Rightarrow> u64" where
  "swap_reserved_balance l = sum_u64 (map tn_value (lv_reserved_for_swap l))"

definition leaves_balance :: "leaves \<Rightarrow> u64" where
  "leaves_balance l =
     add_u64 (add_u64 (leaves_available_balance l) (missing_operators_balance l))
             (swap_reserved_balance l)"

definition all_leaves :: "leaves \<Rightarrow> tree_node list" where
  "all_leaves l =
     lv_available l @ lv_not_available l @ lv_available_missing_from_operators l
       @ lv_reserved_for_payment l @ lv_reserved_for_swap l"

text \<open>Node ids order as strings do, bytewise; \<open>dedup\<close> removes adjacent repetitions.\<close>

definition leaf_ids :: "leaves \<Rightarrow> tree_node_id list" where
  "leaf_ids l = remdups_adj (sort (map tn_id (all_leaves l)))"

record verified_leaf_keys =
  vk_verifying_public_key :: public_key
  vk_signing_keyshare_public_key :: public_key

definition verified_leaf_keys_from_leaves ::
  "leaves \<Rightarrow> (tree_node_id, verified_leaf_keys) hash_map" where
  "verified_leaf_keys_from_leaves l =
     fold (\<lambda>leaf m. hm_insert (tn_id leaf)
             \<lparr>vk_verifying_public_key = tn_verifying_public_key leaf,
              vk_signing_keyshare_public_key = ks_public_key (tn_signing_keyshare leaf)\<rparr> m)
          (all_leaves l) []"

subsection \<open>Reservations\<close>

datatype reservation_purpose = Payment | Swap

fun reservation_purpose_display :: "reservation_purpose \<Rightarrow> string" where
  "reservation_purpose_display Payment = ''Payment''"
| "reservation_purpose_display Swap = ''Swap''"

definition reservation_purpose_from_str ::
  "string \<Rightarrow> (string, reservation_purpose) rust_result" where
  "reservation_purpose_from_str s =
     (if s = ''Payment'' then Inr Payment
      else if s = ''Swap'' then Inr Swap
      else Inl (''Unknown ReservationPurpose: '' @ s))"

record leaves_reservation =
  lr_id :: leaves_reservation_id
  lr_leaves :: "tree_node list"

definition leaves_reservation_sum :: "leaves_reservation \<Rightarrow> u64" where
  "leaves_reservation_sum r = sum_u64 (map tn_value (lr_leaves r))"

datatype reserve_result =
    RR_Success leaves_reservation
  | RR_InsufficientFunds
  | RR_WaitForPending u64 u64 u64 \<comment> \<open>needed, available, pending\<close>

fun reserve_result_into_result ::
  "reserve_result \<Rightarrow> (tree_service_error, leaves_reservation) rust_result" where
  "reserve_result_into_result (RR_Success r) = Inr r"
| "reserve_result_into_result RR_InsufficientFunds = Inl TSE_InsufficientFunds"
| "reserve_result_into_result (RR_WaitForPending _ _ _) =
     Inl (TSE_Generic ''Unexpected WaitForPending after swap'')"

datatype target_amounts =
    AmountAndFee u64 "u64 option"
  | ExactDenominations "u64 list"

fun total_sats :: "target_amounts \<Rightarrow> u64" where
  "total_sats (AmountAndFee amount fee) = add_u64 amount (case fee of None \<Rightarrow> 0 | Some f \<Rightarrow> f)"
| "total_sats (ExactDenominations ds) = sum_u64 ds"

record 'l target_leaves =
  amount_leaves :: "'l list"
  fee_leaves :: "'l list option"

datatype leaf_selection =
    Exact "tree_node list"
  | SwapNeeded "tree_node list"

text \<open>A concrete leaf, for the witnesses of the development.\<close>

definition example_tx :: "txid \<Rightarrow> u64 \<Rightarrow> transaction" where
  "example_tx parent v = \<lparr>tx_version = 3, tx_lock_time = 0,
     tx_input = [\<lparr>txi_previous_output = (parent, 0), txi_script_sig = [], txi_sequence = 0x400007D0, txi_witness = []\<rparr>],
     tx_output = [\<lparr>txo_value = v, txo_script_pubkey = ''script''\<rparr>,
       \<lparr>txo_value = 0, txo_script_pubkey = [CHR 0x51, CHR 0x02, CHR 0x4e, CHR 0x73]\<rparr>]\<rparr>"

definition example_leaf :: "tree_node_id \<Rightarrow> u64 \<Rightarrow> tree_node_id option \<Rightarrow> tree_node" where
  "example_leaf i v parent = \<lparr>tn_id = i, tn_tree_id = ''tree'', tn_value = v, tn_parent_node_id = parent,
     tn_node_tx = example_tx (''parent of '' @ i) v, tn_refund_tx = Some (example_tx i v),
     tn_direct_tx = None, tn_direct_refund_tx = None, tn_direct_from_cpfp_refund_tx = None,
     tn_vout = 0, tn_verifying_public_key = ''vk'', tn_owner_identity_public_key = None,
     tn_signing_keyshare = \<lparr>ks_owner_identifiers = [], ks_threshold = 2, ks_public_key = ''ks''\<rparr>,
     tn_status = Available\<rparr>"

subsection \<open>Facts\<close>

lemma example_leaf_simps [simp]:
  "tn_id (example_leaf i v p) = i" "tn_value (example_leaf i v p) = v"
  "tn_parent_node_id (example_leaf i v p) = p" "tn_status (example_leaf i v p) = Available"
  by (simp_all add: example_leaf_def)

lemma reservation_purpose_roundtrip:
  "reservation_purpose_from_str (reservation_purpose_display p) = Inr p"
  by (cases p) (simp_all add: reservation_purpose_from_str_def)

lemma leaves_balance_exact:
  assumes "sum_list (map tn_value (lv_available l))
         + sum_list (map tn_value (lv_available_missing_from_operators l))
         + sum_list (map tn_value (lv_reserved_for_swap l)) < 2 ^ 64"
  shows "leaves_balance l = sum_list (map tn_value (lv_available l))
         + sum_list (map tn_value (lv_available_missing_from_operators l))
         + sum_list (map tn_value (lv_reserved_for_swap l))"
  using assms
  by (simp add: leaves_balance_def leaves_available_balance_def missing_operators_balance_def
      swap_reserved_balance_def sum_u64_small add_u64_small)

lemma leaf_ids_spec:
  "sorted (leaf_ids l) \<and> distinct (leaf_ids l) \<and> set (leaf_ids l) = tn_id ` set (all_leaves l)"
proof -
  have "sorted xs \<Longrightarrow> distinct (remdups_adj xs)" for xs :: "tree_node_id list"
    by (induction xs rule: remdups_adj.induct) (auto simp: remdups_adj_set order.antisym)
  then show ?thesis by (simp add: leaf_ids_def)
qed

lemma verified_keys_lookup_gen:
  assumes "leaf \<in> set ls" and "\<And>l. l \<in> set ls \<Longrightarrow> tn_id l = tn_id leaf \<Longrightarrow> l = leaf"
  shows "map_of (fold (\<lambda>leaf m. hm_insert (tn_id leaf) (f leaf) m) ls m0) (tn_id leaf) = Some (f leaf)"
  using assms
proof (induction ls rule: rev_induct)
  case (snoc l ls)
  then show ?case
    by (cases "tn_id l = tn_id leaf") (auto simp: update_conv')
qed simp

end
