(* ===== verification/Leaf_Select.thy ===== *)
theory Leaf_Select
  imports Tree_Model
begin

text \<open>
  Leaf selection: \<^verbatim>\<open>crates/spark/src/tree/select_helper.rs\<close>.

  The source is generic over the trait \<open>LeafLike\<close> (an id and a value); the definitions here take
  the two accessors as arguments, and \<open>tn_id\<close>, \<open>tn_value\<close> are the instance for tree nodes. The
  main facts are soundness (a selection is a part of the given leaves with the requested sum)
  and completeness of the greedy search on leaves whose values are powers of two.
\<close>

unbundle bit_operations_syntax

subsection \<open>Definitions\<close>

definition find_exact_single_match :: "('l \<Rightarrow> u64) \<Rightarrow> 'l list \<Rightarrow> u64 \<Rightarrow> 'l option" where
  "find_exact_single_match leaf_value ls target = find (\<lambda>l. leaf_value l = target) ls"

definition is_power_of_two :: "u64 \<Rightarrow> bool" where
  "is_power_of_two v = (v > 0 \<and> v AND (v - 1) = 0)"

fun greedy_loop :: "('l \<Rightarrow> u64) \<Rightarrow> u64 \<Rightarrow> 'l list \<Rightarrow> 'l list \<Rightarrow> 'l list option" where
  "greedy_loop leaf_value remaining result [] = None"
| "greedy_loop leaf_value remaining result (l # ls) =
     (if leaf_value l > remaining then greedy_loop leaf_value remaining result ls
      else let remaining' = remaining - leaf_value l; result' = result @ [l]
           in if remaining' = 0 then Some result'
              else greedy_loop leaf_value remaining' result' ls)"

text \<open>\<open>sort_by_key\<close> with \<open>Reverse\<close> is the stable sort by descending value.\<close>

definition sort_descending :: "('l \<Rightarrow> u64) \<Rightarrow> 'l list \<Rightarrow> 'l list" where
  "sort_descending leaf_value ls = sort_key (\<lambda>l. - int (leaf_value l)) ls"

definition greedy_exact_match :: "('l \<Rightarrow> u64) \<Rightarrow> 'l list \<Rightarrow> u64 \<Rightarrow> 'l list option" where
  "greedy_exact_match leaf_value ls target =
     greedy_loop leaf_value target [] (sort_descending leaf_value ls)"

definition find_exact_multiple_match :: "('l \<Rightarrow> u64) \<Rightarrow> 'l list \<Rightarrow> u64 \<Rightarrow> 'l list option" where
  "find_exact_multiple_match leaf_value ls target =
     (if target = 0 then Some []
      else if ls = [] then None
      else case greedy_exact_match leaf_value ls target of
        Some result \<Rightarrow> Some result
      | None \<Rightarrow>
          let power_of_two_leaves = filter (\<lambda>l. is_power_of_two (leaf_value l)) ls
          in if length power_of_two_leaves = length ls then None
             else greedy_exact_match leaf_value power_of_two_leaves target)"

definition select_leaves_by_exact_amount ::
  "('l \<Rightarrow> u64) \<Rightarrow> 'l list \<Rightarrow> u64 \<Rightarrow> (tree_service_error, 'l list option) rust_result" where
  "select_leaves_by_exact_amount leaf_value ls target =
     (if target = 0 then Inl TSE_InvalidAmount
      else if sum_u64 (map leaf_value ls) < target then Inl TSE_InsufficientFunds
      else case find_exact_single_match leaf_value ls target of
        Some leaf \<Rightarrow> Inr (Some [leaf])
      | None \<Rightarrow>
          (case find_exact_multiple_match leaf_value ls target of
             Some selected \<Rightarrow> Inr (Some selected)
           | None \<Rightarrow> Inr None))"

fun denominations_loop ::
  "('l \<Rightarrow> u64) \<Rightarrow> 'l list \<Rightarrow> 'l list \<Rightarrow> u64 list \<Rightarrow> (tree_service_error, 'l list) rust_result" where
  "denominations_loop leaf_value remaining selected [] = Inr selected"
| "denominations_loop leaf_value remaining selected (d # ds) =
     (case position (\<lambda>l. leaf_value l = d) remaining of
        None \<Rightarrow> Inl TSE_UnselectableAmount
      | Some idx \<Rightarrow>
          (case swap_remove idx remaining of (leaf, remaining') \<Rightarrow>
             denominations_loop leaf_value remaining' (selected @ [leaf]) ds))"

definition select_leaves_by_exact_denominations ::
  "('l \<Rightarrow> u64) \<Rightarrow> 'l list \<Rightarrow> u64 list \<Rightarrow> (tree_service_error, 'l list) rust_result" where
  "select_leaves_by_exact_denominations leaf_value ls denominations =
     denominations_loop leaf_value ls [] denominations"

fun minimum_loop :: "('l \<Rightarrow> u64) \<Rightarrow> u64 \<Rightarrow> u64 \<Rightarrow> 'l list \<Rightarrow> 'l list \<Rightarrow> u64 \<times> 'l list" where
  "minimum_loop leaf_value target s result [] = (s, result)"
| "minimum_loop leaf_value target s result (l # ls) =
     (let s' = add_u64 s (leaf_value l); result' = result @ [l]
      in if s' \<ge> target then (s', result') else minimum_loop leaf_value target s' result' ls)"

definition select_leaves_by_minimum_amount ::
  "('l \<Rightarrow> u64) \<Rightarrow> 'l list \<Rightarrow> u64 \<Rightarrow> (tree_service_error, 'l list option) rust_result" where
  "select_leaves_by_minimum_amount leaf_value ls target =
     (if target = 0 then Inl TSE_InvalidAmount
      else if sum_u64 (map leaf_value ls) < target then Inl TSE_InsufficientFunds
      else case minimum_loop leaf_value target 0 [] ls of
        (s, result) \<Rightarrow> if s < target then Inr None else Inr (Some result))"

definition select_leaves_by_target_amounts ::
  "('l \<Rightarrow> 'i) \<Rightarrow> ('l \<Rightarrow> u64) \<Rightarrow> 'l list \<Rightarrow> target_amounts option
     \<Rightarrow> (tree_service_error, 'l target_leaves) rust_result" where
  "select_leaves_by_target_amounts leaf_id leaf_value ls targets =
     (case targets of
        None \<Rightarrow> Inr \<lparr>amount_leaves = ls, fee_leaves = None\<rparr>
      | Some (AmountAndFee amount fee) \<Rightarrow>
          qbind (select_leaves_by_exact_amount leaf_value ls amount) (\<lambda>r.
          qbind (ok_or r TSE_UnselectableAmount) (\<lambda>amount_ls.
            (case fee of
               None \<Rightarrow> Inr \<lparr>amount_leaves = amount_ls, fee_leaves = None\<rparr>
             | Some f \<Rightarrow>
                 let remaining = filter (\<lambda>l. \<not> (\<exists>a \<in> set amount_ls. leaf_id a = leaf_id l)) ls
                 in qbind (select_leaves_by_exact_amount leaf_value remaining f) (\<lambda>r'.
                    qbind (ok_or r' TSE_UnselectableAmount) (\<lambda>fee_ls.
                      Inr \<lparr>amount_leaves = amount_ls, fee_leaves = Some fee_ls\<rparr>)))))
      | Some (ExactDenominations ds) \<Rightarrow>
          qbind (select_leaves_by_exact_denominations leaf_value ls ds) (\<lambda>selected.
            Inr \<lparr>amount_leaves = selected, fee_leaves = None\<rparr>))"

text \<open>\<open>[amount_leaves, fee_leaves.unwrap_or_default()].concat()\<close>, as every caller uses a selection.\<close>

definition selected_leaves :: "'l target_leaves \<Rightarrow> 'l list" where
  "selected_leaves t = amount_leaves t @ (case fee_leaves t of None \<Rightarrow> [] | Some ls \<Rightarrow> ls)"

subsection \<open>Soundness of the searches\<close>

lemma mset_sort_descending [simp]: "mset (sort_descending f ls) = mset ls"
  by (simp add: sort_descending_def)

lemma greedy_loop_sound:
  assumes "greedy_loop f remaining result ls = Some sel"
  shows "\<exists>picked. sel = result @ picked \<and> mset picked \<subseteq># mset ls
           \<and> sum_list (map f picked) = remaining \<and> picked \<noteq> []"
  using assms
proof (induction f remaining result ls rule: greedy_loop.induct)
  case (2 f remaining result l ls)
  show ?case
  proof (cases "f l > remaining")
    case True
    with 2 obtain picked where "sel = result @ picked" "mset picked \<subseteq># mset ls"
        "sum_list (map f picked) = remaining" "picked \<noteq> []"
      by auto
    then show ?thesis
      by (metis mset.simps(2) subset_mset.order_trans mset_subset_eq_add_mset_cancel
          subset_mset.le_add_same_cancel2 add_mset_add_single mset_subset_eq_add_left)
  next
    case False
    show ?thesis
    proof (cases "remaining - f l = 0")
      case True
      with 2(3) False have "sel = result @ [l]" and "f l = remaining" by auto
      then show ?thesis by (intro exI [of _ "[l]"]) simp
    next
      case more: False
      with 2(2,3) False obtain picked where "sel = (result @ [l]) @ picked"
          "mset picked \<subseteq># mset ls" "sum_list (map f picked) = remaining - f l" "picked \<noteq> []"
        by (auto simp: Let_def)
      with False show ?thesis by (intro exI [of _ "l # picked"]) simp
    qed
  qed
qed simp

lemma greedy_exact_match_sound:
  assumes "greedy_exact_match f ls target = Some sel"
  shows "mset sel \<subseteq># mset ls \<and> sum_list (map f sel) = target"
  using greedy_loop_sound [of f target "[]" "sort_descending f ls" sel] assms
  by (auto simp: greedy_exact_match_def)

lemma find_exact_multiple_match_sound:
  assumes "find_exact_multiple_match f ls target = Some sel"
  shows "mset sel \<subseteq># mset ls \<and> sum_list (map f sel) = target"
proof -
  let ?p2 = "filter (\<lambda>l. is_power_of_two (f l)) ls"
  have sub: "mset ?p2 \<subseteq># mset ls" by (simp add: multiset_filter_subset)
  show ?thesis
  proof (cases "target = 0 \<or> ls = [] \<or> greedy_exact_match f ls target \<noteq> None")
    case True
    with assms greedy_exact_match_sound [of f ls target] show ?thesis
      by (auto simp: find_exact_multiple_match_def split: if_splits)
  next
    case False
    with assms have "greedy_exact_match f ?p2 target = Some sel"
      by (simp add: find_exact_multiple_match_def Let_def split: if_splits)
    from greedy_exact_match_sound [OF this] sub show ?thesis
      by (blast intro: subset_mset.order_trans)
  qed
qed

lemma exact_amount_sound:
  assumes "select_leaves_by_exact_amount f ls target = Inr (Some sel)"
  shows "mset sel \<subseteq># mset ls \<and> sum_list (map f sel) = target \<and> sel \<noteq> []"
proof -
  from assms have pos: "target \<noteq> 0" by (auto simp: select_leaves_by_exact_amount_def split: if_splits)
  from assms consider (single) l where "find (\<lambda>l. f l = target) ls = Some l" "sel = [l]"
    | (multi) "find_exact_multiple_match f ls target = Some sel"
    by (auto simp: select_leaves_by_exact_amount_def find_exact_single_match_def
        split: if_splits option.splits)
  then show ?thesis
  proof cases
    case single
    then show ?thesis by (auto simp: find_Some_iff)
  next
    case multi
    from find_exact_multiple_match_sound [OF this] pos show ?thesis by auto
  qed
qed

lemma denominations_loop_sound:
  assumes "denominations_loop f remaining selected ds = Inr sel"
  shows "\<exists>picked. sel = selected @ picked \<and> mset picked \<subseteq># mset remaining \<and> map f picked = ds"
  using assms
proof (induction f remaining selected ds rule: denominations_loop.induct)
  case (2 f remaining selected d ds)
  then obtain idx where pos: "position (\<lambda>l. f l = d) remaining = Some idx"
    by (auto split: option.splits)
  define leaf where "leaf = fst (swap_remove idx remaining)"
  define rest where "rest = snd (swap_remove idx remaining)"
  have idx: "idx < length remaining" and leaf: "f leaf = d" "leaf = remaining ! idx"
    using position_Some [OF pos] by (auto simp: leaf_def swap_remove_def)
  have ms: "mset remaining = add_mset leaf (mset rest)"
    using mset_swap_remove [OF idx] leaf by (simp add: rest_def)
  from 2 pos have "denominations_loop f rest (selected @ [leaf]) ds = Inr sel"
    by (simp add: leaf_def rest_def split: prod.splits)
  then obtain picked where "sel = (selected @ [leaf]) @ picked" "mset picked \<subseteq># mset rest"
      "map f picked = ds"
    using 2(1) [OF pos, of leaf rest] by (auto simp: leaf_def rest_def)
  with ms leaf show ?case by (intro exI [of _ "leaf # picked"]) simp
qed simp

lemma denominations_loop_complete:
  assumes "mset ds \<subseteq># mset (map f remaining)"
  shows "\<exists>sel. denominations_loop f remaining selected ds = Inr sel"
  using assms
proof (induction f remaining selected ds rule: denominations_loop.induct)
  case (2 f remaining selected d ds)
  from 2(2) have "d \<in># mset (map f remaining)"
    by (metis mset.simps(2) mset_subset_eqD union_single_eq_member add_mset_add_single)
  then have "position (\<lambda>l. f l = d) remaining \<noteq> None"
    by (auto simp: position_None)
  then obtain idx where pos: "position (\<lambda>l. f l = d) remaining = Some idx" by auto
  define leaf where "leaf = fst (swap_remove idx remaining)"
  define rest where "rest = snd (swap_remove idx remaining)"
  have idx: "idx < length remaining" and leaf: "f leaf = d" "leaf = remaining ! idx"
    using position_Some [OF pos] by (auto simp: leaf_def swap_remove_def)
  have "mset (map f remaining) = add_mset d (mset (map f rest))"
    using arg_cong [OF mset_swap_remove [OF idx], of "image_mset f"] leaf by (simp add: rest_def)
  with 2(2) have "mset ds \<subseteq># mset (map f rest)" by simp
  then have "\<exists>sel. denominations_loop f rest (selected @ [leaf]) ds = Inr sel"
    using 2(1) [OF pos, of leaf rest] by (auto simp: leaf_def rest_def)
  with pos show ?case by (auto simp: leaf_def rest_def split: prod.splits)
qed simp

subsection \<open>Completeness of the greedy search on powers of two\<close>

text \<open>In a list of powers of two sorted in descending order every value divides the ones before
  it; this is what makes the greedy choice safe.\<close>

lemma divisor_chain_prefix_sum:
  assumes "sorted_wrt (\<lambda>a b. b dvd a) (vs :: nat list)" and "\<forall>v \<in> set vs. v dvd w"
    and "w \<le> sum_list vs"
  shows "\<exists>k. sum_list (take k vs) = w"
  using assms
proof (induction vs arbitrary: w)
  case (Cons v vs)
  show ?case
  proof (cases "w = 0")
    case False
    with Cons.prems(2) have "v \<le> w" by (simp add: dvd_imp_le)
    have "\<exists>k. sum_list (take k vs) = w - v"
    proof (rule Cons.IH)
      show "sorted_wrt (\<lambda>a b. b dvd a) vs" using Cons.prems(1) by simp
      show "\<forall>u \<in> set vs. u dvd w - v"
        using Cons.prems(1,2) by (auto intro: dvd_diff_nat)
      show "w - v \<le> sum_list vs" using Cons.prems(3) by simp
    qed
    then obtain k where "sum_list (take k vs) = w - v" by blast
    with \<open>v \<le> w\<close> show ?thesis by (intro exI [of _ "Suc k"]) simp
  qed (auto intro: exI [of _ 0])
qed simp

text \<open>If some part of the remaining leaves adds up to the target, so does a part that contains the
  largest leaf fitting the target.\<close>

lemma divisor_chain_dvd:
  fixes f :: "'l \<Rightarrow> nat"
  assumes "sorted_wrt (\<lambda>a b. f b dvd f a) ls" and "\<forall>l \<in> set ls. 0 < f l"
    and "a \<in> set ls" and "b \<in> set ls" and "f b \<le> f a"
  shows "f b dvd f a"
  using assms
proof (induction ls)
  case (Cons l ls)
  show ?case
  proof (cases "b = l")
    case True
    with Cons.prems have "f a dvd f l" "0 < f l" by auto
    then have "f a \<le> f l" by (rule dvd_imp_le)
    with True Cons.prems(5) have "f b = f a" by simp
    then show ?thesis by simp
  qed (use Cons in auto)
qed simp

lemma divisor_chain_sorted:
  fixes f :: "'l \<Rightarrow> nat"
  assumes "sorted_wrt (\<lambda>a b. f b dvd f a) ls" and "\<forall>l \<in> set ls. 0 < f l" and "set sel \<subseteq> set ls"
  shows "sorted_wrt (\<lambda>a b. b dvd a) (map f (sort_descending f sel))"
proof -
  have "sorted (map (\<lambda>x. - int (f x)) (sort_descending f sel))"
    by (simp add: sort_descending_def)
  then have "sorted_wrt (\<lambda>a b. f b \<le> f a) (sort_descending f sel)"
    by (simp add: sorted_map)
  then have "sorted_wrt (\<lambda>a b. f b dvd f a) (sort_descending f sel)"
    by (rule sorted_wrt_mono_rel [rotated])
       (use divisor_chain_dvd [OF assms(1,2)] assms(3) in \<open>auto simp: sort_descending_def\<close>)
  then show ?thesis by (simp add: sorted_wrt_map)
qed

lemma exchange_largest:
  fixes f :: "'l \<Rightarrow> nat"
  assumes chain: "sorted_wrt (\<lambda>a b. f b dvd f a) (l # ls)" and pos: "\<forall>x \<in> set ls. 0 < f x"
    and fits: "f l \<le> r" and sub: "mset sel \<subseteq># mset (l # ls)" and sum: "sum_list (map f sel) = r"
  shows "\<exists>rest. mset rest \<subseteq># mset ls \<and> sum_list (map f rest) = r - f l"
proof (cases "mset sel \<subseteq># mset ls")
  case True
  let ?srt = "sort_descending f sel"
  have srt: "mset ?srt = mset sel" by simp
  from True have sub': "set sel \<subseteq> set ls" using set_mset_mono by fastforce
  have "sorted_wrt (\<lambda>a b. b dvd a) (map f ?srt)"
    using divisor_chain_sorted [OF _ pos sub'] chain by simp
  moreover have "\<forall>v \<in> set (map f ?srt). v dvd f l"
    using chain sub' by (auto simp: sort_descending_def)
  moreover have total: "sum_list (map f ?srt) = r"
    using sum sum_list_mset_cong [OF srt] by simp
  ultimately obtain k where k: "sum_list (take k (map f ?srt)) = f l"
    using divisor_chain_prefix_sum [of "map f ?srt" "f l"] fits by auto
  have "sum_list (map f ?srt) = sum_list (take k (map f ?srt)) + sum_list (drop k (map f ?srt))"
    by (metis append_take_drop_id sum_list_append)
  then have "sum_list (map f (drop k ?srt)) = r - f l"
    using k total by (simp add: drop_map)
  moreover have "mset (drop k ?srt) \<subseteq># mset ls"
    using True srt by (metis append_take_drop_id mset_append mset_subset_eq_add_right subset_mset.order_trans)
  ultimately show ?thesis by blast
next
  case False
  then have "l \<in> set sel"
    using sub subset_mset_not_in by fastforce
  then have sel: "mset sel = add_mset l (mset (remove1 l sel))" by simp
  have "mset (remove1 l sel) \<subseteq># mset ls"
    using sub unfolding sel by simp
  moreover have "sum_list (map f (remove1 l sel)) = r - f l"
    using sum sum_list_map_remove1 [OF \<open>l \<in> set sel\<close>, of f] by simp
  ultimately show ?thesis by blast
qed

lemma greedy_loop_complete:
  assumes "sorted_wrt (\<lambda>a b. f b dvd f a) ls" and "\<forall>l \<in> set ls. 0 < f l" and "0 < r"
    and "mset sel \<subseteq># mset ls" and "sum_list (map f sel) = r"
  shows "\<exists>res. greedy_loop f r acc ls = Some res"
  using assms
proof (induction ls arbitrary: r acc sel)
  case (Cons l ls)
  show ?case
  proof (cases "f l > r")
    case True
    have "l \<notin> set sel"
      using True Cons.prems(5) member_le_sum_list [of "f l" "map f sel"] by auto
    with Cons.prems(4) have "mset sel \<subseteq># mset ls"
      by (simp add: subset_mset_not_in)
    with Cons True show ?thesis by simp
  next
    case False
    then obtain rest where rest: "mset rest \<subseteq># mset ls" "sum_list (map f rest) = r - f l"
      using exchange_largest [OF Cons.prems(1) _ _ Cons.prems(4,5)] Cons.prems(2) by auto
    show ?thesis
    proof (cases "r - f l = 0")
      case True
      with False show ?thesis by (simp add: Let_def)
    next
      case more: False
      have "\<exists>res. greedy_loop f (r - f l) (acc @ [l]) ls = Some res"
        by (rule Cons.IH [OF _ _ _ rest]) (use Cons.prems(1,2) more in auto)
      with False more show ?thesis by (auto simp: Let_def)
    qed
  qed
qed simp

text \<open>A value accepted by \<open>is_power_of_two\<close> really is a power of two, for every \<open>u64\<close>.\<close>

lemma is_power_of_two_iff: "is_power_of_two v \<longleftrightarrow> (\<exists>k. v = 2 ^ k)"
proof
  assume p: "is_power_of_two v"
  show "\<exists>k. v = 2 ^ k"
    using p
  proof (induction v rule: less_induct)
    case (less v)
    show ?case
    proof (cases "even v")
      case True
      then obtain w where w: "v = 2 * w" by blast
      with less.prems have "w > 0" by (simp add: is_power_of_two_def)
      have "v - 1 = 1 + 2 * (w - 1)" using w \<open>w > 0\<close> by simp
      then have "v AND (v - 1) = 2 * (w AND (w - 1))"
        using w and_nat_rec [of v "v - 1"] by simp
      with less.prems \<open>w > 0\<close> w have "is_power_of_two w"
        by (simp add: is_power_of_two_def)
      then obtain k where "w = 2 ^ k" using less.IH [of w] w \<open>w > 0\<close> by auto
      with w show ?thesis by (auto intro: exI [of _ "Suc k"])
    next
      case False
      then obtain w where w: "v = 2 * w + 1" using oddE by blast
      then have "v AND (v - 1) = 2 * w"
        using and_nat_rec [of v "v - 1"] by simp
      with less.prems w show ?thesis by (auto simp: is_power_of_two_def intro: exI [of _ 0])
    qed
  qed
next
  assume "\<exists>k. v = 2 ^ k"
  then obtain k where "v = 2 ^ k" ..
  have "(2 :: nat) ^ k AND (2 ^ k - 1) = take_bit k (2 ^ k)"
    by (simp only: take_bit_eq_mask mask_eq_exp_minus_1)
  then have "(2 :: nat) ^ k AND (2 ^ k - 1) = 0" by (simp add: take_bit_eq_mod)
  with \<open>v = 2 ^ k\<close> show "is_power_of_two v" by (simp add: is_power_of_two_def)
qed

lemma powers_of_two_chain:
  assumes "\<forall>l \<in> set ls. is_power_of_two (f l)"
  shows "sorted_wrt (\<lambda>a b. f b dvd f a) (sort_descending f ls)"
proof -
  have "sorted (map (\<lambda>x. - int (f x)) (sort_descending f ls))"
    by (simp add: sort_descending_def)
  then have "sorted_wrt (\<lambda>a b. f b \<le> f a) (sort_descending f ls)"
    by (simp add: sorted_map)
  then show ?thesis
  proof (rule sorted_wrt_mono_rel [rotated])
    fix a b assume ab: "a \<in> set (sort_descending f ls)" "b \<in> set (sort_descending f ls)" "f b \<le> f a"
    with assms obtain i j where "f a = 2 ^ i" "f b = 2 ^ j"
      by (metis is_power_of_two_iff mset_sort_descending set_mset_mset)
    with \<open>f b \<le> f a\<close> show "f b dvd f a" by (simp add: le_imp_power_dvd)
  qed
qed

lemma greedy_exact_match_complete:
  assumes p2: "\<forall>l \<in> set ls. is_power_of_two (f l)" and "0 < target"
    and sel: "mset sel \<subseteq># mset ls" "sum_list (map f sel) = target"
  shows "\<exists>res. greedy_exact_match f ls target = Some res"
  unfolding greedy_exact_match_def
proof (rule greedy_loop_complete [OF powers_of_two_chain [OF p2] _ \<open>0 < target\<close> _ sel(2)])
  show "\<forall>l \<in> set (sort_descending f ls). 0 < f l"
    using p2 by (simp add: sort_descending_def is_power_of_two_def)
qed (use sel(1) in simp)

subsection \<open>Minimum amounts\<close>

lemma minimum_loop_prefix:
  assumes "minimum_loop f target s result ls = (s', sel)" and "s < target"
    and "s + sum_list (map f ls) < 2 ^ 64" and "target \<le> s + sum_list (map f ls)"
  shows "\<exists>pre l post. ls = pre @ l # post \<and> sel = result @ pre @ [l]
           \<and> s' = s + sum_list (map f pre) + f l \<and> s + sum_list (map f pre) < target \<and> target \<le> s'"
  using assms
proof (induction f target s result ls rule: minimum_loop.induct)
  case (2 f target s result l ls)
  show ?case
  proof (cases "target \<le> s + f l")
    case True
    with 2(2,3,4) show ?thesis
      by (intro exI [of _ "[]"] exI [of _ l] exI [of _ ls]) (auto simp: Let_def)
  next
    case False
    have small: "add_u64 s (f l) = s + f l" using 2(4) by simp
    have run: "minimum_loop f target (s + f l) (result @ [l]) ls = (s', sel)"
      using 2(2) False small by (simp add: Let_def)
    from 2(1) [OF refl refl] run False small 2(4,5) obtain pre l' post where "ls = pre @ l' # post" "sel = (result @ [l]) @ pre @ [l']"
        "s' = s + f l + sum_list (map f pre) + f l'" "s + f l + sum_list (map f pre) < target" "target \<le> s'"
      by (auto simp: Let_def add.assoc)
    then show ?thesis
      by (intro exI [of _ "l # pre"] exI [of _ l'] exI [of _ post]) (auto simp: add_ac)
  qed
qed simp

lemma minimum_amount_spec:
  assumes small: "sum_list (map f ls) < 2 ^ 64" and "0 < target" and "target \<le> sum_list (map f ls)"
  shows "\<exists>pre l post. ls = pre @ l # post
           \<and> select_leaves_by_minimum_amount f ls target = Inr (Some (pre @ [l]))
           \<and> sum_list (map f pre) < target \<and> target \<le> sum_list (map f (pre @ [l]))"
proof -
  obtain s' sel where run: "minimum_loop f target 0 [] ls = (s', sel)" by fastforce
  from minimum_loop_prefix [OF run] assms obtain pre l post where
    *: "ls = pre @ l # post" "sel = pre @ [l]" "s' = sum_list (map f pre) + f l"
      "sum_list (map f pre) < target" "target \<le> s'"
    by auto
  then have "select_leaves_by_minimum_amount f ls target = Inr (Some (pre @ [l]))"
    using assms run by (simp add: select_leaves_by_minimum_amount_def sum_u64_small)
  with * show ?thesis by auto
qed

subsection \<open>Properties\<close>

lemmas select_eval = select_leaves_by_target_amounts_def select_leaves_by_exact_amount_def
  select_leaves_by_exact_denominations_def select_leaves_by_minimum_amount_def
  find_exact_single_match_def find_exact_multiple_match_def greedy_exact_match_def
  sort_descending_def sort_key_def sum_u64_small swap_remove_def

lemma amount_and_fee_disjoint:
  assumes "mset amount_ls \<subseteq># mset ls"
    and "mset fee_ls \<subseteq># mset (filter (\<lambda>l. \<not> (\<exists>a \<in> set amount_ls. lid a = lid l)) ls)"
  shows "mset (amount_ls @ fee_ls) \<subseteq># mset ls"
proof -
  let ?taken = "\<lambda>l. \<exists>a \<in> set amount_ls. lid a = lid l"
  have "filter_mset ?taken (mset amount_ls) \<subseteq># filter_mset ?taken (mset ls)"
    using assms(1) by (rule multiset_filter_mono)
  moreover have "filter_mset ?taken (mset amount_ls) = mset amount_ls"
    by (rule filter_mset_eq_conv [THEN iffD2]) auto
  ultimately have "mset amount_ls \<subseteq># filter_mset ?taken (mset ls)" by simp
  with assms(2) have "mset amount_ls + mset fee_ls
      \<subseteq># filter_mset ?taken (mset ls) + filter_mset (\<lambda>l. \<not> ?taken l) (mset ls)"
    by (intro subset_mset.add_mono) auto
  then show ?thesis by (simp flip: multiset_partition)
qed

lemma target_selection_spec:
  assumes "select_leaves_by_target_amounts lid lv ls (Some t) = Inr tsel"
  shows "mset (selected_leaves tsel) \<subseteq># mset ls \<and>
    (case t of
       AmountAndFee amount None \<Rightarrow> sum_list (map lv (amount_leaves tsel)) = amount \<and> fee_leaves tsel = None
     | AmountAndFee amount (Some fee) \<Rightarrow> sum_list (map lv (amount_leaves tsel)) = amount
         \<and> (\<exists>fl. fee_leaves tsel = Some fl \<and> sum_list (map lv fl) = fee)
     | ExactDenominations ds \<Rightarrow> map lv (amount_leaves tsel) = ds \<and> fee_leaves tsel = None)"
proof (cases t)
  case (AmountAndFee amount fee)
  show ?thesis
  proof (cases fee)
    case None
    with assms AmountAndFee exact_amount_sound [of lv ls amount] show ?thesis
      by (auto simp: select_leaves_by_target_amounts_def selected_leaves_def)
  next
    case (Some f)
    with assms AmountAndFee obtain al fl where
        al: "select_leaves_by_exact_amount lv ls amount = Inr (Some al)"
      and fl: "select_leaves_by_exact_amount lv
          (filter (\<lambda>l. \<not> (\<exists>a \<in> set al. lid a = lid l)) ls) f = Inr (Some fl)"
      and tsel: "tsel = \<lparr>amount_leaves = al, fee_leaves = Some fl\<rparr>"
      by (auto simp: select_leaves_by_target_amounts_def Let_def)
    with AmountAndFee Some exact_amount_sound [OF al] exact_amount_sound [OF fl]
    show ?thesis
      using amount_and_fee_disjoint [of al ls fl lid] by (simp add: selected_leaves_def)
  qed
next
  case (ExactDenominations ds)
  with assms obtain sel where "denominations_loop lv ls [] ds = Inr sel"
      and "tsel = \<lparr>amount_leaves = sel, fee_leaves = None\<rparr>"
    by (auto simp: select_leaves_by_target_amounts_def select_leaves_by_exact_denominations_def)
  with ExactDenominations denominations_loop_sound [of lv ls "[]" ds sel] show ?thesis
    by (auto simp: selected_leaves_def)
qed

lemma target_selection_total:
  assumes "select_leaves_by_target_amounts lid lv ls (Some t) = Inr tsel"
    and "sum_list (map lv ls) < 2 ^ 64"
  shows "mset (selected_leaves tsel) \<subseteq># mset ls"
    and "sum_list (map lv (selected_leaves tsel)) = total_sats t"
proof -
  note spec = target_selection_spec [OF assms(1)]
  then show sub: "mset (selected_leaves tsel) \<subseteq># mset ls" by simp
  have small: "sum_list (map lv (selected_leaves tsel)) < 2 ^ 64"
    using sum_list_mset_mono [OF sub, of lv] assms(2) by simp
  with spec show "sum_list (map lv (selected_leaves tsel)) = total_sats t"
    by (cases t) (auto simp: selected_leaves_def sum_u64_small split: option.splits)
qed

text \<open>\<^bold>\<open>C11\<close>. Whatever targets are requested, a successful selection takes each leaf at most as often as
  the caller owns it (amount and fee leaves are never shared, so no leaf is spent twice), the
  amount leaves add up to exactly the requested amount, the fee leaves to exactly the fee, and
  for exact denominations the values returned are the requested ones in order.\<close>

theorem target_selection_sound:
  assumes "select_leaves_by_target_amounts lid lv ls (Some t) = Inr tsel"
  shows "mset (selected_leaves tsel) \<subseteq># mset ls \<and>
    (case t of
       AmountAndFee amount None \<Rightarrow> sum_list (map lv (amount_leaves tsel)) = amount \<and> fee_leaves tsel = None
     | AmountAndFee amount (Some fee) \<Rightarrow> sum_list (map lv (amount_leaves tsel)) = amount
         \<and> (\<exists>fl. fee_leaves tsel = Some fl \<and> sum_list (map lv fl) = fee)
     | ExactDenominations ds \<Rightarrow> map lv (amount_leaves tsel) = ds \<and> fee_leaves tsel = None)"
  using assms by (rule target_selection_spec)

lemma target_selection_sound_witness:
  "select_leaves_by_target_amounts fst snd [(1 :: nat, 8), (2, 4), (3, 1), (4, 2)]
      (Some (AmountAndFee 9 (Some 2)))
     = Inr \<lparr>amount_leaves = [(1, 8), (3, 1)], fee_leaves = Some [(4, 2)]\<rparr>
   \<and> mset (selected_leaves \<lparr>amount_leaves = [(1 :: nat, 8 :: nat), (3, 1)], fee_leaves = Some [(4, 2)]\<rparr>)
       \<subseteq># mset [(1, 8), (2, 4), (3, 1), (4, 2)]"
proof -
  have run: "select_leaves_by_target_amounts fst snd [(1 :: nat, 8), (2, 4), (3, 1), (4, 2)]
      (Some (AmountAndFee 9 (Some 2)))
     = Inr \<lparr>amount_leaves = [(1, 8), (3, 1)], fee_leaves = Some [(4, 2)]\<rparr>"
    by (simp add: select_eval)
  from target_selection_sound [OF run] run show ?thesis by blast
qed

text \<open>Exact denominations are found whenever the wallet holds them: the request succeeds exactly
  when the requested values are a sub-multiset of the leaf values, and is refused as
  unselectable otherwise.\<close>

theorem exact_denominations_iff:
  "(\<exists>sel. select_leaves_by_exact_denominations lv ls ds = Inr sel) = (mset ds \<subseteq># mset (map lv ls))
   \<and> (\<nexists>sel. select_leaves_by_exact_denominations lv ls ds = Inr sel)
       = (select_leaves_by_exact_denominations lv ls ds = Inl TSE_UnselectableAmount)"
proof
  show "(\<exists>sel. select_leaves_by_exact_denominations lv ls ds = Inr sel) = (mset ds \<subseteq># mset (map lv ls))"
  proof
    assume "\<exists>sel. select_leaves_by_exact_denominations lv ls ds = Inr sel"
    then obtain picked where "mset picked \<subseteq># mset ls" "map lv picked = ds"
      using denominations_loop_sound [of lv ls "[]" ds]
      by (auto simp: select_leaves_by_exact_denominations_def)
    then show "mset ds \<subseteq># mset (map lv ls)"
      by (metis image_mset_subseteq_mono mset_map)
  next
    assume "mset ds \<subseteq># mset (map lv ls)"
    then show "\<exists>sel. select_leaves_by_exact_denominations lv ls ds = Inr sel"
      unfolding select_leaves_by_exact_denominations_def by (rule denominations_loop_complete)
  qed
  have "denominations_loop lv r s ds = Inl e \<Longrightarrow> e = TSE_UnselectableAmount" for r s e
    by (induction lv r s ds rule: denominations_loop.induct) (auto split: option.splits prod.splits)
  then show "(\<nexists>sel. select_leaves_by_exact_denominations lv ls ds = Inr sel)
       = (select_leaves_by_exact_denominations lv ls ds = Inl TSE_UnselectableAmount)"
    unfolding select_leaves_by_exact_denominations_def by (metis Inl_Inr_False sum.exhaust)
qed

text \<open>\<^bold>\<open>C22\<close>. On wallets of power-of-two leaves (the denominations the optimiser produces) the greedy
  search is complete: an exact selection is found if and only if any part of the wallet adds up
  to the target. So a wallet holding the exact change never swaps needlessly.\<close>

theorem exact_amount_complete:
  assumes "\<forall>l \<in> set ls. is_power_of_two (lv l)" and "0 < target"
    and "sum_list (map lv ls) < 2 ^ 64"
  shows "(\<exists>sel. select_leaves_by_exact_amount lv ls target = Inr (Some sel))
     \<longleftrightarrow> (\<exists>sel. mset sel \<subseteq># mset ls \<and> sum_list (map lv sel) = target)"
proof
  assume "\<exists>sel. mset sel \<subseteq># mset ls \<and> sum_list (map lv sel) = target"
  then obtain sel where sel: "mset sel \<subseteq># mset ls" "sum_list (map lv sel) = target" by blast
  have "target \<le> sum_list (map lv ls)" using sel sum_list_mset_mono by metis
  moreover obtain res where "greedy_exact_match lv ls target = Some res"
    using greedy_exact_match_complete [OF assms(1,2) sel] by blast
  moreover have "ls \<noteq> []" using sel assms(2) by auto
  ultimately show "\<exists>sel. select_leaves_by_exact_amount lv ls target = Inr (Some sel)"
    using assms by (auto simp: select_leaves_by_exact_amount_def find_exact_multiple_match_def
        sum_u64_small split: option.splits)
qed (use exact_amount_sound in metis)

lemma exact_amount_complete_witness:
  "\<exists>sel. select_leaves_by_exact_amount snd [(1 :: nat, 8), (2, 4), (3, 4)] 12 = Inr (Some sel)"
proof -
  have "(8 :: nat) = 2 ^ 3" "(4 :: nat) = 2 ^ 2" by simp_all
  then have p2: "is_power_of_two 8" "is_power_of_two 4"
    unfolding is_power_of_two_iff by blast+
  have "mset [(1 :: nat, 8 :: nat), (2, 4)] \<subseteq># mset [(1, 8), (2, 4), (3, 4)]
      \<and> sum_list (map snd [(1 :: nat, 8 :: nat), (2, 4)]) = 12" by simp
  then have ex: "\<exists>sel. mset sel \<subseteq># mset [(1 :: nat, 8 :: nat), (2, 4), (3, 4)]
      \<and> sum_list (map snd sel) = 12" by blast
  show ?thesis
    by (rule exact_amount_complete [THEN iffD2, OF _ _ _ ex]) (use p2 in auto)
qed

text \<open>When the wallet covers the target, selecting a minimum amount always succeeds, takes the
  leaves in order, covers the target, and stops at the first leaf that does: without its last
  leaf the selection would fall short.\<close>

theorem minimum_selection_covers:
  assumes "sum_list (map lv ls) < 2 ^ 64" and "0 < target" and "target \<le> sum_list (map lv ls)"
  shows "\<exists>pre l post. ls = pre @ l # post
     \<and> select_leaves_by_minimum_amount lv ls target = Inr (Some (pre @ [l]))
     \<and> sum_list (map lv pre) < target \<and> target \<le> sum_list (map lv (pre @ [l]))"
  using assms by (rule minimum_amount_spec)

lemma minimum_selection_covers_witness:
  "\<exists>pre l post. [(1 :: nat, 5), (2, 7), (3, 9)] = pre @ l # post
     \<and> select_leaves_by_minimum_amount snd [(1 :: nat, 5), (2, 7), (3, 9)] 11 = Inr (Some (pre @ [l]))
     \<and> sum_list (map snd pre) < 11 \<and> 11 \<le> sum_list (map snd (pre @ [l]))"
  by (rule minimum_selection_covers) simp_all

end
