(* ===== verification/Exit_Chain.thy ===== *)
theory Exit_Chain
  imports Tree_Model
begin

text \<open>
  Exit chains: \<^verbatim>\<open>crates/spark/src/tree/chain.rs\<close>.

  A chain is the path of nodes from a leaf up to a root. Parent ids come from the operators and
  are only half trusted, so both walks stop at a cycle. \<open>chain_path\<close> is the reference notion of a
  complete path; the walks are shown to agree with it.
\<close>

subsection \<open>Definitions\<close>

type_synonym node_map = "(tree_node_id, tree_node) hash_map"

lemma visited_measure:
  assumes "map_of m i = Some n" and "i \<notin> set visited"
  shows "card (fst ` set m - set (i # visited)) < card (fst ` set m - set visited)"
proof (rule psubset_card_mono)
  have "i \<in> fst ` set m" using assms(1) by (force dest: map_of_SomeD)
  with assms(2) show "fst ` set m - set (i # visited) \<subset> fst ` set m - set visited" by auto
qed simp

function walk_loop ::
  "node_map \<Rightarrow> tree_node_id list \<Rightarrow> tree_node_id option \<Rightarrow> tree_node list \<Rightarrow> tree_node list" where
  "walk_loop nodes visited None ancestors = ancestors"
| "walk_loop nodes visited (Some i) ancestors =
     (if i \<in> set visited then ancestors
      else case map_of nodes i of
        None \<Rightarrow> ancestors
      | Some node \<Rightarrow>
          walk_loop nodes (i # visited) (tn_parent_node_id node) (ancestors @ [node]))"
  by pat_completeness auto
termination
  by (relation "measure (\<lambda>(m, visited, _, _). card (fst ` set m - set visited))")
     (auto simp: visited_measure [simplified])

declare walk_loop.simps(2) [simp del]

definition walk_ancestors :: "tree_node \<Rightarrow> node_map \<Rightarrow> tree_node list" where
  "walk_ancestors leaf nodes = walk_loop nodes [] (tn_parent_node_id leaf) []"

definition chain_backs_exit :: "tree_node \<Rightarrow> tree_node list \<Rightarrow> bool" where
  "chain_backs_exit leaf ancestors =
     (case tn_parent_node_id leaf of
        None \<Rightarrow> True
      | Some parent_id \<Rightarrow> (\<exists>node \<in> set ancestors. tn_id node = parent_id))"

text \<open>Collecting pairs into a map keeps the last value of a key.\<close>

definition by_id :: "tree_node list \<Rightarrow> node_map" where
  "by_id ns = fold (\<lambda>n m. hm_insert (tn_id n) n m) ns []"

function reaches_loop :: "node_map \<Rightarrow> tree_node_id list \<Rightarrow> tree_node_id option \<Rightarrow> bool" where
  "reaches_loop m visited None = True"
| "reaches_loop m visited (Some i) =
     (case map_of m i of
        None \<Rightarrow> False
      | Some node \<Rightarrow>
          if i \<in> set visited then False
          else reaches_loop m (i # visited) (tn_parent_node_id node))"
  by pat_completeness auto
termination
  by (relation "measure (\<lambda>(m, visited, _). card (fst ` set m - set visited))")
     (auto simp: visited_measure [simplified])

declare reaches_loop.simps(2) [simp del]

definition chain_reaches_root :: "tree_node \<Rightarrow> tree_node list \<Rightarrow> bool" where
  "chain_reaches_root leaf ancestors =
     (case tn_parent_node_id leaf of
        None \<Rightarrow> True
      | Some parent_id \<Rightarrow> reaches_loop (by_id ancestors) [] (Some parent_id))"

definition assemble_exit_chains :: "node_map \<Rightarrow> tree_node_id list \<Rightarrow> leaf_pedigree list" where
  "assemble_exit_chains nodes ids =
     List.map_filter (\<lambda>i. case map_of nodes i of
        None \<Rightarrow> None
      | Some leaf \<Rightarrow> Some \<lparr>lp_leaf = leaf, lp_ancestors = walk_ancestors leaf nodes\<rparr>) ids"

subsection \<open>Reference paths\<close>

inductive chain_path :: "node_map \<Rightarrow> tree_node_id \<Rightarrow> tree_node list \<Rightarrow> bool" for m where
  chain_root: "map_of m i = Some n \<Longrightarrow> tn_parent_node_id n = None \<Longrightarrow> chain_path m i [n]"
| chain_step: "map_of m i = Some n \<Longrightarrow> tn_parent_node_id n = Some p \<Longrightarrow> chain_path m p ns
     \<Longrightarrow> chain_path m i (n # ns)"

inductive_cases chain_path_ConsE: "chain_path m i (n # ns)"

definition ids_match :: "node_map \<Rightarrow> bool" where
  "ids_match m = (\<forall>i n. map_of m i = Some n \<longrightarrow> tn_id n = i)"

lemma by_id_fold:
  assumes "map_of (fold (\<lambda>n m. hm_insert (tn_id n) n m) ns m) i = Some n"
  shows "n \<in> set ns \<and> tn_id n = i \<or> map_of m i = Some n"
  using assms
proof (induction ns arbitrary: m)
  case (Cons x ns)
  have "n \<in> set ns \<and> tn_id n = i \<or> map_of (hm_insert (tn_id x) x m) i = Some n"
    using Cons.prems by (intro Cons.IH) simp
  then show ?case by (auto simp: update_conv' split: if_splits)
qed simp

lemma by_id_set: "map_of (by_id ns) i = Some n \<Longrightarrow> n \<in> set ns"
  unfolding by_id_def by (drule by_id_fold) simp

lemma ids_match_by_id: "ids_match (by_id ns)"
  unfolding by_id_def ids_match_def by (blast dest: by_id_fold [where m = "[]", simplified])

lemma chain_path_det: "chain_path m i ns \<Longrightarrow> chain_path m i ns' \<Longrightarrow> ns = ns'"
proof (induction arbitrary: ns' rule: chain_path.induct)
  case (chain_root i n)
  from chain_root.prems chain_root.hyps show ?case by cases auto
next
  case (chain_step i n p ns)
  from chain_step.prems show ?case
  proof cases
    case (chain_step n' p' ns'')
    with chain_step.hyps \<open>map_of m i = Some n\<close> \<open>tn_parent_node_id n = Some p\<close> have "n' = n" "p' = p"
      by simp_all
    with chain_step show ?thesis using \<open>\<And>ns'. chain_path m p ns' \<Longrightarrow> ns = ns'\<close> by simp
  qed (use chain_step.hyps in simp)
qed

lemma chain_path_suffix:
  assumes "chain_path m i ns" and "ids_match m" and "n \<in> set ns"
  shows "\<exists>suf. chain_path m (tn_id n) suf \<and> length suf \<le> length ns"
  using assms
proof (induction rule: chain_path.induct)
  case (chain_root i n')
  then have "chain_path m (tn_id n) [n]" by (auto simp: ids_match_def intro: chain_path.chain_root)
  then show ?case by (intro exI [of _ "[n]"]) simp
next
  case (chain_step i n' p ns)
  show ?case
  proof (cases "n = n'")
    case True
    from chain_step.hyps(1) chain_step.prems(1) have "tn_id n' = i" by (simp add: ids_match_def)
    with True chain_path.chain_step [OF chain_step.hyps(1-3)] show ?thesis by auto
  next
    case False
    with chain_step.prems chain_step.IH show ?thesis by (auto intro: le_SucI)
  qed
qed

lemma chain_path_distinct:
  assumes "chain_path m i ns" and "ids_match m"
  shows "distinct (map tn_id ns)"
  using assms
proof (induction rule: chain_path.induct)
  case (chain_step i n p ns)
  note full = chain_path.chain_step [OF chain_step.hyps(1-3)]
  have i: "tn_id n = i" using chain_step.hyps(1) chain_step.prems by (simp add: ids_match_def)
  have "tn_id n \<notin> tn_id ` set ns"
  proof
    assume "tn_id n \<in> tn_id ` set ns"
    then obtain n' where n': "n' \<in> set ns" "tn_id n' = i" using i by auto
    from chain_path_suffix [OF chain_step.hyps(3) chain_step.prems n'(1)] n'(2)
    obtain suf where suf: "chain_path m i suf" "length suf \<le> length ns" by auto
    from chain_path_det [OF full suf(1)] suf(2) show False by auto
  qed
  with chain_step show ?case by simp
qed simp

lemma reaches_loop_path:
  assumes "reaches_loop m visited (Some i)"
  shows "\<exists>ns. chain_path m i ns"
  using assms
proof (induction m visited "Some i" arbitrary: i rule: reaches_loop.induct)
  case (2 m visited i)
  from 2(2) obtain n where n: "map_of m i = Some n" "i \<notin> set visited"
      "reaches_loop m (i # visited) (tn_parent_node_id n)"
    by (auto simp: reaches_loop.simps(2) [of m visited i] split: option.splits if_splits)
  show ?case
  proof (cases "tn_parent_node_id n")
    case None
    with n show ?thesis by (auto intro: chain_path.chain_root)
  next
    case (Some p)
    with 2(1) [OF n(1,2) Some] n(3) obtain ns where "chain_path m p ns" by auto
    with n(1) Some show ?thesis by (auto intro: chain_path.chain_step)
  qed
qed

lemma path_reaches_loop:
  assumes "chain_path m i ns" and "ids_match m" and "set visited \<inter> tn_id ` set ns = {}"
  shows "reaches_loop m visited (Some i)"
  using assms
proof (induction arbitrary: visited rule: chain_path.induct)
  case (chain_root i n)
  then have "tn_id n = i" by (simp add: ids_match_def)
  with chain_root show ?case by (simp add: reaches_loop.simps(2))
next
  case (chain_step i n p ns)
  then have i: "tn_id n = i" by (simp add: ids_match_def)
  have "tn_id n \<notin> tn_id ` set ns"
    using chain_path_distinct [OF chain_path.chain_step [OF chain_step.hyps(1-3)] chain_step.prems(1)]
    by simp
  with chain_step.prems i have "reaches_loop m (i # visited) (Some p)"
    by (intro chain_step.IH) auto
  with chain_step.hyps chain_step.prems i show ?case
    by (simp add: reaches_loop.simps(2) [of m visited i])
qed

lemma path_walk_loop:
  assumes "chain_path m i ns" and "ids_match m" and "set visited \<inter> tn_id ` set ns = {}"
  shows "walk_loop m visited (Some i) acc = acc @ ns"
  using assms
proof (induction arbitrary: visited acc rule: chain_path.induct)
  case (chain_root i n)
  then have "tn_id n = i" by (simp add: ids_match_def)
  with chain_root show ?case by (simp add: walk_loop.simps(2))
next
  case (chain_step i n p ns)
  then have i: "tn_id n = i" by (simp add: ids_match_def)
  have "tn_id n \<notin> tn_id ` set ns"
    using chain_path_distinct [OF chain_path.chain_step [OF chain_step.hyps(1-3)] chain_step.prems(1)]
    by simp
  with chain_step.prems i have "walk_loop m (i # visited) (Some p) (acc @ [n]) = (acc @ [n]) @ ns"
    by (intro chain_step.IH) auto
  with chain_step.hyps chain_step.prems i show ?case
    by (simp add: walk_loop.simps(2) [of m visited i])
qed

lemma chain_path_in_map: "chain_path m i ns \<Longrightarrow> n \<in> set ns \<Longrightarrow> \<exists>k. map_of m k = Some n"
  by (induction rule: chain_path.induct) auto

lemma chain_path_transfer:
  assumes "chain_path m i ns" and "ids_match m"
    and "\<And>k. k \<in> tn_id ` set ns \<Longrightarrow> map_of m' k = map_of m k"
  shows "chain_path m' i ns"
  using assms
proof (induction rule: chain_path.induct)
  case (chain_root i n)
  then have "tn_id n = i" by (simp add: ids_match_def)
  with chain_root show ?case by (intro chain_path.chain_root) auto
next
  case (chain_step i n p ns)
  then have "tn_id n = i" by (simp add: ids_match_def)
  with chain_step show ?case by (intro chain_path.chain_step [of m' i n p ns]) auto
qed

text \<open>The ids a walk collects, whatever the map holds: no node twice.\<close>

lemma walk_loop_distinct:
  assumes "ids_match m" and "distinct (map tn_id acc)" and "set (map tn_id acc) \<subseteq> set visited"
  shows "distinct (map tn_id (walk_loop m visited c acc))"
  using assms
proof (induction m visited c acc rule: walk_loop.induct)
  case (2 m visited i acc)
  show ?case
  proof (cases "i \<in> set visited \<or> map_of m i = None")
    case False
    then obtain n where n: "map_of m i = Some n" "i \<notin> set visited" by auto
    with 2(2) have "tn_id n = i" by (simp add: ids_match_def)
    with 2(1) [OF n(2,1)] 2(2-4) n show ?thesis
      by (auto simp: walk_loop.simps(2) [of m visited i])
  qed (use 2(3) in \<open>auto simp: walk_loop.simps(2) [of m visited i] split: option.splits\<close>)
qed simp

subsection \<open>Properties\<close>

lemma complete_chain_backs_exit:
  assumes "chain_reaches_root leaf ancestors"
  shows "chain_backs_exit leaf ancestors"
proof (cases "tn_parent_node_id leaf")
  case (Some p)
  with assms obtain n where n: "map_of (by_id ancestors) p = Some n"
    by (auto simp: chain_reaches_root_def reaches_loop.simps(2) split: option.splits)
  then have "n \<in> set ancestors" "tn_id n = p"
    using by_id_set [OF n] ids_match_by_id [of ancestors] by (auto simp: ids_match_def)
  with Some show ?thesis by (auto simp: chain_backs_exit_def)
qed (simp add: chain_backs_exit_def)

text \<open>The test a chain passes before it is stored is exact: \<open>chain_reaches_root\<close> accepts a
  set of ancestors if and only if they contain a complete path from the parent of the leaf up to
  a node without parent. No input, cyclic parent ids included, makes the test run forever.\<close>

theorem chain_reaches_root_iff:
  "chain_reaches_root leaf ancestors \<longleftrightarrow>
     (case tn_parent_node_id leaf of None \<Rightarrow> True | Some p \<Rightarrow> \<exists>ns. chain_path (by_id ancestors) p ns)"
proof (cases "tn_parent_node_id leaf")
  case (Some p)
  have "chain_reaches_root leaf ancestors \<longleftrightarrow> (\<exists>ns. chain_path (by_id ancestors) p ns)"
    using reaches_loop_path [of "by_id ancestors" "[]" p]
      path_reaches_loop [OF _ ids_match_by_id, of _ p _ "[]"]
    by (auto simp: chain_reaches_root_def Some)
  with Some show ?thesis by simp
qed (simp add: chain_reaches_root_def)

end
