(* ===== verification/Tree_Store.thy ===== *)
theory Tree_Store
  imports Leaf_Select Exit_Chain
begin

text \<open>
  The in-memory leaf store: \<^verbatim>\<open>crates/spark/src/tree/store.rs\<close>.

  The state is the record \<open>LeavesState\<close>; each \<^verbatim>\<open>process_*\<close> function of the processor task is a
  function from the state to a response and a new state. A reading of the clock and a freshly
  generated reservation id are arguments of the handlers that use them. A semaphore permit is a
  token; a permit that no reservation entry keeps is dropped, which releases its slot.

  The invariant \<open>store_inv\<close> says that every leaf id is held exactly once in the whole store (in
  the pool or in one reservation), and that the pool is indexed by the id of the leaf it holds.
\<close>

subsection \<open>State\<close>

type_synonym permit = nat

record stored_leaf =
  sl_node :: tree_node
  sl_added_at :: system_time
  sl_missing_from_operators :: bool

definition from_node :: "tree_node \<Rightarrow> system_time \<Rightarrow> stored_leaf" where
  "from_node n t = \<lparr>sl_node = n, sl_added_at = t, sl_missing_from_operators = False\<rparr>"

definition from_node_missing :: "tree_node \<Rightarrow> system_time \<Rightarrow> stored_leaf" where
  "from_node_missing n t = \<lparr>sl_node = n, sl_added_at = t, sl_missing_from_operators = True\<rparr>"

record reservation_entry =
  re_leaves :: "stored_leaf list"
  re_purpose :: reservation_purpose
  re_permit :: permit
  re_pending_change_amount :: u64

record leaves_state =
  ls_leaves :: "(tree_node_id, stored_leaf) hash_map"
  ls_ancestors :: "(tree_node_id, tree_node list) hash_map"
  ls_leaves_reservations :: "(leaves_reservation_id, reservation_entry) hash_map"
  ls_spent_leaf_ids :: "(tree_node_id, system_time) hash_map"
  ls_last_swap_completed_at :: "system_time option"

definition leaves_state_default :: leaves_state where
  "leaves_state_default = \<lparr>ls_leaves = [], ls_ancestors = [], ls_leaves_reservations = [],
     ls_spent_leaf_ids = [], ls_last_swap_completed_at = None\<rparr>"

abbreviation sl_id :: "stored_leaf \<Rightarrow> tree_node_id" where
  "sl_id sl \<equiv> tn_id (sl_node sl)"

definition selectable :: "stored_leaf \<Rightarrow> bool" where
  "selectable sl = (tn_status (sl_node sl) = Available \<and> \<not> sl_missing_from_operators sl)"

definition selectable_leaves :: "leaves_state \<Rightarrow> stored_leaf list" where
  "selectable_leaves s = filter selectable (hm_values (ls_leaves s))"

definition available_balance :: "leaves_state \<Rightarrow> u64" where
  "available_balance s = sum_u64 (map (\<lambda>sl. tn_value (sl_node sl)) (selectable_leaves s))"

definition pending_balance :: "leaves_state \<Rightarrow> u64" where
  "pending_balance s = sum_u64 (map re_pending_change_amount (hm_values (ls_leaves_reservations s)))"

subsection \<open>Adding and listing leaves\<close>

fun update_first :: "('a \<Rightarrow> bool) \<Rightarrow> ('a \<Rightarrow> 'a) \<Rightarrow> 'a list \<Rightarrow> 'a list option" where
  "update_first P f [] = None"
| "update_first P f (x # xs) =
     (if P x then Some (f x # xs) else map_option ((#) x) (update_first P f xs))"

fun update_in_reservations ::
  "tree_node \<Rightarrow> (leaves_reservation_id, reservation_entry) hash_map
     \<Rightarrow> (leaves_reservation_id, reservation_entry) hash_map option" where
  "update_in_reservations leaf [] = None"
| "update_in_reservations leaf ((res_id, entry) # rs) =
     (case update_first (\<lambda>sl. sl_id sl = tn_id leaf) (\<lambda>sl. sl\<lparr>sl_node := leaf\<rparr>) (re_leaves entry) of
        Some ls \<Rightarrow> Some ((res_id, entry\<lparr>re_leaves := ls\<rparr>) # rs)
      | None \<Rightarrow> map_option ((#) (res_id, entry)) (update_in_reservations leaf rs))"

definition add_leaf :: "system_time \<Rightarrow> tree_node \<Rightarrow> leaves_state \<Rightarrow> leaves_state" where
  "add_leaf now leaf s =
     (case update_in_reservations leaf (ls_leaves_reservations s) of
        Some rs \<Rightarrow> s\<lparr>ls_leaves_reservations := rs\<rparr>
      | None \<Rightarrow> s\<lparr>ls_spent_leaf_ids := hm_remove (tn_id leaf) (ls_spent_leaf_ids s),
                  ls_leaves := hm_insert (tn_id leaf) (from_node leaf now) (ls_leaves s)\<rparr>)"

definition process_add_leaves ::
  "system_time \<Rightarrow> tree_node list \<Rightarrow> leaves_state \<Rightarrow> (tree_service_error, unit) rust_result \<times> leaves_state" where
  "process_add_leaves now ls s = (Inr (), fold (add_leaf now) ls s)"

definition entry_nodes :: "reservation_entry \<Rightarrow> tree_node list" where
  "entry_nodes e = map sl_node (re_leaves e)"

definition process_get_leaves :: "leaves_state \<Rightarrow> (tree_service_error, leaves) rust_result" where
  "process_get_leaves s =
     (let reserved = hm_values (ls_leaves_reservations s);
          pool = hm_values (ls_leaves s);
          is_available = (\<lambda>sl. tn_status (sl_node sl) = Available)
      in Inr \<lparr>
        lv_available = map sl_node
          (filter (\<lambda>sl. is_available sl \<and> \<not> sl_missing_from_operators sl) pool),
        lv_not_available = map sl_node (filter (\<lambda>sl. \<not> is_available sl) pool),
        lv_available_missing_from_operators = map sl_node
          (filter (\<lambda>sl. is_available sl \<and> sl_missing_from_operators sl) pool),
        lv_reserved_for_payment =
          concat (map entry_nodes (filter (\<lambda>e. re_purpose e = Payment) reserved)),
        lv_reserved_for_swap =
          concat (map entry_nodes (filter (\<lambda>e. re_purpose e = Swap) reserved))\<rparr>)"

subsection \<open>Exit chains\<close>

definition upsert_ancestors ::
  "tree_node_id \<Rightarrow> tree_node list \<Rightarrow> leaves_state \<Rightarrow> leaves_state" where
  "upsert_ancestors leaf_id nodes s =
     (if nodes = [] then s else s\<lparr>ls_ancestors := hm_insert leaf_id nodes (ls_ancestors s)\<rparr>)"

text \<open>\<open>find_map\<close> over the reservations: the first entry that holds the leaf.\<close>

fun find_reserved_leaf ::
  "tree_node_id \<Rightarrow> reservation_entry list \<Rightarrow> tree_node option" where
  "find_reserved_leaf i [] = None"
| "find_reserved_leaf i (e # es) =
     (case find (\<lambda>sl. sl_id sl = i) (re_leaves e) of
        Some sl \<Rightarrow> Some (sl_node sl)
      | None \<Rightarrow> find_reserved_leaf i es)"

definition find_stored_leaf :: "leaves_state \<Rightarrow> tree_node_id \<Rightarrow> tree_node option" where
  "find_stored_leaf s i =
     (case map_of (ls_leaves s) i of
        Some sl \<Rightarrow> Some (sl_node sl)
      | None \<Rightarrow> find_reserved_leaf i (hm_values (ls_leaves_reservations s)))"

definition stored_nodes :: "leaves_state \<Rightarrow> tree_node list" where
  "stored_nodes s = map sl_node (hm_values (ls_leaves s))
     @ concat (map entry_nodes (hm_values (ls_leaves_reservations s)))"

definition process_leaves_missing_exit_chains :: "leaves_state \<Rightarrow> tree_node_id list" where
  "process_leaves_missing_exit_chains s =
     map tn_id (filter (\<lambda>leaf.
         \<not> chain_backs_exit leaf (case map_of (ls_ancestors s) (tn_id leaf) of None \<Rightarrow> [] | Some ns \<Rightarrow> ns))
       (stored_nodes s))"

definition leaf_exit_chain :: "leaves_state \<Rightarrow> tree_node_id \<Rightarrow> leaf_pedigree list" where
  "leaf_exit_chain s leaf_id =
     (case find_stored_leaf s leaf_id of
        None \<Rightarrow> []
      | Some leaf \<Rightarrow>
          let nodes = by_id (case map_of (ls_ancestors s) leaf_id of None \<Rightarrow> [] | Some ns \<Rightarrow> ns)
          in assemble_exit_chains (hm_insert (tn_id leaf) leaf nodes) [leaf_id])"

definition process_get_exit_chains ::
  "leaves_state \<Rightarrow> tree_node_id list \<Rightarrow> (tree_service_error, leaf_pedigree list) rust_result" where
  "process_get_exit_chains s ids = Inr (concat (map (leaf_exit_chain s) ids))"

definition store_pedigree :: "leaf_pedigree \<Rightarrow> leaves_state \<Rightarrow> leaves_state" where
  "store_pedigree p s =
     (if find_stored_leaf s (tn_id (lp_leaf p)) = None then s
      else upsert_ancestors (tn_id (lp_leaf p)) (lp_ancestors p) s)"

definition process_store_ancestors ::
  "leaf_pedigree list \<Rightarrow> leaves_state \<Rightarrow> (tree_service_error, unit) rust_result \<times> leaves_state" where
  "process_store_ancestors ps s = (Inr (), fold store_pedigree ps s)"

subsection \<open>Refresh\<close>

definition has_active_swap :: "leaves_state \<Rightarrow> bool" where
  "has_active_swap s = (\<exists>e \<in> set (hm_values (ls_leaves_reservations s)). re_purpose e = Swap)"

definition swap_completed_during_refresh :: "leaves_state \<Rightarrow> system_time \<Rightarrow> bool" where
  "swap_completed_during_refresh s started =
     (case ls_last_swap_completed_at s of None \<Rightarrow> False | Some t \<Rightarrow> t \<ge> started)"

definition insert_unspent ::
  "(tree_node_id, system_time) hash_map \<Rightarrow> (tree_node \<Rightarrow> stored_leaf) \<Rightarrow> tree_node
     \<Rightarrow> (tree_node_id, stored_leaf) hash_map \<Rightarrow> (tree_node_id, stored_leaf) hash_map" where
  "insert_unspent spent mk leaf pool =
     (if hm_contains (tn_id leaf) spent then pool else hm_insert (tn_id leaf) (mk leaf) pool)"

definition preserve_recent ::
  "system_time \<Rightarrow> tree_node_id \<times> stored_leaf \<Rightarrow> (tree_node_id, stored_leaf) hash_map
     \<Rightarrow> (tree_node_id, stored_leaf) hash_map" where
  "preserve_recent started kv pool =
     (if sl_added_at (snd kv) \<ge> started \<and> \<not> hm_contains (fst kv) pool
      then hm_insert (fst kv) (snd kv) pool else pool)"

fun refresh_entry ::
  "(tree_node_id, stored_leaf) hash_map \<Rightarrow> stored_leaf list
     \<Rightarrow> (tree_node_id, stored_leaf) hash_map \<times> stored_leaf list" where
  "refresh_entry pool [] = (pool, [])"
| "refresh_entry pool (sl # sls) =
     (case map_of pool (sl_id sl) of
        Some fresh \<Rightarrow>
          (case refresh_entry (hm_remove (sl_id sl) pool) sls of (pool', sls') \<Rightarrow> (pool', fresh # sls'))
      | None \<Rightarrow> (case refresh_entry pool sls of (pool', sls') \<Rightarrow> (pool', sl # sls')))"

fun refresh_reservations ::
  "(tree_node_id, stored_leaf) hash_map \<Rightarrow> (leaves_reservation_id, reservation_entry) hash_map
     \<Rightarrow> (tree_node_id, stored_leaf) hash_map \<times> (leaves_reservation_id, reservation_entry) hash_map" where
  "refresh_reservations pool [] = (pool, [])"
| "refresh_reservations pool ((rid, e) # rs) =
     (case refresh_entry pool (re_leaves e) of (pool', sls) \<Rightarrow>
        (case refresh_reservations pool' rs of (pool'', rs') \<Rightarrow>
           (pool'', (rid, e\<lparr>re_leaves := sls\<rparr>) # rs')))"

definition drop_chains ::
  "tree_node_id list \<Rightarrow> (tree_node_id, tree_node list) hash_map \<Rightarrow> (tree_node_id, tree_node list) hash_map" where
  "drop_chains ids m = fold hm_remove ids m"

text \<open>The pool a refresh builds before the reserved leaves are taken out of it.\<close>

definition refreshed_pool ::
  "system_time \<Rightarrow> tree_node list \<Rightarrow> tree_node list \<Rightarrow> system_time
     \<Rightarrow> (tree_node_id, system_time) hash_map \<Rightarrow> (tree_node_id, stored_leaf) hash_map
     \<Rightarrow> (tree_node_id, stored_leaf) hash_map" where
  "refreshed_pool now ls missing started spent old =
     (let pool1 = fold (insert_unspent spent (\<lambda>l. from_node l now)) ls [];
          pool2 = fold (insert_unspent spent (\<lambda>l. from_node_missing l now)) missing pool1
      in fold (preserve_recent started) old pool2)"

definition process_set_leaves ::
  "system_time \<Rightarrow> tree_node list \<Rightarrow> tree_node list \<Rightarrow> system_time \<Rightarrow> leaves_state
     \<Rightarrow> (tree_service_error, unit) rust_result \<times> leaves_state" where
  "process_set_leaves now ls missing started s =
     (if has_active_swap s \<or> swap_completed_during_refresh s started then (Inr (), s)
      else
        let spent = hm_retain (\<lambda>_ spent_at. spent_at \<ge> started) (ls_spent_leaf_ids s);
            old = ls_leaves s
        in (case refresh_reservations (refreshed_pool now ls missing started spent old)
                   (ls_leaves_reservations s) of
              (pool, rs) \<Rightarrow>
                (Inr (), s\<lparr>ls_leaves := pool,
                   ls_ancestors := drop_chains (filter (\<lambda>i. \<not> hm_contains i pool) (hm_keys old))
                                     (ls_ancestors s),
                   ls_leaves_reservations := rs,
                   ls_spent_leaf_ids := spent\<rparr>)))"

subsection \<open>Reserving\<close>

fun take_leaves ::
  "tree_node list \<Rightarrow> (tree_node_id, stored_leaf) hash_map
     \<Rightarrow> (tree_node_id, stored_leaf) hash_map \<times> stored_leaf list" where
  "take_leaves [] pool = (pool, [])"
| "take_leaves (l # ls) pool =
     (case map_of pool (tn_id l) of
        Some sl \<Rightarrow>
          (case take_leaves ls (hm_remove (tn_id l) pool) of (pool', sls) \<Rightarrow> (pool', sl # sls))
      | None \<Rightarrow> take_leaves ls pool)"

definition reserve_internal ::
  "leaves_reservation_id \<Rightarrow> tree_node list \<Rightarrow> reservation_purpose \<Rightarrow> permit \<Rightarrow> u64 \<Rightarrow> leaves_state
     \<Rightarrow> (tree_service_error, leaves_reservation_id) rust_result \<times> leaves_state" where
  "reserve_internal uuid ls purpose permit pending s =
     (if ls = [] then (Inl TSE_NonReservableLeaves, s)
      else if \<exists>l \<in> set ls. \<not> hm_contains (tn_id l) (ls_leaves s)
      then (Inl TSE_NonReservableLeaves, s)
      else case take_leaves ls (ls_leaves s) of (pool, taken) \<Rightarrow>
        (Inr uuid, s\<lparr>ls_leaves := pool,
           ls_leaves_reservations := hm_insert uuid
             \<lparr>re_leaves = taken, re_purpose = purpose, re_permit = permit,
              re_pending_change_amount = pending\<rparr> (ls_leaves_reservations s)\<rparr>))"

definition wait_or_insufficient :: "leaves_state \<Rightarrow> u64 \<Rightarrow> reserve_result" where
  "wait_or_insufficient s target =
     (if add_u64 (available_balance s) (pending_balance s) \<ge> target
      then RR_WaitForPending target (available_balance s) (pending_balance s)
      else RR_InsufficientFunds)"

definition reserve_selected ::
  "leaves_reservation_id \<Rightarrow> tree_node list \<Rightarrow> reservation_purpose \<Rightarrow> permit \<Rightarrow> u64 \<Rightarrow> leaves_state
     \<Rightarrow> (tree_service_error, reserve_result) rust_result \<times> leaves_state" where
  "reserve_selected uuid sel purpose permit pending s =
     (case reserve_internal uuid sel purpose permit pending s of
        (Inl e, s') \<Rightarrow> (Inl e, s')
      | (Inr i, s') \<Rightarrow> (Inr (RR_Success \<lparr>lr_id = i, lr_leaves = sel\<rparr>), s'))"

definition process_try_reserve_leaves ::
  "leaves_reservation_id \<Rightarrow> target_amounts option \<Rightarrow> bool \<Rightarrow> reservation_purpose \<Rightarrow> permit \<Rightarrow> leaves_state
     \<Rightarrow> (tree_service_error, reserve_result) rust_result \<times> leaves_state" where
  "process_try_reserve_leaves uuid targets exact_only purpose permit s =
     (let target = (case targets of None \<Rightarrow> 0 | Some ta \<Rightarrow> total_sats ta);
          ls = map sl_node (selectable_leaves s)
      in case select_leaves_by_target_amounts tn_id tn_value ls targets of
           Inr tls \<Rightarrow> reserve_selected uuid (selected_leaves tls) purpose permit 0 s
         | Inl _ \<Rightarrow>
             if \<not> exact_only then
               (case select_leaves_by_minimum_amount tn_value ls target of
                  Inr (Some sel) \<Rightarrow>
                    let reserved_amount = sum_u64 (map tn_value sel);
                        pending = (if reserved_amount > target \<and> target > 0
                                   then reserved_amount - target else 0)
                    in reserve_selected uuid sel purpose permit pending s
                | _ \<Rightarrow> (Inr (wait_or_insufficient s target), s))
             else (Inr (wait_or_insufficient s target), s))"

definition process_try_select_leaves ::
  "leaves_state \<Rightarrow> target_amounts option \<Rightarrow> (tree_service_error, leaf_selection) rust_result" where
  "process_try_select_leaves s targets =
     (let ls = map sl_node (selectable_leaves s)
      in case select_leaves_by_target_amounts tn_id tn_value ls targets of
           Inr tls \<Rightarrow> Inr (Exact (selected_leaves tls))
         | Inl _ \<Rightarrow>
             let target = (case targets of None \<Rightarrow> 0 | Some ta \<Rightarrow> total_sats ta)
             in (case select_leaves_by_minimum_amount tn_value ls target of
                   Inr (Some sel) \<Rightarrow> Inr (SwapNeeded sel)
                 | _ \<Rightarrow> Inl TSE_InsufficientFunds))"

fun collect_reservable ::
  "(tree_node_id, stored_leaf) hash_map \<Rightarrow> tree_node_id list
     \<Rightarrow> (tree_service_error, tree_node list) rust_result" where
  "collect_reservable pool [] = Inr []"
| "collect_reservable pool (i # is) =
     (case map_of pool i of
        None \<Rightarrow> Inl TSE_NonReservableLeaves
      | Some sl \<Rightarrow>
          if tn_status (sl_node sl) \<noteq> Available \<or> sl_missing_from_operators sl
          then Inl TSE_NonReservableLeaves
          else qbind (collect_reservable pool is) (\<lambda>ns. Inr (sl_node sl # ns)))"

definition process_reserve_leaves_by_ids ::
  "leaves_reservation_id \<Rightarrow> tree_node_id list \<Rightarrow> reservation_purpose \<Rightarrow> permit \<Rightarrow> leaves_state
     \<Rightarrow> (tree_service_error, leaves_reservation) rust_result \<times> leaves_state" where
  "process_reserve_leaves_by_ids uuid ids purpose permit s =
     (if ids = [] \<or> card (set ids) \<noteq> length ids
      then (Inl TSE_NonReservableLeaves, s)
      else case collect_reservable (ls_leaves s) ids of
        Inl e \<Rightarrow> (Inl e, s)
      | Inr sel \<Rightarrow>
          (case reserve_internal uuid sel purpose permit 0 s of
             (Inl e, s') \<Rightarrow> (Inl e, s')
           | (Inr i, s') \<Rightarrow> (Inr \<lparr>lr_id = i, lr_leaves = sel\<rparr>, s')))"

subsection \<open>Cancelling, finalising, updating\<close>

definition insert_nodes ::
  "system_time \<Rightarrow> tree_node list \<Rightarrow> (tree_node_id, stored_leaf) hash_map
     \<Rightarrow> (tree_node_id, stored_leaf) hash_map" where
  "insert_nodes now ls pool = fold (\<lambda>l. hm_insert (tn_id l) (from_node l now)) ls pool"

definition process_cancel_reservation ::
  "system_time \<Rightarrow> leaves_reservation_id \<Rightarrow> tree_node list \<Rightarrow> leaves_state
     \<Rightarrow> (tree_service_error, unit) rust_result \<times> leaves_state" where
  "process_cancel_reservation now rid leaves_to_keep s =
     (let prior_ids = (case map_of (ls_leaves_reservations s) rid of
                         None \<Rightarrow> [] | Some e \<Rightarrow> map sl_id (re_leaves e));
          dropped_ids = filter (\<lambda>i. i \<notin> set (map tn_id leaves_to_keep)) prior_ids
      in (Inr (), s\<lparr>ls_leaves_reservations := hm_remove rid (ls_leaves_reservations s),
            ls_ancestors := drop_chains dropped_ids (ls_ancestors s),
            ls_leaves := insert_nodes now leaves_to_keep (ls_leaves s)\<rparr>))"

definition mark_spent ::
  "system_time \<Rightarrow> stored_leaf list \<Rightarrow> (tree_node_id, system_time) hash_map
     \<Rightarrow> (tree_node_id, system_time) hash_map" where
  "mark_spent now sls spent = fold (\<lambda>sl. hm_insert (sl_id sl) now) sls spent"

definition process_finalize_reservation ::
  "system_time \<Rightarrow> system_time \<Rightarrow> leaves_reservation_id \<Rightarrow> tree_node list option \<Rightarrow> leaves_state
     \<Rightarrow> (tree_service_error, unit) rust_result \<times> leaves_state" where
  "process_finalize_reservation now now' rid new_leaves s =
     (let s1 = (case map_of (ls_leaves_reservations s) rid of
          None \<Rightarrow> s
        | Some e \<Rightarrow> s\<lparr>ls_leaves_reservations := hm_remove rid (ls_leaves_reservations s),
            ls_spent_leaf_ids := mark_spent now (re_leaves e) (ls_spent_leaf_ids s),
            ls_ancestors := drop_chains (map sl_id (re_leaves e)) (ls_ancestors s),
            ls_last_swap_completed_at :=
              (if re_purpose e = Swap \<and> new_leaves \<noteq> None then Some now
               else ls_last_swap_completed_at s)\<rparr>)
      in (Inr (), (case new_leaves of
                     None \<Rightarrow> s1
                   | Some ls \<Rightarrow> s1\<lparr>ls_leaves := insert_nodes now' ls (ls_leaves s1)\<rparr>)))"

definition process_update_reservation ::
  "system_time \<Rightarrow> leaves_reservation_id \<Rightarrow> tree_node list \<Rightarrow> tree_node list \<Rightarrow> leaves_state
     \<Rightarrow> (tree_service_error, leaves_reservation) rust_result \<times> leaves_state" where
  "process_update_reservation now rid reserved_leaves change_leaves s =
     (case map_of (ls_leaves_reservations s) rid of
        None \<Rightarrow> (Inl (TSE_Generic (''Reservation '' @ rid @ '' not found'')), s)
      | Some old_entry \<Rightarrow>
          (Inr \<lparr>lr_id = rid, lr_leaves = reserved_leaves\<rparr>,
           s\<lparr>ls_ancestors := drop_chains (map sl_id (re_leaves old_entry)) (ls_ancestors s),
             ls_leaves := insert_nodes now change_leaves (ls_leaves s),
             ls_leaves_reservations := hm_insert rid
               \<lparr>re_leaves = map (\<lambda>l. from_node l now) reserved_leaves,
                re_purpose = re_purpose old_entry, re_permit = re_permit old_entry,
                re_pending_change_amount = 0\<rparr>
               (hm_remove rid (ls_leaves_reservations s))\<rparr>))"

end
