(* ===== verification/Tree_Store_Inv.thy ===== *)
theory Tree_Store_Inv
  imports Tree_Store
begin

text \<open>
  The invariant of the in-memory leaf store and its preservation by every handler.

  Adding leaves and refreshing preserve the invariant whatever the arguments are. Reserving needs
  a fresh reservation id. Cancelling, finalising and updating insert leaves the caller supplies,
  and preserve it when those leaves are not held by another reservation.
\<close>

subsection \<open>The invariant\<close>

type_synonym pool = "(tree_node_id, stored_leaf) hash_map"
type_synonym reservations = "(leaves_reservation_id, reservation_entry) hash_map"

definition entry_ids :: "reservation_entry \<Rightarrow> tree_node_id list" where
  "entry_ids e = map sl_id (re_leaves e)"

definition reserved_ids :: "reservations \<Rightarrow> tree_node_id list" where
  "reserved_ids rs = concat (map entry_ids (hm_values rs))"

definition wf_pool :: "pool \<Rightarrow> bool" where
  "wf_pool pool = (wf_map pool \<and> (\<forall>(k, sl) \<in> set pool. sl_id sl = k))"

definition store_inv :: "leaves_state \<Rightarrow> bool" where
  "store_inv s =
     (wf_pool (ls_leaves s) \<and> wf_map (ls_leaves_reservations s)
      \<and> distinct (hm_keys (ls_leaves s) @ reserved_ids (ls_leaves_reservations s))
      \<and> wf_map (ls_spent_leaf_ids s) \<and> wf_map (ls_ancestors s))"

lemma store_inv_alt:
  "store_inv s \<longleftrightarrow> wf_pool (ls_leaves s) \<and> wf_map (ls_leaves_reservations s)
     \<and> distinct (reserved_ids (ls_leaves_reservations s))
     \<and> fst ` set (ls_leaves s) \<inter> set (reserved_ids (ls_leaves_reservations s)) = {}
     \<and> wf_map (ls_spent_leaf_ids s) \<and> wf_map (ls_ancestors s)"
  by (auto simp: store_inv_def wf_pool_def wf_map_def)

lemma store_inv_default: "store_inv leaves_state_default"
  by (simp add: store_inv_alt leaves_state_default_def wf_pool_def reserved_ids_def)

subsection \<open>Pools\<close>

lemma wf_poolD: "wf_pool pool \<Longrightarrow> map_of pool i = Some sl \<Longrightarrow> sl_id sl = i"
  by (auto simp: wf_pool_def dest: map_of_SomeD)

lemma wf_pool_Nil [simp]: "wf_pool []"
  by (simp add: wf_pool_def)

lemma wf_pool_insert: "wf_pool pool \<Longrightarrow> sl_id sl = i \<Longrightarrow> wf_pool (hm_insert i sl pool)"
  using set_insert_subset [of i sl pool] by (auto simp: wf_pool_def)

lemma wf_pool_remove: "wf_pool pool \<Longrightarrow> wf_pool (hm_remove i pool)"
  using set_remove_subset [of i pool] by (auto simp: wf_pool_def)

lemma from_node_simps [simp]:
  "sl_node (from_node n t) = n" "sl_added_at (from_node n t) = t"
  "sl_missing_from_operators (from_node n t) = False"
  "sl_node (from_node_missing n t) = n" "sl_added_at (from_node_missing n t) = t"
  "sl_missing_from_operators (from_node_missing n t) = True"
  by (simp_all add: from_node_def from_node_missing_def)

lemma insert_nodes_wf: "wf_pool pool \<Longrightarrow> wf_pool (insert_nodes t ls pool)"
  unfolding insert_nodes_def by (induction ls arbitrary: pool) (simp_all add: wf_pool_insert)

lemma insert_nodes_keys: "fst ` set (insert_nodes t ls pool) = fst ` set pool \<union> tn_id ` set ls"
  unfolding insert_nodes_def by (induction ls arbitrary: pool) auto

subsection \<open>Reservations\<close>

lemma reserved_ids_Nil [simp]: "reserved_ids [] = []"
  by (simp add: reserved_ids_def)

lemma reserved_ids_Cons [simp]: "reserved_ids ((r, e) # rs) = entry_ids e @ reserved_ids rs"
  by (simp add: reserved_ids_def)

lemma reserved_ids_insert_fresh:
  "r \<notin> fst ` set rs \<Longrightarrow> reserved_ids (hm_insert r e rs) = reserved_ids rs @ entry_ids e"
  by (simp add: reserved_ids_def insert_fresh)

lemma reserved_ids_remove:
  assumes "wf_map rs" and "map_of rs r = Some e"
  shows "mset (reserved_ids rs) = mset (entry_ids e) + mset (reserved_ids (hm_remove r rs))"
  using assms
proof (induction rs)
  case (Cons re rs)
  obtain r' e' where re: "re = (r', e')" by (cases re)
  show ?case
  proof (cases "r' = r")
    case True
    with Cons.prems re have "r \<notin> fst ` set rs" by (auto simp: wf_map_def)
    with True Cons.prems re show ?thesis by simp
  next
    case False
    with Cons re show ?thesis by (simp add: wf_map_def)
  qed
qed simp

lemma reserved_ids_remove_absent: "r \<notin> fst ` set rs \<Longrightarrow> hm_remove r rs = rs"
  by (auto simp: AList.delete_eq filter_id_conv image_iff)

lemma distinct_reserved_remove:
  assumes "wf_map rs" and "distinct (reserved_ids rs)" and "map_of rs r = Some e"
  shows "distinct (entry_ids e)" and "distinct (reserved_ids (hm_remove r rs))"
    and "set (entry_ids e) \<inter> set (reserved_ids (hm_remove r rs)) = {}"
    and "set (reserved_ids rs) = set (entry_ids e) \<union> set (reserved_ids (hm_remove r rs))"
proof -
  have ms: "mset (reserved_ids rs) = mset (entry_ids e @ reserved_ids (hm_remove r rs))"
    using reserved_ids_remove [OF assms(1,3)] by simp
  then have d: "distinct (entry_ids e @ reserved_ids (hm_remove r rs))"
    using assms(2) mset_eq_imp_distinct_iff by blast
  then show "distinct (entry_ids e)" "distinct (reserved_ids (hm_remove r rs))"
    "set (entry_ids e) \<inter> set (reserved_ids (hm_remove r rs)) = {}" by auto
  show "set (reserved_ids rs) = set (entry_ids e) \<union> set (reserved_ids (hm_remove r rs))"
    using mset_eq_setD [OF ms] by simp
qed

lemma reserved_ids_remove_subset: "set (reserved_ids (hm_remove r rs)) \<subseteq> set (reserved_ids rs)"
  using set_remove_subset [of r rs] by (auto simp: reserved_ids_def)

lemma update_first_map:
  assumes "update_first P f xs = Some ys" and "\<And>x. P x \<Longrightarrow> g (f x) = g x"
  shows "map g ys = map g xs"
  using assms(1) by (induction xs arbitrary: ys) (auto simp: assms(2) split: if_splits)

lemma update_first_None: "update_first P f xs = None \<longleftrightarrow> (\<forall>x \<in> set xs. \<not> P x)"
  by (induction xs) auto

lemma update_in_reservations_ids:
  assumes "update_in_reservations leaf rs = Some rs'"
  shows "reserved_ids rs' = reserved_ids rs \<and> map fst rs' = map fst rs"
  using assms
proof (induction leaf rs arbitrary: rs' rule: update_in_reservations.induct)
  case (2 leaf r e rs)
  show ?case
  proof (cases "update_first (\<lambda>sl. sl_id sl = tn_id leaf) (\<lambda>sl. sl\<lparr>sl_node := leaf\<rparr>) (re_leaves e)")
    case None
    with 2 show ?thesis by auto
  next
    case (Some ls)
    then have "map sl_id ls = map sl_id (re_leaves e)" by (rule update_first_map) simp
    with 2 Some show ?thesis by (auto simp: entry_ids_def)
  qed
qed simp

lemma update_in_reservations_None:
  "update_in_reservations leaf rs = None \<longleftrightarrow> tn_id leaf \<notin> set (reserved_ids rs)"
proof (induction leaf rs rule: update_in_reservations.induct)
  case (2 leaf r e rs)
  let ?u = "update_first (\<lambda>sl. sl_id sl = tn_id leaf) (\<lambda>sl. sl\<lparr>sl_node := leaf\<rparr>) (re_leaves e)"
  show ?case
  proof (cases ?u)
    case None
    then have "tn_id leaf \<notin> set (entry_ids e)" by (auto simp: update_first_None entry_ids_def)
    with None 2 show ?thesis by simp
  next
    case (Some ls)
    then have "?u \<noteq> None" by simp
    then obtain sl where "sl \<in> set (re_leaves e)" "tn_id leaf = sl_id sl"
      unfolding update_first_None by auto
    then have "tn_id leaf \<in> set (entry_ids e)" by (simp add: entry_ids_def)
    with Some show ?thesis by simp
  qed
qed simp

subsection \<open>Adding leaves\<close>

lemma add_leaf_inv: "store_inv s \<Longrightarrow> store_inv (add_leaf now leaf s)"
proof -
  assume inv: "store_inv s"
  show ?thesis
  proof (cases "update_in_reservations leaf (ls_leaves_reservations s)")
    case None
    with update_in_reservations_None have "tn_id leaf \<notin> set (reserved_ids (ls_leaves_reservations s))"
      by blast
    with None inv show ?thesis by (simp add: add_leaf_def store_inv_alt wf_pool_insert)
  next
    case (Some rs)
    with update_in_reservations_ids [OF Some] inv show ?thesis
      by (simp add: add_leaf_def store_inv_alt wf_map_def)
  qed
qed

lemma add_leaves_inv: "store_inv s \<Longrightarrow> store_inv (snd (process_add_leaves now ls s))"
  unfolding process_add_leaves_def by (induction ls arbitrary: s) (simp_all add: add_leaf_inv)

subsection \<open>Storing chains\<close>

lemma store_pedigree_frame [simp]:
  "ls_leaves (store_pedigree p s) = ls_leaves s"
  "ls_leaves_reservations (store_pedigree p s) = ls_leaves_reservations s"
  "ls_spent_leaf_ids (store_pedigree p s) = ls_spent_leaf_ids s"
  "ls_last_swap_completed_at (store_pedigree p s) = ls_last_swap_completed_at s"
  by (simp_all add: store_pedigree_def upsert_ancestors_def)

lemma store_pedigree_inv: "store_inv s \<Longrightarrow> store_inv (store_pedigree p s)"
  by (simp add: store_inv_alt store_pedigree_def upsert_ancestors_def)

lemma store_ancestors_inv: "store_inv s \<Longrightarrow> store_inv (snd (process_store_ancestors ps s))"
  unfolding process_store_ancestors_def by (induction ps arbitrary: s) (simp_all add: store_pedigree_inv)

subsection \<open>Refreshing\<close>

lemma fold_insert_unspent_wf:
  assumes "\<And>l. sl_node (mk l) = l" and "wf_pool pool"
  shows "wf_pool (fold (insert_unspent spent mk) ls pool)"
  using assms(2)
  by (induction ls arbitrary: pool) (simp_all add: insert_unspent_def wf_pool_insert assms(1))

lemma fold_preserve_recent_wf:
  assumes "wf_pool pool" and "\<forall>(k, sl) \<in> set old. sl_id sl = k"
  shows "wf_pool (fold (preserve_recent started) old pool)"
  using assms
  by (induction old arbitrary: pool) (auto simp: preserve_recent_def wf_pool_insert)

lemma refreshed_pool_wf:
  assumes "wf_pool old"
  shows "wf_pool (refreshed_pool now ls missing started spent old)"
  using assms
  by (auto simp: refreshed_pool_def Let_def wf_pool_def [of old]
      intro!: fold_preserve_recent_wf fold_insert_unspent_wf)

lemma refresh_entry_spec:
  assumes "refresh_entry pool sls = (pool', sls')" and "wf_pool pool"
  shows "wf_pool pool' \<and> map sl_id sls' = map sl_id sls
    \<and> fst ` set pool' = fst ` set pool - sl_id ` set sls
    \<and> (\<forall>i. i \<notin> sl_id ` set sls \<longrightarrow> map_of pool' i = map_of pool i)"
  using assms
proof (induction pool sls arbitrary: pool' sls' rule: refresh_entry.induct)
  case (2 pool sl sls)
  show ?case
  proof (cases "map_of pool (sl_id sl)")
    case None
    then have absent: "sl_id sl \<notin> fst ` set pool" by (simp add: map_of_eq_None_iff)
    obtain p q where pq: "refresh_entry pool sls = (p, q)" by fastforce
    from 2(1) [OF None pq 2(4)] 2(3) None pq absent show ?thesis by auto
  next
    case (Some fresh)
    obtain p q where pq: "refresh_entry (hm_remove (sl_id sl) pool) sls = (p, q)" by fastforce
    from 2(2) [OF Some pq wf_pool_remove [OF 2(4)]] 2(3) Some pq wf_poolD [OF 2(4) Some]
    show ?thesis by (auto simp: delete_conv')
  qed
qed simp

lemma refresh_reservations_spec:
  assumes "refresh_reservations pool rs = (pool', rs')" and "wf_pool pool"
  shows "wf_pool pool' \<and> map fst rs' = map fst rs \<and> reserved_ids rs' = reserved_ids rs
    \<and> fst ` set pool' = fst ` set pool - set (reserved_ids rs)
    \<and> (\<forall>i. i \<notin> set (reserved_ids rs) \<longrightarrow> map_of pool' i = map_of pool i)"
  using assms
proof (induction pool rs arbitrary: pool' rs' rule: refresh_reservations.induct)
  case (2 pool r e rs)
  obtain p sls where e: "refresh_entry pool (re_leaves e) = (p, sls)" by fastforce
  obtain p' q where q: "refresh_reservations p rs = (p', q)" by fastforce
  note es = refresh_entry_spec [OF e 2(3)]
  from 2(1) [OF e [symmetric] q] es 2(2) e q show ?case
    by (auto simp: entry_ids_def)
qed simp

lemma wf_drop_chains [simp]: "wf_map m \<Longrightarrow> wf_map (drop_chains ids m)"
  unfolding drop_chains_def by (induction ids arbitrary: m) simp_all

text \<open>The state after a refresh that is not skipped.\<close>

lemma set_leaves_proceed:
  assumes "\<not> (has_active_swap s \<or> swap_completed_during_refresh s started)"
    and "spent = hm_retain (\<lambda>_ spent_at. spent_at \<ge> started) (ls_spent_leaf_ids s)"
    and "refresh_reservations (refreshed_pool now ls missing started spent (ls_leaves s))
           (ls_leaves_reservations s) = (pool, rs)"
  shows "process_set_leaves now ls missing started s =
    (Inr (), s\<lparr>ls_leaves := pool,
       ls_ancestors := drop_chains (filter (\<lambda>i. \<not> hm_contains i pool) (hm_keys (ls_leaves s))) (ls_ancestors s),
       ls_leaves_reservations := rs, ls_spent_leaf_ids := spent\<rparr>)"
  unfolding process_set_leaves_def Let_def using assms by simp

lemma set_leaves_inv:
  assumes "store_inv s"
  shows "store_inv (snd (process_set_leaves now ls missing started s))"
proof (cases "has_active_swap s \<or> swap_completed_during_refresh s started")
  case False
  define spent where "spent = hm_retain (\<lambda>_ spent_at. spent_at \<ge> started) (ls_spent_leaf_ids s)"
  define new where "new = refreshed_pool now ls missing started spent (ls_leaves s)"
  obtain pool rs where r: "refresh_reservations new (ls_leaves_reservations s) = (pool, rs)" by fastforce
  have "wf_pool new" unfolding new_def using assms by (intro refreshed_pool_wf) (simp add: store_inv_alt)
  note spec = refresh_reservations_spec [OF r this]
  have "wf_map spent" using assms by (simp add: spent_def store_inv_alt)
  moreover have "wf_map rs" using spec assms by (simp add: store_inv_alt wf_map_def)
  moreover have "fst ` set pool \<inter> set (reserved_ids rs) = {}" using spec by auto
  ultimately show ?thesis
    using set_leaves_proceed [OF False spent_def r [unfolded new_def]] spec assms
    by (simp add: store_inv_alt)
qed (use assms in \<open>simp add: process_set_leaves_def\<close>)

subsection \<open>Reserving\<close>

lemma take_leaves_spec:
  assumes "take_leaves ls pool = (pool', sls)" and "wf_pool pool"
  shows "wf_pool pool' \<and> distinct (map sl_id sls) \<and> sl_id ` set sls = tn_id ` set ls \<inter> fst ` set pool
    \<and> fst ` set pool' = fst ` set pool - tn_id ` set ls
    \<and> mset pool = mset pool' + mset (map (\<lambda>sl. (sl_id sl, sl)) sls)"
  using assms
proof (induction ls pool arbitrary: pool' sls rule: take_leaves.induct)
  case (2 l ls pool)
  show ?case
  proof (cases "map_of pool (tn_id l)")
    case None
    then have "tn_id l \<notin> fst ` set pool" by (simp add: map_of_eq_None_iff)
    with 2(1) [OF None _ 2(4)] 2(3) None show ?thesis by auto
  next
    case (Some sl)
    obtain p q where pq: "take_leaves ls (hm_remove (tn_id l) pool) = (p, q)" by fastforce
    note ih = 2(2) [OF Some pq wf_pool_remove [OF 2(4)]]
    have id: "sl_id sl = tn_id l" using wf_poolD [OF 2(4) Some] .
    have mem: "tn_id l \<in> fst ` set pool" using Some by (force dest: map_of_SomeD)
    have res: "pool' = p" "sls = sl # q" using 2(3) Some pq by auto
    have ms: "mset pool = add_mset (tn_id l, sl) (mset (hm_remove (tn_id l) pool))"
      using 2(4) Some by (intro mset_remove) (simp_all add: wf_pool_def)
    have ids: "sl_id ` set q = tn_id ` set ls \<inter> (fst ` set pool - {tn_id l})" using ih by simp
    have "sl_id sl \<notin> sl_id ` set q" unfolding ids using id by simp
    moreover have "sl_id ` set sls = tn_id ` set (l # ls) \<inter> fst ` set pool"
      unfolding res list.set image_insert ids id using mem by blast
    moreover have "fst ` set pool' = fst ` set pool - tn_id ` set (l # ls)"
      using ih unfolding res by auto
    ultimately show ?thesis using ih ms id unfolding res by simp
  qed
qed simp

lemma reserve_internal_inv:
  assumes "store_inv s" and "uuid \<notin> fst ` set (ls_leaves_reservations s)"
  shows "store_inv (snd (reserve_internal uuid ls purpose permit pending s))"
proof -
  obtain pool sls where t: "take_leaves ls (ls_leaves s) = (pool, sls)" by fastforce
  have "wf_pool (ls_leaves s)" using assms(1) by (simp add: store_inv_alt)
  note spec = take_leaves_spec [OF t this]
  show ?thesis
    using assms spec t
    by (auto simp: reserve_internal_def store_inv_alt reserved_ids_insert_fresh entry_ids_def)
qed

lemma reserve_selected_state:
  "snd (reserve_selected uuid sel purpose permit pending s)
     = snd (reserve_internal uuid sel purpose permit pending s)"
  by (auto simp: reserve_selected_def split: prod.splits sum.splits)

lemma try_reserve_state:
  "snd (process_try_reserve_leaves uuid targets exact_only purpose permit s) = s \<or>
   (\<exists>sel pending. snd (process_try_reserve_leaves uuid targets exact_only purpose permit s)
      = snd (reserve_internal uuid sel purpose permit pending s))"
  by (auto simp: process_try_reserve_leaves_def Let_def reserve_selected_state
      split: sum.splits option.splits)

lemma try_reserve_inv:
  assumes "store_inv s" and "uuid \<notin> fst ` set (ls_leaves_reservations s)"
  shows "store_inv (snd (process_try_reserve_leaves uuid targets exact_only purpose permit s))"
  using try_reserve_state [of uuid targets exact_only purpose permit s] reserve_internal_inv [OF assms]
  by (metis assms(1))

lemma reserve_by_ids_state:
  "snd (process_reserve_leaves_by_ids uuid ids purpose permit s) = s \<or>
   (\<exists>sel. snd (process_reserve_leaves_by_ids uuid ids purpose permit s)
      = snd (reserve_internal uuid sel purpose permit 0 s))"
  by (auto simp: process_reserve_leaves_by_ids_def split: sum.splits prod.splits)
     (metis snd_conv)+

lemma reserve_by_ids_inv:
  assumes "store_inv s" and "uuid \<notin> fst ` set (ls_leaves_reservations s)"
  shows "store_inv (snd (process_reserve_leaves_by_ids uuid ids purpose permit s))"
  using reserve_by_ids_state [of uuid ids purpose permit s] reserve_internal_inv [OF assms]
  by (metis assms(1))

subsection \<open>Cancelling, finalising, updating\<close>

lemma mark_spent_wf [simp]: "wf_map spent \<Longrightarrow> wf_map (mark_spent t sls spent)"
  unfolding mark_spent_def by (induction sls arbitrary: spent) simp_all

text \<open>Taking one reservation away leaves the ids it held free.\<close>

lemma remove_reservation_inv:
  assumes "store_inv s"
  shows "distinct (reserved_ids (hm_remove r (ls_leaves_reservations s)))"
    and "fst ` set (ls_leaves s) \<inter> set (reserved_ids (hm_remove r (ls_leaves_reservations s))) = {}"
proof -
  let ?rs = "ls_leaves_reservations s"
  show "distinct (reserved_ids (hm_remove r ?rs))"
  proof (cases "map_of ?rs r")
    case None
    then have "r \<notin> fst ` set ?rs" by (simp add: map_of_eq_None_iff)
    with assms show ?thesis by (simp add: reserved_ids_remove_absent store_inv_alt)
  next
    case (Some e)
    with assms show ?thesis by (auto simp: store_inv_alt intro: distinct_reserved_remove)
  qed
  show "fst ` set (ls_leaves s) \<inter> set (reserved_ids (hm_remove r ?rs)) = {}"
    using assms reserved_ids_remove_subset [of r ?rs] by (auto simp: store_inv_alt)
qed

lemma cancel_inv:
  assumes "store_inv s"
    and "tn_id ` set keep \<inter> set (reserved_ids (hm_remove r (ls_leaves_reservations s))) = {}"
  shows "store_inv (snd (process_cancel_reservation now r keep s))"
  using assms remove_reservation_inv [OF assms(1), of r]
  by (auto simp: process_cancel_reservation_def Let_def store_inv_alt insert_nodes_wf insert_nodes_keys)

lemma finalize_inv:
  assumes "store_inv s"
    and "tn_id ` set (case new_leaves of None \<Rightarrow> [] | Some ls \<Rightarrow> ls)
           \<inter> set (reserved_ids (hm_remove r (ls_leaves_reservations s))) = {}"
  shows "store_inv (snd (process_finalize_reservation now now' r new_leaves s))"
proof (cases "map_of (ls_leaves_reservations s) r")
  case None
  then have "r \<notin> fst ` set (ls_leaves_reservations s)" by (simp add: map_of_eq_None_iff)
  with None assms show ?thesis
    by (auto simp: process_finalize_reservation_def Let_def store_inv_alt insert_nodes_wf
        insert_nodes_keys reserved_ids_remove_absent split: option.splits)
next
  case (Some e)
  with assms remove_reservation_inv [OF assms(1), of r] show ?thesis
    by (auto simp: process_finalize_reservation_def Let_def store_inv_alt insert_nodes_wf
        insert_nodes_keys split: option.splits)
qed

lemma update_inv:
  assumes "store_inv s" and "distinct (map tn_id reserved)"
    and "tn_id ` set reserved \<inter> (fst ` set (ls_leaves s) \<union> tn_id ` set change) = {}"
    and "(tn_id ` set reserved \<union> tn_id ` set change)
           \<inter> set (reserved_ids (hm_remove r (ls_leaves_reservations s))) = {}"
  shows "store_inv (snd (process_update_reservation now r reserved change s))"
proof (cases "map_of (ls_leaves_reservations s) r")
  case (Some e)
  have fresh: "r \<notin> fst ` set (hm_remove r (ls_leaves_reservations s))" by simp
  have "entry_ids \<lparr>re_leaves = map (\<lambda>l. from_node l now) reserved, re_purpose = p, re_permit = q,
      re_pending_change_amount = a\<rparr> = map tn_id reserved" for p q a
    by (simp add: entry_ids_def)
  with Some assms remove_reservation_inv [OF assms(1), of r] fresh show ?thesis
    by (auto simp: process_update_reservation_def store_inv_alt insert_nodes_wf insert_nodes_keys
        reserved_ids_insert_fresh)
qed (use assms in \<open>simp add: process_update_reservation_def\<close>)

end
