(* ===== verification/Tree_Store_Processor.thy ===== *)
theory Tree_Store_Processor
  imports Tree_Store_Inv
begin

text \<open>
  The processor task of the leaf store, its command queue and the reservation semaphore:
  \<^verbatim>\<open>StoreCommand\<close>, \<^verbatim>\<open>run_processor\<close> and the \<^verbatim>\<open>TreeStore\<close> methods of \<^verbatim>\<open>crates/spark/src/tree/store.rs\<close>.

  \<open>handle_command\<close> is one arm of the processor loop, \<open>process_command\<close> one iteration with the
  notification decision, \<open>run_processor\<close> the loop over the commands received. \<open>store_step\<close> adds the
  contract the callers keep; \<open>sys_step\<close> adds the semaphore and the bounded queue.
\<close>

subsection \<open>Commands and responses\<close>

datatype store_command =
    AddLeaves "tree_node list"
  | StoreAncestors "leaf_pedigree list"
  | GetLeaves
  | GetExitChains "tree_node_id list"
  | LeavesMissingExitChains
  | SetLeaves "tree_node list" "tree_node list" system_time
  | TryReserveLeaves "target_amounts option" bool reservation_purpose permit
  | CancelReservation leaves_reservation_id "tree_node list"
  | FinalizeReservation leaves_reservation_id "tree_node list option"
  | UpdateReservation leaves_reservation_id "tree_node list" "tree_node list"
  | ReserveLeavesByIds "tree_node_id list" reservation_purpose permit
  | TrySelectLeaves "target_amounts option"

datatype store_response =
    Resp_Unit "(tree_service_error, unit) rust_result"
  | Resp_Leaves "(tree_service_error, leaves) rust_result"
  | Resp_Chains "(tree_service_error, leaf_pedigree list) rust_result"
  | Resp_Ids "tree_node_id list"
  | Resp_Reserve "(tree_service_error, reserve_result) rust_result"
  | Resp_Reservation "(tree_service_error, leaves_reservation) rust_result"
  | Resp_Selection "(tree_service_error, leaf_selection) rust_result"

text \<open>What a handler reads from outside: the clock (finalising reads it twice) and a new
  reservation id.\<close>

record store_env =
  env_now :: system_time
  env_now' :: system_time
  env_uuid :: leaves_reservation_id

fun handle_command :: "store_env \<Rightarrow> store_command \<Rightarrow> leaves_state \<Rightarrow> store_response \<times> leaves_state" where
  "handle_command env (AddLeaves ls) s =
     map_prod Resp_Unit id (process_add_leaves (env_now env) ls s)"
| "handle_command env (StoreAncestors ps) s =
     map_prod Resp_Unit id (process_store_ancestors ps s)"
| "handle_command env GetLeaves s = (Resp_Leaves (process_get_leaves s), s)"
| "handle_command env (GetExitChains ids) s = (Resp_Chains (process_get_exit_chains s ids), s)"
| "handle_command env LeavesMissingExitChains s =
     (Resp_Ids (process_leaves_missing_exit_chains s), s)"
| "handle_command env (SetLeaves ls missing started) s =
     map_prod Resp_Unit id (process_set_leaves (env_now env) ls missing started s)"
| "handle_command env (TryReserveLeaves targets exact_only purpose permit) s =
     map_prod Resp_Reserve id
       (process_try_reserve_leaves (env_uuid env) targets exact_only purpose permit s)"
| "handle_command env (CancelReservation rid keep) s =
     map_prod Resp_Unit id (process_cancel_reservation (env_now env) rid keep s)"
| "handle_command env (FinalizeReservation rid new_leaves) s =
     map_prod Resp_Unit id
       (process_finalize_reservation (env_now env) (env_now' env) rid new_leaves s)"
| "handle_command env (UpdateReservation rid reserved change) s =
     map_prod Resp_Reservation id (process_update_reservation (env_now env) rid reserved change s)"
| "handle_command env (ReserveLeavesByIds ids purpose permit) s =
     map_prod Resp_Reservation id (process_reserve_leaves_by_ids (env_uuid env) ids purpose permit s)"
| "handle_command env (TrySelectLeaves targets) s =
     (Resp_Selection (process_try_select_leaves s targets), s)"

fun force_notify :: "store_command \<Rightarrow> store_response \<Rightarrow> bool" where
  "force_notify (UpdateReservation _ _ _) (Resp_Reservation r) = is_ok r"
| "force_notify _ _ = False"

definition process_command ::
  "store_env \<Rightarrow> store_command \<Rightarrow> leaves_state \<Rightarrow> store_response \<times> leaves_state \<times> bool" where
  "process_command env cmd s =
     (case handle_command env cmd s of (resp, s') \<Rightarrow>
        (resp, s', available_balance s' \<noteq> available_balance s
                   \<or> pending_balance s' \<noteq> pending_balance s \<or> force_notify cmd resp))"

text \<open>The loop: the responses in order, the number of notifications sent, the final state.\<close>

fun processor_loop ::
  "(store_env \<times> store_command) list \<Rightarrow> leaves_state \<Rightarrow> store_response list \<times> nat \<times> leaves_state" where
  "processor_loop [] s = ([], 0, s)"
| "processor_loop ((env, cmd) # cmds) s =
     (case process_command env cmd s of (resp, s', notify) \<Rightarrow>
        (case processor_loop cmds s' of (resps, n, s'') \<Rightarrow>
           (resp # resps, (if notify then Suc n else n), s'')))"

definition run_processor ::
  "(store_env \<times> store_command) list \<Rightarrow> store_response list \<times> nat \<times> leaves_state" where
  "run_processor cmds = processor_loop cmds leaves_state_default"

subsection \<open>The contract of the callers\<close>

text \<open>A new reservation id is fresh, and leaves handed to cancel, finalise or update are not held
  by a reservation other than the one named; update moves leaves neither into two places.\<close>

fun command_ok :: "store_env \<Rightarrow> store_command \<Rightarrow> leaves_state \<Rightarrow> bool" where
  "command_ok env (TryReserveLeaves _ _ _ _) s = (\<not> hm_contains (env_uuid env) (ls_leaves_reservations s))"
| "command_ok env (ReserveLeavesByIds _ _ _) s = (\<not> hm_contains (env_uuid env) (ls_leaves_reservations s))"
| "command_ok env (CancelReservation rid keep) s =
     (tn_id ` set keep \<inter> set (reserved_ids (hm_remove rid (ls_leaves_reservations s))) = {})"
| "command_ok env (FinalizeReservation rid new_leaves) s =
     (tn_id ` set (case new_leaves of None \<Rightarrow> [] | Some ls \<Rightarrow> ls)
        \<inter> set (reserved_ids (hm_remove rid (ls_leaves_reservations s))) = {})"
| "command_ok env (UpdateReservation rid reserved change) s =
     (distinct (map tn_id reserved)
      \<and> tn_id ` set reserved \<inter> (fst ` set (ls_leaves s) \<union> tn_id ` set change) = {}
      \<and> (tn_id ` set reserved \<union> tn_id ` set change)
           \<inter> set (reserved_ids (hm_remove rid (ls_leaves_reservations s))) = {})"
| "command_ok env _ s = True"

lemma handle_command_inv:
  "store_inv s \<Longrightarrow> command_ok env cmd s \<Longrightarrow> store_inv (snd (handle_command env cmd s))"
  by (cases cmd)
     (simp_all add: add_leaves_inv store_ancestors_inv set_leaves_inv try_reserve_inv cancel_inv
        finalize_inv update_inv reserve_by_ids_inv)

subsection \<open>Reachable states\<close>

inductive store_reachable :: "leaves_state \<Rightarrow> bool" where
  reach_init: "store_reachable leaves_state_default"
| reach_step: "store_reachable s \<Longrightarrow> command_ok env cmd s
     \<Longrightarrow> store_reachable (snd (handle_command env cmd s))"

lemma reachable_inv: "store_reachable s \<Longrightarrow> store_inv s"
  by (induction rule: store_reachable.induct) (simp_all add: store_inv_default handle_command_inv)

subsection \<open>Chains follow their leaves\<close>

definition stored_ids :: "leaves_state \<Rightarrow> tree_node_id set" where
  "stored_ids s = fst ` set (ls_leaves s) \<union> set (reserved_ids (ls_leaves_reservations s))"

definition chains_owned :: "leaves_state \<Rightarrow> bool" where
  "chains_owned s = (fst ` set (ls_ancestors s) \<subseteq> stored_ids s)"

lemma drop_chains_keys: "fst ` set (drop_chains ids m) = fst ` set m - set ids"
  unfolding drop_chains_def by (induction ids arbitrary: m) auto

lemma find_reserved_leaf_Some:
  "find_reserved_leaf i es = Some n \<Longrightarrow> i \<in> set (concat (map entry_ids es)) \<and> tn_id n = i"
  by (induction es) (auto simp: entry_ids_def find_Some_iff split: option.splits)

lemma find_stored_leaf_ids:
  assumes "store_inv s" and "find_stored_leaf s i = Some n"
  shows "i \<in> stored_ids s" and "tn_id n = i"
  using assms find_reserved_leaf_Some [of i "hm_values (ls_leaves_reservations s)" n]
  by (auto simp: find_stored_leaf_def stored_ids_def reserved_ids_def store_inv_alt
      split: option.splits dest: wf_poolD map_of_SomeD intro: rev_image_eqI)

lemma add_leaf_stored: "stored_ids s \<subseteq> stored_ids (add_leaf now leaf s)"
  using update_in_reservations_ids [of leaf "ls_leaves_reservations s"]
  by (auto simp: add_leaf_def stored_ids_def split: option.splits)

lemma add_leaf_ancestors [simp]: "ls_ancestors (add_leaf now leaf s) = ls_ancestors s"
  by (simp add: add_leaf_def split: option.splits)

lemma add_leaves_chains:
  "chains_owned s \<Longrightarrow> chains_owned (snd (process_add_leaves now ls s))"
  unfolding process_add_leaves_def
proof (induction ls arbitrary: s)
  case (Cons l ls)
  have "chains_owned (add_leaf now l s)"
    using Cons.prems add_leaf_stored [of s now l] by (auto simp: chains_owned_def)
  then show ?case using Cons.IH by simp
qed simp

lemma store_pedigree_chains:
  assumes "store_inv s" and "chains_owned s"
  shows "chains_owned (store_pedigree p s)"
proof (cases "find_stored_leaf s (tn_id (lp_leaf p))")
  case (Some n)
  with find_stored_leaf_ids [OF assms(1) Some] assms(2) show ?thesis
    by (auto simp: store_pedigree_def upsert_ancestors_def chains_owned_def stored_ids_def)
qed (use assms(2) in \<open>simp add: store_pedigree_def\<close>)

lemma store_ancestors_chains:
  assumes "store_inv s" and "chains_owned s"
  shows "chains_owned (snd (process_store_ancestors ps s))"
  using assms unfolding process_store_ancestors_def
  by (induction ps arbitrary: s) (simp_all add: store_pedigree_chains store_pedigree_inv)

lemma set_leaves_chains:
  assumes "store_inv s" and "chains_owned s"
  shows "chains_owned (snd (process_set_leaves now ls missing started s))"
proof (cases "has_active_swap s \<or> swap_completed_during_refresh s started")
  case False
  define spent where "spent = hm_retain (\<lambda>_ spent_at. spent_at \<ge> started) (ls_spent_leaf_ids s)"
  define new where "new = refreshed_pool now ls missing started spent (ls_leaves s)"
  obtain pool rs where r: "refresh_reservations new (ls_leaves_reservations s) = (pool, rs)" by fastforce
  have "wf_pool new" unfolding new_def using assms by (intro refreshed_pool_wf) (simp add: store_inv_alt)
  then have "reserved_ids rs = reserved_ids (ls_leaves_reservations s)"
    using refresh_reservations_spec [OF r] by simp
  with assms(2) show ?thesis
    unfolding set_leaves_proceed [OF False spent_def r [unfolded new_def]]
    by (auto simp: chains_owned_def stored_ids_def drop_chains_keys)
qed (use assms in \<open>simp add: process_set_leaves_def\<close>)

lemma reserve_internal_stored:
  assumes "store_inv s" and "uuid \<notin> fst ` set (ls_leaves_reservations s)"
  shows "stored_ids (snd (reserve_internal uuid ls purpose permit pending s)) = stored_ids s"
proof -
  obtain pool sls where t: "take_leaves ls (ls_leaves s) = (pool, sls)" by fastforce
  have "wf_pool (ls_leaves s)" using assms(1) by (simp add: store_inv_alt)
  note spec = take_leaves_spec [OF t this]
  have "set (map sl_id sls) = tn_id ` set ls \<inter> fst ` set (ls_leaves s)" using spec by simp
  moreover have "fst ` set pool = fst ` set (ls_leaves s) - tn_id ` set ls" using spec by simp
  ultimately have "fst ` set pool \<union> set (map sl_id sls) = fst ` set (ls_leaves s)" by blast
  with t assms(2) show ?thesis
    by (simp add: reserve_internal_def stored_ids_def reserved_ids_insert_fresh entry_ids_def
        Un_left_commute Un_commute [of "set (reserved_ids _)"] flip: Un_assoc)
qed

lemma reserve_internal_chains:
  assumes "store_inv s" and "uuid \<notin> fst ` set (ls_leaves_reservations s)" and "chains_owned s"
  shows "chains_owned (snd (reserve_internal uuid ls purpose permit pending s))"
proof -
  have "ls_ancestors (snd (reserve_internal uuid ls purpose permit pending s)) = ls_ancestors s"
    by (simp add: reserve_internal_def split: prod.splits)
  then show ?thesis using reserve_internal_stored [OF assms(1,2)] assms(3) by (simp add: chains_owned_def)
qed

text \<open>The ids of a store, split at one reservation.\<close>

lemma stored_ids_split:
  assumes "store_inv s"
  shows "stored_ids s = fst ` set (ls_leaves s)
    \<union> set (case map_of (ls_leaves_reservations s) r of None \<Rightarrow> [] | Some e \<Rightarrow> entry_ids e)
    \<union> set (reserved_ids (hm_remove r (ls_leaves_reservations s)))"
proof (cases "map_of (ls_leaves_reservations s) r")
  case None
  then have "r \<notin> fst ` set (ls_leaves_reservations s)" by (simp add: map_of_eq_None_iff)
  with None show ?thesis by (simp add: stored_ids_def reserved_ids_remove_absent)
next
  case (Some e)
  with assms distinct_reserved_remove(4) [OF _ _ Some] show ?thesis
    by (simp add: stored_ids_def store_inv_alt Un_assoc)
qed

lemma cancel_chains:
  assumes "store_inv s" and "chains_owned s"
  shows "chains_owned (snd (process_cancel_reservation now r keep s))"
  using assms(2) unfolding chains_owned_def stored_ids_split [OF assms(1), of r]
  by (auto simp: process_cancel_reservation_def Let_def stored_ids_def drop_chains_keys
      insert_nodes_keys entry_ids_def split: option.splits)

lemma finalize_chains:
  assumes "store_inv s" and "chains_owned s"
  shows "chains_owned (snd (process_finalize_reservation now now' r new_leaves s))"
proof (cases "map_of (ls_leaves_reservations s) r")
  case None
  with assms(2) show ?thesis
    by (auto simp: chains_owned_def process_finalize_reservation_def Let_def stored_ids_def
        insert_nodes_keys split: option.splits)
next
  case (Some e)
  with assms(2) show ?thesis unfolding chains_owned_def stored_ids_split [OF assms(1), of r]
    by (auto simp: process_finalize_reservation_def Let_def stored_ids_def drop_chains_keys
        insert_nodes_keys entry_ids_def split: option.splits)
qed

lemma update_chains:
  assumes "store_inv s" and "chains_owned s"
  shows "chains_owned (snd (process_update_reservation now r reserved change s))"
proof (cases "map_of (ls_leaves_reservations s) r")
  case (Some e)
  have "r \<notin> fst ` set (hm_remove r (ls_leaves_reservations s))" by simp
  with Some assms(2) show ?thesis unfolding chains_owned_def stored_ids_split [OF assms(1), of r]
    by (auto simp: process_update_reservation_def stored_ids_def drop_chains_keys
        insert_nodes_keys entry_ids_def reserved_ids_insert_fresh)
qed (use assms(2) in \<open>simp add: process_update_reservation_def\<close>)

lemma handle_command_chains:
  assumes "store_inv s" and "chains_owned s" and "command_ok env cmd s"
  shows "chains_owned (snd (handle_command env cmd s))"
proof (cases cmd)
  case (TryReserveLeaves targets exact_only purpose permit)
  with assms(3) have "env_uuid env \<notin> fst ` set (ls_leaves_reservations s)" by simp
  with TryReserveLeaves try_reserve_state [of "env_uuid env" targets exact_only purpose permit s] assms
  show ?thesis by (auto simp: reserve_internal_chains)
next
  case (ReserveLeavesByIds ids purpose permit)
  with assms(3) have "env_uuid env \<notin> fst ` set (ls_leaves_reservations s)" by simp
  with ReserveLeavesByIds reserve_by_ids_state [of "env_uuid env" ids purpose permit s] assms
  show ?thesis by (auto simp: reserve_internal_chains)
qed (use assms in \<open>simp_all add: add_leaves_chains store_ancestors_chains set_leaves_chains
      cancel_chains finalize_chains update_chains\<close>)

lemma reachable_chains: "store_reachable s \<Longrightarrow> chains_owned s"
proof (induction rule: store_reachable.induct)
  case reach_init
  show ?case by (simp add: chains_owned_def leaves_state_default_def)
next
  case (reach_step s env cmd)
  then show ?case by (simp add: handle_command_chains reachable_inv)
qed

end
