(* ===== verification/Tree_Store_Props.thy ===== *)
theory Tree_Store_Props
  imports Tree_Store_Processor
begin

text \<open>
  What the leaf store guarantees to its callers: exclusive reservations, exact reservation
  results, all-or-nothing reservation by id, refreshes that neither resurrect spent leaves nor
  lose recent ones, exit chains that come back as stored, and notifications.
\<close>

subsection \<open>Reservation results\<close>

abbreviation pool_nodes :: "leaves_state \<Rightarrow> tree_node list" where
  "pool_nodes s \<equiv> map sl_node (hm_values (ls_leaves s))"

abbreviation selectable_nodes :: "leaves_state \<Rightarrow> tree_node list" where
  "selectable_nodes s \<equiv> map sl_node (selectable_leaves s)"

lemma pool_node_ids: "wf_pool pool \<Longrightarrow> map tn_id (map sl_node (hm_values pool)) = hm_keys pool"
  by (auto simp: wf_pool_def)

lemma pool_lookup:
  assumes "wf_pool pool" and "sl \<in> set (hm_values pool)"
  shows "map_of pool (sl_id sl) = Some sl"
  using assms by (auto simp: wf_pool_def wf_map_def)

lemma selectable_subset: "mset (selectable_nodes s) \<subseteq># mset (pool_nodes s)"
  unfolding selectable_leaves_def mset_map [of sl_node] mset_filter
  by (intro image_mset_subseteq_mono multiset_filter_subset)

lemma selectable_in_pool:
  assumes "store_inv s" and "mset sel \<subseteq># mset (selectable_nodes s)"
  shows "distinct (map tn_id sel)"
    and "\<forall>l \<in> set sel. \<exists>sl. map_of (ls_leaves s) (tn_id l) = Some sl \<and> sl_node sl = l \<and> selectable sl"
proof -
  have wf: "wf_pool (ls_leaves s)" using assms(1) by (simp add: store_inv_alt)
  have "mset (map tn_id sel) \<subseteq># mset (map tn_id (pool_nodes s))"
    unfolding mset_map [of tn_id]
    by (intro image_mset_subseteq_mono subset_mset.order_trans [OF assms(2) selectable_subset])
  also have "\<dots> = mset (hm_keys (ls_leaves s))" unfolding pool_node_ids [OF wf] ..
  finally have sub: "mset (map tn_id sel) \<subseteq># mset (hm_keys (ls_leaves s))" .
  have "distinct (hm_keys (ls_leaves s))" using wf by (simp add: wf_pool_def wf_map_def)
  then show "distinct (map tn_id sel)" by (rule distinct_submset [OF sub])
  show "\<forall>l \<in> set sel. \<exists>sl. map_of (ls_leaves s) (tn_id l) = Some sl \<and> sl_node sl = l \<and> selectable sl"
  proof
    fix l assume "l \<in> set sel"
    then have "l \<in> set (selectable_nodes s)" using assms(2) by (metis mset_subset_eqD set_mset_mset)
    then obtain sl where "sl \<in> set (hm_values (ls_leaves s))" "selectable sl" "l = sl_node sl"
      by (auto simp: selectable_leaves_def)
    with pool_lookup [OF wf] show "\<exists>sl. map_of (ls_leaves s) (tn_id l) = Some sl \<and> sl_node sl = l \<and> selectable sl"
      by auto
  qed
qed

lemma take_leaves_nodes:
  assumes "take_leaves ls pool = (pool', sls)" and "distinct (map tn_id ls)"
    and "\<forall>l \<in> set ls. \<exists>sl. map_of pool (tn_id l) = Some sl \<and> sl_node sl = l"
  shows "map sl_node sls = ls"
  using assms
proof (induction ls pool arbitrary: pool' sls rule: take_leaves.induct)
  case (2 l ls pool)
  from 2(5) obtain sl where sl: "map_of pool (tn_id l) = Some sl" "sl_node sl = l" by auto
  obtain p q where pq: "take_leaves ls (hm_remove (tn_id l) pool) = (p, q)" by fastforce
  have "map sl_node q = ls"
  proof (rule 2(2) [OF sl(1) pq])
    show "\<forall>l' \<in> set ls. \<exists>sl. map_of (hm_remove (tn_id l) pool) (tn_id l') = Some sl \<and> sl_node sl = l'"
    proof
      fix l' assume l': "l' \<in> set ls"
      then have "tn_id l' \<noteq> tn_id l" using 2(4) by (metis distinct.simps(2) image_eqI list.simps(9) set_map)
      with 2(5) l' show "\<exists>sl. map_of (hm_remove (tn_id l) pool) (tn_id l') = Some sl \<and> sl_node sl = l'"
        by (simp add: delete_conv')
    qed
  qed (use 2(4) in simp)
  with 2(3) sl pq show ?case by auto
qed simp

lemma reserve_internal_success:
  assumes inv: "store_inv s" and fresh: "uuid \<notin> fst ` set (ls_leaves_reservations s)"
    and sub: "mset sel \<subseteq># mset (selectable_nodes s)" and "sel \<noteq> []"
    and s': "s' = snd (reserve_internal uuid sel purpose permit pending s)"
  shows "fst (reserve_internal uuid sel purpose permit pending s) = Inr uuid"
    and "\<exists>e. map_of (ls_leaves_reservations s') uuid = Some e \<and> entry_nodes e = sel
           \<and> re_purpose e = purpose \<and> re_permit e = permit \<and> re_pending_change_amount e = pending"
    and "\<forall>r. r \<noteq> uuid \<longrightarrow> map_of (ls_leaves_reservations s') r = map_of (ls_leaves_reservations s) r"
    and "mset (pool_nodes s) = mset (pool_nodes s') + mset sel"
proof -
  note pool = selectable_in_pool [OF inv sub]
  obtain p sls where t: "take_leaves sel (ls_leaves s) = (p, sls)" by fastforce
  have wf: "wf_pool (ls_leaves s)" using inv by (simp add: store_inv_alt)
  have nodes: "map sl_node sls = sel" using take_leaves_nodes [OF t pool(1)] pool(2) by blast
  have all: "\<not> (\<exists>l \<in> set sel. \<not> hm_contains (tn_id l) (ls_leaves s))"
    using pool(2) by (force dest: map_of_SomeD)
  have r: "reserve_internal uuid sel purpose permit pending s = (Inr uuid, s\<lparr>ls_leaves := p,
      ls_leaves_reservations := hm_insert uuid \<lparr>re_leaves = sls, re_purpose = purpose,
        re_permit = permit, re_pending_change_amount = pending\<rparr> (ls_leaves_reservations s)\<rparr>)"
    unfolding reserve_internal_def if_not_P [OF \<open>sel \<noteq> []\<close>] if_not_P [OF all] t by simp
  show "fst (reserve_internal uuid sel purpose permit pending s) = Inr uuid" by (simp add: r)
  show "\<exists>e. map_of (ls_leaves_reservations s') uuid = Some e \<and> entry_nodes e = sel
      \<and> re_purpose e = purpose \<and> re_permit e = permit \<and> re_pending_change_amount e = pending"
    by (simp add: s' r update_conv' entry_nodes_def nodes)
  show "\<forall>r. r \<noteq> uuid \<longrightarrow> map_of (ls_leaves_reservations s') r = map_of (ls_leaves_reservations s) r"
    by (simp add: s' r update_conv')
  have "mset (ls_leaves s) = mset p + mset (map (\<lambda>sl. (sl_id sl, sl)) sls)"
    using take_leaves_spec [OF t wf] by simp
  from arg_cong [OF this, of "image_mset (\<lambda>kv. sl_node (snd kv))"]
  have "mset (pool_nodes s) = mset (map sl_node (map snd p)) + mset (map sl_node sls)"
    by (simp add: multiset.map_comp o_def)
  then show "mset (pool_nodes s) = mset (pool_nodes s') + mset sel"
    unfolding s' r nodes by simp
qed

lemma reserve_selected_success:
  assumes "reserve_selected uuid sel purpose permit pending s = (Inr (RR_Success res), s')"
  shows "sel \<noteq> [] \<and> res = \<lparr>lr_id = uuid, lr_leaves = sel\<rparr>
    \<and> s' = snd (reserve_internal uuid sel purpose permit pending s)"
  using assms
  by (auto simp: reserve_selected_def reserve_internal_def split: if_splits prod.splits sum.splits)

lemma minimum_selection_prefix:
  assumes "select_leaves_by_minimum_amount f ls target = Inr (Some sel)"
    and "sum_list (map f ls) < 2 ^ 64"
  shows "mset sel \<subseteq># mset ls \<and> target \<le> sum_list (map f sel) \<and> 0 < target"
proof -
  from assms have "0 < target" "target \<le> sum_list (map f ls)"
    by (auto simp: select_leaves_by_minimum_amount_def sum_u64_small split: if_splits)
  from minimum_amount_spec [OF assms(2) this] assms(1) \<open>0 < target\<close> show ?thesis by auto
qed

text \<open>The three ways out of \<open>process_try_reserve_leaves\<close>.\<close>

lemma try_reserve_cases:
  assumes "process_try_reserve_leaves uuid targets exact_only purpose permit s = (r, s')"
  obtains
    (exact) tls where
      "select_leaves_by_target_amounts tn_id tn_value (selectable_nodes s) targets = Inr tls"
      "reserve_selected uuid (selected_leaves tls) purpose permit 0 s = (r, s')"
  | (minimum) e sel pending target where
      "select_leaves_by_target_amounts tn_id tn_value (selectable_nodes s) targets = Inl e"
      "\<not> exact_only" "target = (case targets of None \<Rightarrow> 0 | Some ta \<Rightarrow> total_sats ta)"
      "select_leaves_by_minimum_amount tn_value (selectable_nodes s) target = Inr (Some sel)"
      "pending = (if sum_u64 (map tn_value sel) > target \<and> target > 0
                  then sum_u64 (map tn_value sel) - target else 0)"
      "reserve_selected uuid sel purpose permit pending s = (r, s')"
  | (refused) e target where
      "select_leaves_by_target_amounts tn_id tn_value (selectable_nodes s) targets = Inl e"
      "target = (case targets of None \<Rightarrow> 0 | Some ta \<Rightarrow> total_sats ta)"
      "exact_only \<or> (\<nexists>sel. select_leaves_by_minimum_amount tn_value (selectable_nodes s) target = Inr (Some sel))"
      "r = Inr (wait_or_insufficient s target)" "s' = s"
proof (cases "select_leaves_by_target_amounts tn_id tn_value (selectable_nodes s) targets")
  case (Inr tls)
  with assms show ?thesis by (intro exact) (auto simp: process_try_reserve_leaves_def Let_def)
next
  case (Inl e)
  define target where "target = (case targets of None \<Rightarrow> 0 | Some ta \<Rightarrow> total_sats ta)"
  show ?thesis
  proof (cases "\<not> exact_only \<and> (\<exists>sel. select_leaves_by_minimum_amount tn_value (selectable_nodes s) target = Inr (Some sel))")
    case True
    then obtain sel where sel: "select_leaves_by_minimum_amount tn_value (selectable_nodes s) target = Inr (Some sel)"
      by blast
    show ?thesis
      by (rule minimum [OF Inl _ target_def sel refl])
         (use assms Inl True sel in \<open>auto simp: process_try_reserve_leaves_def Let_def simp flip: target_def\<close>)
  next
    case False
    show ?thesis
      by (rule refused [OF Inl target_def])
         (use assms Inl False in \<open>auto simp: process_try_reserve_leaves_def Let_def
            split: sum.splits option.splits simp flip: target_def\<close>)
  qed
qed

subsection \<open>Properties of reservations\<close>

text \<open>A successful reservation moves exactly the returned leaves out of the pool into one new
  entry under the fresh id, all of them spendable, and touches no other reservation. Their value
  is the requested total plus the change recorded as pending; an exact reservation has no
  change.\<close>

theorem try_reserve_success:
  assumes inv: "store_inv s" and fresh: "uuid \<notin> fst ` set (ls_leaves_reservations s)"
    and small: "sum_list (map tn_value (selectable_nodes s)) < 2 ^ 64"
    and run: "process_try_reserve_leaves uuid (Some t) exact_only purpose permit s = (Inr (RR_Success res), s')"
  shows "lr_id res = uuid \<and> mset (lr_leaves res) \<subseteq># mset (selectable_nodes s)
    \<and> mset (pool_nodes s) = mset (pool_nodes s') + mset (lr_leaves res)
    \<and> (\<forall>r. r \<noteq> uuid \<longrightarrow> map_of (ls_leaves_reservations s') r = map_of (ls_leaves_reservations s) r)
    \<and> (\<exists>e. map_of (ls_leaves_reservations s') uuid = Some e \<and> entry_nodes e = lr_leaves res
           \<and> re_purpose e = purpose \<and> re_permit e = permit
           \<and> sum_list (map tn_value (lr_leaves res)) = total_sats t + re_pending_change_amount e
           \<and> (exact_only \<longrightarrow> re_pending_change_amount e = 0))"
proof -
  have "\<exists>sel pending. mset sel \<subseteq># mset (selectable_nodes s)
      \<and> sum_list (map tn_value sel) = total_sats t + pending \<and> (exact_only \<longrightarrow> pending = 0)
      \<and> reserve_selected uuid sel purpose permit pending s = (Inr (RR_Success res), s')"
    using run
  proof (cases rule: try_reserve_cases)
    case (exact tls)
    with target_selection_total [OF exact(1) small] show ?thesis
      by (intro exI [of _ "selected_leaves tls"] exI [of _ 0]) simp
  next
    case (minimum e sel pending target)
    note m = minimum_selection_prefix [OF minimum(4) small]
    have "sum_list (map tn_value sel) < 2 ^ 64"
      using sum_list_mset_mono [of sel "selectable_nodes s" tn_value] m small by simp
    with m minimum show ?thesis
      by (intro exI [of _ sel] exI [of _ pending]) (auto simp: sum_u64_small)
  next
    case (refused e target)
    then show ?thesis by (auto simp: wait_or_insufficient_def split: if_splits)
  qed
  then obtain sel pending where sub: "mset sel \<subseteq># mset (selectable_nodes s)"
      and sum: "sum_list (map tn_value sel) = total_sats t + pending" "exact_only \<longrightarrow> pending = 0"
      and rs: "reserve_selected uuid sel purpose permit pending s = (Inr (RR_Success res), s')"
    by blast
  from reserve_selected_success [OF rs] have ne: "sel \<noteq> []" and res: "res = \<lparr>lr_id = uuid, lr_leaves = sel\<rparr>"
      and s': "s' = snd (reserve_internal uuid sel purpose permit pending s)" by auto
  from reserve_internal_success(2-4) [OF inv fresh sub ne s'] sub sum show ?thesis
    unfolding res by auto
qed

definition example_store :: leaves_state where
  "example_store = leaves_state_default\<lparr>ls_leaves :=
     [(''a'', from_node (example_leaf ''a'' 4 None) 3), (''b'', from_node (example_leaf ''b'' 8 None) 5)]\<rparr>"

lemma example_store_inv: "store_inv example_store"
  by (simp add: store_inv_def example_store_def leaves_state_default_def wf_pool_def wf_map_def reserved_ids_def)

lemma example_store_simps [simp]:
  "ls_leaves example_store =
     [(''a'', from_node (example_leaf ''a'' 4 None) 3), (''b'', from_node (example_leaf ''b'' 8 None) 5)]"
  "ls_leaves_reservations example_store = []" "ls_spent_leaf_ids example_store = []"
  "ls_ancestors example_store = []" "ls_last_swap_completed_at example_store = None"
  "selectable_leaves example_store =
     [from_node (example_leaf ''a'' 4 None) 3, from_node (example_leaf ''b'' 8 None) 5]"
  by (simp_all add: example_store_def leaves_state_default_def selectable_leaves_def selectable_def)

lemma try_reserve_success_witness:
  "\<exists>res s'. process_try_reserve_leaves ''r'' (Some (AmountAndFee 6 None)) False Payment 0 example_store
       = (Inr (RR_Success res), s')
     \<and> mset (pool_nodes example_store) = mset (pool_nodes s') + mset (lr_leaves res)"
proof -
  have ip: "is_power_of_two 4" "is_power_of_two 8"
    unfolding is_power_of_two_iff by (rule exI [of _ 2], simp) (rule exI [of _ 3], simp)
  have "\<exists>res s'. process_try_reserve_leaves ''r'' (Some (AmountAndFee 6 None)) False Payment 0 example_store
      = (Inr (RR_Success res), s')"
    by (simp add: process_try_reserve_leaves_def select_eval ip reserve_selected_def reserve_internal_def)
  then obtain res s' where run: "process_try_reserve_leaves ''r'' (Some (AmountAndFee 6 None)) False Payment 0
      example_store = (Inr (RR_Success res), s')" by blast
  from try_reserve_success [OF example_store_inv _ _ run] run show ?thesis by auto
qed

text \<open>A request that may be over-served (not \<open>exact_only\<close>) is decided by the balance alone: when the
  spendable balance covers it a reservation is made, and otherwise nothing changes and the
  answer is to wait exactly when the change expected from running swaps would cover it.\<close>

theorem try_reserve_decides:
  assumes inv: "store_inv s" and fresh: "uuid \<notin> fst ` set (ls_leaves_reservations s)"
    and small: "sum_list (map tn_value (selectable_nodes s)) + pending_balance s < 2 ^ 64"
    and pos: "0 < total_sats t"
  shows "if total_sats t \<le> sum_list (map tn_value (selectable_nodes s))
    then \<exists>res s'. process_try_reserve_leaves uuid (Some t) False purpose permit s = (Inr (RR_Success res), s')
    else process_try_reserve_leaves uuid (Some t) False purpose permit s =
      (Inr (if total_sats t \<le> sum_list (map tn_value (selectable_nodes s)) + pending_balance s
            then RR_WaitForPending (total_sats t) (sum_list (map tn_value (selectable_nodes s))) (pending_balance s)
            else RR_InsufficientFunds), s)"
proof -
  have small': "sum_list (map tn_value (selectable_nodes s)) < 2 ^ 64" using small by simp
  have avail: "available_balance s = sum_list (map tn_value (selectable_nodes s))"
    using small' by (simp add: available_balance_def sum_u64_small o_def)
  obtain r s' where run: "process_try_reserve_leaves uuid (Some t) False purpose permit s = (r, s')" by fastforce
  have ok: "\<exists>res s'. reserve_selected uuid sel purpose permit pending s = (Inr (RR_Success res), s')"
    if "mset sel \<subseteq># mset (selectable_nodes s)" "0 < sum_list (map tn_value sel)" for sel pending
  proof -
    from that have "sel \<noteq> []" by auto
    from reserve_internal_success(1) [OF inv fresh that(1) this refl, of purpose permit pending]
    show ?thesis by (cases "reserve_internal uuid sel purpose permit pending s") (simp add: reserve_selected_def)
  qed
  from run show ?thesis
  proof (cases rule: try_reserve_cases)
    case (exact tls)
    note tot = target_selection_total [OF exact(1) small']
    from ok [OF tot(1), of 0] tot(2) pos sum_list_mset_mono [OF tot(1), of tn_value] exact(2) run show ?thesis by auto
  next
    case (minimum e sel pending target)
    note m = minimum_selection_prefix [OF minimum(4) small']
    from ok [of sel pending] m pos sum_list_mset_mono [of sel "selectable_nodes s" tn_value] minimum run
    show ?thesis by auto
  next
    case (refused e target)
    then have "sum_list (map tn_value (selectable_nodes s)) < total_sats t"
      using minimum_amount_spec [OF small', of "total_sats t"] pos by (auto simp: not_less [symmetric])
    with refused run small avail show ?thesis by (simp add: wait_or_insufficient_def)
  qed
qed

lemma try_reserve_decides_witness:
  "process_try_reserve_leaves ''r'' (Some (AmountAndFee 20 None)) False Payment 0 example_store
     = (Inr RR_InsufficientFunds, example_store)"
  using try_reserve_decides [OF example_store_inv, of "''r''" "AmountAndFee 20 None" Payment 0]
  by (simp add: pending_balance_def sum_u64_def)

lemma collect_reservable_spec:
  "collect_reservable pool ids =
     (if \<forall>i \<in> set ids. \<exists>sl. map_of pool i = Some sl \<and> selectable sl
      then Inr (map (\<lambda>i. sl_node (the (map_of pool i))) ids) else Inl TSE_NonReservableLeaves)"
  by (induction ids) (auto simp: selectable_def split: option.splits)

lemma reservable_ids_selectable:
  assumes inv: "store_inv s" and "distinct ids"
    and all: "\<forall>i \<in> set ids. \<exists>sl. map_of (ls_leaves s) i = Some sl \<and> selectable sl"
    and sel: "sel = map (\<lambda>i. sl_node (the (map_of (ls_leaves s) i))) ids"
  shows "map tn_id sel = ids" and "mset sel \<subseteq># mset (selectable_nodes s)"
proof -
  have wf: "wf_pool (ls_leaves s)" using inv by (simp add: store_inv_alt)
  show ids: "map tn_id sel = ids" unfolding sel using all by (force intro: map_idI dest: wf_poolD [OF wf])
  have "set sel \<subseteq> set (selectable_nodes s)"
  proof
    fix n assume "n \<in> set sel"
    then obtain i where i: "i \<in> set ids" "n = sl_node (the (map_of (ls_leaves s) i))" unfolding sel by auto
    with all obtain sl where "map_of (ls_leaves s) i = Some sl" "selectable sl" by blast
    with i show "n \<in> set (selectable_nodes s)" by (force simp: selectable_leaves_def dest: map_of_SomeD)
  qed
  moreover have "distinct sel" using assms(2) ids by (metis distinct_map)
  ultimately show "mset sel \<subseteq># mset (selectable_nodes s)" by (intro distinct_subset_mset)
qed

text \<open>Reserving by id is all or nothing: the request succeeds exactly when the ids are distinct,
  there is at least one, and each names an unreserved spendable leaf; then exactly those leaves,
  in that order, move into the new entry. Otherwise the store is unchanged.\<close>

theorem reserve_by_ids_all_or_nothing:
  assumes inv: "store_inv s" and fresh: "uuid \<notin> fst ` set (ls_leaves_reservations s)"
  shows "if ids \<noteq> [] \<and> distinct ids \<and> (\<forall>i \<in> set ids. \<exists>sl. map_of (ls_leaves s) i = Some sl \<and> selectable sl)
    then \<exists>nodes s' e. process_reserve_leaves_by_ids uuid ids purpose permit s
           = (Inr \<lparr>lr_id = uuid, lr_leaves = nodes\<rparr>, s')
         \<and> map tn_id nodes = ids \<and> mset (pool_nodes s) = mset (pool_nodes s') + mset nodes
         \<and> map_of (ls_leaves_reservations s') uuid = Some e \<and> entry_nodes e = nodes \<and> re_purpose e = purpose
    else process_reserve_leaves_by_ids uuid ids purpose permit s = (Inl TSE_NonReservableLeaves, s)"
proof (cases "ids \<noteq> [] \<and> distinct ids \<and> (\<forall>i \<in> set ids. \<exists>sl. map_of (ls_leaves s) i = Some sl \<and> selectable sl)")
  case True
  let ?n = "\<lambda>i. sl_node (the (map_of (ls_leaves s) i))"
  from True reservable_ids_selectable [OF inv _ _ refl, of ids]
  have ids: "map tn_id (map ?n ids) = ids" and sub: "mset (map ?n ids) \<subseteq># mset (selectable_nodes s)" by blast+
  obtain s' where r: "reserve_internal uuid (map ?n ids) purpose permit 0 s = (Inr uuid, s')"
    using reserve_internal_success(1) [OF inv fresh sub _ refl, of purpose permit 0] True
    by (metis list.map_disc_iff prod.collapse)
  from reserve_internal_success(2,4) [OF inv fresh sub, of s' purpose permit 0] True r obtain e where
    e: "map_of (ls_leaves_reservations s') uuid = Some e" "entry_nodes e = map ?n ids" "re_purpose e = purpose"
       "mset (pool_nodes s) = mset (pool_nodes s') + mset (map ?n ids)" by auto
  have "process_reserve_leaves_by_ids uuid ids purpose permit s
      = (Inr \<lparr>lr_id = uuid, lr_leaves = map ?n ids\<rparr>, s')"
    using True r by (simp add: process_reserve_leaves_by_ids_def collect_reservable_spec distinct_card)
  with e ids True show ?thesis by (metis (no_types, lifting))
next
  case False
  have "card (set ids) = length ids \<longleftrightarrow> distinct ids" using card_distinct distinct_card by blast
  with False have "process_reserve_leaves_by_ids uuid ids purpose permit s = (Inl TSE_NonReservableLeaves, s)"
    by (auto simp: process_reserve_leaves_by_ids_def collect_reservable_spec)
  with False show ?thesis by (simp only: if_False)
qed

lemma reserve_by_ids_all_or_nothing_witness:
  "process_reserve_leaves_by_ids ''r'' [''a'', ''z''] Swap 0 example_store
     = (Inl TSE_NonReservableLeaves, example_store)"
  using reserve_by_ids_all_or_nothing [OF example_store_inv, of "''r''" "[''a'', ''z'']" Swap 0] by simp

end
