(* ===== verification/Tree_Store_Refresh.thy ===== *)
theory Tree_Store_Refresh
  imports Tree_Store_Props
begin

text \<open>
  Refreshing the leaf store against a snapshot of the operators, which was taken some time before
  it is applied. \<open>refreshed_leaf\<close> is the specification of the pool after a refresh, id by id; the
  handler is shown to implement it. The races the store guards against are stated as
  sequences of commands: a reservation finalised, or a swap completed, while the snapshot was being
  fetched.
\<close>

subsection \<open>The pool after a refresh\<close>

text \<open>What a refresh may not change of a reservation: everything but the data of its leaves.\<close>

fun entry_frame ::
  "leaves_reservation_id \<times> reservation_entry
     \<Rightarrow> leaves_reservation_id \<times> tree_node_id list \<times> reservation_purpose \<times> permit \<times> u64" where
  "entry_frame (r, e) = (r, entry_ids e, re_purpose e, re_permit e, re_pending_change_amount e)"

definition last_reported :: "tree_node_id \<Rightarrow> tree_node list \<Rightarrow> tree_node option" where
  "last_reported i ls = find (\<lambda>l. tn_id l = i) (rev ls)"

definition refreshed_leaf ::
  "system_time \<Rightarrow> tree_node list \<Rightarrow> tree_node list \<Rightarrow> system_time \<Rightarrow> leaves_state \<Rightarrow> tree_node_id
     \<Rightarrow> stored_leaf option" where
  "refreshed_leaf now ls missing started s i =
     (let spent = (case map_of (ls_spent_leaf_ids s) i of None \<Rightarrow> False | Some t \<Rightarrow> t \<ge> started);
          kept = (case map_of (ls_leaves s) i of
                    None \<Rightarrow> None | Some sl \<Rightarrow> if sl_added_at sl \<ge> started then Some sl else None)
      in if spent then kept
         else case last_reported i missing of
           Some l \<Rightarrow> Some (from_node_missing l now)
         | None \<Rightarrow> (case last_reported i ls of Some l \<Rightarrow> Some (from_node l now) | None \<Rightarrow> kept))"

lemma insert_unspent_lookup:
  "map_of (fold (insert_unspent spent mk) ls pool) i =
     (if hm_contains i spent then map_of pool i
      else case last_reported i ls of Some l \<Rightarrow> Some (mk l) | None \<Rightarrow> map_of pool i)"
  by (induction ls arbitrary: pool rule: rev_induct)
     (auto simp: last_reported_def insert_unspent_def update_conv')

lemma preserve_recent_lookup:
  assumes "wf_map old"
  shows "map_of (fold (preserve_recent started) old pool) i =
     (case map_of pool i of Some sl \<Rightarrow> Some sl
      | None \<Rightarrow> (case map_of old i of None \<Rightarrow> None
                  | Some sl \<Rightarrow> if sl_added_at sl \<ge> started then Some sl else None))"
  using assms
proof (induction old arbitrary: pool)
  case (Cons kv old)
  obtain k sl where kv: "kv = (k, sl)" by (cases kv)
  from Cons.prems kv have wf: "wf_map old" and k: "map_of old k = None"
    by (auto simp: wf_map_def map_of_eq_None_iff)
  have dom: "k \<in> fst ` set pool \<longleftrightarrow> map_of pool k \<noteq> None" by (simp add: map_of_eq_None_iff)
  show ?case
    using Cons.IH [OF wf, of "preserve_recent started kv pool"] k dom
    by (auto simp: kv preserve_recent_def update_conv' split: option.splits)
qed (simp split: option.split)

lemma refreshed_pool_lookup:
  assumes "store_inv s" and "spent = hm_retain (\<lambda>_ spent_at. spent_at \<ge> started) (ls_spent_leaf_ids s)"
  shows "map_of (refreshed_pool now ls missing started spent (ls_leaves s)) i
    = refreshed_leaf now ls missing started s i"
proof -
  have wf: "wf_map (ls_leaves s)" "wf_map (ls_spent_leaf_ids s)"
    using assms(1) by (simp_all add: store_inv_alt wf_pool_def)
  have "hm_contains i spent \<longleftrightarrow> (case map_of (ls_spent_leaf_ids s) i of None \<Rightarrow> False | Some t \<Rightarrow> t \<ge> started)"
    unfolding hm_contains_def assms(2) hm_get_retain [OF wf(2)] by (simp split: option.split)
  then show ?thesis
    unfolding refreshed_pool_def Let_def preserve_recent_lookup [OF wf(1)] insert_unspent_lookup refreshed_leaf_def
    by (auto split: option.splits)
qed

lemma refresh_entries:
  assumes "refresh_reservations pool rs = (pool', rs')" and "wf_pool pool"
  shows "map entry_frame rs'
    = map entry_frame rs"
  using assms
proof (induction pool rs arbitrary: pool' rs' rule: refresh_reservations.induct)
  case (2 pool r e rs)
  obtain p sls where e: "refresh_entry pool (re_leaves e) = (p, sls)" by fastforce
  obtain p' q where q: "refresh_reservations p rs = (p', q)" by fastforce
  from 2(1) [OF e [symmetric] q] refresh_entry_spec [OF e 2(3)] 2(2) e q show ?case
    by (auto simp: entry_ids_def)
qed simp

lemma set_leaves_spec:
  assumes inv: "store_inv s" and run: "\<not> (has_active_swap s \<or> swap_completed_during_refresh s started)"
    and s': "s' = snd (process_set_leaves now ls missing started s)"
  shows "(\<forall>i. map_of (ls_leaves s') i =
      (if i \<in> set (reserved_ids (ls_leaves_reservations s)) then None
       else refreshed_leaf now ls missing started s i))
    \<and> map entry_frame (ls_leaves_reservations s')
      = map entry_frame (ls_leaves_reservations s)
    \<and> (\<forall>i t. map_of (ls_spent_leaf_ids s') i = Some t \<longleftrightarrow> map_of (ls_spent_leaf_ids s) i = Some t \<and> started \<le> t)"
proof -
  define spent where "spent = hm_retain (\<lambda>_ spent_at. spent_at \<ge> started) (ls_spent_leaf_ids s)"
  define new where "new = refreshed_pool now ls missing started spent (ls_leaves s)"
  obtain pool rs where r: "refresh_reservations new (ls_leaves_reservations s) = (pool, rs)" by fastforce
  have wf: "wf_pool new" unfolding new_def using inv by (intro refreshed_pool_wf) (simp add: store_inv_alt)
  note spec = refresh_reservations_spec [OF r wf]
  have st: "ls_leaves s' = pool" "ls_leaves_reservations s' = rs" "ls_spent_leaf_ids s' = spent"
    unfolding s' set_leaves_proceed [OF run spent_def r [unfolded new_def]] by simp_all
  have out: "i \<in> set (reserved_ids (ls_leaves_reservations s)) \<Longrightarrow> map_of pool i = None" for i
    using spec by (auto simp: map_of_eq_None_iff)
  have "map_of (ls_leaves s') i =
      (if i \<in> set (reserved_ids (ls_leaves_reservations s)) then None
       else refreshed_leaf now ls missing started s i)" for i
    using spec out refreshed_pool_lookup [OF inv spent_def, of now ls missing i]
    by (simp add: st flip: new_def)
  moreover have "map_of spent i = Some t \<longleftrightarrow> map_of (ls_spent_leaf_ids s) i = Some t \<and> started \<le> t" for i t
    using inv by (auto simp: spent_def hm_get_retain store_inv_alt split: option.splits)
  ultimately show ?thesis using refresh_entries [OF r wf] by (simp add: st)
qed



lemma set_leaves_skipped:
  "has_active_swap s \<or> swap_completed_during_refresh s started
     \<Longrightarrow> process_set_leaves now ls missing started s = (Inr (), s)"
  by (simp add: process_set_leaves_def)

lemma reserved_ids_cong:
  assumes "map entry_frame rs'
    = map entry_frame rs"
  shows "reserved_ids rs' = reserved_ids rs"
proof -
  have eq: "reserved_ids rs = concat (map (fst \<circ> snd) (map entry_frame rs))" for rs
    by (induction rs) auto
  show ?thesis unfolding eq [of rs'] eq [of rs] assms ..
qed

lemma set_leaves_stored:
  assumes "store_inv s" and "\<not> (has_active_swap s \<or> swap_completed_during_refresh s started)"
  shows "i \<in> stored_ids (snd (process_set_leaves now ls missing started s)) \<longleftrightarrow>
    i \<in> set (reserved_ids (ls_leaves_reservations s)) \<or> refreshed_leaf now ls missing started s i \<noteq> None"
proof -
  let ?s' = "snd (process_set_leaves now ls missing started s)"
  note spec = set_leaves_spec [OF assms refl, of now ls missing]
  have "i \<in> fst ` set (ls_leaves ?s') \<longleftrightarrow> map_of (ls_leaves ?s') i \<noteq> None"
    by (simp add: map_of_eq_None_iff)
  moreover have "reserved_ids (ls_leaves_reservations ?s') = reserved_ids (ls_leaves_reservations s)"
    using spec by (intro reserved_ids_cong) simp
  ultimately show ?thesis using spec by (auto simp: stored_ids_def)
qed

subsection \<open>Races with a refresh\<close>

lemma mark_spent_lookup:
  "map_of (mark_spent now sls spent) i = (if i \<in> sl_id ` set sls then Some now else map_of spent i)"
  unfolding mark_spent_def by (induction sls arbitrary: spent) (auto simp: update_conv')

lemma finalize_state:
  assumes "map_of (ls_leaves_reservations s) r = Some e"
    and "s1 = snd (process_finalize_reservation now now' r new_leaves s)"
  shows "ls_leaves s1 = insert_nodes now' (case new_leaves of None \<Rightarrow> [] | Some ls \<Rightarrow> ls) (ls_leaves s)"
    and "ls_leaves_reservations s1 = hm_remove r (ls_leaves_reservations s)"
    and "ls_spent_leaf_ids s1 = mark_spent now (re_leaves e) (ls_spent_leaf_ids s)"
    and "re_purpose e = Swap \<and> new_leaves \<noteq> None \<Longrightarrow> ls_last_swap_completed_at s1 = Some now"
  using assms by (auto simp: process_finalize_reservation_def Let_def insert_nodes_def split: option.splits)


definition example_reserved :: "reservation_purpose \<Rightarrow> leaves_state" where
  "example_reserved p = example_store\<lparr>ls_leaves_reservations :=
     [(''r'', \<lparr>re_leaves = [from_node (example_leaf ''c'' 16 None) 2], re_purpose = p, re_permit = 0,
        re_pending_change_amount = 6\<rparr>)]\<rparr>"

lemma example_reserved_inv: "store_inv (example_reserved p)"
  by (simp add: store_inv_alt example_reserved_def wf_pool_def wf_map_def entry_ids_def)


text \<open>Adding a leaf stamps it with the current time, or updates it inside its reservation.\<close>

lemma add_leaf_reserved_ids [simp]:
  "reserved_ids (ls_leaves_reservations (add_leaf now l s)) = reserved_ids (ls_leaves_reservations s)"
  using update_in_reservations_ids [of l "ls_leaves_reservations s"]
  by (auto simp: add_leaf_def split: option.splits)

lemma add_leaves_stamp:
  assumes "i \<in> tn_id ` set ls \<or> (\<exists>sl. map_of (ls_leaves s) i = Some sl \<and> sl_added_at sl = now)"
    and "i \<notin> set (reserved_ids (ls_leaves_reservations s))"
  shows "\<exists>sl. map_of (ls_leaves (fold (add_leaf now) ls s)) i = Some sl \<and> sl_added_at sl = now"
  using assms
proof (induction ls arbitrary: s)
  case (Cons l ls)
  have "i \<in> tn_id ` set ls \<or> (\<exists>sl. map_of (ls_leaves (add_leaf now l s)) i = Some sl \<and> sl_added_at sl = now)"
  proof (cases "update_in_reservations l (ls_leaves_reservations s)")
    case None
    with Cons.prems(1) show ?thesis by (auto simp: add_leaf_def update_conv')
  next
    case (Some rs)
    then have "tn_id l \<in> set (reserved_ids (ls_leaves_reservations s))"
      using update_in_reservations_None [of l "ls_leaves_reservations s"] by simp
    with Some Cons.prems show ?thesis by (auto simp: add_leaf_def)
  qed
  with Cons.IH [of "add_leaf now l s"] Cons.prems(2) show ?case by simp
qed simp

lemma add_leaves_reserved_ids [simp]:
  "reserved_ids (ls_leaves_reservations (fold (add_leaf now) ls s)) = reserved_ids (ls_leaves_reservations s)"
  by (induction ls arbitrary: s) simp_all

text \<open>Incoming leaves are not lost to a race: leaves added (a claimed payment, say) while a snapshot
  was being fetched survive its application, whatever the snapshot reports.\<close>

theorem added_leaf_survives_stale_refresh:
  assumes inv: "store_inv s" and stale: "started \<le> now"
    and s1: "s1 = snd (process_add_leaves now added s)"
    and s2: "s2 = snd (process_set_leaves t ls missing started s1)"
  shows "tn_id ` set added \<subseteq> stored_ids s2"
proof
  fix i assume i: "i \<in> tn_id ` set added"
  have inv1: "store_inv s1" unfolding s1 by (rule add_leaves_inv [OF inv])
  consider (reserved) "i \<in> set (reserved_ids (ls_leaves_reservations s1))"
    | (pool) sl where "map_of (ls_leaves s1) i = Some sl" "sl_added_at sl = now"
    using add_leaves_stamp [of i added s now] i by (auto simp: s1 process_add_leaves_def)
  then have "i \<in> stored_ids s1 \<and> (i \<in> set (reserved_ids (ls_leaves_reservations s1))
      \<or> refreshed_leaf t ls missing started s1 i \<noteq> None)"
  proof cases
    case pool
    then have "i \<in> fst ` set (ls_leaves s1)" by (force dest: map_of_SomeD)
    with pool stale show ?thesis
      by (simp add: stored_ids_def refreshed_leaf_def Let_def split: option.splits)
  qed (simp add: stored_ids_def)
  then show "i \<in> stored_ids s2"
    using set_leaves_stored [OF inv1, of started i] set_leaves_skipped [of s1 started]
    by (cases "has_active_swap s1 \<or> swap_completed_during_refresh s1 started") (auto simp: s2)
qed

lemma added_leaf_survives_stale_refresh_witness:
  "''n'' \<in> stored_ids (snd (process_set_leaves 20 [] [] 7
     (snd (process_add_leaves 10 [example_leaf ''n'' 16 None] example_store))))"
  using added_leaf_survives_stale_refresh [OF example_store_inv _ refl refl,
      of 7 10 "[example_leaf ''n'' 16 None]" 20 "[]" "[]"] by simp

lemma last_reported_SomeD: "last_reported i ls = Some l \<Longrightarrow> l \<in> set ls \<and> tn_id l = i"
  unfolding last_reported_def find_Some_iff by (auto simp: rev_nth)

lemma last_reported_Some: "l \<in> set ls \<Longrightarrow> \<exists>l'. last_reported (tn_id l) ls = Some l'"
  by (cases "last_reported (tn_id l) ls") (auto simp: last_reported_def find_None_iff)

text \<open>The guard of the previous properties is missing from the update that follows a swap made for a
  payment: the leaves the swap consumed are not recorded as spent and the time of the swap is not
  recorded, so a snapshot begun before the update and applied after it puts consumed leaves back
  into the pool.\<close>

theorem update_lets_stale_refresh_restore_consumed:
  assumes inv: "store_inv s" and e: "map_of (ls_leaves_reservations s) r = Some e"
    and quiet: "\<not> (has_active_swap s \<or> swap_completed_during_refresh s started)"
    and consumed: "l \<in> set ls" "tn_id l \<in> set (entry_ids e)"
      "tn_id l \<notin> tn_id ` set (reserved @ change @ missing)"
      "map_of (ls_spent_leaf_ids s) (tn_id l) = None"
    and ok: "command_ok env (UpdateReservation r reserved change) s"
    and s1: "s1 = snd (process_update_reservation now r reserved change s)"
    and s2: "s2 = snd (process_set_leaves t ls missing started s1)"
  shows "\<exists>l'. map_of (ls_leaves s2) (tn_id l) = Some (from_node l' t) \<and> l' \<in> set ls \<and> tn_id l' = tn_id l"
proof -
  let ?rs = "ls_leaves_reservations s"
  have purpose: "re_purpose e \<noteq> Swap" using quiet e by (force simp: has_active_swap_def dest: map_of_SomeD)
  have st: "ls_spent_leaf_ids s1 = ls_spent_leaf_ids s" "ls_last_swap_completed_at s1 = ls_last_swap_completed_at s"
    "ls_leaves_reservations s1 = hm_insert r \<lparr>re_leaves = map (\<lambda>l. from_node l now) reserved, re_purpose = re_purpose e,
        re_permit = re_permit e, re_pending_change_amount = 0\<rparr> (hm_remove r ?rs)"
    using e by (simp_all add: s1 process_update_reservation_def)
  have inv1: "store_inv s1" unfolding s1 using inv ok by (intro update_inv) simp_all
  have q1: "\<not> (has_active_swap s1 \<or> swap_completed_during_refresh s1 started)"
    using quiet purpose set_remove_subset [of r ?rs]
    by (auto simp: has_active_swap_def swap_completed_during_refresh_def st insert_fresh)
  have "tn_id l \<notin> set (reserved_ids (hm_remove r ?rs))"
    using distinct_reserved_remove(3) [OF _ _ e] inv consumed(2) by (auto simp: store_inv_alt)
  moreover have "tn_id l \<notin> tn_id ` set reserved" using consumed(3) by auto
  ultimately have free: "tn_id l \<notin> set (reserved_ids (ls_leaves_reservations s1))"
    by (simp add: st reserved_ids_insert_fresh entry_ids_def image_image)
  obtain l' where l': "last_reported (tn_id l) ls = Some l'" using last_reported_Some consumed(1) by blast
  have "last_reported (tn_id l) missing = None"
  proof -
    have "tn_id l \<notin> tn_id ` set missing" using consumed(3) by auto
    then have "\<forall>x \<in> set missing. tn_id x \<noteq> tn_id l" by (metis image_eqI)
    then show ?thesis by (auto simp: last_reported_def find_None_iff)
  qed
  with l' consumed(4) have "refreshed_leaf t ls missing started s1 (tn_id l) = Some (from_node l' t)"
    by (simp add: refreshed_leaf_def st)
  with set_leaves_spec [OF inv1 q1 s2] free have "map_of (ls_leaves s2) (tn_id l) = Some (from_node l' t)" by simp
  moreover have "l' \<in> set ls" "tn_id l' = tn_id l" using last_reported_SomeD [OF l'] by simp_all
  ultimately show ?thesis by blast
qed

lemma update_lets_stale_refresh_restore_consumed_witness:
  "\<exists>l'. map_of (ls_leaves (snd (process_set_leaves 20 [example_leaf ''c'' 16 None] [] 7
     (snd (process_update_reservation 10 ''r'' [example_leaf ''d'' 10 None] [example_leaf ''f'' 6 None]
       (example_reserved Payment)))))) ''c'' = Some (from_node l' 20)"
proof -
  have e: "map_of (ls_leaves_reservations (example_reserved Payment)) ''r'' =
      Some \<lparr>re_leaves = [from_node (example_leaf ''c'' 16 None) 2], re_purpose = Payment, re_permit = 0,
        re_pending_change_amount = 6\<rparr>" by (simp add: example_reserved_def)
  show ?thesis
    using update_lets_stale_refresh_restore_consumed [OF example_reserved_inv e _ _ _ _ _ _ refl refl,
        of 7 "example_leaf ''c'' 16 None" "[example_leaf ''c'' 16 None]" "[example_leaf ''d'' 10 None]"
          "[example_leaf ''f'' 6 None]" "[]" undefined 20 10]
    by (auto simp: entry_ids_def example_reserved_def has_active_swap_def swap_completed_during_refresh_def)
qed

end
