(* ===== verification/Tree_Store_Semaphore.thy ===== *)
theory Tree_Store_Semaphore
  imports Tree_Store_Refresh
begin

text \<open>
  The leaf store as its callers see it: a bounded command queue in front of the processor, and a
  semaphore whose permits travel with the reserving commands into the reservations
  (\<^verbatim>\<open>InMemoryTreeStore\<close>, \<^verbatim>\<open>with_config\<close>, \<^verbatim>\<open>send_command\<close>, \<^verbatim>\<open>try_reserve_leaves\<close> and
  \<^verbatim>\<open>try_reserve_leaves_by_ids\<close> of \<^verbatim>\<open>crates/spark/src/tree/store.rs\<close>).

  A permit is dropped when the value that owns it is: a command whose reservation did not
  happen, or a reservation entry that was removed. Dropping it returns it to the semaphore.
\<close>

subsection \<open>Definitions\<close>

record store_sys =
  sys_free :: "permit list"
  sys_queue :: "store_command list"
  sys_store :: leaves_state

fun cmd_permits :: "store_command \<Rightarrow> permit list" where
  "cmd_permits (TryReserveLeaves _ _ _ p) = [p]"
| "cmd_permits (ReserveLeavesByIds _ _ p) = [p]"
| "cmd_permits _ = []"

definition held_permits :: "leaves_state \<Rightarrow> permit list" where
  "held_permits s = map re_permit (hm_values (ls_leaves_reservations s))"

definition with_config :: "nat \<Rightarrow> store_sys" where
  "with_config max_concurrent_reservations =
     \<lparr>sys_free = [0..<max_concurrent_reservations], sys_queue = [], sys_store = leaves_state_default\<rparr>"

definition acquire_permit ::
  "nat \<Rightarrow> nat \<Rightarrow> store_sys \<Rightarrow> (tree_service_error, permit \<times> store_sys) rust_result" where
  "acquire_permit max_concurrent reservation_timeout sys =
     (case sys_free sys of
        [] \<Rightarrow> Inl (TSE_ResourceBusy max_concurrent reservation_timeout)
      | p # ps \<Rightarrow> Inr (p, sys\<lparr>sys_free := ps\<rparr>))"

definition send_command :: "store_command \<Rightarrow> store_sys \<Rightarrow> store_sys option" where
  "send_command cmd sys =
     (if length (sys_queue sys) < 1024 then Some (sys\<lparr>sys_queue := sys_queue sys @ [cmd]\<rparr>) else None)"

definition api_try_reserve_leaves ::
  "nat \<Rightarrow> nat \<Rightarrow> target_amounts option \<Rightarrow> bool \<Rightarrow> reservation_purpose \<Rightarrow> store_sys
     \<Rightarrow> (tree_service_error, store_sys option) rust_result" where
  "api_try_reserve_leaves max_concurrent timeout targets exact_only purpose sys =
     qbind (acquire_permit max_concurrent timeout sys) (\<lambda>(p, sys').
       Inr (send_command (TryReserveLeaves targets exact_only purpose p) sys'))"

definition api_try_reserve_leaves_by_ids ::
  "nat \<Rightarrow> nat \<Rightarrow> tree_node_id list \<Rightarrow> reservation_purpose \<Rightarrow> store_sys
     \<Rightarrow> (tree_service_error, store_sys option) rust_result" where
  "api_try_reserve_leaves_by_ids max_concurrent timeout ids purpose sys =
     qbind (acquire_permit max_concurrent timeout sys) (\<lambda>(p, sys').
       Inr (send_command (ReserveLeavesByIds ids purpose p) sys'))"

definition receive_command :: "store_env \<Rightarrow> store_command \<Rightarrow> store_command list \<Rightarrow> store_sys \<Rightarrow> store_sys" where
  "receive_command env cmd rest sys =
     (let s = sys_store sys; s' = snd (handle_command env cmd s);
          dropped = filter (\<lambda>p. p \<notin> set (held_permits s')) (cmd_permits cmd @ held_permits s)
      in \<lparr>sys_free = sys_free sys @ dropped, sys_queue = rest, sys_store = s'\<rparr>)"

text \<open>Interleavings of the callers and the processor. A caller whose queue is full waits, so it
  takes no step.\<close>

inductive sys_step :: "nat \<Rightarrow> store_sys \<Rightarrow> store_sys \<Rightarrow> bool" for max_concurrent where
  step_send: "cmd_permits cmd = [] \<Longrightarrow> send_command cmd sys = Some sys' \<Longrightarrow> sys_step max_concurrent sys sys'"
| step_reserve: "api_try_reserve_leaves max_concurrent timeout targets exact_only purpose sys = Inr (Some sys')
     \<Longrightarrow> sys_step max_concurrent sys sys'"
| step_reserve_by_ids: "api_try_reserve_leaves_by_ids max_concurrent timeout ids purpose sys = Inr (Some sys')
     \<Longrightarrow> sys_step max_concurrent sys sys'"
| step_receive: "sys_queue sys = cmd # rest \<Longrightarrow> command_ok env cmd (sys_store sys)
     \<Longrightarrow> sys_step max_concurrent sys (receive_command env cmd rest sys)"

inductive sys_reachable :: "nat \<Rightarrow> store_sys \<Rightarrow> bool" for max_concurrent where
  sys_init: "sys_reachable max_concurrent (with_config max_concurrent)"
| sys_next: "sys_reachable max_concurrent sys \<Longrightarrow> sys_step max_concurrent sys sys'
     \<Longrightarrow> sys_reachable max_concurrent sys'"

subsection \<open>Permits held by the reservations\<close>

lemma held_insert_fresh:
  "r \<notin> fst ` set rs \<Longrightarrow> map re_permit (hm_values (hm_insert r e rs)) = map re_permit (hm_values rs) @ [re_permit e]"
  by (simp add: insert_fresh)

lemma held_remove:
  assumes "wf_map rs" and "map_of rs r = Some e"
  shows "mset (map re_permit (hm_values rs)) = add_mset (re_permit e) (mset (map re_permit (hm_values (hm_remove r rs))))"
  using arg_cong [OF mset_values_remove [OF assms], of "image_mset re_permit"] by (simp add: multiset.map_comp)

lemma held_remove_subset: "mset (map re_permit (hm_values (hm_remove r rs))) \<subseteq># mset (map re_permit (hm_values rs))"
  unfolding AList.delete_eq by (induction rs) (auto intro: subset_mset.order_trans)

lemma update_in_reservations_permits:
  "update_in_reservations l rs = Some rs' \<Longrightarrow> map re_permit (hm_values rs') = map re_permit (hm_values rs)"
  by (induction l rs arbitrary: rs' rule: update_in_reservations.induct) (auto split: option.splits)

lemma add_leaves_permits: "held_permits (snd (process_add_leaves now ls s)) = held_permits s"
proof -
  have "held_permits (add_leaf now l s) = held_permits s" for l s
    using update_in_reservations_permits by (auto simp: held_permits_def add_leaf_def split: option.splits)
  then show ?thesis unfolding process_add_leaves_def by (induction ls arbitrary: s) simp_all
qed

lemma store_ancestors_permits: "held_permits (snd (process_store_ancestors ps s)) = held_permits s"
  unfolding process_store_ancestors_def by (induction ps arbitrary: s) (simp_all add: held_permits_def)

lemma entry_frame_permits:
  assumes "map entry_frame rs' = map entry_frame rs"
  shows "map re_permit (hm_values rs') = map re_permit (hm_values rs)"
proof -
  have eq: "map re_permit (hm_values rs) = map (\<lambda>(_, _, _, p, _). p) (map entry_frame rs)" for rs
    by (induction rs) auto
  show ?thesis unfolding eq [of rs'] eq [of rs] assms ..
qed

lemma set_leaves_permits:
  assumes "store_inv s"
  shows "held_permits (snd (process_set_leaves now ls missing started s)) = held_permits s"
proof (cases "has_active_swap s \<or> swap_completed_during_refresh s started")
  case False
  then show ?thesis unfolding held_permits_def
    using set_leaves_spec [OF assms False refl, of now ls missing] by (intro entry_frame_permits) simp
qed (simp add: set_leaves_skipped)

lemma reserve_internal_permits:
  assumes "uuid \<notin> fst ` set (ls_leaves_reservations s)"
  shows "mset (held_permits (snd (reserve_internal uuid ls purpose p pending s))) \<subseteq># add_mset p (mset (held_permits s))"
  using assms by (auto simp: reserve_internal_def held_permits_def insert_fresh split: prod.splits)

lemma finalize_permits: "mset (held_permits (snd (process_finalize_reservation now now' r new_leaves s))) \<subseteq># mset (held_permits s)"
  using held_remove_subset [of r "ls_leaves_reservations s"]
  by (auto simp: process_finalize_reservation_def Let_def held_permits_def split: option.splits)

lemma update_permits:
  assumes "store_inv s"
  shows "mset (held_permits (snd (process_update_reservation now r reserved change s))) = mset (held_permits s)"
proof (cases "map_of (ls_leaves_reservations s) r")
  case (Some e)
  have "r \<notin> fst ` set (hm_remove r (ls_leaves_reservations s))" by simp
  with Some held_remove [OF _ Some] assms show ?thesis
    by (simp add: process_update_reservation_def held_permits_def insert_fresh store_inv_alt)
qed (simp add: process_update_reservation_def)

lemma handle_command_permits:
  assumes inv: "store_inv s" and ok: "command_ok env cmd s"
  shows "mset (held_permits (snd (handle_command env cmd s))) \<subseteq># mset (cmd_permits cmd @ held_permits s)"
proof (cases cmd)
  case (TryReserveLeaves targets exact_only purpose p)
  with ok have "env_uuid env \<notin> fst ` set (ls_leaves_reservations s)" by simp
  with TryReserveLeaves try_reserve_state [of "env_uuid env" targets exact_only purpose p s] reserve_internal_permits
  show ?thesis by auto
next
  case (ReserveLeavesByIds ids purpose p)
  with ok have "env_uuid env \<notin> fst ` set (ls_leaves_reservations s)" by simp
  with ReserveLeavesByIds reserve_by_ids_state [of "env_uuid env" ids purpose p s] reserve_internal_permits
  show ?thesis by auto
next
  case (CancelReservation r keep)
  then show ?thesis
    using held_remove_subset [of r "ls_leaves_reservations s"]
    by (simp add: process_cancel_reservation_def Let_def held_permits_def)
qed (use inv in \<open>simp_all add: add_leaves_permits store_ancestors_permits set_leaves_permits
      finalize_permits update_permits\<close>)

subsection \<open>The bound\<close>

definition permits_inv :: "nat \<Rightarrow> store_sys \<Rightarrow> bool" where
  "permits_inv max_concurrent sys =
     (mset (sys_free sys @ concat (map cmd_permits (sys_queue sys)) @ held_permits (sys_store sys))
        = mset [0..<max_concurrent])"

lemma dropped_permits:
  assumes "distinct as" and "mset bs \<subseteq># mset as"
  shows "mset (filter (\<lambda>p. p \<notin> set bs) as) + mset bs = mset as"
proof -
  have "mset bs = mset (filter (\<lambda>p. p \<in> set bs) as)"
  proof (rule multiset_eqI)
    fix p
    have "distinct bs" by (rule distinct_submset [OF assms(2,1)])
    moreover have "set bs \<subseteq> set as" using assms(2) by (metis set_mset_mono set_mset_mset)
    ultimately show "count (mset bs) p = count (mset (filter (\<lambda>p. p \<in> set bs) as)) p"
      using assms(1) by (auto simp: distinct_count_atmost_1)
  qed
  then have "mset (filter (\<lambda>p. p \<notin> set bs) as) + mset bs
      = mset (filter (\<lambda>p. p \<notin> set bs) as) + mset (filter (\<lambda>p. p \<in> set bs) as)" by metis
  also have "\<dots> = mset as" by (induction as) auto
  finally show ?thesis .
qed

lemma receive_permits:
  assumes pinv: "permits_inv m sys" and inv: "store_inv (sys_store sys)"
    and q: "sys_queue sys = cmd # rest" and ok: "command_ok env cmd (sys_store sys)"
  shows "permits_inv m (receive_command env cmd rest sys)"
proof -
  let ?s = "sys_store sys"
  let ?s' = "snd (handle_command env cmd ?s)"
  let ?as = "cmd_permits cmd @ held_permits ?s"
  have all: "mset (sys_free sys) + mset ?as + mset (concat (map cmd_permits rest)) = mset [0..<m]"
    using pinv by (simp add: permits_inv_def q ac_simps)
  then have "mset (sys_free sys @ ?as @ concat (map cmd_permits rest)) = mset [0..<m]" by (simp add: ac_simps)
  then have "distinct (sys_free sys @ ?as @ concat (map cmd_permits rest))"
    by (metis distinct_upt mset_eq_imp_distinct_iff)
  then have "distinct ?as" by auto
  from dropped_permits [OF this handle_command_permits [OF inv ok]] all
  show ?thesis by (simp add: permits_inv_def receive_command_def Let_def ac_simps)
qed

lemma sys_reachable_inv: "sys_reachable m sys \<Longrightarrow> permits_inv m sys \<and> store_reachable (sys_store sys)"
proof (induction rule: sys_reachable.induct)
  case sys_init
  show ?case by (simp add: with_config_def permits_inv_def held_permits_def leaves_state_default_def
        store_reachable.reach_init [unfolded leaves_state_default_def])
next
  case (sys_next sys sys')
  from sys_next.hyps(2) show ?case
  proof cases
    case (step_receive cmd rest env)
    with sys_next.IH show ?thesis
      by (simp add: receive_permits reachable_inv)
         (simp add: receive_command_def Let_def store_reachable.reach_step)
  qed (use sys_next.IH in \<open>auto simp: api_try_reserve_leaves_def api_try_reserve_leaves_by_ids_def
        acquire_permit_def send_command_def permits_inv_def split: list.splits if_splits\<close>)
qed


text \<open>A run: one caller takes the only permit, its request is queued, processed without funds, and the
  permit comes back.\<close>

definition example_sys :: store_sys where
  "example_sys = receive_command \<lparr>env_now = 1, env_now' = 1, env_uuid = ''r''\<rparr>
     (TryReserveLeaves (Some (AmountAndFee 5 None)) False Payment 0) []
     \<lparr>sys_free = [], sys_queue = [TryReserveLeaves (Some (AmountAndFee 5 None)) False Payment 0],
      sys_store = leaves_state_default\<rparr>"

lemma example_sys_reachable: "sys_reachable 1 example_sys"
proof -
  let ?sys = "\<lparr>sys_free = [], sys_queue = [TryReserveLeaves (Some (AmountAndFee 5 None)) False Payment 0],
      sys_store = leaves_state_default\<rparr>"
  have "sys_step 1 (with_config 1) ?sys"
    by (rule sys_step.step_reserve [of _ 0 "Some (AmountAndFee 5 None)" False Payment])
       (simp add: api_try_reserve_leaves_def acquire_permit_def send_command_def with_config_def)
  then have reach: "sys_reachable 1 ?sys" by (rule sys_reachable.sys_next [OF sys_reachable.sys_init])
  show ?thesis unfolding example_sys_def
    by (rule sys_reachable.sys_next [OF reach], rule sys_step.step_receive)
       (simp_all add: leaves_state_default_def)
qed


end
