(* ===== verification/Reservation_Ledger.thy ===== *)
theory Reservation_Ledger
  imports Spark_Prelude
begin

text \<open>
  The contract of a reservation system: units (leaves, token outputs) are available or held by
  exactly one reservation; reserving moves units from available to a new reservation, cancelling
  moves them back, finalising removes them for good. Both stores of the wallet promise it (the
  leaf store and the token output store interpret the locale), and the conservation
  law for arbitrary sequences of operations is proved once, here.
\<close>

datatype ('q, 'r) ledger_op = Op_Reserve 'q 'r | Op_Cancel 'r | Op_Finalize 'r

text \<open>A run of operations, and the units it spent. Reservation ids are fresh, and operations on
  unknown reservations do nothing.\<close>

fun run_ledger ::
  "('s \<Rightarrow> 'r \<Rightarrow> 'a multiset option) \<Rightarrow> ('q \<Rightarrow> 'r \<Rightarrow> 's \<Rightarrow> 's option) \<Rightarrow> ('r \<Rightarrow> 's \<Rightarrow> 's) \<Rightarrow> ('r \<Rightarrow> 's \<Rightarrow> 's)
     \<Rightarrow> ('q, 'r) ledger_op list \<Rightarrow> 's \<Rightarrow> 's \<times> 'a multiset" where
  "run_ledger held reserve cancel finalize [] s = (s, {#})"
| "run_ledger held reserve cancel finalize (Op_Reserve q r # ops) s =
     (if held s r = None
      then run_ledger held reserve cancel finalize ops (case reserve q r s of None \<Rightarrow> s | Some s' \<Rightarrow> s')
      else run_ledger held reserve cancel finalize ops s)"
| "run_ledger held reserve cancel finalize (Op_Cancel r # ops) s =
     (if held s r = None then run_ledger held reserve cancel finalize ops s
      else run_ledger held reserve cancel finalize ops (cancel r s))"
| "run_ledger held reserve cancel finalize (Op_Finalize r # ops) s =
     (case held s r of
        None \<Rightarrow> run_ledger held reserve cancel finalize ops s
      | Some u \<Rightarrow> (case run_ledger held reserve cancel finalize ops (finalize r s) of
                     (s', spent) \<Rightarrow> (s', u + spent)))"

locale reservation_ledger =
  fixes inv :: "'s \<Rightarrow> bool"
    and available :: "'s \<Rightarrow> 'a multiset"
    and held :: "'s \<Rightarrow> 'r \<Rightarrow> 'a multiset option"
    and reserve :: "'q \<Rightarrow> 'r \<Rightarrow> 's \<Rightarrow> 's option"
    and cancel :: "'r \<Rightarrow> 's \<Rightarrow> 's"
    and finalize :: "'r \<Rightarrow> 's \<Rightarrow> 's"
  assumes finite_held: "finite (dom (held s))"
    and reserve_law: "inv s \<Longrightarrow> held s r = None \<Longrightarrow> reserve q r s = Some s'
      \<Longrightarrow> inv s' \<and> (\<exists>u. available s = available s' + u \<and> held s' = (held s)(r \<mapsto> u))"
    and cancel_law: "inv s \<Longrightarrow> held s r = Some u
      \<Longrightarrow> inv (cancel r s) \<and> available (cancel r s) = available s + u \<and> held (cancel r s) = (held s)(r := None)"
    and finalize_law: "inv s \<Longrightarrow> held s r = Some u
      \<Longrightarrow> inv (finalize r s) \<and> available (finalize r s) = available s \<and> held (finalize r s) = (held s)(r := None)"
begin

definition held_total :: "'s \<Rightarrow> 'a multiset" where
  "held_total s = (\<Sum>r\<in>dom (held s). the (held s r))"

lemma held_total_add:
  assumes "held s r = None" and "held s' = (held s)(r \<mapsto> u)"
  shows "held_total s' = held_total s + u"
proof -
  have "(\<Sum>r'\<in>dom (held s). the (held s' r')) = (\<Sum>r'\<in>dom (held s). the (held s r'))"
    using assms by (intro sum.cong) auto
  moreover have "dom (held s') = insert r (dom (held s))" using assms(2) by simp
  moreover have "r \<notin> dom (held s)" using assms(1) by auto
  ultimately show ?thesis
    using finite_held [of s] assms(2) by (simp add: held_total_def add.commute)
qed

lemma held_total_remove:
  assumes "held s r = Some u" and "held s' = (held s)(r := None)"
  shows "held_total s = held_total s' + u"
proof (rule held_total_add)
  show "held s' r = None" using assms(2) by simp
  show "held s = (held s')(r \<mapsto> u)" using assms by (auto simp: fun_eq_iff)
qed

lemma reserve_then_cancel:
  assumes "inv s" and "held s r = None" and "reserve q r s = Some s'"
  shows "inv (cancel r s') \<and> available (cancel r s') = available s \<and> held (cancel r s') = held s"
proof -
  obtain u where u: "inv s'" "available s = available s' + u" "held s' = (held s)(r \<mapsto> u)"
    using reserve_law [OF assms] by blast
  from cancel_law [OF u(1), of r u] u assms(2) show ?thesis by (auto simp: fun_eq_iff)
qed

lemma reserve_then_finalize:
  assumes "inv s" and "held s r = None" and "reserve q r s = Some s'"
  shows "\<exists>u. available s = available (finalize r s') + u \<and> held s' r = Some u \<and> held (finalize r s') = held s"
proof -
  obtain u where u: "inv s'" "available s = available s' + u" "held s' = (held s)(r \<mapsto> u)"
    using reserve_law [OF assms] by blast
  from finalize_law [OF u(1), of r u] u assms(2) show ?thesis by (intro exI [of _ u]) (auto simp: fun_eq_iff)
qed

lemma run_conserves:
  assumes "inv s" and "run_ledger held reserve cancel finalize ops s = (s', spent)"
  shows "inv s' \<and> available s + held_total s = available s' + held_total s' + spent"
  using assms
proof (induction ops arbitrary: s spent)
  case (Cons op ops)
  show ?case
  proof (cases op)
    case (Op_Reserve q r)
    show ?thesis
    proof (cases "held s r = None \<and> reserve q r s \<noteq> None")
      case True
      then obtain s1 where r: "held s r = None" "reserve q r s = Some s1" by auto
      obtain u where u: "inv s1" "available s = available s1 + u" "held s1 = (held s)(r \<mapsto> u)"
        using reserve_law [OF Cons.prems(1) r] by blast
      have "run_ledger held reserve cancel finalize ops s1 = (s', spent)"
        using Cons.prems(2) Op_Reserve r by simp
      from Cons.IH [OF u(1) this] held_total_add [OF r(1) u(3)] u(2) show ?thesis by (simp add: ac_simps)
    next
      case False
      then have "run_ledger held reserve cancel finalize ops s = (s', spent)"
        using Cons.prems(2) Op_Reserve by (auto split: if_splits)
      then show ?thesis by (rule Cons.IH [OF Cons.prems(1)])
    qed
  next
    case (Op_Cancel r)
    show ?thesis
    proof (cases "held s r")
      case None
      with Cons Op_Cancel show ?thesis by simp
    next
      case (Some u)
      note law = cancel_law [OF Cons.prems(1) Some]
      have "run_ledger held reserve cancel finalize ops (cancel r s) = (s', spent)"
        using Cons.prems(2) Op_Cancel Some by simp
      from Cons.IH [OF _ this] law held_total_remove [OF Some, of "cancel r s"] show ?thesis by (simp add: ac_simps)
    qed
  next
    case (Op_Finalize r)
    show ?thesis
    proof (cases "held s r")
      case None
      with Cons Op_Finalize show ?thesis by simp
    next
      case (Some u)
      note law = finalize_law [OF Cons.prems(1) Some]
      obtain spent' where run: "run_ledger held reserve cancel finalize ops (finalize r s) = (s', spent')"
          and sp: "spent = u + spent'"
        using Cons.prems(2) Op_Finalize Some by (auto split: prod.splits)
      from Cons.IH [OF _ run] law held_total_remove [OF Some, of "finalize r s"] sp show ?thesis
        by (simp add: ac_simps)
    qed
  qed
qed simp

end

text \<open>The total of an association list of holdings.\<close>

lemma sum_map_of:
  fixes f :: "'v \<Rightarrow> 'a multiset"
  assumes "wf_map rs"
  shows "(\<Sum>r\<in>dom (\<lambda>r. map_option f (map_of rs r)). the (map_option f (map_of rs r))) = sum_list (map f (hm_values rs))"
  using assms
proof (induction rs)
  case (Cons kv rs)
  obtain k v where kv: "kv = (k, v)" by (cases kv)
  have k: "k \<notin> fst ` set rs" and wf: "wf_map rs" using Cons.prems kv by (auto simp: wf_map_def)
  then have nk: "map_of rs k = None" by (simp add: map_of_eq_None_iff)
  have fin: "finite (dom (\<lambda>r. map_option f (map_of rs r)))"
    using finite_dom_map_of [of rs] by (simp add: dom_def)
  have dom: "dom (\<lambda>r. map_option f (map_of (kv # rs) r)) = insert k (dom (\<lambda>r. map_option f (map_of rs r)))"
    by (auto simp: kv dom_def)
  have "(\<Sum>r\<in>dom (\<lambda>r. map_option f (map_of rs r)). the (map_option f (map_of (kv # rs) r)))
      = (\<Sum>r\<in>dom (\<lambda>r. map_option f (map_of rs r)). the (map_option f (map_of rs r)))"
    using nk by (intro sum.cong) (auto simp: kv dom_def)
  with Cons.IH [OF wf] fin nk show ?case
    unfolding dom by (subst sum.insert) (auto simp: kv dom_def)
qed (simp add: dom_def)

end
