(* ===== verification/Tree_Store_Ledger.thy ===== *)
theory Tree_Store_Ledger
  imports Tree_Store_Props Reservation_Ledger
begin

text \<open>
  The leaf store as a reservation ledger: its units are the leaves themselves. A reservation is
  made by target amounts or by leaf ids; cancelling keeps all the leaves of the reservation, which
  is how the callers release one.
\<close>

datatype tree_request =
    By_Targets "target_amounts option" bool reservation_purpose permit
  | By_Ids "tree_node_id list" reservation_purpose permit

fun tree_reserve :: "tree_request \<Rightarrow> leaves_reservation_id \<Rightarrow> leaves_state \<Rightarrow> leaves_state option" where
  "tree_reserve (By_Targets targets exact_only purpose permit) r s =
     (case process_try_reserve_leaves r targets exact_only purpose permit s of
        (Inr (RR_Success _), s') \<Rightarrow> Some s'
      | _ \<Rightarrow> None)"
| "tree_reserve (By_Ids ids purpose permit) r s =
     (case process_reserve_leaves_by_ids r ids purpose permit s of
        (Inr _, s') \<Rightarrow> Some s'
      | _ \<Rightarrow> None)"

definition tree_held :: "leaves_state \<Rightarrow> leaves_reservation_id \<Rightarrow> tree_node multiset option" where
  "tree_held s r = map_option (\<lambda>e. mset (entry_nodes e)) (map_of (ls_leaves_reservations s) r)"

definition tree_available :: "leaves_state \<Rightarrow> tree_node multiset" where
  "tree_available s = mset (pool_nodes s)"

definition tree_cancel :: "system_time \<Rightarrow> leaves_reservation_id \<Rightarrow> leaves_state \<Rightarrow> leaves_state" where
  "tree_cancel now r s =
     snd (process_cancel_reservation now r
       (case map_of (ls_leaves_reservations s) r of None \<Rightarrow> [] | Some e \<Rightarrow> entry_nodes e) s)"

definition tree_finalize :: "system_time \<Rightarrow> leaves_reservation_id \<Rightarrow> leaves_state \<Rightarrow> leaves_state" where
  "tree_finalize now r s = snd (process_finalize_reservation now now r None s)"

subsection \<open>The laws\<close>

lemma minimum_loop_take: "minimum_loop f t a res ls = (a', sel) \<Longrightarrow> \<exists>k. sel = res @ take k ls"
proof (induction f t a res ls rule: minimum_loop.induct)
  case (2 f t a res l ls)
  show ?case
  proof (cases "t \<le> add_u64 a (f l)")
    case True
    with 2(2) show ?thesis by (intro exI [of _ 1]) (simp add: Let_def)
  next
    case False
    with 2 obtain k where "sel = (res @ [l]) @ take k ls" by (auto simp: Let_def)
    then show ?thesis by (intro exI [of _ "Suc k"]) simp
  qed
qed simp

lemma minimum_amount_subset:
  assumes "select_leaves_by_minimum_amount f ls t = Inr (Some sel)"
  shows "mset sel \<subseteq># mset ls"
proof -
  from assms obtain a where "minimum_loop f t 0 [] ls = (a, sel)"
    by (auto simp: select_leaves_by_minimum_amount_def split: if_splits prod.splits)
  then obtain k where "sel = take k ls" using minimum_loop_take by fastforce
  moreover have "mset ls = mset (take k ls) + mset (drop k ls)" by (metis append_take_drop_id mset_append)
  ultimately show ?thesis by (metis mset_subset_eq_add_left)
qed

lemma target_selection_subset:
  "select_leaves_by_target_amounts lid lv ls targets = Inr tls \<Longrightarrow> mset (selected_leaves tls) \<subseteq># mset ls"
  using target_selection_spec [of lid lv ls _ tls]
  by (cases targets) (auto simp: select_leaves_by_target_amounts_def selected_leaves_def)

text \<open>Every successful reservation goes through \<open>reserve_internal\<close> with spendable leaves.\<close>

lemma tree_reserve_internal:
  assumes "store_inv s" and "tree_reserve q r s = Some s'"
  obtains sel purpose permit pending where "mset sel \<subseteq># mset (selectable_nodes s)" "sel \<noteq> []"
    "s' = snd (reserve_internal r sel purpose permit pending s)"
proof (cases q)
  case (By_Targets targets exact_only purpose permit)
  with assms(2) obtain res where run:
      "process_try_reserve_leaves r targets exact_only purpose permit s = (Inr (RR_Success res), s')"
    by (auto split: prod.splits sum.splits reserve_result.splits)
  then show ?thesis
  proof (cases rule: try_reserve_cases)
    case (exact tls)
    from reserve_selected_success [OF exact(2)] target_selection_subset [OF exact(1)] show ?thesis
      by (intro that) auto
  next
    case (minimum e sel pending target)
    from reserve_selected_success [OF minimum(6)] minimum_amount_subset [OF minimum(4)] show ?thesis
      by (intro that) auto
  next
    case (refused e target)
    then show ?thesis by (auto simp: wait_or_insufficient_def split: if_splits)
  qed
next
  case (By_Ids ids purpose permit)
  with assms(2) obtain res where run: "process_reserve_leaves_by_ids r ids purpose permit s = (Inr res, s')"
    by (auto split: prod.splits sum.splits)
  then obtain sel where sel: "collect_reservable (ls_leaves s) ids = Inr sel" "ids \<noteq> []" "distinct ids"
      "s' = snd (reserve_internal r sel purpose permit 0 s)"
    by (auto simp: process_reserve_leaves_by_ids_def card_distinct split: if_splits sum.splits prod.splits)
  then have all: "\<forall>i \<in> set ids. \<exists>sl. map_of (ls_leaves s) i = Some sl \<and> selectable sl"
      and eq: "sel = map (\<lambda>i. sl_node (the (map_of (ls_leaves s) i))) ids"
    by (auto simp: collect_reservable_spec split: if_splits)
  from reservable_ids_selectable(2) [OF assms(1) sel(3) all eq] sel eq show ?thesis
    by (intro that [of sel purpose permit 0]) auto
qed

lemma tree_reserve_law:
  assumes "store_inv s" and "tree_held s r = None" and "tree_reserve q r s = Some s'"
  shows "store_inv s' \<and> (\<exists>u. tree_available s = tree_available s' + u \<and> tree_held s' = (tree_held s)(r \<mapsto> u))"
proof -
  obtain sel purpose permit pending where sel: "mset sel \<subseteq># mset (selectable_nodes s)" "sel \<noteq> []"
      and s': "s' = snd (reserve_internal r sel purpose permit pending s)"
    using tree_reserve_internal [OF assms(1,3)] by blast
  have fresh: "r \<notin> fst ` set (ls_leaves_reservations s)"
    using assms(2) by (simp add: tree_held_def map_of_eq_None_iff)
  note ok = reserve_internal_success [OF assms(1) fresh sel s']
  have "tree_held s' = (tree_held s)(r \<mapsto> mset sel)" using ok(2,3) by (auto simp: fun_eq_iff tree_held_def)
  then show ?thesis using ok(4) reserve_internal_inv [OF assms(1) fresh] by (auto simp: tree_available_def s')
qed

lemma insert_nodes_mset:
  assumes "distinct (map tn_id ls)" and "tn_id ` set ls \<inter> fst ` set pool = {}"
  shows "mset (map sl_node (hm_values (insert_nodes t ls pool))) = mset (map sl_node (hm_values pool)) + mset ls"
  using assms
proof (induction ls arbitrary: pool)
  case (Cons l ls)
  have "mset (map sl_node (hm_values (insert_nodes t ls (hm_insert (tn_id l) (from_node l t) pool))))
      = mset (map sl_node (hm_values (hm_insert (tn_id l) (from_node l t) pool))) + mset ls"
    using Cons.prems by (intro Cons.IH) auto
  moreover have "tn_id l \<notin> fst ` set pool" using Cons.prems(2) by simp
  ultimately show ?case by (simp add: insert_nodes_def insert_fresh)
qed (simp add: insert_nodes_def)

lemma entry_nodes_ids: "map tn_id (entry_nodes e) = entry_ids e"
  by (simp add: entry_nodes_def entry_ids_def)

lemma tree_cancel_law:
  assumes inv: "store_inv s" and h: "tree_held s r = Some u"
  shows "store_inv (tree_cancel now r s) \<and> tree_available (tree_cancel now r s) = tree_available s + u
    \<and> tree_held (tree_cancel now r s) = (tree_held s)(r := None)"
proof -
  obtain e where e: "map_of (ls_leaves_reservations s) r = Some e" and u: "u = mset (entry_nodes e)"
    using h by (auto simp: tree_held_def)
  have wf: "wf_map (ls_leaves_reservations s)" "distinct (reserved_ids (ls_leaves_reservations s))"
    using inv by (simp_all add: store_inv_alt)
  note split = distinct_reserved_remove [OF wf e]
  have ids: "tn_id ` set (entry_nodes e) = set (entry_ids e)" by (metis entry_nodes_ids set_map)
  have "store_inv (tree_cancel now r s)"
    unfolding tree_cancel_def e using split(3) by (intro cancel_inv [OF inv]) (simp add: ids)
  moreover have "set (entry_ids e) \<inter> fst ` set (ls_leaves s) = {}"
    using inv split(4) by (auto simp: store_inv_alt)
  ultimately show ?thesis
    using insert_nodes_mset [of "entry_nodes e" "ls_leaves s" now] split(1)
    by (auto simp: tree_cancel_def e process_cancel_reservation_def Let_def tree_available_def tree_held_def
        entry_nodes_ids ids u delete_conv' fun_eq_iff)
qed

lemma tree_finalize_law:
  assumes inv: "store_inv s" and h: "tree_held s r = Some u"
  shows "store_inv (tree_finalize now r s) \<and> tree_available (tree_finalize now r s) = tree_available s
    \<and> tree_held (tree_finalize now r s) = (tree_held s)(r := None)"
proof -
  obtain e where e: "map_of (ls_leaves_reservations s) r = Some e" using h by (auto simp: tree_held_def)
  have "store_inv (tree_finalize now r s)"
    unfolding tree_finalize_def by (rule finalize_inv [OF inv]) simp
  then show ?thesis
    by (auto simp: tree_finalize_def e process_finalize_reservation_def Let_def tree_available_def tree_held_def
        delete_conv' fun_eq_iff)
qed

interpretation tree: reservation_ledger store_inv tree_available tree_held tree_reserve
  "tree_cancel now" "tree_finalize now" for now
proof
  show "finite (dom (tree_held s))" for s
    using finite_dom_map_of [of "ls_leaves_reservations s"] by (simp add: tree_held_def [abs_def] dom_def)
qed (simp_all add: tree_reserve_law tree_cancel_law tree_finalize_law)

lemma tree_held_total:
  assumes "store_inv s"
  shows "reservation_ledger.held_total tree_held s
    = mset (concat (map entry_nodes (hm_values (ls_leaves_reservations s))))"
proof -
  have wf: "wf_map (ls_leaves_reservations s)" using assms by (simp add: store_inv_alt)
  have "sum_list (map (\<lambda>e. mset (entry_nodes e)) es) = mset (concat (map entry_nodes es))" for es
    by (induction es) simp_all
  then show ?thesis unfolding tree.held_total_def tree_held_def sum_map_of [OF wf] .
qed

subsection \<open>Properties\<close>



text \<open>Releasing a reservation undoes it: reserving (by amount or by id) and cancelling with the
  reserved leaves leaves the pool with the same leaves as before and every other reservation
  untouched.\<close>

theorem tree_reserve_cancel_roundtrip:
  assumes "store_inv s" and "map_of (ls_leaves_reservations s) r = None" and "tree_reserve q r s = Some s'"
  shows "mset (pool_nodes (tree_cancel now r s')) = mset (pool_nodes s) \<and> tree_held (tree_cancel now r s') = tree_held s"
  using tree.reserve_then_cancel [of s r q s' now] assms by (simp add: tree_available_def tree_held_def)

lemma tree_reserve_cancel_roundtrip_witness:
  "\<exists>s'. tree_reserve (By_Ids [''a''] Payment 0) ''r'' example_store = Some s'
     \<and> mset (pool_nodes (tree_cancel 9 ''r'' s')) = mset (pool_nodes example_store)"
proof -
  obtain s' where run: "tree_reserve (By_Ids [''a''] Payment 0) ''r'' example_store = Some s'"
    by (simp add: process_reserve_leaves_by_ids_def reserve_internal_def)
  with tree_reserve_cancel_roundtrip [OF example_store_inv _ run, of 9] show ?thesis by simp
qed

end
