(* ===== verification/Tree_Store_Views.thy ===== *)
theory Tree_Store_Views
  imports Tree_Store_Processor
begin

text \<open>
  What the leaf store reports: exit chains as they were stored, snapshots that partition the stored
  leaves, and balance notifications. Also the bound the reservation semaphore enforces.
\<close>

subsection \<open>Stored leaves\<close>

lemma stored_nodes_ids:
  assumes "store_inv s"
  shows "map tn_id (stored_nodes s) = hm_keys (ls_leaves s) @ reserved_ids (ls_leaves_reservations s)"
proof -
  have "map tn_id (map sl_node (hm_values (ls_leaves s))) = hm_keys (ls_leaves s)"
    using assms by (auto simp: store_inv_alt wf_pool_def)
  moreover have "map tn_id (concat (map entry_nodes es)) = concat (map entry_ids es)" for es
    by (induction es) (simp_all add: entry_nodes_def entry_ids_def)
  ultimately show ?thesis unfolding stored_nodes_def reserved_ids_def map_append by metis
qed

lemma stored_nodes_unique:
  assumes "store_inv s" and "n \<in> set (stored_nodes s)" and "n' \<in> set (stored_nodes s)" and "tn_id n = tn_id n'"
  shows "n = n'"
proof -
  have "distinct (map tn_id (stored_nodes s))"
    using assms(1) unfolding stored_nodes_ids [OF assms(1)] by (simp add: store_inv_def)
  then have "inj_on tn_id (set (stored_nodes s))" by (simp add: distinct_map)
  then show ?thesis using assms(2-4) by (auto dest: inj_onD)
qed

lemma find_reserved_leaf_in:
  "find_reserved_leaf i es = Some n \<Longrightarrow> n \<in> set (concat (map entry_nodes es))"
  by (induction es) (auto simp: entry_nodes_def find_Some_iff split: option.splits)

lemma find_stored_leaf_in:
  assumes "find_stored_leaf s i = Some n"
  shows "n \<in> set (stored_nodes s)"
proof (cases "map_of (ls_leaves s) i")
  case None
  with assms find_reserved_leaf_in show ?thesis
    by (fastforce simp: find_stored_leaf_def stored_nodes_def)
next
  case (Some sl)
  then have "sl \<in> set (hm_values (ls_leaves s))" by (force dest: map_of_SomeD)
  with assms Some show ?thesis by (auto simp: find_stored_leaf_def stored_nodes_def)
qed

lemma store_pedigree_find [simp]: "find_stored_leaf (store_pedigree p s) i = find_stored_leaf s i"
  unfolding find_stored_leaf_def store_pedigree_frame ..

lemma store_pedigree_nodes [simp]: "stored_nodes (store_pedigree p s) = stored_nodes s"
  unfolding stored_nodes_def store_pedigree_frame ..

subsection \<open>Exit chains\<close>

text \<open>\<^bold>\<open>C39\<close>. Exit chains survive storage: when the ancestors handed over for a stored leaf contain a
  complete path from its parent to a root, that path is what the store returns for the leaf
  afterwards, child first and without the surplus nodes, and the leaf is no longer listed as
  missing its chain.\<close>

theorem exit_chain_roundtrip:
  assumes inv: "store_inv s" and leaf: "find_stored_leaf s i = Some leaf" and l0: "tn_id l0 = i"
    and parent: "tn_parent_node_id leaf = Some p"
    and path: "chain_path (by_id anc) p ns" and self: "i \<notin> tn_id ` set ns"
    and s': "s' = snd (process_store_ancestors [\<lparr>lp_leaf = l0, lp_ancestors = anc\<rparr>] s)"
  shows "process_get_exit_chains s' [i] = Inr [\<lparr>lp_leaf = leaf, lp_ancestors = ns\<rparr>]
    \<and> i \<notin> set (process_leaves_missing_exit_chains s')"
proof -
  from path obtain n where n: "map_of (by_id anc) p = Some n" by cases auto
  have id: "tn_id leaf = i" by (rule find_stored_leaf_ids(2) [OF inv leaf])
  have anc: "anc \<noteq> []" using by_id_set [OF n] by auto
  have sp: "s' = store_pedigree \<lparr>lp_leaf = l0, lp_ancestors = anc\<rparr> s" by (simp add: s' process_store_ancestors_def)
  have chain: "map_of (ls_ancestors s') i = Some anc"
    using leaf l0 anc by (simp add: sp store_pedigree_def upsert_ancestors_def update_conv')
  let ?m = "hm_insert i leaf (by_id anc)"
  have idm: "ids_match ?m" using ids_match_by_id [of anc] id by (auto simp: ids_match_def update_conv')
  have "chain_path ?m p ns"
    by (rule chain_path_transfer [OF path ids_match_by_id]) (use self in \<open>auto simp: update_conv'\<close>)
  then have "walk_ancestors leaf ?m = ns"
    using path_walk_loop [OF _ idm, of p ns "[]" "[]"] by (simp add: walk_ancestors_def parent)
  then have "leaf_exit_chain s' i = [\<lparr>lp_leaf = leaf, lp_ancestors = ns\<rparr>]"
    using leaf chain id
    by (simp add: leaf_exit_chain_def sp assemble_exit_chains_def update_conv' List.map_filter_simps)
  moreover have "i \<notin> set (process_leaves_missing_exit_chains s')"
  proof
    assume "i \<in> set (process_leaves_missing_exit_chains s')"
    then obtain l where l: "l \<in> set (stored_nodes s)" "tn_id l = i" "\<not> chain_backs_exit l anc"
      using chain by (auto simp: process_leaves_missing_exit_chains_def sp)
    have "l = leaf" by (rule stored_nodes_unique [OF inv l(1) find_stored_leaf_in [OF leaf]]) (simp add: l id)
    moreover have "n \<in> set anc" "tn_id n = p" using by_id_set [OF n] ids_match_by_id [of anc] n by (auto simp: ids_match_def)
    ultimately show False using l(3) parent by (auto simp: chain_backs_exit_def)
  qed
  ultimately show ?thesis by (simp add: process_get_exit_chains_def)
qed

definition example_child_store :: leaves_state where
  "example_child_store = leaves_state_default\<lparr>ls_leaves := [(''a'', from_node (example_leaf ''a'' 4 (Some ''p'')) 3)]\<rparr>"

lemma exit_chain_roundtrip_witness:
  "process_get_exit_chains (snd (process_store_ancestors
       [\<lparr>lp_leaf = example_leaf ''a'' 4 None,
         lp_ancestors = [example_leaf ''q'' 1 None, example_leaf ''p'' 4 (Some ''root''), example_leaf ''root'' 8 None]\<rparr>]
       example_child_store)) [''a'']
     = Inr [\<lparr>lp_leaf = example_leaf ''a'' 4 (Some ''p''),
             lp_ancestors = [example_leaf ''p'' 4 (Some ''root''), example_leaf ''root'' 8 None]\<rparr>]"
proof -
  let ?anc = "[example_leaf ''q'' 1 None, example_leaf ''p'' 4 (Some ''root''), example_leaf ''root'' 8 None]"
  have inv: "store_inv example_child_store"
    by (simp add: store_inv_def example_child_store_def leaves_state_default_def wf_pool_def wf_map_def reserved_ids_def)
  have "chain_path (by_id ?anc) ''root'' [example_leaf ''root'' 8 None]"
    by (rule chain_path.chain_root) (simp_all add: by_id_def)
  then have path: "chain_path (by_id ?anc) ''p'' [example_leaf ''p'' 4 (Some ''root''), example_leaf ''root'' 8 None]"
    by (rule chain_path.chain_step [rotated 2, of _ "''root''"]) (simp_all add: by_id_def)
  show ?thesis
    using exit_chain_roundtrip [OF inv _ _ _ path _ refl, of "''a''" "example_leaf ''a'' 4 (Some ''p'')" "example_leaf ''a'' 4 None"]
    by (simp add: find_stored_leaf_def example_child_store_def)
qed

subsection \<open>Snapshots\<close>

lemma filter_three: "mset xs = mset (filter (\<lambda>x. P x \<and> \<not> Q x) xs) + mset (filter (\<lambda>x. \<not> P x) xs)
    + mset (filter (\<lambda>x. P x \<and> Q x) xs)"
  by (induction xs) auto

lemma concat_by_purpose:
  "mset (concat (map f es)) = mset (concat (map f (filter (\<lambda>e. re_purpose e = Payment) es)))
     + mset (concat (map f (filter (\<lambda>e. re_purpose e = Swap) es)))"
proof (induction es)
  case (Cons e es)
  then show ?case by (cases "re_purpose e") auto
qed simp

text \<open>A snapshot accounts for every stored leaf exactly once: its five lists together are the pool
  and all reservations, and its available part has the balance that the store itself selects
  from.\<close>

theorem get_leaves_partition:
  "\<exists>lv. process_get_leaves s = Inr lv \<and> mset (all_leaves lv) = mset (stored_nodes s)
     \<and> leaves_available_balance lv = available_balance s
     \<and> list_all (\<lambda>l. tn_status l = Available) (lv_available lv)"
proof -
  obtain lv where lv: "process_get_leaves s = Inr lv" by (simp add: process_get_leaves_def Let_def)
  let ?pool = "hm_values (ls_leaves s)"
  let ?av = "\<lambda>sl. tn_status (sl_node sl) = Available"
  have l: "lv_available lv = map sl_node (filter (\<lambda>sl. ?av sl \<and> \<not> sl_missing_from_operators sl) ?pool)"
    "lv_not_available lv = map sl_node (filter (\<lambda>sl. \<not> ?av sl) ?pool)"
    "lv_available_missing_from_operators lv = map sl_node (filter (\<lambda>sl. ?av sl \<and> sl_missing_from_operators sl) ?pool)"
    "lv_reserved_for_payment lv = concat (map entry_nodes (filter (\<lambda>e. re_purpose e = Payment) (hm_values (ls_leaves_reservations s))))"
    "lv_reserved_for_swap lv = concat (map entry_nodes (filter (\<lambda>e. re_purpose e = Swap) (hm_values (ls_leaves_reservations s))))"
    using lv by (auto simp: process_get_leaves_def Let_def)
  have "mset (lv_available lv @ lv_not_available lv @ lv_available_missing_from_operators lv) = mset (map sl_node ?pool)"
    unfolding l mset_append mset_map [of sl_node]
    by (subst (4) filter_three [of _ ?av sl_missing_from_operators]) (simp add: ac_simps)
  moreover have "mset (lv_reserved_for_payment lv @ lv_reserved_for_swap lv)
      = mset (concat (map entry_nodes (hm_values (ls_leaves_reservations s))))"
    unfolding l mset_append by (rule concat_by_purpose [symmetric])
  ultimately have "mset (all_leaves lv) = mset (stored_nodes s)"
    unfolding all_leaves_def stored_nodes_def mset_append by (simp add: add.assoc)
  moreover have "leaves_available_balance lv = available_balance s"
    by (simp add: leaves_available_balance_def available_balance_def l selectable_leaves_def selectable_def
        [abs_def] o_def)
  ultimately show ?thesis using lv l(1) by (auto simp: list_all_iff)
qed

subsection \<open>Notifications\<close>

text \<open>No balance change goes unannounced: over any sequence of commands during which no notification
  is sent, the spendable and the pending balance are the same at the end as at the start. Every
  command gets exactly one response.\<close>

theorem no_silent_balance_change:
  "case processor_loop cmds s of (resps, n, s') \<Rightarrow> length resps = length cmds \<and>
     (if n = 0 then available_balance s' = available_balance s \<and> pending_balance s' = pending_balance s
      else n \<le> length cmds)"
proof (induction cmds s rule: processor_loop.induct)
  case (2 env cmd cmds s)
  obtain resp s' notify where p: "process_command env cmd s = (resp, s', notify)" by (cases "process_command env cmd s")
  then have keep: "\<not> notify \<Longrightarrow> available_balance s' = available_balance s \<and> pending_balance s' = pending_balance s"
    by (auto simp: process_command_def split: prod.splits)
  obtain resps n s'' where r: "processor_loop cmds s' = (resps, n, s'')" by (cases "processor_loop cmds s'")
  from 2 [OF p [symmetric] refl] r p keep show ?case by (auto split: if_splits)
qed simp

end
