(* ===== verification/Token_Model.thy ===== *)
theory Token_Model
  imports Spark_Prelude
begin

text \<open>
  Token outputs and their selection: \<^verbatim>\<open>crates/spark/src/token/mod.rs\<close> and
  \<^verbatim>\<open>crates/spark/src/token/error.rs\<close>. Amounts are 128-bit, written as natural numbers.
\<close>

subsection \<open>Data\<close>

record token_metadata =
  tm_identifier :: string
  tm_issuer_public_key :: public_key
  tm_name :: string
  tm_ticker :: string
  tm_decimals :: nat
  tm_max_supply :: u128
  tm_is_freezable :: bool
  tm_creation_entity_public_key :: "public_key option"

record token_output =
  to_owner_public_key :: public_key
  to_revocation_commitment :: string
  to_withdraw_bond_sats :: u64
  to_withdraw_relative_block_locktime :: u64
  to_token_public_key :: "public_key option"
  to_token_identifier :: string
  to_token_amount :: u128

record token_output_with_prev_out =
  tp_output :: token_output
  tp_prev_tx_hash :: string
  tp_prev_tx_vout :: nat

type_synonym outpoint = "string \<times> nat"
type_synonym token_outputs_reservation_id = string

record token_outputs =
  tos_metadata :: "token_metadata list"
  tos_outputs :: "token_output_with_prev_out list"

definition token_outputs_single ::
  "token_metadata \<Rightarrow> token_output_with_prev_out list \<Rightarrow> token_outputs" where
  "token_outputs_single md os = \<lparr>tos_metadata = [md], tos_outputs = os\<rparr>"

definition outpoint_of :: "token_output_with_prev_out \<Rightarrow> outpoint" where
  "outpoint_of o' = (tp_prev_tx_hash o', tp_prev_tx_vout o')"

definition prev_outpoints :: "token_outputs \<Rightarrow> outpoint list" where
  "prev_outpoints tos = remdups (map outpoint_of (tos_outputs tos))"

definition metadata_for :: "token_outputs \<Rightarrow> string \<Rightarrow> token_metadata option" where
  "metadata_for tos i = find (\<lambda>m. tm_identifier m = i) (tos_metadata tos)"

record token_outputs_per_status =
  ps_metadata :: token_metadata
  ps_available :: "token_output_with_prev_out list"
  ps_reserved_for_payment :: "token_output_with_prev_out list"
  ps_reserved_for_swap :: "token_output_with_prev_out list"

abbreviation tp_amount :: "token_output_with_prev_out \<Rightarrow> u128" where
  "tp_amount o' \<equiv> to_token_amount (tp_output o')"

abbreviation tp_token :: "token_output_with_prev_out \<Rightarrow> string" where
  "tp_token o' \<equiv> to_token_identifier (tp_output o')"

definition ps_available_balance :: "token_outputs_per_status \<Rightarrow> u128" where
  "ps_available_balance p = sum_u128 (map tp_amount (ps_available p))"

definition ps_reserved_for_swap_balance :: "token_outputs_per_status \<Rightarrow> u128" where
  "ps_reserved_for_swap_balance p = sum_u128 (map tp_amount (ps_reserved_for_swap p))"

definition ps_balance :: "token_outputs_per_status \<Rightarrow> u128" where
  "ps_balance p = wrap128 (ps_available_balance p + ps_reserved_for_swap_balance p)"

record token_outputs_reservation =
  tr_id :: token_outputs_reservation_id
  tr_token_outputs :: token_outputs

datatype token_error =
    TE_InsufficientFunds "string option"
  | TE_RpcError string
  | TE_SignerError string
  | TE_ServiceError string
  | TE_Generic string

datatype selection_strategy = SmallestFirst | LargestFirst

datatype reservation_target = MinTotalValue u128 | MaxOutputCount nat

datatype token_purpose = TokenPayment | TokenSwap

datatype token_outputs_filter = ByIdentifier string | ByIssuerPublicKey public_key

subsection \<open>Selection\<close>

fun select_outputs_loop ::
  "u128 \<Rightarrow> token_output_with_prev_out list \<Rightarrow> token_output_with_prev_out list
     \<Rightarrow> u128 \<times> token_output_with_prev_out list" where
  "select_outputs_loop remaining selected [] = (remaining, selected)"
| "select_outputs_loop remaining selected (o' # os) =
     (if remaining = 0 then (remaining, selected)
      else select_outputs_loop (remaining - tp_amount o') (selected @ [o']) os)"

definition sort_outputs ::
  "selection_strategy option \<Rightarrow> token_output_with_prev_out list \<Rightarrow> token_output_with_prev_out list" where
  "sort_outputs strategy os =
     (case strategy of
        Some LargestFirst \<Rightarrow> sort_key (\<lambda>o'. - int (tp_amount o')) os
      | _ \<Rightarrow> sort_key tp_amount os)"

definition select_token_outputs_from ::
  "string \<Rightarrow> token_output_with_prev_out list \<Rightarrow> reservation_target \<Rightarrow> selection_strategy option
     \<Rightarrow> (token_error, token_output_with_prev_out list) rust_result" where
  "select_token_outputs_from token_identifier outputs target strategy =
     (case target of
        MinTotalValue amount \<Rightarrow>
          if sum_u128 (map tp_amount outputs) < amount then Inl (TE_InsufficientFunds (Some token_identifier))
          else (case find (\<lambda>o'. tp_amount o' = amount) outputs of
                  Some o' \<Rightarrow> Inr [o']
                | None \<Rightarrow>
                    (case select_outputs_loop amount [] (sort_outputs strategy outputs) of
                       (remaining, selected) \<Rightarrow>
                         if remaining > 0 then Inl (TE_InsufficientFunds (Some token_identifier))
                         else Inr selected))
      | MaxOutputCount n \<Rightarrow> Inr (take n (sort_outputs strategy outputs)))"

subsection \<open>Facts\<close>

lemma mset_sort_outputs [simp]: "mset (sort_outputs strategy os) = mset os"
  by (simp add: sort_outputs_def split: option.splits selection_strategy.splits)

lemma select_outputs_loop_prefix:
  assumes "select_outputs_loop remaining selected os = (r, sel)"
  shows "\<exists>k. sel = selected @ take k os \<and> r = remaining - sum_list (map tp_amount (take k os))
    \<and> (r = 0 \<or> k \<ge> length os)
    \<and> (0 < k \<longrightarrow> k \<le> length os \<longrightarrow> sum_list (map tp_amount (take (k - 1) os)) < remaining)"
  using assms
proof (induction remaining selected os rule: select_outputs_loop.induct)
  case (2 remaining selected o' os)
  show ?case
  proof (cases "remaining = 0")
    case True
    with 2(2) show ?thesis by (intro exI [of _ 0]) simp
  next
    case False
    have run: "select_outputs_loop (remaining - tp_amount o') (selected @ [o']) os = (r, sel)"
      using 2(2) False by simp
    from 2(1) [OF False run] obtain k where k: "sel = (selected @ [o']) @ take k os"
        "r = remaining - tp_amount o' - sum_list (map tp_amount (take k os))" "r = 0 \<or> k \<ge> length os"
        "0 < k \<longrightarrow> k \<le> length os \<longrightarrow> sum_list (map tp_amount (take (k - 1) os)) < remaining - tp_amount o'"
      by blast
    have "sum_list (map tp_amount (take k (o' # os))) < remaining" if "k \<le> length os"
      using k(4) that False by (cases k) auto
    with k show ?thesis by (intro exI [of _ "Suc k"]) auto
  qed
qed (intro exI [of _ 0], simp)

lemma select_from_sound:
  assumes "select_token_outputs_from tid os target strategy = Inr sel"
  shows "mset sel \<subseteq># mset os \<and>
    (case target of MinTotalValue amount \<Rightarrow> amount \<le> sum_list (map tp_amount sel)
     | MaxOutputCount n \<Rightarrow> length sel = min n (length os))"
proof (cases target)
  case (MinTotalValue amount)
  show ?thesis
  proof (cases "find (\<lambda>o'. tp_amount o' = amount) os")
    case (Some o')
    with MinTotalValue assms have "sel = [o']" by (auto simp: select_token_outputs_from_def split: if_splits)
    with Some MinTotalValue show ?thesis by (auto simp: find_Some_iff)
  next
    case None
    let ?os = "sort_outputs strategy os"
    obtain r sel' where run: "select_outputs_loop amount [] ?os = (r, sel')" by fastforce
    with None MinTotalValue assms have "r = 0" "sel' = sel"
      by (auto simp: select_token_outputs_from_def split: if_splits)
    with select_outputs_loop_prefix [OF run] obtain k where k: "sel = take k ?os"
        "amount \<le> sum_list (map tp_amount (take k ?os))" by auto
    have "mset (take k ?os) \<subseteq># mset (take k ?os) + mset (drop k ?os)" by simp
    also have "\<dots> = mset os" by (metis append_take_drop_id mset_append mset_sort_outputs)
    finally show ?thesis using k MinTotalValue by simp
  qed
next
  case (MaxOutputCount n)
  let ?os = "sort_outputs strategy os"
  have "mset (take n ?os) \<subseteq># mset (take n ?os) + mset (drop n ?os)" by simp
  also have "\<dots> = mset os" by (metis append_take_drop_id mset_append mset_sort_outputs)
  finally have "mset (take n ?os) \<subseteq># mset os" .
  moreover have "length ?os = length os" by (metis mset_eq_length mset_sort_outputs)
  ultimately show ?thesis using MaxOutputCount assms by (auto simp: select_token_outputs_from_def)
qed

lemma select_from_complete:
  assumes "amount \<le> sum_list (map tp_amount os)" and "sum_list (map tp_amount os) < 2 ^ 128"
  shows "\<exists>sel. select_token_outputs_from tid os (MinTotalValue amount) strategy = Inr sel"
proof -
  let ?os = "sort_outputs strategy os"
  obtain r sel where run: "select_outputs_loop amount [] ?os = (r, sel)" by fastforce
  from select_outputs_loop_prefix [OF run] obtain k where
      "r = amount - sum_list (map tp_amount (take k ?os))" "r = 0 \<or> k \<ge> length ?os" by blast
  moreover have "sum_list (map tp_amount ?os) = sum_list (map tp_amount os)"
    by (rule sum_list_mset_cong) simp
  ultimately have "r = 0" using assms(1) by auto
  with run assms show ?thesis
    by (auto simp: select_token_outputs_from_def sum_u128_small split: option.splits)
qed

end
