(* ===== verification/Token_Store.thy ===== *)
theory Token_Store
  imports Token_Model
begin

text \<open>
  The in-memory token output store: \<^verbatim>\<open>crates/spark/src/token/store/mod.rs\<close>. Every operation runs under
  one lock, so it is a function of the state. The clock and fresh reservation ids are arguments.

  The invariant \<open>token_inv\<close>: each pool is filed under the identifier of its metadata and holds
  outputs of that token under their own outpoint; each reserved output has a pool to go back to
  and is in no pool; no output is reserved twice.
\<close>

subsection \<open>State\<close>

record stored_token_output =
  so_output :: token_output_with_prev_out
  so_added_at :: system_time

record token_outputs_entry =
  te_metadata :: "token_metadata list"
  te_stored_outputs :: "stored_token_output list"
  te_purpose :: token_purpose

record available_token_outputs =
  ato_metadata :: token_metadata
  ato_outputs :: "(outpoint, stored_token_output) hash_map"

type_synonym token_pools = "(string, available_token_outputs) hash_map"

record token_outputs_state =
  ts_available :: token_pools
  ts_reservations :: "(token_outputs_reservation_id, token_outputs_entry) hash_map"
  ts_spent_outpoints :: "(outpoint, system_time) hash_map"
  ts_last_swap_completed_at :: "system_time option"

definition token_outputs_state_default :: token_outputs_state where
  "token_outputs_state_default = \<lparr>ts_available = [], ts_reservations = [], ts_spent_outpoints = [],
     ts_last_swap_completed_at = None\<rparr>"

abbreviation so_token :: "stored_token_output \<Rightarrow> string" where
  "so_token so \<equiv> tp_token (so_output so)"

abbreviation so_outpoint :: "stored_token_output \<Rightarrow> outpoint" where
  "so_outpoint so \<equiv> outpoint_of (so_output so)"

definition holds_token :: "token_outputs_entry \<Rightarrow> string \<Rightarrow> bool" where
  "holds_token e i = (\<exists>so \<in> set (te_stored_outputs e). so_token so = i)"

definition outputs_for :: "token_outputs_entry \<Rightarrow> string \<Rightarrow> token_output_with_prev_out list" where
  "outputs_for e i = map so_output (filter (\<lambda>so. so_token so = i) (te_stored_outputs e))"

fun validate_target :: "reservation_target \<Rightarrow> (token_error, unit) rust_result" where
  "validate_target (MinTotalValue v) =
     (if v = 0 then Inl (TE_Generic ''Amount to reserve must be greater than zero'') else Inr ())"
| "validate_target (MaxOutputCount n) =
     (if n = 0 then Inl (TE_Generic ''Count to reserve must be greater than zero'') else Inr ())"

definition output_vec :: "available_token_outputs \<Rightarrow> token_output_with_prev_out list" where
  "output_vec p = map so_output (hm_values (ato_outputs p))"

definition select_available ::
  "available_token_outputs \<Rightarrow> token_output_with_prev_out list option \<Rightarrow> reservation_target
     \<Rightarrow> selection_strategy option \<Rightarrow> (token_error, token_output_with_prev_out list) rust_result" where
  "select_available pool preferred target strategy =
     (let candidates = (case preferred of
          Some ps \<Rightarrow> filter (\<lambda>o'. outpoint_of o' \<in> set (map outpoint_of ps)) (output_vec pool)
        | None \<Rightarrow> output_vec pool)
      in select_token_outputs_from (tm_identifier (ato_metadata pool)) candidates target strategy)"

subsection \<open>Refresh\<close>

definition token_has_active_swap :: "token_outputs_state \<Rightarrow> bool" where
  "token_has_active_swap s = (\<exists>e \<in> set (hm_values (ts_reservations s)). te_purpose e = TokenSwap)"

definition token_swap_completed_during_refresh :: "token_outputs_state \<Rightarrow> system_time \<Rightarrow> bool" where
  "token_swap_completed_during_refresh s started =
     (case ts_last_swap_completed_at s of None \<Rightarrow> False | Some t \<Rightarrow> t \<ge> started)"

definition or_insert_pool :: "token_metadata \<Rightarrow> available_token_outputs option \<Rightarrow> available_token_outputs" where
  "or_insert_pool md p = (case p of None \<Rightarrow> \<lparr>ato_metadata = md, ato_outputs = []\<rparr> | Some p' \<Rightarrow> p')"

definition file_refreshed ::
  "system_time \<Rightarrow> (outpoint, system_time) hash_map \<Rightarrow> token_outputs \<Rightarrow> token_output_with_prev_out
     \<Rightarrow> token_pools \<Rightarrow> token_pools" where
  "file_refreshed now spent tos o' avail =
     (case metadata_for tos (tp_token o') of
        None \<Rightarrow> avail
      | Some md \<Rightarrow>
          let entry = (or_insert_pool md (map_of avail (tp_token o')))\<lparr>ato_metadata := md\<rparr>;
              entry' = (if hm_contains (outpoint_of o') spent then entry
                        else entry\<lparr>ato_outputs := hm_insert (outpoint_of o')
                               \<lparr>so_output = o', so_added_at = now\<rparr> (ato_outputs entry)\<rparr>)
          in hm_insert (tp_token o') entry' avail)"

definition preserve_output ::
  "system_time \<Rightarrow> token_metadata \<Rightarrow> outpoint \<times> stored_token_output \<Rightarrow> token_pools \<Rightarrow> token_pools" where
  "preserve_output started md kv avail =
     (if so_added_at (snd kv) \<ge> started
         \<and> \<not> (\<exists>p \<in> set (hm_values avail). hm_contains (fst kv) (ato_outputs p))
      then let entry = or_insert_pool md (map_of avail (tm_identifier md))
           in hm_insert (tm_identifier md)
                (entry\<lparr>ato_outputs := hm_insert (fst kv) (snd kv) (ato_outputs entry)\<rparr>) avail
      else avail)"

definition preserve_pool :: "system_time \<Rightarrow> available_token_outputs \<Rightarrow> token_pools \<Rightarrow> token_pools" where
  "preserve_pool started old avail = fold (preserve_output started (ato_metadata old)) (ato_outputs old) avail"

text \<open>Taking one output out of the pool of its token.\<close>

definition pool_take :: "string \<Rightarrow> outpoint \<Rightarrow> token_pools \<Rightarrow> stored_token_output option \<times> token_pools" where
  "pool_take tid op avail =
     (case map_of avail tid of
        None \<Rightarrow> (None, avail)
      | Some p \<Rightarrow>
          (case map_of (ato_outputs p) op of
             None \<Rightarrow> (None, avail)
           | Some so \<Rightarrow> (Some so, hm_insert tid (p\<lparr>ato_outputs := hm_remove op (ato_outputs p)\<rparr>) avail)))"

fun reconcile_entry ::
  "token_pools \<Rightarrow> stored_token_output list \<Rightarrow> token_pools \<times> stored_token_output list" where
  "reconcile_entry avail [] = (avail, [])"
| "reconcile_entry avail (so # sos) =
     (case pool_take (so_token so) (so_outpoint so) avail of
        (None, _) \<Rightarrow> reconcile_entry avail sos
      | (Some _, avail') \<Rightarrow>
          (case reconcile_entry avail' sos of (avail'', kept) \<Rightarrow> (avail'', so # kept)))"

fun reconcile ::
  "(token_outputs_reservation_id, token_outputs_entry) hash_map
     \<Rightarrow> token_pools \<times> (token_outputs_reservation_id, token_outputs_entry) hash_map
     \<Rightarrow> token_pools \<times> (token_outputs_reservation_id, token_outputs_entry) hash_map" where
  "reconcile [] (avail, rs) = (avail, rs)"
| "reconcile ((rid, e) # es) (avail, rs) =
     (case reconcile_entry avail (te_stored_outputs e) of (avail', kept) \<Rightarrow>
        reconcile es (avail', if kept = [] then hm_remove rid rs
                              else hm_insert rid (e\<lparr>te_stored_outputs := kept\<rparr>) rs))"

definition set_tokens_outputs ::
  "system_time \<Rightarrow> token_outputs \<Rightarrow> system_time \<Rightarrow> token_outputs_state
     \<Rightarrow> (token_error, unit) rust_result \<times> token_outputs_state" where
  "set_tokens_outputs now tos started s =
     (if token_has_active_swap s \<or> token_swap_completed_during_refresh s started then (Inr (), s)
      else
        let spent = hm_retain (\<lambda>_ spent_at. spent_at \<ge> started) (ts_spent_outpoints s);
            fresh = fold (file_refreshed now spent tos) (tos_outputs tos) [];
            merged = fold (preserve_pool started) (hm_values (ts_available s)) fresh
        in (case reconcile (ts_reservations s) (merged, ts_reservations s) of (avail, rs) \<Rightarrow>
              (Inr (), s\<lparr>ts_available := avail, ts_reservations := rs, ts_spent_outpoints := spent\<rparr>)))"

subsection \<open>Queries\<close>

definition or_insert_status ::
  "token_metadata \<Rightarrow> (string, token_outputs_per_status) hash_map \<Rightarrow> string \<Rightarrow> token_outputs_per_status" where
  "or_insert_status md m i =
     (case map_of m i of
        None \<Rightarrow> \<lparr>ps_metadata = md, ps_available = [], ps_reserved_for_payment = [], ps_reserved_for_swap = []\<rparr>
      | Some p \<Rightarrow> p)"

definition add_reserved ::
  "token_purpose \<Rightarrow> token_output_with_prev_out list \<Rightarrow> token_outputs_per_status \<Rightarrow> token_outputs_per_status" where
  "add_reserved purpose os p =
     (case purpose of
        TokenPayment \<Rightarrow> p\<lparr>ps_reserved_for_payment := ps_reserved_for_payment p @ os\<rparr>
      | TokenSwap \<Rightarrow> p\<lparr>ps_reserved_for_swap := ps_reserved_for_swap p @ os\<rparr>)"

definition list_tokens_outputs ::
  "token_outputs_state \<Rightarrow> (token_error, token_outputs_per_status list) rust_result" where
  "list_tokens_outputs s =
     (let m1 = fold (\<lambda>(tid, p) m. hm_insert tid
                 ((or_insert_status (ato_metadata p) m tid)\<lparr>ps_available := output_vec p\<rparr>) m)
               (ts_available s) [];
          m2 = fold (\<lambda>e m. fold (\<lambda>md m.
                 if holds_token e (tm_identifier md)
                 then hm_insert (tm_identifier md)
                        (add_reserved (te_purpose e) (outputs_for e (tm_identifier md))
                          (or_insert_status md m (tm_identifier md))) m
                 else m) (te_metadata e) m) (hm_values (ts_reservations s)) m1
      in Inr (hm_values m2))"

definition reserved_metadata :: "token_outputs_state \<Rightarrow> (token_metadata \<Rightarrow> bool) \<Rightarrow> token_metadata option" where
  "reserved_metadata s P = find P (concat (map te_metadata (hm_values (ts_reservations s))))"

definition or_else :: "'a option \<Rightarrow> 'a option \<Rightarrow> 'a option" where
  "or_else x y = (case x of None \<Rightarrow> y | Some a \<Rightarrow> Some a)"

definition get_token_outputs ::
  "token_outputs_filter \<Rightarrow> token_outputs_state \<Rightarrow> (token_error, token_outputs_per_status) rust_result" where
  "get_token_outputs flt s =
     qbind (ok_or (case flt of
         ByIdentifier tid \<Rightarrow>
           or_else (map_option ato_metadata (map_of (ts_available s) tid))
                   (reserved_metadata s (\<lambda>m. tm_identifier m = tid))
       | ByIssuerPublicKey pk \<Rightarrow>
           or_else (map_option ato_metadata
                      (find (\<lambda>p. tm_issuer_public_key (ato_metadata p) = pk) (hm_values (ts_available s))))
                   (reserved_metadata s (\<lambda>m. tm_issuer_public_key m = pk)))
       (TE_Generic ''Token outputs not found''))
     (\<lambda>md. let tid = tm_identifier md;
               base = \<lparr>ps_metadata = md,
                 ps_available = (case map_of (ts_available s) tid of None \<Rightarrow> [] | Some p \<Rightarrow> output_vec p),
                 ps_reserved_for_payment = [], ps_reserved_for_swap = []\<rparr>
           in Inr (fold (\<lambda>e r. add_reserved (te_purpose e) (outputs_for e tid) r)
                     (hm_values (ts_reservations s)) base))"

subsection \<open>Updates\<close>

fun remove_from_pools :: "outpoint \<Rightarrow> token_pools \<Rightarrow> token_pools" where
  "remove_from_pools op [] = []"
| "remove_from_pools op ((tid, p) # ps) =
     (if hm_contains op (ato_outputs p) then (tid, p\<lparr>ato_outputs := hm_remove op (ato_outputs p)\<rparr>) # ps
      else (tid, p) # remove_from_pools op ps)"

definition remove_output :: "system_time \<Rightarrow> outpoint \<Rightarrow> token_outputs_state \<Rightarrow> token_outputs_state" where
  "remove_output now op s = s\<lparr>ts_available := remove_from_pools op (ts_available s),
     ts_spent_outpoints := hm_insert op now (ts_spent_outpoints s)\<rparr>"

definition insert_output ::
  "system_time \<Rightarrow> token_outputs \<Rightarrow> token_output_with_prev_out \<Rightarrow> token_outputs_state \<Rightarrow> token_outputs_state" where
  "insert_output now tos o' s =
     (let op = outpoint_of o';
          s1 = s\<lparr>ts_spent_outpoints := hm_remove op (ts_spent_outpoints s)\<rparr>
      in case metadata_for tos (tp_token o') of
           None \<Rightarrow> s1
         | Some md \<Rightarrow>
             let entry = or_insert_pool md (map_of (ts_available s1) (tp_token o'));
                 outputs = (if hm_contains op (ato_outputs entry) then ato_outputs entry
                            else hm_insert op \<lparr>so_output = o', so_added_at = now\<rparr> (ato_outputs entry))
             in s1\<lparr>ts_available := hm_insert (tp_token o') (entry\<lparr>ato_outputs := outputs\<rparr>) (ts_available s1)\<rparr>)"

definition update_token_outputs ::
  "system_time \<Rightarrow> outpoint list \<Rightarrow> token_outputs \<Rightarrow> token_outputs_state
     \<Rightarrow> (token_error, unit) rust_result \<times> token_outputs_state" where
  "update_token_outputs now outputs_to_remove outputs_to_add s =
     (Inr (), fold (insert_output now outputs_to_add) (tos_outputs outputs_to_add)
                (fold (remove_output now) outputs_to_remove s))"

subsection \<open>Reserving\<close>

fun validate_targets :: "(string \<times> reservation_target) list \<Rightarrow> (token_error, unit) rust_result" where
  "validate_targets [] = Inr ()"
| "validate_targets ((_, t) # ts) = qbind (validate_target t) (\<lambda>_. validate_targets ts)"

fun select_targets ::
  "token_pools \<Rightarrow> token_output_with_prev_out list option \<Rightarrow> selection_strategy option
     \<Rightarrow> (string \<times> reservation_target) list
     \<Rightarrow> (token_error, (token_metadata \<times> token_output_with_prev_out list) list) rust_result" where
  "select_targets avail preferred strategy [] = Inr []"
| "select_targets avail preferred strategy ((tid, target) # ts) =
     (case map_of avail tid of
        None \<Rightarrow> Inl (TE_Generic (''Token outputs not found for identifier: '' @ tid))
      | Some pool \<Rightarrow>
          qbind (select_available pool preferred target strategy) (\<lambda>sel.
          qbind (select_targets avail preferred strategy ts) (\<lambda>rest.
            Inr ((ato_metadata pool, sel) # rest))))"

fun take_outputs ::
  "string \<Rightarrow> token_output_with_prev_out list \<Rightarrow> token_pools \<Rightarrow> token_pools \<times> stored_token_output list" where
  "take_outputs tid [] avail = (avail, [])"
| "take_outputs tid (o' # os) avail =
     (case pool_take tid (outpoint_of o') avail of
        (None, _) \<Rightarrow> take_outputs tid os avail
      | (Some so, avail') \<Rightarrow> (case take_outputs tid os avail' of (avail'', sos) \<Rightarrow> (avail'', so # sos)))"

text \<open>The outputs are taken out token by token; a missing pool ends the operation with an error, after the
  outputs of the tokens before it have been taken out.\<close>

fun take_selected ::
  "(token_metadata \<times> token_output_with_prev_out list) list \<Rightarrow> token_pools
     \<Rightarrow> (token_error, stored_token_output list) rust_result \<times> token_pools" where
  "take_selected [] avail = (Inr [], avail)"
| "take_selected ((md, sel) # rest) avail =
     (if \<not> hm_contains (tm_identifier md) avail
      then (Inl (TE_Generic (''Token outputs not found for identifier: '' @ tm_identifier md)), avail)
      else case take_outputs (tm_identifier md) sel avail of (avail', sos) \<Rightarrow>
        (case take_selected rest avail' of
           (Inl e, avail'') \<Rightarrow> (Inl e, avail'')
         | (Inr sos', avail'') \<Rightarrow> (Inr (sos @ sos'), avail'')))"

definition reserve_token_outputs ::
  "token_outputs_reservation_id \<Rightarrow> (string \<times> reservation_target) list \<Rightarrow> token_purpose
     \<Rightarrow> token_output_with_prev_out list option \<Rightarrow> selection_strategy option \<Rightarrow> token_outputs_state
     \<Rightarrow> (token_error, token_outputs_reservation) rust_result \<times> token_outputs_state" where
  "reserve_token_outputs uuid targets purpose preferred strategy s =
     (if targets = [] then (Inl (TE_Generic ''No reservation targets provided''), s)
      else case validate_targets targets of
        Inl e \<Rightarrow> (Inl e, s)
      | Inr _ \<Rightarrow>
          (case select_targets (ts_available s) preferred strategy targets of
             Inl e \<Rightarrow> (Inl e, s)
           | Inr selected \<Rightarrow>
               (case take_selected selected (ts_available s) of
                  (Inl e, avail) \<Rightarrow> (Inl e, s\<lparr>ts_available := avail\<rparr>)
                | (Inr stored, avail) \<Rightarrow>
                    (Inr \<lparr>tr_id = uuid, tr_token_outputs =
                            \<lparr>tos_metadata = map fst selected, tos_outputs = concat (map snd selected)\<rparr>\<rparr>,
                     s\<lparr>ts_available := avail,
                       ts_reservations := hm_insert uuid
                         \<lparr>te_metadata = map fst selected, te_stored_outputs = stored, te_purpose = purpose\<rparr>
                         (ts_reservations s)\<rparr>))))"

definition select_token_outputs ::
  "(string \<times> reservation_target) list \<Rightarrow> token_output_with_prev_out list option
     \<Rightarrow> selection_strategy option \<Rightarrow> token_outputs_state \<Rightarrow> (token_error, token_outputs) rust_result" where
  "select_token_outputs targets preferred strategy s =
     (if targets = [] then Inl (TE_Generic ''No selection targets provided'')
      else qbind (validate_targets targets) (\<lambda>_.
           qbind (select_targets (ts_available s) preferred strategy targets) (\<lambda>selected.
             Inr \<lparr>tos_metadata = map fst selected, tos_outputs = concat (map snd selected)\<rparr>)))"

text \<open>Putting an output back into the pool of its token, if there is one.\<close>

definition put_back :: "stored_token_output \<Rightarrow> token_pools \<Rightarrow> token_pools" where
  "put_back so avail =
     (case map_of avail (so_token so) of
        None \<Rightarrow> avail
      | Some p \<Rightarrow> hm_insert (so_token so)
          (p\<lparr>ato_outputs := hm_insert (so_outpoint so) so (ato_outputs p)\<rparr>) avail)"

fun take_wanted ::
  "outpoint set \<Rightarrow> token_pools \<Rightarrow> token_pools \<times> token_metadata list \<times> stored_token_output list" where
  "take_wanted wanted [] = ([], [], [])"
| "take_wanted wanted ((tid, p) # ps) =
     (case take_wanted wanted ps of (ps', mds, sos) \<Rightarrow>
        let matching = hm_retain (\<lambda>op _. op \<in> wanted) (ato_outputs p)
        in if matching = [] then ((tid, p) # ps', mds, sos)
           else ((tid, p\<lparr>ato_outputs := hm_retain (\<lambda>op _. op \<notin> wanted) (ato_outputs p)\<rparr>) # ps',
                 ato_metadata p # mds, map snd matching @ sos))"

definition reserve_token_outputs_by_outpoints ::
  "token_outputs_reservation_id \<Rightarrow> outpoint list \<Rightarrow> token_purpose \<Rightarrow> token_outputs_state
     \<Rightarrow> (token_error, token_outputs_reservation) rust_result \<times> token_outputs_state" where
  "reserve_token_outputs_by_outpoints uuid outpoints purpose s =
     (if outpoints = [] then (Inl (TE_Generic ''No outpoints provided''), s)
      else case take_wanted (set outpoints) (ts_available s) of (avail, mds, stored) \<Rightarrow>
        if length stored \<noteq> card (set outpoints)
        then (Inl (TE_InsufficientFunds None), s\<lparr>ts_available := fold put_back stored avail\<rparr>)
        else (Inr \<lparr>tr_id = uuid, tr_token_outputs = \<lparr>tos_metadata = mds, tos_outputs = map so_output stored\<rparr>\<rparr>,
              s\<lparr>ts_available := avail,
                ts_reservations := hm_insert uuid
                  \<lparr>te_metadata = mds, te_stored_outputs = stored, te_purpose = purpose\<rparr> (ts_reservations s)\<rparr>))"

subsection \<open>Settling\<close>

definition cancel_token_reservation ::
  "token_outputs_reservation_id \<Rightarrow> token_outputs_state
     \<Rightarrow> (token_error, unit) rust_result \<times> token_outputs_state" where
  "cancel_token_reservation rid s =
     (Inr (), case map_of (ts_reservations s) rid of
        None \<Rightarrow> s
      | Some e \<Rightarrow> s\<lparr>ts_reservations := hm_remove rid (ts_reservations s),
                    ts_available := fold put_back (te_stored_outputs e) (ts_available s)\<rparr>)"

definition finalize_token_reservation ::
  "system_time \<Rightarrow> token_outputs_reservation_id \<Rightarrow> token_outputs_state
     \<Rightarrow> (token_error, unit) rust_result \<times> token_outputs_state" where
  "finalize_token_reservation now rid s =
     (Inr (), case map_of (ts_reservations s) rid of
        None \<Rightarrow> s
      | Some e \<Rightarrow> s\<lparr>ts_reservations := hm_remove rid (ts_reservations s),
            ts_spent_outpoints := fold (\<lambda>so. hm_insert (so_outpoint so) now) (te_stored_outputs e) (ts_spent_outpoints s),
            ts_last_swap_completed_at :=
              (if te_purpose e = TokenSwap then Some now else ts_last_swap_completed_at s)\<rparr>)"


subsection \<open>Balances and settling after use\<close>

definition get_token_balances ::
  "token_outputs_state \<Rightarrow> (token_error, (token_metadata \<times> u128) list) rust_result" where
  "get_token_balances s = qbind (list_tokens_outputs s) (\<lambda>ts. Inr (map (\<lambda>t. (ps_metadata t, ps_balance t)) ts))"

text \<open>Running the work a reservation was made for, and settling the reservation by its outcome. The
  work is a function of the rest of the world, and runs between other operations of the store:
  \<open>s\<close> is the store when it ends.\<close>

definition with_reserved_token_outputs ::
  "system_time \<Rightarrow> ('e, 'r) rust_result \<Rightarrow> token_outputs_reservation \<Rightarrow> token_outputs_state
     \<Rightarrow> ('e, 'r) rust_result \<times> token_outputs_state" where
  "with_reserved_token_outputs now outcome reservation s =
     (case outcome of
        Inr r \<Rightarrow> (Inr r, snd (finalize_token_reservation now (tr_id reservation) s))
      | Inl e \<Rightarrow> (Inl e, snd (cancel_token_reservation (tr_id reservation) s)))"

end
