(* ===== verification/Token_Store_Inv.thy ===== *)
theory Token_Store_Inv
  imports Token_Store
begin

text \<open>
  The invariant of the token output store and its preservation by every operation. The pools are
  read through \<open>pool_get\<close>, a map from token and outpoint to the stored output, and \<open>pool_mset\<close>, the
  stored outputs as a multiset; every way of taking outputs out of the pools is an instance of
  one relation, \<open>taken\<close>, which composes.
\<close>

subsection \<open>Views of the pools\<close>

type_synonym output_key = "string \<times> outpoint"

definition so_key :: "stored_token_output \<Rightarrow> output_key" where
  "so_key so = (so_token so, so_outpoint so)"

definition pool_get :: "token_pools \<Rightarrow> output_key \<Rightarrow> stored_token_output option" where
  "pool_get avail k = (case map_of avail (fst k) of None \<Rightarrow> None | Some p \<Rightarrow> map_of (ato_outputs p) (snd k))"

definition pool_mset :: "token_pools \<Rightarrow> stored_token_output multiset" where
  "pool_mset avail = sum_list (map (\<lambda>p. mset (hm_values (ato_outputs p))) (hm_values avail))"

definition wf_token_pool :: "string \<Rightarrow> available_token_outputs \<Rightarrow> bool" where
  "wf_token_pool tid p = (tm_identifier (ato_metadata p) = tid \<and> wf_map (ato_outputs p)
     \<and> (\<forall>(op, so) \<in> set (ato_outputs p). so_key so = (tid, op)))"

definition wf_pools :: "token_pools \<Rightarrow> bool" where
  "wf_pools avail = (wf_map avail \<and> (\<forall>(tid, p) \<in> set avail. wf_token_pool tid p))"

lemma wf_token_pool_empty [simp]:
  "tm_identifier md = tid \<Longrightarrow> wf_token_pool tid \<lparr>ato_metadata = md, ato_outputs = []\<rparr>"
  by (simp add: wf_token_pool_def)

lemma wf_pools_Nil [simp]: "wf_pools []"
  by (simp add: wf_pools_def)

lemma wf_pools_get: "wf_pools avail \<Longrightarrow> map_of avail tid = Some p \<Longrightarrow> wf_token_pool tid p"
  by (auto simp: wf_pools_def dest: map_of_SomeD)

lemma wf_pools_insert: "wf_pools avail \<Longrightarrow> wf_token_pool tid p \<Longrightarrow> wf_pools (hm_insert tid p avail)"
  using set_insert_subset [of tid p avail] by (fastforce simp: wf_pools_def)

lemma wf_token_pool_put:
  assumes "wf_token_pool tid p" and "so_key so = (tid, op)"
  shows "wf_token_pool tid (p\<lparr>ato_outputs := hm_insert op so (ato_outputs p)\<rparr>)"
  using assms set_insert_subset [of op so "ato_outputs p"] by (fastforce simp: wf_token_pool_def)

lemma wf_token_pool_drop:
  "wf_token_pool tid p \<Longrightarrow> wf_token_pool tid (p\<lparr>ato_outputs := hm_remove op (ato_outputs p)\<rparr>)"
  using set_remove_subset [of op "ato_outputs p"] by (fastforce simp: wf_token_pool_def)

lemma pool_get_Some:
  "pool_get avail (tid, op) = Some so \<longleftrightarrow>
     (\<exists>p. map_of avail tid = Some p \<and> map_of (ato_outputs p) op = Some so)"
  by (simp add: pool_get_def split: option.splits)

lemma pool_get_key:
  assumes "wf_pools avail" and "pool_get avail k = Some so"
  shows "so_key so = k"
proof -
  obtain p where p: "map_of avail (fst k) = Some p" "map_of (ato_outputs p) (snd k) = Some so"
    using assms(2) by (auto simp: pool_get_def split: option.splits)
  from wf_pools_get [OF assms(1) p(1)] map_of_SomeD [OF p(2)] show ?thesis
    by (fastforce simp: wf_token_pool_def)
qed

lemma pool_get_insert:
  "pool_get (hm_insert tid p avail) k = (if fst k = tid then map_of (ato_outputs p) (snd k) else pool_get avail k)"
  by (simp add: pool_get_def update_conv')

lemma pool_get_has_pool: "pool_get avail k = Some so \<Longrightarrow> fst k \<in> fst ` set avail"
  by (auto simp: pool_get_def split: option.splits dest: map_of_SomeD intro: rev_image_eqI)

lemma sum_list_insert:
  fixes f :: "'v \<Rightarrow> 'a multiset"
  assumes "wf_map m" and "map_of m k = Some v"
  shows "sum_list (map f (hm_values m)) = f v + sum_list (map f (hm_values (hm_remove k m)))"
    and "sum_list (map f (hm_values (hm_insert k v' m))) = f v' + sum_list (map f (hm_values (hm_remove k m)))"
  using assms
proof (induction m)
  case (Cons kv m)
  { case 1 with Cons show ?case by (cases kv) (auto simp: wf_map_def) }
  { case 2
    have "k \<notin> fst ` set m" if "fst kv = k" using 2 that by (cases kv) (auto simp: wf_map_def)
    with 2 Cons show ?case by (cases kv) (auto simp: wf_map_def) }
qed simp_all

lemma pool_mset_insert:
  assumes "wf_map avail" and "map_of avail tid = Some p"
  shows "pool_mset (hm_insert tid p' avail) + mset (hm_values (ato_outputs p))
    = pool_mset avail + mset (hm_values (ato_outputs p'))"
  unfolding pool_mset_def sum_list_insert [OF assms] by simp

lemma in_pool_mset:
  assumes "wf_pools avail"
  shows "so \<in># pool_mset avail \<longleftrightarrow> pool_get avail (so_key so) = Some so"
proof -
  have w1: "(tid, p) \<in> set avail \<longleftrightarrow> map_of avail tid = Some p" for tid p
    using assms by (simp add: wf_pools_def wf_map_in)
  have w2: "(op, so) \<in> set (ato_outputs p) \<longleftrightarrow> map_of (ato_outputs p) op = Some so"
    if "map_of avail tid = Some p" for tid p op
    using wf_pools_get [OF assms that] by (simp add: wf_token_pool_def wf_map_in)
  have "so \<in># pool_mset avail \<longleftrightarrow> (\<exists>p \<in> snd ` set avail. so \<in> snd ` set (ato_outputs p))"
    unfolding pool_mset_def by (induction avail) simp_all
  also have "\<dots> \<longleftrightarrow> (\<exists>tid p op. (tid, p) \<in> set avail \<and> (op, so) \<in> set (ato_outputs p))"
    by (simp only: image_iff Bex_def split_paired_Ex snd_conv) blast
  also have "\<dots> \<longleftrightarrow> (\<exists>tid p op. map_of avail tid = Some p \<and> map_of (ato_outputs p) op = Some so)"
    unfolding w1 using w2 by blast
  also have "\<dots> \<longleftrightarrow> (\<exists>tid op. pool_get avail (tid, op) = Some so)" unfolding pool_get_Some by blast
  also have "\<dots> \<longleftrightarrow> pool_get avail (so_key so) = Some so"
    using pool_get_key [OF assms] by (metis prod.collapse)
  finally show ?thesis .
qed

subsection \<open>Taking outputs out\<close>

definition taken :: "token_pools \<Rightarrow> token_pools \<Rightarrow> stored_token_output list \<Rightarrow> bool" where
  "taken a b sos = (wf_pools b \<and> fst ` set b = fst ` set a \<and> pool_mset a = pool_mset b + mset sos
     \<and> distinct (map so_key sos) \<and> (\<forall>so \<in> set sos. pool_get a (so_key so) = Some so)
     \<and> (\<forall>k. pool_get b k = (if k \<in> so_key ` set sos then None else pool_get a k)))"

lemma taken_refl [simp]: "wf_pools a \<Longrightarrow> taken a a []"
  by (simp add: taken_def)

text \<open>No two stored outputs have the same key.\<close>

lemma pool_keys_distinct:
  assumes "wf_pools avail"
  shows "distinct (map so_key (concat (map (\<lambda>p. hm_values (ato_outputs p)) (hm_values avail))))"
  using assms
proof (induction avail)
  case (Cons kv ps)
  obtain tid p where kv: "kv = (tid, p)" by (cases kv)
  have wp: "wf_token_pool tid p" and wps: "wf_pools ps" and fresh: "tid \<notin> fst ` set ps"
    using Cons.prems by (auto simp: kv wf_pools_def wf_map_def)
  have keys: "map so_key (hm_values (ato_outputs p)) = map (Pair tid) (hm_keys (ato_outputs p))"
    using wp by (auto simp: wf_token_pool_def)
  have "distinct (map so_key (hm_values (ato_outputs p)))"
    unfolding keys using wp by (simp add: wf_token_pool_def wf_map_def distinct_map inj_on_def)
  moreover have "so_key so \<noteq> so_key so'"
    if "(op, so) \<in> set (ato_outputs p)" "(tid', p') \<in> set ps" "(op', so') \<in> set (ato_outputs p')" for op so tid' p' op' so'
  proof -
    have "wf_token_pool tid' p'" "tid' \<noteq> tid" using wps fresh that(2) by (auto simp: wf_pools_def intro: rev_image_eqI)
    then show ?thesis using wp that(1,3) by (fastforce simp: wf_token_pool_def)
  qed
  ultimately show ?case using Cons.IH [OF wps] by (auto simp: kv) metis
qed simp

lemma takenI:
  assumes "wf_pools a" and "wf_pools b" and "fst ` set b = fst ` set a" and m: "pool_mset a = pool_mset b + mset sos"
  shows "taken a b sos"
proof -
  let ?l = "\<lambda>avail. concat (map (\<lambda>p. hm_values (ato_outputs p)) (hm_values avail))"
  have l: "mset (?l avail) = pool_mset avail" for avail
    by (induction avail) (simp_all add: pool_mset_def)
  have "mset (map so_key (?l b @ sos)) = mset (map so_key (?l a))" using m l by (simp flip: l)
  then have d: "distinct (map so_key (?l b @ sos))"
    using pool_keys_distinct [OF assms(1)] by (metis mset_eq_imp_distinct_iff)
  have b: "so \<in> set (?l b) \<longleftrightarrow> pool_get b (so_key so) = Some so" for so
    using in_pool_mset [OF assms(2), of so] by (metis l set_mset_mset)
  have a: "pool_get a (so_key so) = Some so \<longleftrightarrow> so \<in> set sos \<or> pool_get b (so_key so) = Some so" for so
    using in_pool_mset [OF assms(1), of so] in_pool_mset [OF assms(2), of so] m by auto
  have "pool_get b k = (if k \<in> so_key ` set sos then None else pool_get a k)" for k
  proof (cases "pool_get b k")
    case None
    then show ?thesis using a pool_get_key [OF assms(1), of k]
      by (cases "pool_get a k") (auto intro: rev_image_eqI)
  next
    case (Some so)
    then have k: "so_key so = k" by (rule pool_get_key [OF assms(2)])
    have "so \<in> set (?l b)" using Some k by (simp only: b)
    then have "k \<notin> so_key ` set sos" using d k by auto
    moreover have "pool_get a k = Some so" using a [of so] Some k by simp
    ultimately show ?thesis using Some by simp
  qed
  then show ?thesis using assms a d by (simp add: taken_def)
qed

lemma taken_get: "taken a b sos \<Longrightarrow> pool_get b k = (if k \<in> so_key ` set sos then None else pool_get a k)"
  by (cases k) (simp add: taken_def)

lemma taken_stored: "taken a b sos \<Longrightarrow> so \<in> set sos \<Longrightarrow> pool_get a (so_key so) = Some so"
  by (simp add: taken_def)

lemma taken_wf: "taken a b sos \<Longrightarrow> wf_pools b"
  by (simp add: taken_def)

lemma taken_trans:
  assumes "taken a b xs" and "taken b c ys"
  shows "taken a c (xs @ ys)"
proof -
  note a = assms(1) [unfolded taken_def] and b = assms(2) [unfolded taken_def]
  have fresh: "so_key y \<notin> so_key ` set xs" "pool_get a (so_key y) = Some y" if "y \<in> set ys" for y
    using a b that by (metis option.distinct(1))+
  have "distinct (map so_key (xs @ ys))" using a b fresh(1) by fastforce
  moreover have "pool_get c k = (if k \<in> so_key ` set (xs @ ys) then None else pool_get a k)" for k
    using a b by (cases k) (simp add: image_Un)
  ultimately show ?thesis using a b fresh(2) unfolding taken_def by auto
qed

lemma pool_take_taken:
  assumes "wf_pools avail" and "pool_take tid op avail = (r, avail')"
  shows "r = pool_get avail (tid, op)"
    and "taken avail avail' (case r of None \<Rightarrow> [] | Some so \<Rightarrow> [so])"
    and "r = None \<Longrightarrow> avail' = avail"
proof -
  show r: "r = pool_get avail (tid, op)"
    using assms(2) by (auto simp: pool_take_def pool_get_def split: option.splits)
  show "r = None \<Longrightarrow> avail' = avail" using assms(2) by (auto simp: pool_take_def split: option.splits)
  show "taken avail avail' (case r of None \<Rightarrow> [] | Some so \<Rightarrow> [so])"
  proof (cases r)
    case None
    then show ?thesis using assms by (auto simp: pool_take_def split: option.splits)
  next
    case (Some so)
    then obtain p where p: "map_of avail tid = Some p" "map_of (ato_outputs p) op = Some so"
        "avail' = hm_insert tid (p\<lparr>ato_outputs := hm_remove op (ato_outputs p)\<rparr>) avail"
      using assms(2) by (auto simp: pool_take_def split: option.splits)
    have key: "so_key so = (tid, op)" using pool_get_key [OF assms(1)] r Some by metis
    have wp: "wf_token_pool tid p" and wm: "wf_map avail" using wf_pools_get [OF assms(1) p(1)] assms(1)
      by (simp_all add: wf_pools_def)
    have "mset (hm_values (ato_outputs p)) = add_mset so (mset (hm_values (hm_remove op (ato_outputs p))))"
      using wp p(2) by (intro mset_values_remove) (simp_all add: wf_token_pool_def)
    with pool_mset_insert [OF wm p(1), of "p\<lparr>ato_outputs := hm_remove op (ato_outputs p)\<rparr>"]
    have "pool_mset avail = pool_mset avail' + {#so#}" by (simp add: p(3))
    moreover have "wf_pools avail'"
      unfolding p(3) by (intro wf_pools_insert wf_token_pool_drop assms(1) wp)
    moreover have "tid \<in> fst ` set avail" using p(1) by (auto dest: map_of_SomeD intro: rev_image_eqI)
    then have "fst ` set avail' = fst ` set avail" unfolding p(3) by auto
    moreover have "pool_get avail' k = (if k = (tid, op) then None else pool_get avail k)" for k
      unfolding p(3) pool_get_insert using p by (cases k) (auto simp: pool_get_def delete_conv')
    ultimately show ?thesis using Some r key by (simp add: taken_def)
  qed
qed

lemma take_outputs_taken:
  "wf_pools avail \<Longrightarrow> take_outputs tid os avail = (avail', sos) \<Longrightarrow> taken avail avail' sos"
proof (induction tid os avail arbitrary: avail' sos rule: take_outputs.induct)
  case (2 tid o' os avail)
  obtain r av where t: "pool_take tid (outpoint_of o') avail = (r, av)" by fastforce
  note pt = pool_take_taken [OF 2(3) t]
  show ?case
  proof (cases r)
    case None
    with 2 t pt show ?thesis by simp
  next
    case (Some so)
    obtain sos' where run: "take_outputs tid os av = (avail', sos')" and sos: "sos = so # sos'"
      using 2(4) t Some by (auto split: prod.splits)
    have tk: "taken avail av [so]" using pt(2) Some by simp
    have "taken av avail' sos'" using 2(2) [OF t [symmetric] Some taken_wf [OF tk] run] t Some by simp
    with taken_trans [OF tk] sos show ?thesis by simp
  qed
qed simp

lemma take_selected_taken:
  "wf_pools avail \<Longrightarrow> take_selected sel avail = (Inr sos, avail') \<Longrightarrow> taken avail avail' sos"
proof (induction sel avail arbitrary: avail' sos rule: take_selected.induct)
  case (2 md sel rest avail)
  from 2(3) have h: "hm_contains (tm_identifier md) avail" by (simp split: if_splits)
  obtain av s1 where t: "take_outputs (tm_identifier md) sel avail = (av, s1)" by fastforce
  with 2(3) h obtain s2 where run: "take_selected rest av = (Inr s2, avail')" and sos: "sos = s1 @ s2"
    by (auto split: prod.splits sum.splits)
  have tk: "taken avail av s1" by (rule take_outputs_taken [OF 2(2) t])
  have "taken av avail' s2" using 2(1) [OF _ t [symmetric] taken_wf [OF tk] run] h by simp
  with taken_trans [OF tk] sos show ?case by simp
qed simp


subsection \<open>Putting outputs back\<close>

lemma put_back_spec:
  assumes "wf_pools avail" and "so_token so \<in> fst ` set avail" and "pool_get avail (so_key so) = None"
  shows "wf_pools (put_back so avail)" and "fst ` set (put_back so avail) = fst ` set avail"
    and "pool_mset (put_back so avail) = pool_mset avail + {#so#}"
    and "pool_get (put_back so avail) k = (if k = so_key so then Some so else pool_get avail k)"
proof -
  obtain p where p: "map_of avail (so_token so) = Some p"
    using assms(2) by (metis map_of_eq_None_iff not_Some_eq)
  let ?p = "p\<lparr>ato_outputs := hm_insert (so_outpoint so) so (ato_outputs p)\<rparr>"
  have pb: "put_back so avail = hm_insert (so_token so) ?p avail" by (simp add: put_back_def p)
  have fresh: "so_outpoint so \<notin> fst ` set (ato_outputs p)"
    using assms(3) p by (simp add: pool_get_def so_key_def map_of_eq_None_iff)
  have wm: "wf_map avail" using assms(1) by (simp add: wf_pools_def)
  show "wf_pools (put_back so avail)"
    unfolding pb by (intro wf_pools_insert wf_token_pool_put wf_pools_get [OF assms(1) p] assms(1)) (simp add: so_key_def)
  show "fst ` set (put_back so avail) = fst ` set avail" unfolding pb using assms(2) by auto
  show "pool_mset (put_back so avail) = pool_mset avail + {#so#}"
    using pool_mset_insert [OF wm p, of ?p] fresh by (simp add: pb insert_fresh)
  show "pool_get (put_back so avail) k = (if k = so_key so then Some so else pool_get avail k)"
    unfolding pb pool_get_insert using p by (cases k) (auto simp: pool_get_def so_key_def update_conv')
qed

lemma fold_put_back:
  assumes "wf_pools avail" and "distinct (map so_key sos)"
    and "\<forall>so \<in> set sos. so_token so \<in> fst ` set avail \<and> pool_get avail (so_key so) = None"
  shows "wf_pools (fold put_back sos avail) \<and> fst ` set (fold put_back sos avail) = fst ` set avail
    \<and> pool_mset (fold put_back sos avail) = pool_mset avail + mset sos
    \<and> (\<forall>k. pool_get (fold put_back sos avail) k
          = (case find (\<lambda>so. so_key so = k) sos of Some so \<Rightarrow> Some so | None \<Rightarrow> pool_get avail k))"
  using assms
proof (induction sos arbitrary: avail)
  case (Cons so sos)
  note pb = put_back_spec [OF Cons.prems(1), of so]
  have ok: "so_token so \<in> fst ` set avail" "pool_get avail (so_key so) = None" using Cons.prems(3) by simp_all
  have IH: "wf_pools (fold put_back sos (put_back so avail)) \<and> fst ` set (fold put_back sos (put_back so avail)) = fst ` set (put_back so avail)
    \<and> pool_mset (fold put_back sos (put_back so avail)) = pool_mset (put_back so avail) + mset sos
    \<and> (\<forall>k. pool_get (fold put_back sos (put_back so avail)) k
          = (case find (\<lambda>so. so_key so = k) sos of Some so \<Rightarrow> Some so | None \<Rightarrow> pool_get (put_back so avail) k))"
    using Cons.prems pb [OF ok] by (intro Cons.IH) (auto simp: image_iff)
  have "find (\<lambda>s. so_key s = so_key so) sos = None"
    using Cons.prems(2) by (auto simp: find_None_iff intro: rev_image_eqI)
  with IH pb [OF ok] show ?case by (auto split: option.splits)
qed simp

text \<open>Putting back what was taken restores the pools.\<close>

lemma taken_put_back:
  assumes "taken a b sos" and "wf_pools a"
  shows "wf_pools (fold put_back sos b)" and "fst ` set (fold put_back sos b) = fst ` set a"
    and "pool_mset (fold put_back sos b) = pool_mset a" and "pool_get (fold put_back sos b) = pool_get a"
proof -
  have pre: "so_token so \<in> fst ` set b \<and> pool_get b (so_key so) = None" if "so \<in> set sos" for so
  proof
    show "so_token so \<in> fst ` set b"
      using assms(1) that pool_get_has_pool [of a "so_key so" so] by (simp add: taken_def so_key_def)
    show "pool_get b (so_key so) = None" using assms(1) that by (cases "so_key so") (auto simp: taken_def intro: rev_image_eqI)
  qed
  have d: "distinct (map so_key sos)" using assms(1) by (simp add: taken_def)
  note fp = fold_put_back [OF taken_wf [OF assms(1)] d, simplified, OF ballI [OF pre]]
  show "wf_pools (fold put_back sos b)" "fst ` set (fold put_back sos b) = fst ` set a"
      "pool_mset (fold put_back sos b) = pool_mset a"
    using fp assms(1) by (auto simp: taken_def)
  show "pool_get (fold put_back sos b) = pool_get a"
  proof
    fix k
    show "pool_get (fold put_back sos b) k = pool_get a k"
    proof (cases "find (\<lambda>so. so_key so = k) sos")
      case None
      then have "k \<notin> so_key ` set sos" by (auto simp: find_None_iff)
      with None fp assms(1) show ?thesis by (cases k) (simp add: taken_def)
    next
      case (Some so)
      then have "so \<in> set sos" "so_key so = k" by (auto simp: find_Some_iff)
      with Some fp assms(1) show ?thesis by (cases k) (auto simp: taken_def)
    qed
  qed
qed


subsection \<open>Taking a set of outpoints\<close>

lemma set_retain_subset: "set (hm_retain P m) \<subseteq> set m"
  by (auto simp: hm_retain_def)

lemma take_wanted_keys: "take_wanted w a = (b, mds, sos) \<Longrightarrow> map fst b = map fst a"
  by (induction w a arbitrary: b mds sos rule: take_wanted.induct) (auto simp: Let_def split: prod.splits if_splits)

text \<open>The pools after taking, read pool by pool.\<close>

lemma retain_all_or_none: "hm_retain (\<lambda>k _. k \<in> w) m = [] \<Longrightarrow> hm_retain (\<lambda>k _. k \<notin> w) m = m"
  by (induction m) (auto simp: hm_retain_def split: if_splits)

lemma mset_retain_split: "mset m = mset (hm_retain (\<lambda>k _. k \<in> w) m) + mset (hm_retain (\<lambda>k _. k \<notin> w) m)"
  by (induction m) (auto simp: hm_retain_def)

lemma take_wanted_get:
  "take_wanted w a = (b, mds, sos) \<Longrightarrow>
     map_of b tid = map_option (\<lambda>p. p\<lparr>ato_outputs := hm_retain (\<lambda>op _. op \<notin> w) (ato_outputs p)\<rparr>) (map_of a tid)"
proof (induction w a arbitrary: b mds sos rule: take_wanted.induct)
  case (2 w t p ps)
  have "p\<lparr>ato_outputs := hm_retain (\<lambda>op _. op \<notin> w) (ato_outputs p)\<rparr> = p"
    if "hm_retain (\<lambda>op _. op \<in> w) (ato_outputs p) = []"
    using retain_all_or_none [OF that] by simp
  with 2 show ?case by (auto simp: Let_def split: prod.splits if_splits)
qed simp

lemma take_wanted_mset: "take_wanted w a = (b, mds, sos) \<Longrightarrow> pool_mset a = pool_mset b + mset sos"
proof (induction w a arbitrary: b mds sos rule: take_wanted.induct)
  case (2 w t p ps)
  obtain b' mds' sos' where run: "take_wanted w ps = (b', mds', sos')" by (cases "take_wanted w ps") auto
  have "mset (hm_values (ato_outputs p)) = mset (hm_values (hm_retain (\<lambda>op _. op \<in> w) (ato_outputs p)))
      + mset (hm_values (hm_retain (\<lambda>op _. op \<notin> w) (ato_outputs p)))"
    using arg_cong [OF mset_retain_split [of "ato_outputs p" w], of "image_mset snd"] by simp
  with 2 run show ?case
    by (auto simp: Let_def pool_mset_def ac_simps split: if_splits)
qed (simp add: pool_mset_def)

lemma take_wanted_wf:
  assumes "wf_pools a" and "take_wanted w a = (b, mds, sos)"
  shows "wf_pools b"
proof -
  have m: "wf_map a" "wf_map b" using assms(1) take_wanted_keys [OF assms(2)] by (simp_all add: wf_pools_def wf_map_def)
  have "wf_token_pool tid (p\<lparr>ato_outputs := hm_retain (\<lambda>op _. op \<notin> w) (ato_outputs p)\<rparr>)"
    if "map_of a tid = Some p" for tid p
    using wf_pools_get [OF assms(1) that] set_retain_subset [of "\<lambda>op _. op \<notin> w" "ato_outputs p"]
    by (fastforce simp: wf_token_pool_def)
  then have "wf_token_pool tid p" if "(tid, p) \<in> set b" for tid p
    using that by (auto simp: wf_map_in [OF m(2)] take_wanted_get [OF assms(2)])
  with m(2) show ?thesis by (auto simp: wf_pools_def)
qed

lemma take_wanted_taken:
  assumes wf: "wf_pools a" and run: "take_wanted w a = (b, mds, sos)"
  shows "taken a b sos" and "so \<in> set sos \<longleftrightarrow> so_outpoint so \<in> w \<and> so \<in># pool_mset a"
proof -
  have keys: "fst ` set b = fst ` set a" using take_wanted_keys [OF run] by (metis set_map)
  show t: "taken a b sos"
    by (rule takenI [OF wf take_wanted_wf [OF assms] keys take_wanted_mset [OF run]])
  have get: "pool_get b k = (if snd k \<in> w then None else pool_get a k)" for k
  proof (cases "map_of a (fst k)")
    case (Some p)
    with wf_pools_get [OF wf Some] show ?thesis
      by (auto simp: pool_get_def take_wanted_get [OF run] wf_token_pool_def hm_get_retain split: option.splits)
  qed (simp add: pool_get_def take_wanted_get [OF run])
  have "so_key so \<in> so_key ` set sos \<longleftrightarrow> pool_get a (so_key so) \<noteq> None \<and> pool_get b (so_key so) = None"
    using taken_stored [OF t] by (auto simp: taken_get [OF t])
  moreover have "so \<in> set sos \<longleftrightarrow> so_key so \<in> so_key ` set sos \<and> pool_get a (so_key so) = Some so"
    using t unfolding taken_def by (metis (no_types, lifting) imageE image_eqI option.inject)
  ultimately show "so \<in> set sos \<longleftrightarrow> so_outpoint so \<in> w \<and> so \<in># pool_mset a"
    by (auto simp: get in_pool_mset [OF wf] so_key_def)
qed


subsection \<open>The invariant\<close>

definition reserved_outputs ::
  "(token_outputs_reservation_id, token_outputs_entry) hash_map \<Rightarrow> stored_token_output list" where
  "reserved_outputs rs = concat (map te_stored_outputs (hm_values rs))"

definition token_inv :: "token_outputs_state \<Rightarrow> bool" where
  "token_inv s = (wf_pools (ts_available s) \<and> wf_map (ts_reservations s)
     \<and> distinct (map so_key (reserved_outputs (ts_reservations s)))
     \<and> (\<forall>so \<in> set (reserved_outputs (ts_reservations s)).
          so_token so \<in> fst ` set (ts_available s) \<and> pool_get (ts_available s) (so_key so) = None))"

lemma token_inv_default: "token_inv token_outputs_state_default"
  by (simp add: token_inv_def token_outputs_state_default_def reserved_outputs_def)

lemma reserved_insert_fresh:
  "rid \<notin> fst ` set rs \<Longrightarrow> reserved_outputs (hm_insert rid e rs) = reserved_outputs rs @ te_stored_outputs e"
  by (simp add: reserved_outputs_def insert_fresh)

lemma reserved_remove:
  assumes "wf_map rs" and "map_of rs rid = Some e"
  shows "mset (reserved_outputs rs) = mset (te_stored_outputs e) + mset (reserved_outputs (hm_remove rid rs))"
proof -
  have "mset (reserved_outputs m) = sum_list (map (\<lambda>e. mset (te_stored_outputs e)) (hm_values m))" for m
    by (induction m) (simp_all add: reserved_outputs_def)
  then show ?thesis using sum_list_insert(1) [OF assms] by simp
qed

lemma reserved_remove_unknown: "rid \<notin> fst ` set rs \<Longrightarrow> hm_remove rid rs = rs"
  by (induction rs) auto

text \<open>A new reservation of outputs that were taken out of the pools.\<close>

lemma token_inv_reserved:
  assumes "token_inv s" and "taken (ts_available s) avail (te_stored_outputs e)"
    and "rid \<notin> fst ` set (ts_reservations s)"
  shows "token_inv (s\<lparr>ts_available := avail, ts_reservations := hm_insert rid e (ts_reservations s)\<rparr>)"
proof -
  have old: "so_key so \<notin> so_key ` set (te_stored_outputs e)" if "so \<in> set (reserved_outputs (ts_reservations s))" for so
    using assms(1) taken_stored [OF assms(2)] that by (force simp: token_inv_def)
  have "so_token so \<in> fst ` set (ts_available s)" if "so \<in> set (te_stored_outputs e)" for so
    using pool_get_has_pool [OF taken_stored [OF assms(2) that]] by (simp add: so_key_def)
  with assms old show ?thesis
    by (auto simp: token_inv_def reserved_insert_fresh [OF assms(3)] taken_get [OF assms(2)] taken_wf) (auto simp: taken_def)
qed

lemma reserved_remove_distinct:
  assumes "token_inv s" and "map_of (ts_reservations s) rid = Some e"
  shows "distinct (map so_key (te_stored_outputs e @ reserved_outputs (hm_remove rid (ts_reservations s))))"
    and "set (reserved_outputs (ts_reservations s))
      = set (te_stored_outputs e) \<union> set (reserved_outputs (hm_remove rid (ts_reservations s)))"
proof -
  have m: "mset (reserved_outputs (ts_reservations s))
      = mset (te_stored_outputs e @ reserved_outputs (hm_remove rid (ts_reservations s)))"
    using reserved_remove [OF _ assms(2)] assms(1) by (simp add: token_inv_def)
  then show "set (reserved_outputs (ts_reservations s))
      = set (te_stored_outputs e) \<union> set (reserved_outputs (hm_remove rid (ts_reservations s)))"
    by (metis mset_eq_setD set_append)
  have "mset (map so_key (reserved_outputs (ts_reservations s)))
      = mset (map so_key (te_stored_outputs e @ reserved_outputs (hm_remove rid (ts_reservations s))))"
    using m by simp
  then show "distinct (map so_key (te_stored_outputs e @ reserved_outputs (hm_remove rid (ts_reservations s))))"
    using assms(1) by (metis mset_eq_imp_distinct_iff token_inv_def)
qed

lemma finalize_token_inv: "token_inv s \<Longrightarrow> token_inv (snd (finalize_token_reservation now rid s))"
proof (cases "map_of (ts_reservations s) rid")
  case (Some e)
  assume inv: "token_inv s"
  from reserved_remove_distinct [OF inv Some] inv show ?thesis
    by (auto simp: finalize_token_reservation_def Some token_inv_def)
qed (simp add: finalize_token_reservation_def)

lemma cancel_put_back:
  assumes inv: "token_inv s" and e: "map_of (ts_reservations s) rid = Some e"
  defines "avail \<equiv> fold put_back (te_stored_outputs e) (ts_available s)"
  shows "wf_pools avail" and "fst ` set avail = fst ` set (ts_available s)"
    and "pool_mset avail = pool_mset (ts_available s) + mset (te_stored_outputs e)"
    and "k \<notin> so_key ` set (te_stored_outputs e) \<Longrightarrow> pool_get avail k = pool_get (ts_available s) k"
proof -
  note r = reserved_remove_distinct [OF inv e]
  have fp: "wf_pools avail \<and> fst ` set avail = fst ` set (ts_available s)
    \<and> pool_mset avail = pool_mset (ts_available s) + mset (te_stored_outputs e)
    \<and> (\<forall>k. pool_get avail k = (case find (\<lambda>so. so_key so = k) (te_stored_outputs e) of
           Some so \<Rightarrow> Some so | None \<Rightarrow> pool_get (ts_available s) k))"
    unfolding avail_def using inv r by (intro fold_put_back) (auto simp: token_inv_def)
  then show "wf_pools avail" and "fst ` set avail = fst ` set (ts_available s)"
    and "pool_mset avail = pool_mset (ts_available s) + mset (te_stored_outputs e)" by simp_all
  assume "k \<notin> so_key ` set (te_stored_outputs e)"
  then have "find (\<lambda>so. so_key so = k) (te_stored_outputs e) = None" by (auto simp: find_None_iff)
  then show "pool_get avail k = pool_get (ts_available s) k" using fp by (metis option.simps(4))
qed

lemma cancel_token_inv: "token_inv s \<Longrightarrow> token_inv (snd (cancel_token_reservation rid s))"
proof (cases "map_of (ts_reservations s) rid")
  case (Some e)
  assume inv: "token_inv s"
  note r = reserved_remove_distinct [OF inv Some] and pb = cancel_put_back [OF inv Some]
  have "pool_get (fold put_back (te_stored_outputs e) (ts_available s)) (so_key so) = None"
    if "so \<in> set (reserved_outputs (hm_remove rid (ts_reservations s)))" for so
    using pb(4) [of "so_key so"] r inv that by (auto simp: token_inv_def)
  with pb r inv show ?thesis
    by (auto simp: cancel_token_reservation_def Some token_inv_def)
qed (simp add: cancel_token_reservation_def)

end
