(* ===== verification/Token_Store_Refresh.thy ===== *)
theory Token_Store_Refresh
  imports Token_Store_Inv
begin

text \<open>
  Updates and refreshes of the token output store: they keep the invariant, a refresh merges the
  snapshot with what the store knows better, and outputs that were spent do not come back.
\<close>

subsection \<open>Direct updates\<close>

lemma remove_from_pools_get:
  assumes "wf_pools avail"
  shows "wf_pools (remove_from_pools op avail)" and "fst ` set (remove_from_pools op avail) = fst ` set avail"
    and "pool_get (remove_from_pools op avail) k \<in> {None, pool_get avail k}"
proof -
  have keys: "map fst (remove_from_pools op avail) = map fst avail"
    by (induction op avail rule: remove_from_pools.induct) auto
  then show k: "fst ` set (remove_from_pools op avail) = fst ` set avail" by (metis set_map)
  have pools: "wf_token_pool tid p" if "(tid, p) \<in> set (remove_from_pools op avail)" for tid p
    using assms that
    by (induction op avail rule: remove_from_pools.induct)
       (auto simp: wf_pools_def wf_map_def wf_token_pool_drop split: if_splits)
  show "wf_pools (remove_from_pools op avail)"
    using assms keys pools by (auto simp: wf_pools_def wf_map_def)
  show "pool_get (remove_from_pools op avail) k \<in> {None, pool_get avail k}"
    by (induction op avail rule: remove_from_pools.induct) (auto simp: pool_get_def delete_conv')
qed

text \<open>Changing the pools keeps the invariant if no reserved output appears in a pool and no pool goes away.\<close>

lemma token_inv_pools:
  assumes "token_inv s" and "ts_reservations s' = ts_reservations s" and "wf_pools (ts_available s')"
    and "fst ` set (ts_available s) \<subseteq> fst ` set (ts_available s')"
    and "\<And>so. so \<in> set (reserved_outputs (ts_reservations s)) \<Longrightarrow>
      pool_get (ts_available s') (so_key so) \<in> {None, pool_get (ts_available s) (so_key so)}"
  shows "token_inv s'"
proof -
  have "pool_get (ts_available s') (so_key so) = None" if "so \<in> set (reserved_outputs (ts_reservations s))" for so
    using assms(1) assms(5) [OF that] that by (auto simp: token_inv_def)
  with assms(1-4) show ?thesis unfolding token_inv_def by auto
qed

lemma insert_output_reservations [simp]: "ts_reservations (insert_output now tos o' s) = ts_reservations s"
  by (simp add: insert_output_def Let_def split: option.splits)

lemma remove_output_reservations [simp]: "ts_reservations (remove_output now op s) = ts_reservations s"
  by (simp add: remove_output_def)

lemma remove_output_inv:
  assumes inv: "token_inv s"
  shows "token_inv (remove_output now op s)"
proof (rule token_inv_pools [OF inv remove_output_reservations])
  have wf: "wf_pools (ts_available s)" using inv by (simp add: token_inv_def)
  have av: "ts_available (remove_output now op s) = remove_from_pools op (ts_available s)"
    by (simp add: remove_output_def)
  note rp = remove_from_pools_get [OF wf, of op]
  show "wf_pools (ts_available (remove_output now op s))"
      "fst ` set (ts_available s) \<subseteq> fst ` set (ts_available (remove_output now op s))"
    unfolding av using rp(1,2) by auto
  show "pool_get (ts_available (remove_output now op s)) (so_key so) \<in> {None, pool_get (ts_available s) (so_key so)}" for so
    unfolding av by (rule rp(3))
qed

definition insert_pool_entry ::
  "system_time \<Rightarrow> token_metadata \<Rightarrow> token_output_with_prev_out \<Rightarrow> token_pools \<Rightarrow> available_token_outputs" where
  "insert_pool_entry now md o' avail =
     (let entry = or_insert_pool md (map_of avail (tp_token o'))
      in entry\<lparr>ato_outputs := (if hm_contains (outpoint_of o') (ato_outputs entry) then ato_outputs entry
           else hm_insert (outpoint_of o') \<lparr>so_output = o', so_added_at = now\<rparr> (ato_outputs entry))\<rparr>)"

lemma metadata_for_id: "metadata_for tos i = Some md \<Longrightarrow> tm_identifier md = i"
  by (auto simp: metadata_for_def find_Some_iff)

lemma or_insert_pool_wf:
  "wf_pools avail \<Longrightarrow> tm_identifier md = tid \<Longrightarrow> wf_token_pool tid (or_insert_pool md (map_of avail tid))"
  by (auto simp: or_insert_pool_def wf_pools_get split: option.splits)

lemma or_insert_pool_get: "map_of (ato_outputs (or_insert_pool md (map_of avail tid))) op = pool_get avail (tid, op)"
  by (simp add: or_insert_pool_def pool_get_def split: option.splits)

lemma insert_output_inv:
  assumes inv: "token_inv s"
    and fresh: "(tp_token o', outpoint_of o') \<notin> so_key ` set (reserved_outputs (ts_reservations s))"
  shows "token_inv (insert_output now tos o' s)"
proof (cases "metadata_for tos (tp_token o')")
  case (Some md)
  let ?p = "insert_pool_entry now md o' (ts_available s)"
  have wf: "wf_pools (ts_available s)" using inv by (simp add: token_inv_def)
  have "wf_token_pool (tp_token o') ?p"
    unfolding insert_pool_entry_def Let_def
    using wf_token_pool_put [OF or_insert_pool_wf [OF wf metadata_for_id [OF Some]],
        of "\<lparr>so_output = o', so_added_at = now\<rparr>" "outpoint_of o'"] or_insert_pool_wf [OF wf metadata_for_id [OF Some]]
    by (auto simp: so_key_def)
  then have wf': "wf_pools (hm_insert (tp_token o') ?p (ts_available s))" by (rule wf_pools_insert [OF wf])
  have "map_of (ato_outputs ?p) op = pool_get (ts_available s) (tp_token o', op)" if "op \<noteq> outpoint_of o'" for op
    using that by (auto simp: insert_pool_entry_def Let_def update_conv' or_insert_pool_get)
  then have get: "pool_get (hm_insert (tp_token o') ?p (ts_available s)) k = pool_get (ts_available s) k"
    if "k \<noteq> (tp_token o', outpoint_of o')" for k
    using that by (cases k) (auto simp: pool_get_insert)
  have av: "ts_available (insert_output now tos o' s) = hm_insert (tp_token o') ?p (ts_available s)"
    by (simp add: insert_output_def Let_def Some insert_pool_entry_def)
  show ?thesis
  proof (rule token_inv_pools [OF inv insert_output_reservations])
    show "wf_pools (ts_available (insert_output now tos o' s))"
        "fst ` set (ts_available s) \<subseteq> fst ` set (ts_available (insert_output now tos o' s))"
      unfolding av using wf' by auto
    show "pool_get (ts_available (insert_output now tos o' s)) (so_key so) \<in> {None, pool_get (ts_available s) (so_key so)}"
      if "so \<in> set (reserved_outputs (ts_reservations s))" for so
      unfolding av using get [of "so_key so"] fresh that by (metis image_eqI insertI1 insert_commute)
  qed
qed (use inv in \<open>simp add: token_inv_def insert_output_def\<close>)

text \<open>The caller adds only outputs that no reservation holds.\<close>

lemma update_token_inv:
  assumes "token_inv s"
    and "\<forall>o' \<in> set (tos_outputs to_add). (tp_token o', outpoint_of o') \<notin> so_key ` set (reserved_outputs (ts_reservations s))"
  shows "token_inv (snd (update_token_outputs now to_remove to_add s))"
proof -
  have rem: "token_inv (fold (remove_output now) ops s) \<and> ts_reservations (fold (remove_output now) ops s) = ts_reservations s"
    if "token_inv s" for ops s
    using that by (induction ops arbitrary: s) (simp_all add: remove_output_inv)
  have "token_inv (fold (insert_output now to_add) os s)"
    if "token_inv s" "\<forall>o' \<in> set os. (tp_token o', outpoint_of o') \<notin> so_key ` set (reserved_outputs (ts_reservations s))" for os s
    using that by (induction os arbitrary: s) (simp_all add: insert_output_inv)
  with rem [OF assms(1)] assms(2) show ?thesis by (simp add: update_token_outputs_def)
qed

subsection \<open>Refresh: the new pools\<close>

lemma wf_token_pool_md:
  "wf_token_pool tid p \<Longrightarrow> tm_identifier md = tid \<Longrightarrow> wf_token_pool tid (p\<lparr>ato_metadata := md\<rparr>)"
  by (simp add: wf_token_pool_def)

lemma file_refreshed_wf:
  assumes "wf_pools avail"
  shows "wf_pools (file_refreshed now spent tos o' avail)"
proof (cases "metadata_for tos (tp_token o')")
  case (Some md)
  note id = metadata_for_id [OF Some]
  note wp = wf_token_pool_md [OF or_insert_pool_wf [OF assms id] id]
  show ?thesis
    using wf_pools_insert [OF assms wp]
      wf_pools_insert [OF assms wf_token_pool_put [OF wp, of "\<lparr>so_output = o', so_added_at = now\<rparr>" "outpoint_of o'"]]
    by (simp add: file_refreshed_def Some Let_def so_key_def)
qed (simp add: file_refreshed_def assms)

lemma file_refreshed_get:
  "pool_get (file_refreshed now spent tos o' avail) k =
     (if k = (tp_token o', outpoint_of o') \<and> metadata_for tos (tp_token o') \<noteq> None \<and> \<not> hm_contains (outpoint_of o') spent
      then Some \<lparr>so_output = o', so_added_at = now\<rparr> else pool_get avail k)"
  by (cases k) (auto simp: file_refreshed_def Let_def pool_get_insert update_conv' or_insert_pool_get split: option.splits)

lemma preserve_output_wf:
  assumes "wf_pools avail" and "so_key (snd kv) = (tm_identifier md, fst kv)"
  shows "wf_pools (preserve_output started md kv avail)"
  using assms wf_pools_insert [OF assms(1) wf_token_pool_put [OF or_insert_pool_wf [OF assms(1) refl] assms(2)]]
  by (simp add: preserve_output_def Let_def)

lemma preserve_pool_wf:
  assumes "wf_pools avail" and "wf_token_pool tid old"
  shows "wf_pools (preserve_pool started old avail)"
proof -
  have "wf_pools (fold (preserve_output started (ato_metadata old)) kvs avail)"
    if "wf_pools avail" "\<forall>kv \<in> set kvs. so_key (snd kv) = (tm_identifier (ato_metadata old), fst kv)" for kvs avail
    using that by (induction kvs arbitrary: avail) (simp_all add: preserve_output_wf)
  with assms show ?thesis by (fastforce simp: preserve_pool_def wf_token_pool_def)
qed

definition merged_pools ::
  "system_time \<Rightarrow> token_outputs \<Rightarrow> system_time \<Rightarrow> (outpoint, system_time) hash_map \<Rightarrow> token_pools \<Rightarrow> token_pools" where
  "merged_pools now tos started spent old =
     fold (preserve_pool started) (hm_values old) (fold (file_refreshed now spent tos) (tos_outputs tos) [])"

lemma merged_pools_wf:
  assumes "wf_pools old"
  shows "wf_pools (merged_pools now tos started spent old)"
proof -
  have fresh: "wf_pools (fold (file_refreshed now spent tos) os avail)" if "wf_pools avail" for os avail
    using that by (induction os arbitrary: avail) (simp_all add: file_refreshed_wf)
  have "wf_pools (fold (preserve_pool started) ps avail)"
    if "wf_pools avail" "\<forall>p \<in> set ps. \<exists>tid. wf_token_pool tid p" for ps avail
    using that by (induction ps arbitrary: avail) (auto simp: preserve_pool_wf)
  moreover have "\<forall>p \<in> set (hm_values old). \<exists>tid. wf_token_pool tid p" using assms by (fastforce simp: wf_pools_def)
  ultimately show ?thesis using fresh [of "[]"] by (simp add: merged_pools_def)
qed

subsection \<open>Refresh: the reservations\<close>

text \<open>The reservations after reconciliation, as one pass over the reservations.\<close>

fun reconciled ::
  "token_pools \<Rightarrow> (token_outputs_reservation_id, token_outputs_entry) hash_map
     \<Rightarrow> token_pools \<times> (token_outputs_reservation_id, token_outputs_entry) hash_map" where
  "reconciled avail [] = (avail, [])"
| "reconciled avail ((rid, e) # es) =
     (case reconcile_entry avail (te_stored_outputs e) of (avail', kept) \<Rightarrow>
      case reconciled avail' es of (avail'', es') \<Rightarrow>
        (avail'', if kept = [] then es' else (rid, e\<lparr>te_stored_outputs := kept\<rparr>) # es'))"

lemma delete_append: "hm_remove k (xs @ ys) = hm_remove k xs @ hm_remove k ys"
  by (simp add: AList.delete_eq)

lemma reconcile_reconciled:
  assumes "wf_map (pre @ es)"
  shows "reconcile es (avail, pre @ es) = (fst (reconciled avail es), pre @ snd (reconciled avail es))"
  using assms
proof (induction es arbitrary: avail pre)
  case (Cons re es)
  obtain rid e where re: "re = (rid, e)" by (cases re)
  obtain avail' kept where k: "reconcile_entry avail (te_stored_outputs e) = (avail', kept)" by fastforce
  have fresh: "rid \<notin> fst ` set pre" "rid \<notin> fst ` set es" using Cons.prems by (auto simp: re wf_map_def)
  have del: "hm_remove rid (pre @ re # es) = pre @ es"
    using fresh by (simp add: re delete_append reserved_remove_unknown)
  have ins: "hm_insert rid v (pre @ re # es) = (pre @ [(rid, v)]) @ es" for v
    using fresh(1) by (induction pre) (auto simp: re)
  have wf: "wf_map (pre @ es)" "wf_map ((pre @ [(rid, v)]) @ es)" for v
    using Cons.prems by (auto simp: re wf_map_def)
  show ?case
    using Cons.IH [OF wf(1), of avail'] Cons.IH [OF wf(2), of avail'] k del ins
    by (auto simp: re split: prod.splits)
qed simp

lemma reconcile_entry_taken:
  "wf_pools avail \<Longrightarrow> reconcile_entry avail sos = (avail', kept) \<Longrightarrow>
     \<exists>out. taken avail avail' out \<and> map so_key out = map so_key kept \<and> set kept \<subseteq> set sos"
proof (induction avail sos arbitrary: avail' kept rule: reconcile_entry.induct)
  case (2 avail so sos)
  obtain r av where t: "pool_take (so_token so) (so_outpoint so) avail = (r, av)" by fastforce
  note pt = pool_take_taken [OF 2(3) t]
  show ?case
  proof (cases r)
    case None
    with 2 t pt have "\<exists>out. taken avail avail' out \<and> map so_key out = map so_key kept \<and> set kept \<subseteq> set sos" by simp
    then show ?thesis by auto
  next
    case (Some x)
    obtain kept' where run: "reconcile_entry av sos = (avail', kept')" and kept: "kept = so # kept'"
      using 2(4) t Some by (auto split: prod.splits)
    have tk: "taken avail av [x]" using pt(2) Some by simp
    obtain out where "taken av avail' out" "map so_key out = map so_key kept'" "set kept' \<subseteq> set sos"
      using 2(2) [OF t [symmetric] Some taken_wf [OF tk] run] by blast
    moreover have "so_key x = so_key so"
      using pool_get_key [OF 2(3), of "(so_token so, so_outpoint so)" x] pt(1) Some by (simp add: so_key_def)
    ultimately show ?thesis using taken_trans [OF tk] kept by (intro exI [of _ "x # out"]) auto
  qed
qed (auto intro!: exI [of _ "[]"])

lemma reconciled_taken:
  "wf_pools avail \<Longrightarrow> reconciled avail es = (avail', es') \<Longrightarrow>
     (\<exists>out. taken avail avail' out \<and> map so_key out = map so_key (reserved_outputs es'))
     \<and> set (reserved_outputs es') \<subseteq> set (reserved_outputs es) \<and> fst ` set es' \<subseteq> fst ` set es
     \<and> (wf_map es \<longrightarrow> wf_map es')"
proof (induction avail es arbitrary: avail' es' rule: reconciled.induct)
  case (2 avail rid e es)
  obtain av kept where k: "reconcile_entry avail (te_stored_outputs e) = (av, kept)" by fastforce
  obtain av' rest where r: "reconciled av es = (av', rest)" by fastforce
  obtain out1 where o1: "taken avail av out1" "map so_key out1 = map so_key kept" "set kept \<subseteq> set (te_stored_outputs e)"
    using reconcile_entry_taken [OF 2(2) k] by blast
  note IH = 2(1) [OF k [symmetric] taken_wf [OF o1(1)] r]
  then obtain out2 where o2: "taken av av' out2" "map so_key out2 = map so_key (reserved_outputs rest)" by blast
  have eq: "avail' = av'" "es' = (if kept = [] then rest else (rid, e\<lparr>te_stored_outputs := kept\<rparr>) # rest)"
    using 2(3) k r by simp_all
  then have "reserved_outputs es' = kept @ reserved_outputs rest" by (simp add: reserved_outputs_def)
  moreover have "set (reserved_outputs ((rid, e) # es)) = set (te_stored_outputs e) \<union> set (reserved_outputs es)"
    by (simp add: reserved_outputs_def)
  moreover have "taken avail avail' (out1 @ out2)" using taken_trans [OF o1(1) o2(1)] eq by simp
  ultimately show ?case using IH o1 o2 eq by (intro conjI exI [of _ "out1 @ out2"]) (auto simp: wf_map_def)
qed (auto simp: reserved_outputs_def intro!: exI [of _ "[]"])


lemma set_tokens_reconciled:
  assumes "wf_map (ts_reservations s)" and "\<not> token_has_active_swap s" and "\<not> token_swap_completed_during_refresh s started"
  defines "spent \<equiv> hm_retain (\<lambda>_ spent_at. spent_at \<ge> started) (ts_spent_outpoints s)"
  shows "snd (set_tokens_outputs now tos started s) =
    (case reconciled (merged_pools now tos started spent (ts_available s)) (ts_reservations s) of (avail, rs) \<Rightarrow>
       s\<lparr>ts_available := avail, ts_reservations := rs, ts_spent_outpoints := spent\<rparr>)"
  using reconcile_reconciled [of "[]"] assms(1-3)
  by (simp add: set_tokens_outputs_def merged_pools_def spent_def Let_def split: prod.splits)

lemma set_tokens_inv:
  assumes inv: "token_inv s"
  shows "token_inv (snd (set_tokens_outputs now tos started s))"
proof (cases "token_has_active_swap s \<or> token_swap_completed_during_refresh s started")
  case False
  let ?m = "merged_pools now tos started (hm_retain (\<lambda>_ spent_at. spent_at \<ge> started) (ts_spent_outpoints s)) (ts_available s)"
  have wf: "wf_map (ts_reservations s)" "wf_pools ?m" using inv by (simp_all add: token_inv_def merged_pools_wf)
  obtain avail rs where run: "reconciled ?m (ts_reservations s) = (avail, rs)" by fastforce
  then obtain out where out: "taken ?m avail out" "map so_key out = map so_key (reserved_outputs rs)"
    using reconciled_taken [OF wf(2)] by blast
  have keys: "so_key ` set out = so_key ` set (reserved_outputs rs)" using out(2) by (metis set_map)
  have "so_token so \<in> fst ` set avail \<and> pool_get avail (so_key so) = None" if "so \<in> set (reserved_outputs rs)" for so
  proof
    have k: "so_key so \<in> so_key ` set out" using that keys by simp
    then show "pool_get avail (so_key so) = None" by (simp add: taken_get [OF out(1)])
    obtain x where x: "x \<in> set out" "so_key x = so_key so" using k by auto
    then show "so_token so \<in> fst ` set avail"
      using pool_get_has_pool [OF taken_stored [OF out(1) x(1)]] out(1) by (simp add: taken_def so_key_def)
  qed
  moreover have "distinct (map so_key (reserved_outputs rs))" using out by (simp add: taken_def)
  moreover have "wf_map rs" using reconciled_taken [OF wf(2) run] wf(1) by simp
  ultimately show ?thesis
    using set_tokens_reconciled [OF wf(1)] False run taken_wf [OF out(1)] by (simp add: token_inv_def)
qed (simp add: set_tokens_outputs_def inv)

end
