(* ===== verification/Token_Store_Ledger.thy ===== *)
theory Token_Store_Ledger
  imports Token_Store_Refresh Reservation_Ledger
begin

text \<open>
  The token output store as a reservation ledger (its units are the stored outputs), and what a
  reservation promises: by amount or count over several tokens, or by outpoints.
\<close>

datatype token_request =
    By_Token_Targets "(string \<times> reservation_target) list" token_purpose "token_output_with_prev_out list option"
      "selection_strategy option"
  | By_Outpoints "outpoint list" token_purpose

fun token_reserve ::
  "token_request \<Rightarrow> token_outputs_reservation_id \<Rightarrow> token_outputs_state \<Rightarrow> token_outputs_state option" where
  "token_reserve (By_Token_Targets targets purpose preferred strategy) r s =
     (case reserve_token_outputs r targets purpose preferred strategy s of (Inr _, s') \<Rightarrow> Some s' | _ \<Rightarrow> None)"
| "token_reserve (By_Outpoints ops purpose) r s =
     (case reserve_token_outputs_by_outpoints r ops purpose s of (Inr _, s') \<Rightarrow> Some s' | _ \<Rightarrow> None)"

definition token_held :: "token_outputs_state \<Rightarrow> token_outputs_reservation_id \<Rightarrow> stored_token_output multiset option" where
  "token_held s r = map_option (\<lambda>e. mset (te_stored_outputs e)) (map_of (ts_reservations s) r)"

definition token_available :: "token_outputs_state \<Rightarrow> stored_token_output multiset" where
  "token_available s = pool_mset (ts_available s)"

definition token_cancel :: "token_outputs_reservation_id \<Rightarrow> token_outputs_state \<Rightarrow> token_outputs_state" where
  "token_cancel r s = snd (cancel_token_reservation r s)"

definition token_finalize ::
  "system_time \<Rightarrow> token_outputs_reservation_id \<Rightarrow> token_outputs_state \<Rightarrow> token_outputs_state" where
  "token_finalize now r s = snd (finalize_token_reservation now r s)"

subsection \<open>The laws\<close>

lemma reserve_token_outputs_cases:
  assumes "reserve_token_outputs uuid targets purpose preferred strategy s = (Inr r, s')"
  obtains selected stored avail where "targets \<noteq> []" "validate_targets targets = Inr ()"
    "select_targets (ts_available s) preferred strategy targets = Inr selected"
    "take_selected selected (ts_available s) = (Inr stored, avail)"
    "r = \<lparr>tr_id = uuid, tr_token_outputs =
       \<lparr>tos_metadata = map fst selected, tos_outputs = concat (map snd selected)\<rparr>\<rparr>"
    "s' = s\<lparr>ts_available := avail, ts_reservations := hm_insert uuid
       \<lparr>te_metadata = map fst selected, te_stored_outputs = stored, te_purpose = purpose\<rparr> (ts_reservations s)\<rparr>"
  using assms by (auto simp: reserve_token_outputs_def split: if_splits sum.splits prod.splits)

lemma token_reserve_taken:
  assumes "wf_pools (ts_available s)" and "token_reserve q r s = Some s'"
  obtains avail e where "taken (ts_available s) avail (te_stored_outputs e)"
    "s' = s\<lparr>ts_available := avail, ts_reservations := hm_insert r e (ts_reservations s)\<rparr>"
proof (cases q)
  case (By_Token_Targets targets purpose preferred strategy)
  with assms(2) obtain res where "reserve_token_outputs r targets purpose preferred strategy s = (Inr res, s')"
    by (auto split: prod.splits sum.splits)
  then obtain selected stored avail where
      "take_selected selected (ts_available s) = (Inr stored, avail)"
      "s' = s\<lparr>ts_available := avail, ts_reservations := hm_insert r
         \<lparr>te_metadata = map fst selected, te_stored_outputs = stored, te_purpose = purpose\<rparr> (ts_reservations s)\<rparr>"
    by (elim reserve_token_outputs_cases)
  with take_selected_taken [OF assms(1)] show ?thesis by (intro that) auto
next
  case (By_Outpoints ops purpose)
  obtain avail mds stored where w: "take_wanted (set ops) (ts_available s) = (avail, mds, stored)"
    by (cases "take_wanted (set ops) (ts_available s)") auto
  with By_Outpoints assms(2) have "s' = s\<lparr>ts_available := avail, ts_reservations := hm_insert r
      \<lparr>te_metadata = mds, te_stored_outputs = stored, te_purpose = purpose\<rparr> (ts_reservations s)\<rparr>"
    by (auto simp: reserve_token_outputs_by_outpoints_def split: if_splits)
  with take_wanted_taken(1) [OF assms(1) w] show ?thesis by (intro that) auto
qed

lemma token_reserve_law:
  assumes inv: "token_inv s" and "token_held s r = None" and "token_reserve q r s = Some s'"
  shows "token_inv s' \<and> (\<exists>u. token_available s = token_available s' + u \<and> token_held s' = (token_held s)(r \<mapsto> u))"
proof -
  have wf: "wf_pools (ts_available s)" using inv by (simp add: token_inv_def)
  obtain avail e where t: "taken (ts_available s) avail (te_stored_outputs e)"
      and s': "s' = s\<lparr>ts_available := avail, ts_reservations := hm_insert r e (ts_reservations s)\<rparr>"
    using token_reserve_taken [OF wf assms(3)] by blast
  have "r \<notin> fst ` set (ts_reservations s)" using assms(2) by (simp add: token_held_def map_of_eq_None_iff)
  then have "token_inv s'" unfolding s' by (rule token_inv_reserved [OF inv t])
  moreover have "token_available s = token_available s' + mset (te_stored_outputs e)"
    using t by (simp add: s' token_available_def taken_def)
  moreover have "token_held s' = (token_held s)(r \<mapsto> mset (te_stored_outputs e))"
    by (auto simp: fun_eq_iff token_held_def s' update_conv')
  ultimately show ?thesis by blast
qed

lemma token_cancel_law:
  assumes inv: "token_inv s" and h: "token_held s r = Some u"
  shows "token_inv (token_cancel r s) \<and> token_available (token_cancel r s) = token_available s + u
    \<and> token_held (token_cancel r s) = (token_held s)(r := None)"
proof -
  obtain e where e: "map_of (ts_reservations s) r = Some e" and u: "u = mset (te_stored_outputs e)"
    using h by (auto simp: token_held_def)
  have "token_inv (token_cancel r s)" unfolding token_cancel_def by (rule cancel_token_inv [OF inv])
  then show ?thesis using cancel_put_back(3) [OF inv e]
    by (auto simp: token_cancel_def cancel_token_reservation_def e u token_available_def token_held_def delete_conv' fun_eq_iff)
qed

lemma token_finalize_law:
  assumes inv: "token_inv s" and h: "token_held s r = Some u"
  shows "token_inv (token_finalize now r s) \<and> token_available (token_finalize now r s) = token_available s
    \<and> token_held (token_finalize now r s) = (token_held s)(r := None)"
proof -
  obtain e where e: "map_of (ts_reservations s) r = Some e" using h by (auto simp: token_held_def)
  have "token_inv (token_finalize now r s)" unfolding token_finalize_def by (rule finalize_token_inv [OF inv])
  then show ?thesis
    by (auto simp: token_finalize_def finalize_token_reservation_def e token_available_def token_held_def delete_conv' fun_eq_iff)
qed

interpretation token: reservation_ledger token_inv token_available token_held token_reserve
  token_cancel "token_finalize now" for now
proof
  show "finite (dom (token_held s))" for s
    using finite_dom_map_of [of "ts_reservations s"] by (simp add: token_held_def [abs_def] dom_def)
qed (simp_all add: token_reserve_law token_cancel_law token_finalize_law)

lemma token_held_total:
  assumes "token_inv s"
  shows "reservation_ledger.held_total token_held s = mset (reserved_outputs (ts_reservations s))"
proof -
  have wf: "wf_map (ts_reservations s)" using assms by (simp add: token_inv_def)
  have "sum_list (map (\<lambda>e. mset (te_stored_outputs e)) es) = mset (concat (map te_stored_outputs es))" for es
    by (induction es) simp_all
  then show ?thesis unfolding token.held_total_def token_held_def sum_map_of [OF wf] reserved_outputs_def .
qed

subsection \<open>What a reservation holds\<close>

lemma select_targets_spec:
  assumes "wf_pools avail" and "select_targets avail preferred strategy targets = Inr selected"
  shows "list_all2 (\<lambda>(tid, target) (md, sel). \<exists>p. map_of avail tid = Some p \<and> md = ato_metadata p
      \<and> tm_identifier md = tid \<and> select_available p preferred target strategy = Inr sel) targets selected"
  using assms
proof (induction avail preferred strategy targets arbitrary: selected rule: select_targets.induct)
  case (2 avail preferred strategy tid target ts)
  from 2(3) obtain p sel rest where "map_of avail tid = Some p" "select_available p preferred target strategy = Inr sel"
      "select_targets avail preferred strategy ts = Inr rest" "selected = (ato_metadata p, sel) # rest"
    by (auto split: option.splits)
  with 2 show ?case using wf_pools_get [OF 2(2), of tid p] by (auto simp: wf_token_pool_def)
qed simp

lemma select_available_sound:
  assumes "wf_token_pool tid p" and "select_available p preferred target strategy = Inr sel"
  shows "mset sel \<subseteq># mset (output_vec p)" and "distinct (map outpoint_of sel)"
    and "case target of MinTotalValue amount \<Rightarrow> amount \<le> sum_list (map tp_amount sel)
         | MaxOutputCount n \<Rightarrow> length sel \<le> n"
proof -
  obtain P where "select_token_outputs_from (tm_identifier (ato_metadata p)) (filter P (output_vec p)) target strategy = Inr sel"
  proof (cases preferred)
    case None
    with assms(2) that [of "\<lambda>_. True"] show ?thesis by (simp add: select_available_def)
  next
    case (Some ps)
    with assms(2) that show ?thesis by (simp add: select_available_def)
  qed
  note sound = select_from_sound [OF this]
  have "mset (filter P (output_vec p)) \<subseteq># mset (output_vec p)" by (simp add: multiset_filter_subset)
  with sound show sub: "mset sel \<subseteq># mset (output_vec p)" by (meson subset_mset.order_trans)
  show "case target of MinTotalValue amount \<Rightarrow> amount \<le> sum_list (map tp_amount sel)
         | MaxOutputCount n \<Rightarrow> length sel \<le> n"
    using sound by (simp split: reservation_target.splits)
  have "map outpoint_of (output_vec p) = hm_keys (ato_outputs p)"
    using assms(1) by (auto simp: output_vec_def wf_token_pool_def so_key_def)
  then have "distinct (map outpoint_of (output_vec p))" using assms(1) by (simp add: wf_token_pool_def wf_map_def)
  moreover have "mset (map outpoint_of sel) \<subseteq># mset (map outpoint_of (output_vec p))"
    using sub by (simp add: image_mset_subseteq_mono)
  ultimately show "distinct (map outpoint_of sel)" by (rule distinct_submset [rotated])
qed

lemma output_vec_get:
  assumes "wf_pools avail" and "map_of avail tid = Some p" and "o' \<in> set (output_vec p)"
  shows "\<exists>so. pool_get avail (tid, outpoint_of o') = Some so \<and> so_output so = o'"
proof -
  have wp: "wf_token_pool tid p" by (rule wf_pools_get [OF assms(1,2)])
  from assms(3) obtain op so where "(op, so) \<in> set (ato_outputs p)" "so_output so = o'" by (auto simp: output_vec_def)
  moreover have "op = outpoint_of o'" using wp calculation by (fastforce simp: wf_token_pool_def so_key_def)
  ultimately have "map_of (ato_outputs p) (outpoint_of o') = Some so"
    using wp by (simp add: wf_token_pool_def wf_map_in)
  then show ?thesis using assms(2) \<open>so_output so = o'\<close> by (auto simp: pool_get_Some)
qed

lemma take_outputs_all:
  assumes "wf_pools avail" and "distinct (map outpoint_of os)"
    and "\<forall>o' \<in> set os. \<exists>so. pool_get avail (tid, outpoint_of o') = Some so \<and> so_output so = o'"
    and "take_outputs tid os avail = (avail', sos)"
  shows "map so_output sos = os \<and> (\<forall>t op. t \<noteq> tid \<longrightarrow> pool_get avail' (t, op) = pool_get avail (t, op))"
  using assms
proof (induction tid os avail arbitrary: avail' sos rule: take_outputs.induct)
  case (2 tid o' os avail)
  obtain r av where t: "pool_take tid (outpoint_of o') avail = (r, av)" by fastforce
  note pt = pool_take_taken [OF 2(3) t]
  obtain so where so: "r = Some so" "so_output so = o'" using 2(5) pt(1) by auto
  obtain sos' where run: "take_outputs tid os av = (avail', sos')" and sos: "sos = so # sos'"
    using 2(6) t so(1) by (auto split: prod.splits)
  have tk: "taken avail av [so]" using pt(2) so(1) by simp
  have key: "so_key so = (tid, outpoint_of o')" using pool_get_key [OF 2(3)] pt(1) so(1) by metis
  have get: "pool_get av k = (if k = (tid, outpoint_of o') then None else pool_get avail k)" for k
    using taken_get [OF tk, of k] key by simp
  have "\<forall>o'' \<in> set os. \<exists>so. pool_get av (tid, outpoint_of o'') = Some so \<and> so_output so = o''"
  proof
    fix o''
    assume "o'' \<in> set os"
    then have "outpoint_of o'' \<noteq> outpoint_of o'" and "o'' \<in> set (o' # os)" using 2(4) by (auto intro: rev_image_eqI)
    then show "\<exists>so. pool_get av (tid, outpoint_of o'') = Some so \<and> so_output so = o''"
      unfolding get using 2(5) by (metis Pair_inject)
  qed
  with 2(2) [OF t [symmetric] so(1) taken_wf [OF tk] _ _ run] 2(4) so(2) sos get show ?case by simp
qed simp

lemma take_selected_all:
  assumes "wf_pools avail" and "distinct (map (\<lambda>(md, _). tm_identifier md) selected)"
    and "\<forall>(md, sel) \<in> set selected. tm_identifier md \<in> fst ` set avail \<and> distinct (map outpoint_of sel)
      \<and> (\<forall>o' \<in> set sel. \<exists>so. pool_get avail (tm_identifier md, outpoint_of o') = Some so \<and> so_output so = o')"
  shows "\<exists>stored avail'. take_selected selected avail = (Inr stored, avail') \<and> map so_output stored = concat (map snd selected)"
  using assms
proof (induction selected avail rule: take_selected.induct)
  case (2 md sel rest avail)
  obtain av sos where t: "take_outputs (tm_identifier md) sel avail = (av, sos)" by fastforce
  have h: "hm_contains (tm_identifier md) avail" using 2(4) by simp
  have all: "map so_output sos = sel" "\<And>k op. k \<noteq> tm_identifier md \<Longrightarrow> pool_get av (k, op) = pool_get avail (k, op)"
    using take_outputs_all [OF 2(2) _ _ t] 2(4) by auto
  have tk: "taken avail av sos" by (rule take_outputs_taken [OF 2(2) t])
  have "tm_identifier m \<in> fst ` set av \<and> distinct (map outpoint_of sel')
      \<and> (\<forall>o' \<in> set sel'. \<exists>so. pool_get av (tm_identifier m, outpoint_of o') = Some so \<and> so_output so = o')"
    if m: "(m, sel') \<in> set rest" for m sel'
  proof -
    have ne: "tm_identifier m \<noteq> tm_identifier md" using 2(3) m by force
    have keys: "fst ` set av = fst ` set avail" using tk by (simp add: taken_def)
    have "(m, sel') \<in> set ((md, sel) # rest)" using m by simp
    from bspec [OF 2(4) this] show ?thesis unfolding keys all(2) [OF ne] by simp
  qed
  then obtain stored avail' where "take_selected rest av = (Inr stored, avail')" "map so_output stored = concat (map snd rest)"
    using 2(1) [OF _ t [symmetric] taken_wf [OF tk]] h 2(3) by force
  with t h all(1) show ?case by auto
qed simp

end
