(* ===== verification/Token_Store_Props.thy ===== *)
theory Token_Store_Props
  imports Token_Store_Ledger
begin

text \<open>
  The properties of the token output store: conservation, what a reservation holds and when it
  is refused, what a refresh may and may not do.
\<close>

subsection \<open>A small store\<close>

definition example_metadata :: "string \<Rightarrow> token_metadata" where
  "example_metadata tid = \<lparr>tm_identifier = tid, tm_issuer_public_key = ''issuer'', tm_name = ''Token'', tm_ticker = ''TOK'',
     tm_decimals = 2, tm_max_supply = 1000, tm_is_freezable = False, tm_creation_entity_public_key = None\<rparr>"

definition example_output :: "string \<Rightarrow> string \<Rightarrow> u128 \<Rightarrow> token_output_with_prev_out" where
  "example_output tid tx v = \<lparr>tp_output = \<lparr>to_owner_public_key = ''me'', to_revocation_commitment = ''rc'',
     to_withdraw_bond_sats = 1, to_withdraw_relative_block_locktime = 1, to_token_public_key = None,
     to_token_identifier = tid, to_token_amount = v\<rparr>, tp_prev_tx_hash = tx, tp_prev_tx_vout = 0\<rparr>"

definition example_tokens :: token_outputs where
  "example_tokens = \<lparr>tos_metadata = [example_metadata ''t'', example_metadata ''u''],
     tos_outputs = [example_output ''t'' ''x'' 5, example_output ''t'' ''y'' 3, example_output ''u'' ''z'' 7]\<rparr>"

text \<open>The store after the three outputs were received at time 6.\<close>

definition example_token_store :: token_outputs_state where
  "example_token_store = snd (update_token_outputs 6 [] example_tokens token_outputs_state_default)"

lemma example_output_simps [simp]:
  "tp_token (example_output tid tx v) = tid" "tp_amount (example_output tid tx v) = v"
  "outpoint_of (example_output tid tx v) = (tx, 0)"
  by (simp_all add: example_output_def outpoint_of_def)

lemma example_metadata_simps [simp]: "tm_identifier (example_metadata tid) = tid"
  by (simp add: example_metadata_def)

lemma example_token_store_eq: "example_token_store =
  \<lparr>ts_available = [(''t'', \<lparr>ato_metadata = example_metadata ''t'', ato_outputs =
       [((''x'', 0), \<lparr>so_output = example_output ''t'' ''x'' 5, so_added_at = 6\<rparr>),
        ((''y'', 0), \<lparr>so_output = example_output ''t'' ''y'' 3, so_added_at = 6\<rparr>)]\<rparr>),
      (''u'', \<lparr>ato_metadata = example_metadata ''u'', ato_outputs =
       [((''z'', 0), \<lparr>so_output = example_output ''u'' ''z'' 7, so_added_at = 6\<rparr>)]\<rparr>)],
    ts_reservations = [], ts_spent_outpoints = [], ts_last_swap_completed_at = None\<rparr>"
  by (simp add: example_token_store_def update_token_outputs_def token_outputs_state_default_def example_tokens_def
      insert_output_def Let_def metadata_for_def or_insert_pool_def)

lemma example_token_store_inv: "token_inv example_token_store"
  unfolding example_token_store_def
  by (rule update_token_inv) (simp_all add: token_inv_default, simp add: token_outputs_state_default_def reserved_outputs_def)

subsection \<open>The store and its invariant\<close>

text \<open>The operations of the store, one after the other. Reservation ids are fresh (they are UUIDs),
  and the outputs an update adds are new: no reservation holds them.\<close>

inductive token_step :: "token_outputs_state \<Rightarrow> token_outputs_state \<Rightarrow> bool" where
  step_set: "token_step s (snd (set_tokens_outputs now tos started s))"
| step_update: "(\<forall>o' \<in> set (tos_outputs tos). (tp_token o', outpoint_of o') \<notin> so_key ` set (reserved_outputs (ts_reservations s)))
    \<Longrightarrow> token_step s (snd (update_token_outputs now removed tos s))"
| step_reserve: "rid \<notin> fst ` set (ts_reservations s)
    \<Longrightarrow> token_step s (snd (reserve_token_outputs rid targets purpose preferred strategy s))"
| step_reserve_by_outpoints: "rid \<notin> fst ` set (ts_reservations s)
    \<Longrightarrow> token_step s (snd (reserve_token_outputs_by_outpoints rid ops purpose s))"
| step_cancel: "token_step s (snd (cancel_token_reservation rid s))"
| step_finalize: "token_step s (snd (finalize_token_reservation now rid s))"

inductive token_reachable :: "token_outputs_state \<Rightarrow> bool" where
  reach_default: "token_reachable token_outputs_state_default"
| reach_step: "token_reachable s \<Longrightarrow> token_step s s' \<Longrightarrow> token_reachable s'"

lemma select_targets_selected:
  assumes "wf_pools avail" and "select_targets avail preferred strategy targets = Inr selected" and "(md, sel) \<in> set selected"
  shows "\<exists>target p. (tm_identifier md, target) \<in> set targets \<and> map_of avail (tm_identifier md) = Some p
    \<and> select_available p preferred target strategy = Inr sel"
  using select_targets_spec [OF assms(1,2)] assms(3)
  by (induction targets selected rule: list_all2_induct) auto

lemma take_selected_total:
  assumes "\<forall>(md, sel) \<in> set selected. tm_identifier md \<in> fst ` set avail" and "wf_pools avail"
  shows "\<exists>stored avail'. take_selected selected avail = (Inr stored, avail')"
  using assms
proof (induction selected avail rule: take_selected.induct)
  case (2 md sel rest avail)
  obtain av sos where t: "take_outputs (tm_identifier md) sel avail = (av, sos)" by fastforce
  have tk: "taken avail av sos" by (rule take_outputs_taken [OF 2(3) t])
  then have keys: "fst ` set av = fst ` set avail" by (simp add: taken_def)
  have "\<exists>stored avail'. take_selected rest av = (Inr stored, avail')"
    using 2(1) [OF _ t [symmetric] _ taken_wf [OF tk]] 2(2) unfolding keys by fastforce
  with t 2(2) show ?case by auto
qed simp

lemma reserve_token_step:
  assumes inv: "token_inv s" and fresh: "rid \<notin> fst ` set (ts_reservations s)"
  shows "token_inv (snd (reserve_token_outputs rid targets purpose preferred strategy s))"
proof (cases "select_targets (ts_available s) preferred strategy targets")
  case (Inr selected)
  have wf: "wf_pools (ts_available s)" using inv by (simp add: token_inv_def)
  have "\<forall>(md, sel) \<in> set selected. tm_identifier md \<in> fst ` set (ts_available s)"
    using select_targets_selected [OF wf Inr] by (fastforce dest: map_of_SomeD intro: rev_image_eqI)
  then obtain stored avail where t: "take_selected selected (ts_available s) = (Inr stored, avail)"
    using take_selected_total wf by blast
  then show ?thesis
    using inv Inr token_inv_reserved [OF inv _ fresh, of avail
        "\<lparr>te_metadata = map fst selected, te_stored_outputs = stored, te_purpose = purpose\<rparr>"] take_selected_taken [OF wf t]
    by (simp add: reserve_token_outputs_def split: sum.splits)
qed (simp add: reserve_token_outputs_def inv split: sum.splits)

lemma reserve_outpoints_step:
  assumes inv: "token_inv s" and fresh: "rid \<notin> fst ` set (ts_reservations s)"
  shows "token_inv (snd (reserve_token_outputs_by_outpoints rid ops purpose s))"
proof -
  have wf: "wf_pools (ts_available s)" using inv by (simp add: token_inv_def)
  obtain avail mds stored where w: "take_wanted (set ops) (ts_available s) = (avail, mds, stored)"
    by (cases "take_wanted (set ops) (ts_available s)") auto
  note t = take_wanted_taken(1) [OF wf w]
  have "token_inv (s\<lparr>ts_available := fold put_back stored avail\<rparr>)"
    using taken_put_back [OF t wf] by (intro token_inv_pools [OF inv]) simp_all
  with token_inv_reserved [OF inv _ fresh, of avail
      "\<lparr>te_metadata = mds, te_stored_outputs = stored, te_purpose = purpose\<rparr>"] t inv show ?thesis
    by (simp add: reserve_token_outputs_by_outpoints_def w)
qed

lemma token_step_inv: "token_step s s' \<Longrightarrow> token_inv s \<Longrightarrow> token_inv s'"
  by (induction rule: token_step.induct)
     (simp_all add: set_tokens_inv update_token_inv reserve_token_step reserve_outpoints_step cancel_token_inv finalize_token_inv)

lemma token_reachable_inv: "token_reachable s \<Longrightarrow> token_inv s"
  by (induction rule: token_reachable.induct) (auto simp: token_inv_default intro: token_step_inv)


lemma example_token_store_reachable: "token_reachable example_token_store"
  unfolding example_token_store_def
  by (rule reach_step [OF reach_default step_update]) (simp add: token_outputs_state_default_def reserved_outputs_def)





subsection \<open>Reserving\<close>

text \<open>What a caller asked for: outputs of the token, enough of them or not too many.\<close>

fun target_met :: "string \<times> reservation_target \<Rightarrow> token_output_with_prev_out list \<Rightarrow> bool" where
  "target_met (tid, MinTotalValue amount) sel = (list_all (\<lambda>o'. tp_token o' = tid) sel \<and> amount \<le> sum_list (map tp_amount sel))"
| "target_met (tid, MaxOutputCount n) sel = (list_all (\<lambda>o'. tp_token o' = tid) sel \<and> length sel \<le> n)"

lemma select_targets_covers:
  assumes "list_all2 (\<lambda>(tid, target) (md, sel). \<exists>p. map_of avail tid = Some p \<and> md = ato_metadata p
      \<and> tm_identifier md = tid \<and> select_available p preferred target strategy = Inr sel) targets selected"
    and "wf_pools avail"
  shows "map fst targets = map (\<lambda>(md, _). tm_identifier md) selected"
    and "list_all2 target_met targets (map snd selected)"
proof -
  show "map fst targets = map (\<lambda>(md, _). tm_identifier md) selected"
    using assms(1) by (induction targets selected rule: list_all2_induct) auto
  have met: "target_met (tid, target) sel"
    if "map_of avail tid = Some p" "select_available p preferred target strategy = Inr sel" for tid p target sel
  proof -
    have wp: "wf_token_pool tid p" by (rule wf_pools_get [OF assms(2) that(1)])
    have "set sel \<subseteq> set (output_vec p)"
      using select_available_sound(1) [OF wp that(2)] by (metis set_mset_mono set_mset_mset)
    moreover have "tp_token o' = tid" if "o' \<in> set (output_vec p)" for o'
      using wp that by (fastforce simp: wf_token_pool_def output_vec_def so_key_def)
    ultimately have "list_all (\<lambda>o'. tp_token o' = tid) sel" by (auto simp: list_all_iff)
    then show ?thesis using select_available_sound(3) [OF wp that(2)] by (cases target) simp_all
  qed
  show "list_all2 target_met targets (map snd selected)"
    using assms(1) by (induction targets selected rule: list_all2_induct) (auto intro: met)
qed

lemma select_targets_takeable:
  assumes "wf_pools avail" and "select_targets avail preferred strategy targets = Inr selected" and "(md, sel) \<in> set selected"
  shows "tm_identifier md \<in> fst ` set avail \<and> distinct (map outpoint_of sel)
    \<and> (\<forall>o' \<in> set sel. \<exists>so. pool_get avail (tm_identifier md, outpoint_of o') = Some so \<and> so_output so = o')"
proof -
  obtain target p where p: "map_of avail (tm_identifier md) = Some p" "select_available p preferred target strategy = Inr sel"
    using select_targets_selected [OF assms] by blast
  note sound = select_available_sound [OF wf_pools_get [OF assms(1) p(1)] p(2)]
  have "set sel \<subseteq> set (output_vec p)" using sound(1) by (metis set_mset_mono set_mset_mset)
  then have "\<forall>o' \<in> set sel. \<exists>so. pool_get avail (tm_identifier md, outpoint_of o') = Some so \<and> so_output so = o'"
    using output_vec_get [OF assms(1) p(1)] by blast
  moreover have "tm_identifier md \<in> fst ` set avail" using p(1) by (auto dest: map_of_SomeD intro: rev_image_eqI)
  ultimately show ?thesis using sound(2) by blast
qed

text \<open>A reservation over several tokens (at most one target per token, the documented contract)
  holds exactly the outputs it reports; those outputs have left the pools; for each target there
  is a group of outputs of that token which covers the amount, or respects the count.\<close>

theorem token_reserve_success:
  assumes "token_inv s" and "rid \<notin> fst ` set (ts_reservations s)" and "distinct (map fst targets)"
    and "reserve_token_outputs rid targets purpose preferred strategy s = (Inr r, s')"
  shows "\<exists>e selected. tr_id r = rid \<and> map_of (ts_reservations s') rid = Some e \<and> te_purpose e = purpose
    \<and> map so_output (te_stored_outputs e) = tos_outputs (tr_token_outputs r)
    \<and> pool_mset (ts_available s) = pool_mset (ts_available s') + mset (te_stored_outputs e)
    \<and> tos_outputs (tr_token_outputs r) = concat selected
    \<and> list_all2 target_met targets selected"
proof -
  have wf: "wf_pools (ts_available s)" using assms(1) by (simp add: token_inv_def)
  obtain selected stored avail where sel: "select_targets (ts_available s) preferred strategy targets = Inr selected"
      and t: "take_selected selected (ts_available s) = (Inr stored, avail)"
      and r: "r = \<lparr>tr_id = rid, tr_token_outputs =
         \<lparr>tos_metadata = map fst selected, tos_outputs = concat (map snd selected)\<rparr>\<rparr>"
      and s': "s' = s\<lparr>ts_available := avail, ts_reservations := hm_insert rid
         \<lparr>te_metadata = map fst selected, te_stored_outputs = stored, te_purpose = purpose\<rparr> (ts_reservations s)\<rparr>"
    using assms(4) by (elim reserve_token_outputs_cases)
  note cov = select_targets_covers [OF select_targets_spec [OF wf sel] wf]
  have "distinct (map (\<lambda>(md, _). tm_identifier md) selected)" using assms(3) cov(1) by simp
  moreover have "\<forall>(md, sel) \<in> set selected. tm_identifier md \<in> fst ` set (ts_available s) \<and> distinct (map outpoint_of sel)
      \<and> (\<forall>o' \<in> set sel. \<exists>so. pool_get (ts_available s) (tm_identifier md, outpoint_of o') = Some so \<and> so_output so = o')"
    by (intro ballI case_prodI2) (use select_targets_takeable [OF wf sel] in blast)
  ultimately have out: "map so_output stored = concat (map snd selected)"
    using take_selected_all [OF wf, of selected] t by auto
  have mset: "pool_mset (ts_available s) = pool_mset avail + mset stored"
    using take_selected_taken [OF wf t] by (simp add: taken_def)
  with cov(2) out mset show ?thesis by (intro exI [of _ "map snd selected"] exI) (auto simp: r s' update_conv')
qed


lemma token_reserve_success_witness:
  "\<exists>r s'. reserve_token_outputs ''r'' [(''t'', MinTotalValue 6), (''u'', MaxOutputCount 2)] TokenPayment None None
       example_token_store = (Inr r, s')
     \<and> tos_outputs (tr_token_outputs r) = [example_output ''t'' ''y'' 3, example_output ''t'' ''x'' 5, example_output ''u'' ''z'' 7]
     \<and> (\<exists>e. map_of (ts_reservations s') ''r'' = Some e \<and> map so_output (te_stored_outputs e) = tos_outputs (tr_token_outputs r))"
proof -
  let ?run = "reserve_token_outputs ''r'' [(''t'', MinTotalValue 6), (''u'', MaxOutputCount 2)] TokenPayment None None example_token_store"
  obtain x s' where run: "?run = (x, s')" by fastforce
  have eq: "fst ?run = Inr \<lparr>tr_id = ''r'', tr_token_outputs = \<lparr>tos_metadata = [example_metadata ''t'', example_metadata ''u''],
      tos_outputs = [example_output ''t'' ''y'' 3, example_output ''t'' ''x'' 5, example_output ''u'' ''z'' 7]\<rparr>\<rparr>"
    by (simp add: reserve_token_outputs_def example_token_store_eq select_available_def output_vec_def
        select_token_outputs_from_def sum_u128_def wrap128_def sort_outputs_def pool_take_def)
  with run obtain r where r: "x = Inr r" "tos_outputs (tr_token_outputs r)
      = [example_output ''t'' ''y'' 3, example_output ''t'' ''x'' 5, example_output ''u'' ''z'' 7]" by auto
  have "''r'' \<notin> fst ` set (ts_reservations example_token_store)" by (simp add: example_token_store_eq)
  from token_reserve_success [OF example_token_store_inv this _ run [unfolded r(1)]] r run show ?thesis by auto
qed

lemma select_available_amount_iff:
  assumes "sum_list (map tp_amount (output_vec p)) < 2 ^ 128"
  shows "is_ok (select_available p None (MinTotalValue amount) strategy) \<longleftrightarrow> amount \<le> sum_list (map tp_amount (output_vec p))"
proof (cases "amount \<le> sum_list (map tp_amount (output_vec p))")
  case True
  from select_from_complete [OF True assms] show ?thesis using True
    by (metis is_ok_simps(2) option.simps(4) select_available_def)
next
  case False
  then show ?thesis using assms by (simp add: select_available_def select_token_outputs_from_def sum_u128_small)
qed

lemma is_ok_qbind: "is_ok (qbind r f) \<longleftrightarrow> (case r of Inl _ \<Rightarrow> False | Inr x \<Rightarrow> is_ok (f x))"
  by (cases r) simp_all

lemma is_ok_iff: "is_ok r \<longleftrightarrow> (\<exists>x. r = Inr x)"
  by (cases r) simp_all

lemma validate_amounts_iff:
  "is_ok (validate_targets (map (\<lambda>(tid, amount). (tid, MinTotalValue amount)) amounts)) \<longleftrightarrow> list_all (\<lambda>(_, amount). 0 < amount) amounts"
  by (induction amounts) (auto simp: is_ok_qbind split: if_splits)

definition covered :: "token_pools \<Rightarrow> string \<times> u128 \<Rightarrow> bool" where
  "covered avail a = (case map_of avail (fst a) of None \<Rightarrow> False | Some p \<Rightarrow> snd a \<le> sum_list (map tp_amount (output_vec p)))"

lemma select_amounts_iff:
  assumes "list_all (\<lambda>(tid, p). sum_list (map tp_amount (output_vec p)) < 2 ^ 128) avail"
  shows "is_ok (select_targets avail None strategy (map (\<lambda>(tid, amount). (tid, MinTotalValue amount)) amounts))
    \<longleftrightarrow> list_all (covered avail) amounts"
proof (induction amounts)
  case (Cons a amounts)
  obtain tid amount where a: "a = (tid, amount)" by (cases a)
  show ?case
  proof (cases "map_of avail tid")
    case (Some p)
    then have "sum_list (map tp_amount (output_vec p)) < 2 ^ 128"
      using assms by (auto simp: list_all_iff dest: map_of_SomeD)
    from select_available_amount_iff [OF this, of amount strategy] Cons Some show ?thesis
      by (auto simp: a covered_def is_ok_qbind is_ok_iff split: sum.splits)
  qed (simp add: a covered_def)
qed simp

lemma reserve_token_outcome:
  assumes "wf_pools (ts_available s)"
  shows "is_ok (fst (reserve_token_outputs rid targets purpose preferred strategy s)) \<longleftrightarrow>
      targets \<noteq> [] \<and> is_ok (validate_targets targets) \<and> is_ok (select_targets (ts_available s) preferred strategy targets)"
    and "\<not> is_ok (fst (reserve_token_outputs rid targets purpose preferred strategy s)) \<Longrightarrow>
      snd (reserve_token_outputs rid targets purpose preferred strategy s) = s"
proof -
  have tot: "\<exists>stored avail. take_selected selected (ts_available s) = (Inr stored, avail)"
    if "select_targets (ts_available s) preferred strategy targets = Inr selected" for selected
  proof (rule take_selected_total [OF _ assms])
    show "\<forall>(md, sel) \<in> set selected. tm_identifier md \<in> fst ` set (ts_available s)"
      using select_targets_takeable [OF assms that] by blast
  qed
  show "is_ok (fst (reserve_token_outputs rid targets purpose preferred strategy s)) \<longleftrightarrow>
      targets \<noteq> [] \<and> is_ok (validate_targets targets) \<and> is_ok (select_targets (ts_available s) preferred strategy targets)"
    "\<not> is_ok (fst (reserve_token_outputs rid targets purpose preferred strategy s)) \<Longrightarrow>
      snd (reserve_token_outputs rid targets purpose preferred strategy s) = s"
    using tot by (cases "targets = []"; cases "validate_targets targets";
      cases "select_targets (ts_available s) preferred strategy targets"; force simp: reserve_token_outputs_def)+
qed

text \<open>A reservation by amounts (no preferred outputs) is granted exactly when there is a target, every
  amount is positive and covered by the pool of its token; a refused reservation, whatever its
  targets, leaves the store as it was.\<close>

theorem token_reserve_iff:
  assumes "token_inv s" and "list_all (\<lambda>(tid, p). sum_list (map tp_amount (output_vec p)) < 2 ^ 128) (ts_available s)"
  shows "(is_ok (fst (reserve_token_outputs rid (map (\<lambda>(tid, amount). (tid, MinTotalValue amount)) amounts) purpose None strategy s))
      \<longleftrightarrow> amounts \<noteq> [] \<and> list_all (\<lambda>(_, amount). 0 < amount) amounts \<and> list_all (covered (ts_available s)) amounts)
    \<and> (is_ok (fst (reserve_token_outputs rid targets purpose preferred strategy s))
      \<or> snd (reserve_token_outputs rid targets purpose preferred strategy s) = s)"
proof -
  have "wf_pools (ts_available s)" using assms(1) by (simp add: token_inv_def)
  note out = reserve_token_outcome [OF this]
  show ?thesis
    using out(2) [of rid targets purpose preferred strategy]
    by (intro conjI; (blast)?) (simp add: out(1) validate_amounts_iff select_amounts_iff [OF assms(2)])
qed

lemma token_reserve_iff_witness:
  "\<not> is_ok (fst (reserve_token_outputs ''r'' [(''t'', MinTotalValue 9)] TokenPayment None None example_token_store))
    \<and> is_ok (fst (reserve_token_outputs ''r'' [(''t'', MinTotalValue 8)] TokenPayment None None example_token_store))"
proof -
  have b: "list_all (\<lambda>(tid, p). sum_list (map tp_amount (output_vec p)) < 2 ^ 128) (ts_available example_token_store)"
    by (simp add: example_token_store_eq output_vec_def)
  have c: "covered (ts_available example_token_store) (''t'', n) \<longleftrightarrow> n \<le> 8" for n
    by (simp add: example_token_store_eq covered_def output_vec_def)
  show ?thesis
    using token_reserve_iff [OF example_token_store_inv b, of "''r''" "[(''t'', 9)]" TokenPayment None]
      token_reserve_iff [OF example_token_store_inv b, of "''r''" "[(''t'', 8)]" TokenPayment None]
    by (simp add: c)
qed

text \<open>Reserving given outpoints is all-or-nothing. If an outpoint names one output, the reservation is
  granted exactly when every outpoint is available, and then it holds exactly the outputs at
  those outpoints; otherwise every pool has the outputs it had, including those of several tokens
  that were taken out on the way.\<close>

theorem token_outpoints_all_or_nothing:
  assumes "token_inv s" and "ops \<noteq> []"
    and "\<forall>tid tid' op. pool_get (ts_available s) (tid, op) \<noteq> None \<longrightarrow> pool_get (ts_available s) (tid', op) \<noteq> None \<longrightarrow> tid = tid'"
    and run: "reserve_token_outputs_by_outpoints rid ops purpose s = (res, s')"
  shows "(is_ok res \<longleftrightarrow> list_all (\<lambda>op. \<exists>tid. pool_get (ts_available s) (tid, op) \<noteq> None) ops)
    \<and> (if is_ok res
       then \<exists>e. map_of (ts_reservations s') rid = Some e \<and> so_outpoint ` set (te_stored_outputs e) = set ops
          \<and> pool_mset (ts_available s) = pool_mset (ts_available s') + mset (te_stored_outputs e)
       else pool_get (ts_available s') = pool_get (ts_available s) \<and> ts_reservations s' = ts_reservations s)"
proof -
  have wf: "wf_pools (ts_available s)" using assms(1) by (simp add: token_inv_def)
  obtain avail mds stored where w: "take_wanted (set ops) (ts_available s) = (avail, mds, stored)"
    by (cases "take_wanted (set ops) (ts_available s)") auto
  note t = take_wanted_taken [OF wf w]
  have mem: "so \<in> set stored \<longleftrightarrow> so_outpoint so \<in> set ops \<and> pool_get (ts_available s) (so_key so) = Some so" for so
    using t(2) in_pool_mset [OF wf] by blast
  have key: "pool_get (ts_available s) (tid, op) = Some so \<Longrightarrow> so_key so = (tid, op)" for tid op so
    using pool_get_key [OF wf] by blast
  have "distinct (map so_outpoint stored)"
  proof -
    have "inj_on so_outpoint (set stored)"
    proof (rule inj_onI)
      fix x y
      assume xy: "x \<in> set stored" "y \<in> set stored" "so_outpoint x = so_outpoint y"
      then have g: "pool_get (ts_available s) (so_token x, so_outpoint x) = Some x"
          "pool_get (ts_available s) (so_token y, so_outpoint x) = Some y"
        using mem [of x] mem [of y] xy by (simp_all add: so_key_def)
      then have "so_token x = so_token y" using assms(3) by (metis option.distinct(1))
      with g show "x = y" by (metis option.inject)
    qed
    moreover have "distinct stored" using t(1) by (auto simp: taken_def distinct_map)
    ultimately show ?thesis by (simp add: distinct_map)
  qed
  then have len: "length stored = card (so_outpoint ` set stored)" by (metis distinct_card length_map set_map)
  have sub: "so_outpoint ` set stored \<subseteq> set ops" using mem by auto
  have all: "so_outpoint ` set stored = set ops \<longleftrightarrow> list_all (\<lambda>op. \<exists>tid. pool_get (ts_available s) (tid, op) \<noteq> None) ops"
  proof
    assume eq: "so_outpoint ` set stored = set ops"
    show "list_all (\<lambda>op. \<exists>tid. pool_get (ts_available s) (tid, op) \<noteq> None) ops"
      unfolding list_all_iff eq [symmetric] using mem by (auto simp: so_key_def)
  next
    assume "list_all (\<lambda>op. \<exists>tid. pool_get (ts_available s) (tid, op) \<noteq> None) ops"
    then have "op \<in> so_outpoint ` set stored" if op: "op \<in> set ops" for op
    proof -
      obtain tid so where g: "pool_get (ts_available s) (tid, op) = Some so"
        using \<open>list_all _ ops\<close> op by (fastforce simp: list_all_iff)
      from key [OF g] have "so_outpoint so = op" "so_key so = (tid, op)" by (simp_all add: so_key_def)
      then have "so \<in> set stored" using mem op g by simp
      with \<open>so_outpoint so = op\<close> show ?thesis by blast
    qed
    with sub show "so_outpoint ` set stored = set ops" by blast
  qed
  have ok: "length stored = card (set ops) \<longleftrightarrow> so_outpoint ` set stored = set ops"
    using card_subset_eq [OF _ sub] len by auto
  show ?thesis
    using run assms(2) taken_put_back(4) [OF t(1) wf] t(1) ok all
    by (auto simp: reserve_token_outputs_by_outpoints_def w update_conv' taken_def split: if_splits)
qed


lemma token_outpoints_all_or_nothing_witness:
  "fst (reserve_token_outputs_by_outpoints ''r'' [(''x'', 0), (''q'', 0)] TokenPayment example_token_store) = Inl (TE_InsufficientFunds None)
    \<and> pool_get (ts_available (snd (reserve_token_outputs_by_outpoints ''r'' [(''x'', 0), (''q'', 0)] TokenPayment example_token_store)))
      = pool_get (ts_available example_token_store)"
proof -
  let ?run = "reserve_token_outputs_by_outpoints ''r'' [(''x'', 0), (''q'', 0)] TokenPayment example_token_store"
  have e: "fst ?run = Inl (TE_InsufficientFunds None)"
    by (simp add: reserve_token_outputs_by_outpoints_def example_token_store_eq hm_retain_def)
  have u: "\<forall>tid tid' op. pool_get (ts_available example_token_store) (tid, op) \<noteq> None
      \<longrightarrow> pool_get (ts_available example_token_store) (tid', op) \<noteq> None \<longrightarrow> tid = tid'"
    by (auto simp: example_token_store_eq pool_get_def split: if_splits)
  show ?thesis using token_outpoints_all_or_nothing [OF example_token_store_inv _ u,
        of "[(''x'', 0), (''q'', 0)]" "''r''" TokenPayment "fst ?run" "snd ?run", OF _ prod.collapse [symmetric]] e by simp
qed

subsection \<open>Refreshing\<close>

lemma file_refreshed_fold_get:
  "pool_get (fold (file_refreshed now spent tos) os avail) k = Some so \<Longrightarrow>
     pool_get avail k = Some so \<or> (so_output so \<in> set os \<and> \<not> hm_contains (so_outpoint so) spent \<and> so_key so = k)"
proof (induction os arbitrary: avail)
  case (Cons o' os)
  from Cons.IH [of "file_refreshed now spent tos o' avail"] Cons.prems
  consider "pool_get (file_refreshed now spent tos o' avail) k = Some so"
    | "so_output so \<in> set os \<and> \<not> hm_contains (so_outpoint so) spent \<and> so_key so = k"
    by auto
  then show ?case
  proof cases
    case 1
    then show ?thesis unfolding file_refreshed_get so_key_def by (auto simp del: hm_contains_iff split: if_splits)
  qed simp
qed simp

lemma preserve_output_get:
  "pool_get (preserve_output started md kv avail) k =
     (if k = (tm_identifier md, fst kv) \<and> so_added_at (snd kv) \<ge> started
         \<and> \<not> (\<exists>p \<in> set (hm_values avail). hm_contains (fst kv) (ato_outputs p))
      then Some (snd kv) else pool_get avail k)"
  by (cases k) (auto simp: preserve_output_def Let_def pool_get_insert update_conv' or_insert_pool_get)

lemma preserve_pool_get:
  assumes "pool_get (preserve_pool started old avail) k = Some so"
  shows "pool_get avail k = Some so \<or> (fst k = tm_identifier (ato_metadata old) \<and> (snd k, so) \<in> set (ato_outputs old)
    \<and> so_added_at so \<ge> started)"
proof -
  have "pool_get avail k = Some so \<or> (fst k = tm_identifier md \<and> (snd k, so) \<in> set kvs \<and> so_added_at so \<ge> started)"
    if "pool_get (fold (preserve_output started md) kvs avail) k = Some so" for kvs md
    using that
  proof (induction kvs arbitrary: avail)
    case (Cons kv kvs)
    from Cons.IH [of "preserve_output started md kv avail"] Cons.prems show ?case
      by (cases kv) (auto simp: preserve_output_get split: if_splits)
  qed simp
  then show ?thesis using assms by (simp add: preserve_pool_def)
qed

lemma merged_pools_get:
  assumes "wf_pools old" and "pool_get (merged_pools now tos started spent old) k = Some so"
  shows "pool_get old k = Some so \<and> so_added_at so \<ge> started
    \<or> so_output so \<in> set (tos_outputs tos) \<and> so_key so = k \<and> \<not> hm_contains (snd k) spent"
proof -
  have "pool_get avail k = Some so \<or> (\<exists>p \<in> set ps. fst k = tm_identifier (ato_metadata p) \<and> (snd k, so) \<in> set (ato_outputs p)
      \<and> so_added_at so \<ge> started)"
    if "pool_get (fold (preserve_pool started) ps avail) k = Some so" for ps avail
    using that
  proof (induction ps arbitrary: avail)
    case (Cons p ps)
    from Cons.IH [of "preserve_pool started p avail"] Cons.prems preserve_pool_get [of started p avail k so] show ?case by auto
  qed simp
  from this [OF assms(2) [unfolded merged_pools_def]]
  consider "pool_get (fold (file_refreshed now spent tos) (tos_outputs tos) []) k = Some so"
    | p where "p \<in> set (hm_values old)" "fst k = tm_identifier (ato_metadata p)" "(snd k, so) \<in> set (ato_outputs p)" "so_added_at so \<ge> started"
    by blast
  then show ?thesis
  proof cases
    case 1
    from file_refreshed_fold_get [OF this] show ?thesis
      by (auto simp: pool_get_def so_key_def simp del: hm_contains_iff)
  next
    case 2
    then obtain tid where tid: "(tid, p) \<in> set old" by auto
    then have "map_of old tid = Some p" "wf_token_pool tid p" using assms(1) by (auto simp: wf_pools_def wf_map_in)
    with 2 have "pool_get old k = Some so" by (cases k) (auto simp: pool_get_Some wf_token_pool_def wf_map_in)
    with 2 show ?thesis by simp
  qed
qed

text \<open>After a refresh that is applied, an output in a pool was there before, added since the
  snapshot was started, or is in the snapshot and not known to be spent.\<close>

lemma set_tokens_get:
  assumes "token_inv s" and "\<not> token_has_active_swap s" "\<not> token_swap_completed_during_refresh s started"
    and "pool_get (ts_available (snd (set_tokens_outputs now tos started s))) k = Some so"
  shows "pool_get (ts_available s) k = Some so \<and> so_added_at so \<ge> started
    \<or> so_output so \<in> set (tos_outputs tos) \<and> so_key so = k
      \<and> \<not> hm_contains (snd k) (hm_retain (\<lambda>_ spent_at. spent_at \<ge> started) (ts_spent_outpoints s))"
proof -
  let ?sp = "hm_retain (\<lambda>_ spent_at. spent_at \<ge> started) (ts_spent_outpoints s)"
  let ?m = "merged_pools now tos started ?sp (ts_available s)"
  have wf: "wf_map (ts_reservations s)" "wf_pools (ts_available s)" "wf_pools ?m"
    using assms(1) by (simp_all add: token_inv_def merged_pools_wf)
  obtain avail rs where run: "reconciled ?m (ts_reservations s) = (avail, rs)" by fastforce
  then obtain out where out: "taken ?m avail out" using reconciled_taken [OF wf(3)] by blast
  have "pool_get avail k = Some so" using assms(4) set_tokens_reconciled [OF wf(1) assms(2,3)] run by simp
  then have "pool_get ?m k = Some so" using taken_get [OF out, of k] by (simp split: if_splits)
  from merged_pools_get [OF wf(2) this] show ?thesis .
qed

text \<open>Outputs that were paid with do not come back: after a reservation is finalised, a refresh whose
  snapshot was started no later does not put any of its outputs back into a pool, whatever the
  snapshot says.\<close>

theorem finalized_output_not_resurrected:
  assumes "token_inv s" and "map_of (ts_reservations s) rid = Some e" and "so \<in> set (te_stored_outputs e)"
    and "started \<le> now" and "wf_map (ts_spent_outpoints s)"
  shows "pool_get (ts_available (snd (set_tokens_outputs later tos started (snd (finalize_token_reservation now rid s))))) (so_key so) = None"
proof -
  let ?s = "snd (finalize_token_reservation now rid s)"
  have inv: "token_inv ?s" by (rule finalize_token_inv [OF assms(1)])
  have avail: "ts_available ?s = ts_available s" by (simp add: finalize_token_reservation_def assms(2))
  have none: "pool_get (ts_available s) (so_key so) = None"
    using assms(1,3) reserved_remove_distinct(2) [OF assms(1,2)] by (auto simp: token_inv_def)
  have spent: "map_of (fold (\<lambda>so. hm_insert (so_outpoint so) now) sos m) (so_outpoint so) = Some now"
    if "so \<in> set sos \<or> map_of m (so_outpoint so) = Some now" for sos and m :: "(outpoint, system_time) hash_map"
    using that by (induction sos arbitrary: m) (auto simp: update_conv')
  have wf: "wf_map (fold (\<lambda>so. hm_insert (so_outpoint so) now) sos m)" if "wf_map m" for sos and m :: "(outpoint, system_time) hash_map"
    using that by (induction sos arbitrary: m) simp_all
  have "map_of (hm_retain (\<lambda>_ spent_at. spent_at \<ge> started) (ts_spent_outpoints ?s)) (so_outpoint so) = Some now"
    using spent [of "te_stored_outputs e"] assms(3,4) wf [OF assms(5)]
    by (simp add: finalize_token_reservation_def assms(2) hm_get_retain)
  then have sp: "hm_contains (so_outpoint so) (hm_retain (\<lambda>_ spent_at. spent_at \<ge> started) (ts_spent_outpoints ?s))"
    by (simp add: hm_contains_def del: hm_contains_iff)
  show ?thesis
  proof (cases "token_has_active_swap ?s \<or> token_swap_completed_during_refresh ?s started")
    case True
    then show ?thesis using none avail by (simp add: set_tokens_outputs_def)
  next
    case False
    show ?thesis
    proof (rule ccontr)
      assume "\<not> ?thesis"
      then obtain x where "pool_get (ts_available (snd (set_tokens_outputs later tos started ?s))) (so_key so) = Some x" by blast
      from set_tokens_get [OF inv _ _ this] False none sp show False
        by (auto simp: avail so_key_def simp del: hm_contains_iff)
    qed
  qed
qed


text \<open>The small store with a payment reservation of the output at \<open>x\<close>.\<close>

definition example_token_reserved :: token_outputs_state where
  "example_token_reserved = snd (reserve_token_outputs_by_outpoints ''r'' [(''x'', 0)] TokenPayment example_token_store)"

lemma example_token_reserved_eq: "example_token_reserved =
  \<lparr>ts_available = [(''t'', \<lparr>ato_metadata = example_metadata ''t'', ato_outputs =
        [((''y'', 0), \<lparr>so_output = example_output ''t'' ''y'' 3, so_added_at = 6\<rparr>)]\<rparr>),
      (''u'', \<lparr>ato_metadata = example_metadata ''u'', ato_outputs =
       [((''z'', 0), \<lparr>so_output = example_output ''u'' ''z'' 7, so_added_at = 6\<rparr>)]\<rparr>)],
    ts_reservations = [(''r'', \<lparr>te_metadata = [example_metadata ''t''],
        te_stored_outputs = [\<lparr>so_output = example_output ''t'' ''x'' 5, so_added_at = 6\<rparr>], te_purpose = TokenPayment\<rparr>)],
    ts_spent_outpoints = [], ts_last_swap_completed_at = None\<rparr>"
  by (simp add: example_token_reserved_def reserve_token_outputs_by_outpoints_def example_token_store_eq hm_retain_def)

lemma example_token_reserved_inv: "token_inv example_token_reserved"
  unfolding example_token_reserved_def
  by (rule reserve_outpoints_step [OF example_token_store_inv]) (simp add: example_token_store_eq)

lemma finalized_output_not_resurrected_witness:
  "pool_get (ts_available (snd (set_tokens_outputs 12 example_tokens 8
     (snd (finalize_token_reservation 9 ''r'' example_token_reserved))))) (''t'', ''x'', 0) = None"
  using finalized_output_not_resurrected [OF example_token_reserved_inv, of "''r''" _
      "\<lparr>so_output = example_output ''t'' ''x'' 5, so_added_at = 6\<rparr>" 8 9 12 example_tokens]
  by (simp add: example_token_reserved_eq so_key_def)

text \<open>A reservation keeps, over a refresh that is applied, only outputs the merged pools contain.\<close>

lemma set_tokens_reserved:
  assumes "token_inv s" and "\<not> token_has_active_swap s" "\<not> token_swap_completed_during_refresh s started"
    and "x \<in> set (reserved_outputs (ts_reservations (snd (set_tokens_outputs now tos started s))))"
  shows "x \<in> set (reserved_outputs (ts_reservations s)) \<and> (\<exists>o' \<in> set (tos_outputs tos). outpoint_of o' = so_outpoint x)"
proof -
  let ?sp = "hm_retain (\<lambda>_ spent_at. spent_at \<ge> started) (ts_spent_outpoints s)"
  let ?m = "merged_pools now tos started ?sp (ts_available s)"
  have wf: "wf_map (ts_reservations s)" "wf_pools (ts_available s)" "wf_pools ?m"
    using assms(1) by (simp_all add: token_inv_def merged_pools_wf)
  obtain avail rs where run: "reconciled ?m (ts_reservations s) = (avail, rs)" by fastforce
  have x: "x \<in> set (reserved_outputs rs)" using assms(4) set_tokens_reconciled [OF wf(1) assms(2,3)] run by simp
  then have old: "x \<in> set (reserved_outputs (ts_reservations s))" using reconciled_taken [OF wf(3) run] by blast
  obtain out where out: "taken ?m avail out" "map so_key out = map so_key (reserved_outputs rs)"
    using reconciled_taken [OF wf(3) run] by blast
  obtain y where y: "y \<in> set out" "so_key y = so_key x" using x out(2) by (metis (no_types, lifting) image_iff set_map)
  have "pool_get ?m (so_key x) = Some y" using taken_stored [OF out(1) y(1)] y(2) by simp
  moreover have "pool_get (ts_available s) (so_key x) = None" using assms(1) old by (simp add: token_inv_def)
  ultimately have "so_output y \<in> set (tos_outputs tos)" using merged_pools_get [OF wf(2)] by fastforce
  then show ?thesis using old y(2) by (auto simp: so_key_def)
qed

text \<open>A stale refresh forgets outputs reserved for a payment that are newer than its snapshot. Whatever
  time the output was added, if the snapshot does not list its outpoint then after the refresh it
  is in no reservation and in no pool, although an unreserved output added since the
  snapshot was started would be kept. Finalising the payment then records nothing as spent, and
  cancelling it returns nothing.\<close>

theorem refresh_drops_new_reserved_output:
  assumes "token_inv s" and "\<not> token_has_active_swap s" and "\<not> token_swap_completed_during_refresh s started"
    and "so \<in> set (reserved_outputs (ts_reservations s))"
    and "so_outpoint so \<notin> outpoint_of ` set (tos_outputs tos)"
  shows "pool_get (ts_available (snd (set_tokens_outputs now tos started s))) (so_key so) = None
    \<and> so_key so \<notin> so_key ` set (reserved_outputs (ts_reservations (snd (set_tokens_outputs now tos started s))))"
proof
  have none: "pool_get (ts_available s) (so_key so) = None" using assms(1,4) by (simp add: token_inv_def)
  show "pool_get (ts_available (snd (set_tokens_outputs now tos started s))) (so_key so) = None"
  proof (rule ccontr)
    assume "pool_get (ts_available (snd (set_tokens_outputs now tos started s))) (so_key so) \<noteq> None"
    then obtain x where "pool_get (ts_available (snd (set_tokens_outputs now tos started s))) (so_key so) = Some x" by blast
    from set_tokens_get [OF assms(1-3) this] none have "so_output x \<in> set (tos_outputs tos)" "so_key x = so_key so" by auto
    with assms(5) show False by (metis image_eqI prod.inject so_key_def)
  qed
  show "so_key so \<notin> so_key ` set (reserved_outputs (ts_reservations (snd (set_tokens_outputs now tos started s))))"
  proof
    assume "so_key so \<in> so_key ` set (reserved_outputs (ts_reservations (snd (set_tokens_outputs now tos started s))))"
    then obtain x where "x \<in> set (reserved_outputs (ts_reservations (snd (set_tokens_outputs now tos started s))))" "so_key x = so_key so"
      by auto
    with set_tokens_reserved [OF assms(1-3)] assms(5) show False by (metis image_eqI prod.inject so_key_def)
  qed
qed

lemma refresh_drops_new_reserved_output_witness:
  "ts_reservations (snd (set_tokens_outputs 8 \<lparr>tos_metadata = [], tos_outputs = []\<rparr> 5 example_token_reserved)) = []
    \<and> pool_get (ts_available (snd (set_tokens_outputs 8 \<lparr>tos_metadata = [], tos_outputs = []\<rparr> 5 example_token_reserved))) (''t'', ''x'', 0) = None
    \<and> pool_get (ts_available (snd (set_tokens_outputs 8 \<lparr>tos_metadata = [], tos_outputs = []\<rparr> 5 example_token_reserved))) (''t'', ''y'', 0) \<noteq> None"
  using refresh_drops_new_reserved_output [OF example_token_reserved_inv, of 5
      "\<lparr>so_output = example_output ''t'' ''x'' 5, so_added_at = 6\<rparr>" "\<lparr>tos_metadata = [], tos_outputs = []\<rparr>" 8]
  by (simp add: example_token_reserved_eq so_key_def token_has_active_swap_def token_swap_completed_during_refresh_def
      reserved_outputs_def set_tokens_outputs_def hm_retain_def Let_def preserve_pool_def preserve_output_def or_insert_pool_def
      pool_take_def pool_get_def)

end
