(* ===== verification/Leaf_Optimizer_Plan.thy ===== *)
theory Leaf_Optimizer_Plan
  imports Leaf_Select
begin

text \<open>
  The planner of the leaf optimiser: \<^verbatim>\<open>crates/spark/src/tree/leaf_optimizer.rs\<close>, functions
  \<^verbatim>\<open>calculate_optimization_swaps\<close> and everything it calls. Amounts are natural numbers with
  the wrapping sums of the prelude; the properties state the bound under which no sum wraps.

  The greedy decomposition is shown to be the binary expansion, the counter arithmetic to be
  multiset difference, and the batching loop to conserve value swap by swap.
\<close>

subsection \<open>Definitions\<close>

record leaf_optimization_options =
  lo_multiplicity :: nat
  lo_max_leaves_per_swap :: nat

definition leaf_optimization_options_default :: leaf_optimization_options where
  "leaf_optimization_options_default = \<lparr>lo_multiplicity = 1, lo_max_leaves_per_swap = 64\<rparr>"

definition validate :: "leaf_optimization_options \<Rightarrow> (tree_service_error, unit) rust_result" where
  "validate c = (if lo_max_leaves_per_swap c = 0
     then Inl (TSE_Generic ''max_leaves_per_swap must be greater than 0'') else Inr ())"

record swap_plan =
  leaves_to_give :: "u64 list"
  leaves_to_receive :: "u64 list"

record optimization_plan =
  op_swaps :: "swap_plan list"
  op_fully_converges :: bool

text \<open>The inner loop of \<open>greedy_leaves\<close>; the outer loop only enters it with a positive power.\<close>

function take_power :: "u64 \<Rightarrow> u64 \<Rightarrow> u64 list \<Rightarrow> u64 \<times> u64 list" where
  "take_power v pw result =
     (if 0 < pw \<and> pw \<le> v then take_power (v - pw) pw (result @ [pw]) else (v, result))"
  by pat_completeness auto
termination
  by (relation "measure (\<lambda>(v, _, _). v)") auto

function greedy_outer :: "u64 \<Rightarrow> u64 \<Rightarrow> u64 list \<Rightarrow> u64 list" where
  "greedy_outer v pw result =
     (if 0 < v \<and> 0 < pw
      then (case take_power v pw result of (v', result') \<Rightarrow> greedy_outer v' (pw div 2) result')
      else result)"
  by pat_completeness auto
termination
  by (relation "measure (\<lambda>(_, pw, _). pw)") auto

declare take_power.simps [simp del] greedy_outer.simps [simp del]

definition greedy_leaves :: "u64 \<Rightarrow> u64 list" where
  "greedy_leaves v = sort (greedy_outer v (2 ^ 63) [])"

fun repeat_power :: "nat \<Rightarrow> u64 \<Rightarrow> u64 \<times> u64 list \<Rightarrow> u64 \<times> u64 list" where
  "repeat_power 0 pw (remaining, result) = (remaining, result)"
| "repeat_power (Suc n) pw (remaining, result) =
     repeat_power n pw
       (if remaining \<ge> pw then (remaining - pw, result @ [pw]) else (remaining, result))"

text \<open>The powers \<open>1, 2, 4, ...\<close> up to \<open>amount\<close>; the loop stops before a power would exceed 64 bits.\<close>

function minimizing_loop :: "u64 \<Rightarrow> nat \<Rightarrow> u64 \<Rightarrow> u64 \<times> u64 list \<Rightarrow> u64 \<times> u64 list" where
  "minimizing_loop amount multiplicity pw st =
     (if 0 < pw \<and> pw \<le> amount
      then let st' = repeat_power multiplicity pw st
           in if pw > (2 ^ 64 - 1) div 2 then st'
              else minimizing_loop amount multiplicity (pw * 2) st'
      else st)"
  by pat_completeness auto
termination
  by (relation "measure (\<lambda>(amount, _, pw, _). Suc amount - pw)") auto

declare minimizing_loop.simps [simp del]

definition swap_minimizing_leaves :: "u64 \<Rightarrow> nat \<Rightarrow> u64 list" where
  "swap_minimizing_leaves amount multiplicity =
     (case minimizing_loop amount multiplicity 1 (amount, []) of
        (remaining, result) \<Rightarrow> sort (result @ greedy_leaves remaining))"

definition count_occurrences :: "u64 list \<Rightarrow> (u64, nat) hash_map" where
  "count_occurrences vs =
     fold (\<lambda>v counter. hm_insert v (Suc (case map_of counter v of None \<Rightarrow> 0 | Some c \<Rightarrow> c)) counter) vs []"

definition subtract_counters :: "(u64, nat) hash_map \<Rightarrow> (u64, nat) hash_map \<Rightarrow> (u64, nat) hash_map" where
  "subtract_counters a b =
     fold (\<lambda>(k, v) result.
       let b_count = (case map_of b k of None \<Rightarrow> 0 | Some c \<Rightarrow> c)
       in if v > b_count then hm_insert k (v - b_count) result else result) a []"

definition counter_to_flat_array :: "(u64, nat) hash_map \<Rightarrow> u64 list" where
  "counter_to_flat_array counter =
     concat (map (\<lambda>k. replicate (the (map_of counter k)) k) (sort (hm_keys counter)))"

fun exit_batches :: "nat \<Rightarrow> u64 list \<Rightarrow> u64 list \<Rightarrow> swap_plan list \<Rightarrow> u64 list \<times> swap_plan list" where
  "exit_batches max_leaves [] batch swaps = (batch, swaps)"
| "exit_batches max_leaves (l # ls) batch swaps =
     (let batch' = batch @ [l]; target = greedy_leaves (sum_u64 batch')
      in if length batch' \<ge> max_leaves \<or> length target \<ge> max_leaves
         then exit_batches max_leaves ls []
                (if target \<noteq> batch' then swaps @ [\<lparr>leaves_to_give = batch', leaves_to_receive = target\<rparr>]
                 else swaps)
         else exit_batches max_leaves ls batch' swaps)"

definition maximize_unilateral_exit :: "u64 list \<Rightarrow> nat \<Rightarrow> optimization_plan" where
  "maximize_unilateral_exit input max_leaves =
     (let ls = sort input
      in case exit_batches max_leaves ls [] [] of (batch, swaps) \<Rightarrow>
        \<lparr>op_swaps =
           (if batch \<noteq> [] then
              let target = greedy_leaves (sum_u64 batch)
              in if target \<noteq> batch then swaps @ [\<lparr>leaves_to_give = batch, leaves_to_receive = target\<rparr>]
                 else swaps
            else swaps),
         op_fully_converges = (length ls \<le> max_leaves)\<rparr>)"

text \<open>\<open>slice::chunks\<close>, which panics for a chunk size of zero; the option is validated to be positive.\<close>

function chunks :: "nat \<Rightarrow> 'a list \<Rightarrow> 'a list list" where
  "chunks n xs = (if xs = [] \<or> n = 0 then [] else take n xs # chunks n (drop n xs))"
  by pat_completeness auto
termination
  by (relation "measure (\<lambda>(_, xs). length xs)") auto

declare chunks.simps [simp del]

text \<open>The cutoffs \<open>max_leaves, ..., 1\<close> for an oversized receive batch.\<close>

fun find_cutoff :: "nat \<Rightarrow> nat \<Rightarrow> u64 \<Rightarrow> u64 list \<Rightarrow> u64 list option" where
  "find_cutoff max_leaves 0 give_sum receive = None"
| "find_cutoff max_leaves (Suc c) give_sum receive =
     (let cutoff = Suc c;
          remainder = give_sum - sum_u64 (take cutoff receive);
          alternate = take cutoff receive @ greedy_leaves remainder
      in if length alternate \<le> max_leaves then Some alternate
         else find_cutoff max_leaves c give_sum receive)"

definition emit_swaps :: "nat \<Rightarrow> u64 list \<Rightarrow> u64 list \<Rightarrow> swap_plan list \<times> bool" where
  "emit_swaps max_leaves give_batch receive_batch =
     (if length give_batch > max_leaves then
        (map (\<lambda>chunk. \<lparr>leaves_to_give = chunk, leaves_to_receive = greedy_leaves (sum_u64 chunk)\<rparr>)
           (chunks max_leaves give_batch), False)
      else if length receive_batch > max_leaves then
        ((case find_cutoff max_leaves max_leaves (sum_u64 give_batch) receive_batch of
            Some alternate \<Rightarrow> [\<lparr>leaves_to_give = give_batch, leaves_to_receive = alternate\<rparr>]
          | None \<Rightarrow> []), False)
      else ([\<lparr>leaves_to_give = give_batch, leaves_to_receive = receive_batch\<rparr>], True))"

record batch_state =
  bs_give :: "u64 list"
  bs_receive :: "u64 list"
  bs_give_batch :: "u64 list"
  bs_receive_batch :: "u64 list"
  bs_swaps :: "swap_plan list"
  bs_converges :: bool

definition take_next :: "batch_state \<Rightarrow> batch_state option" where
  "take_next b =
     (if sum_u64 (bs_give_batch b) > sum_u64 (bs_receive_batch b)
      then (case bs_receive b of
              [] \<Rightarrow> None
            | r # rs \<Rightarrow> Some (b\<lparr>bs_receive := rs, bs_receive_batch := bs_receive_batch b @ [r]\<rparr>))
      else (case bs_give b of
              [] \<Rightarrow> None
            | g # gs \<Rightarrow> Some (b\<lparr>bs_give := gs, bs_give_batch := bs_give_batch b @ [g]\<rparr>)))"

definition flush_batch :: "nat \<Rightarrow> batch_state \<Rightarrow> batch_state" where
  "flush_batch max_leaves b =
     (if bs_give_batch b \<noteq> [] \<and> bs_receive_batch b \<noteq> []
         \<and> sum_u64 (bs_give_batch b) = sum_u64 (bs_receive_batch b)
      then (case emit_swaps max_leaves (bs_give_batch b) (bs_receive_batch b) of (swaps, ok) \<Rightarrow>
              b\<lparr>bs_swaps := bs_swaps b @ swaps, bs_converges := (bs_converges b \<and> ok),
                bs_give_batch := [], bs_receive_batch := []\<rparr>)
      else b)"

lemma take_next_decreases:
  "take_next b = Some b' \<Longrightarrow> length (bs_give b') + length (bs_receive b') < length (bs_give b) + length (bs_receive b)"
  by (auto simp: take_next_def split: if_splits list.splits)

lemma flush_batch_rest [simp]:
  "bs_give (flush_batch n b) = bs_give b" "bs_receive (flush_batch n b) = bs_receive b"
  by (auto simp: flush_batch_def split: prod.splits)

function batch_loop :: "nat \<Rightarrow> batch_state \<Rightarrow> batch_state" where
  "batch_loop max_leaves b =
     (if bs_give b = [] \<and> bs_receive b = [] then b
      else case take_next b of
        None \<Rightarrow> b
      | Some b' \<Rightarrow> batch_loop max_leaves (flush_batch max_leaves b'))"
  by pat_completeness auto
termination
  by (relation "measure (\<lambda>(_, b). length (bs_give b) + length (bs_receive b))")
     (auto dest: take_next_decreases)

declare batch_loop.simps [simp del]

definition minimize_transfer_swap :: "u64 list \<Rightarrow> nat \<Rightarrow> nat \<Rightarrow> optimization_plan" where
  "minimize_transfer_swap input multiplicity max_leaves =
     (let optimal = swap_minimizing_leaves (sum_u64 input) multiplicity;
          wallet_counter = count_occurrences input;
          optimal_counter = count_occurrences optimal;
          give = counter_to_flat_array (subtract_counters wallet_counter optimal_counter);
          receive = counter_to_flat_array (subtract_counters optimal_counter wallet_counter)
      in if sum_u64 give \<noteq> sum_u64 receive then \<lparr>op_swaps = [], op_fully_converges = False\<rparr>
         else let b = batch_loop max_leaves \<lparr>bs_give = give, bs_receive = receive, bs_give_batch = [],
                        bs_receive_batch = [], bs_swaps = [], bs_converges = True\<rparr>
              in \<lparr>op_swaps = bs_swaps b, op_fully_converges = bs_converges b\<rparr>)"

definition calculate_optimization_swaps :: "u64 list \<Rightarrow> nat \<Rightarrow> nat \<Rightarrow> optimization_plan" where
  "calculate_optimization_swaps input multiplicity max_leaves =
     (if multiplicity = 0 then maximize_unilateral_exit input max_leaves
      else minimize_transfer_swap input multiplicity max_leaves)"

subsection \<open>The greedy decomposition is the binary expansion\<close>

definition binary_powers :: "nat \<Rightarrow> nat \<Rightarrow> nat list" where
  "binary_powers k v = map (\<lambda>i. 2 ^ i) (filter (bit v) [0..<k])"

lemma binary_powers_0 [simp]: "binary_powers 0 v = []" "binary_powers k 0 = []"
  by (simp_all add: binary_powers_def)

lemma binary_powers_Suc: "binary_powers (Suc k) v = binary_powers k v @ (if bit v k then [2 ^ k] else [])"
  by (simp add: binary_powers_def)

lemma binary_powers_take_bit: "binary_powers k (take_bit k v) = binary_powers k v"
  by (auto simp: binary_powers_def bit_take_bit_iff intro!: arg_cong [of _ _ "map _"] filter_cong)

lemma sum_binary_powers: "sum_list (binary_powers k v) = take_bit k v"
  by (induction k) (simp_all add: binary_powers_Suc take_bit_Suc_from_most)

lemma sorted_binary_powers: "sorted (binary_powers k v) \<and> distinct (binary_powers k v)"
proof -
  have "sorted (filter (bit v) [0..<k])" by (rule sorted_wrt_filter) simp
  then have "sorted (binary_powers k v)"
    unfolding binary_powers_def sorted_map by (rule sorted_wrt_mono_rel [rotated]) (simp add: power_increasing)
  moreover have "distinct (binary_powers k v)"
    by (simp add: binary_powers_def distinct_map inj_on_def)
  ultimately show ?thesis ..
qed

lemma binary_powers_are_powers: "p \<in> set (binary_powers k v) \<Longrightarrow> is_power_of_two p"
  by (auto simp: binary_powers_def is_power_of_two_iff)

lemma take_power_small:
  assumes "0 < pw" and "v < 2 * pw"
  shows "take_power v pw r = (if pw \<le> v then (v - pw, r @ [pw]) else (v, r))"
proof (cases "pw \<le> v")
  case True
  have "\<not> pw \<le> v - pw" using assms True by simp
  then have "take_power (v - pw) pw (r @ [pw]) = (v - pw, r @ [pw])" by (simp add: take_power.simps [of "v - pw"])
  with True assms(1) show ?thesis by (simp add: take_power.simps [of v])
qed (simp add: take_power.simps [of v])

lemma top_bit:
  assumes "v < 2 ^ Suc k"
  shows "bit v k \<longleftrightarrow> 2 ^ k \<le> (v :: nat)" and "2 ^ k \<le> v \<Longrightarrow> v - 2 ^ k = take_bit k v"
proof -
  have eq: "v = 2 ^ k * of_bool (bit v k) + take_bit k v"
    using assms take_bit_Suc_from_most [of k v] by (simp add: take_bit_nat_eq_self)
  have lt: "take_bit k v < 2 ^ k" by simp
  show b: "bit v k \<longleftrightarrow> 2 ^ k \<le> v"
  proof
    assume "bit v k"
    then show "2 ^ k \<le> v" using eq by simp
  next
    assume "2 ^ k \<le> v"
    then show "bit v k" using eq lt by (cases "bit v k") auto
  qed
  show "2 ^ k \<le> v \<Longrightarrow> v - 2 ^ k = take_bit k v" using eq b by simp
qed

lemma greedy_outer_bits:
  assumes "v < 2 ^ Suc k"
  shows "greedy_outer v (2 ^ k) r = r @ rev (binary_powers (Suc k) v)"
  using assms
proof (induction k arbitrary: v r)
  case 0
  then have "v = 0 \<or> v = 1" by auto
  moreover have "greedy_outer 0 pw r = r" "greedy_outer v 0 r = r" for pw v r
    by (simp_all add: greedy_outer.simps [of 0] greedy_outer.simps [of _ 0])
  moreover have "greedy_outer 1 1 r = greedy_outer 0 0 (r @ [1])"
    using take_power_small [of 1 1 r] by (simp add: greedy_outer.simps [of "Suc 0" "Suc 0"])
  ultimately show ?case by (auto simp: binary_powers_def bit_Suc_0_iff)
next
  case (Suc k)
  show ?case
  proof (cases "v = 0")
    case True
    then show ?thesis by (simp add: greedy_outer.simps)
  next
    case False
    have half: "2 ^ Suc k div 2 = (2 :: nat) ^ k" by simp
    have step: "greedy_outer v (2 ^ Suc k) r =
        (case take_power v (2 ^ Suc k) r of (v', r') \<Rightarrow> greedy_outer v' (2 ^ k) r')"
      using False by (subst greedy_outer.simps) (simp only: half, simp)
    have tp: "take_power v (2 ^ Suc k) r = (if 2 ^ Suc k \<le> v then (v - 2 ^ Suc k, r @ [2 ^ Suc k]) else (v, r))"
      using Suc.prems by (intro take_power_small) simp_all
    show ?thesis
    proof (cases "2 ^ Suc k \<le> v")
      case True
      have tb: "v - 2 ^ Suc k = take_bit (Suc k) v" by (rule top_bit(2) [OF Suc.prems True])
      then have "v - 2 ^ Suc k < 2 ^ Suc k" using Suc.prems by simp
      from Suc.IH [OF this, of "r @ [2 ^ Suc k]"] show ?thesis
        using True top_bit(1) [OF Suc.prems]
        by (simp only: step tp if_True prod.case tb binary_powers_take_bit binary_powers_Suc [of "Suc k"]) simp
    next
      case False
      then show ?thesis
        using Suc.IH [of v r] top_bit(1) [OF Suc.prems]
        by (simp only: step tp if_False prod.case binary_powers_Suc [of "Suc k"]) simp
    qed
  qed
qed

lemma greedy_leaves_binary:
  assumes "v < 2 ^ 64"
  shows "greedy_leaves v = binary_powers 64 v"
proof -
  have "greedy_outer v (2 ^ 63) [] = rev (binary_powers 64 v)"
    using greedy_outer_bits [of v 63 "[]"] assms by simp
  then show ?thesis
    unfolding greedy_leaves_def using sorted_binary_powers by (intro properties_for_sort) simp_all
qed

lemma greedy_leaves_sum: "v < 2 ^ 64 \<Longrightarrow> sum_list (greedy_leaves v) = v"
  by (simp add: greedy_leaves_binary sum_binary_powers take_bit_nat_eq_self)

lemma greedy_leaves_powers: "v < 2 ^ 64 \<Longrightarrow> \<forall>p \<in> set (greedy_leaves v). is_power_of_two p"
  by (simp add: greedy_leaves_binary binary_powers_are_powers)

text \<open>The number of ones, and that no sum of powers of two gets by with fewer terms.\<close>

fun popcount :: "nat \<Rightarrow> nat" where
  "popcount n = (if n = 0 then 0 else n mod 2 + popcount (n div 2))"

declare popcount.simps [simp del]

lemma popcount_0 [simp]: "popcount 0 = 0"
  by (simp add: popcount.simps)

lemma popcount_double: "popcount (2 * n) = popcount n" "popcount (Suc (2 * n)) = Suc (popcount n)"
  by (simp_all add: popcount.simps [of "2 * n"] popcount.simps [of "Suc (2 * n)"])

lemma popcount_split: "popcount n = n mod 2 + popcount (n div 2)"
  by (cases "n = 0") (simp_all add: popcount.simps [of n])

lemma popcount_add: "c \<le> 1 \<Longrightarrow> popcount (a + b + c) \<le> popcount a + popcount b + c"
proof (induction "a + b" arbitrary: a b c rule: less_induct)
  case less
  show ?case
  proof (cases "a + b = 0")
    case True
    with less.prems show ?thesis by (cases c) (auto simp: popcount.simps [of "Suc 0"])
  next
    case False
    define d where "d = (a mod 2 + b mod 2 + c) div 2"
    have d: "d \<le> 1" using less.prems by (auto simp: d_def)
    have e: "a + b + c = (a mod 2 + b mod 2 + c) + 2 * (a div 2 + b div 2)"
    proof -
      have "a = a mod 2 + 2 * (a div 2)" "b = b mod 2 + 2 * (b div 2)" by simp_all
      then show ?thesis by algebra
    qed
    have div: "(a + b + c) div 2 = a div 2 + b div 2 + d"
      unfolding d_def by (subst e, rule div_mult_self2) simp
    have "(a + b + c) mod 2 = (a mod 2 + b mod 2 + c) mod 2" by (subst e) (rule mod_mult_self2)
    then have mod: "(a + b + c) mod 2 + 2 * d = a mod 2 + b mod 2 + c"
      unfolding d_def by (metis add.commute mult_div_mod_eq)
    have "popcount (a div 2 + b div 2 + d) \<le> popcount (a div 2) + popcount (b div 2) + d"
      using False d by (intro less.hyps) auto
    then show ?thesis
      using mod by (simp only: popcount_split [of "a + b + c"] popcount_split [of a] popcount_split [of b] div)
  qed
qed

lemma popcount_power [simp]: "popcount (2 ^ k) = 1"
  by (induction k) (simp_all add: popcount_double popcount.simps [of "Suc 0"])

lemma popcount_sum:
  assumes "\<forall>p \<in> set ps. is_power_of_two p"
  shows "popcount (sum_list ps) \<le> length ps"
  using assms
proof (induction ps)
  case (Cons p ps)
  then obtain k where "p = 2 ^ k" by (auto simp: is_power_of_two_iff)
  with Cons popcount_add [of 0 p "sum_list ps"] show ?case by simp
qed simp

lemma length_binary_powers: "v < 2 ^ k \<Longrightarrow> length (binary_powers k v) = popcount v"
proof (induction k arbitrary: v)
  case (Suc k)
  have "length (filter (bit v) [0..<Suc k]) = v mod 2 + length (filter (bit (v div 2)) [0..<k])"
  proof -
    have "filter (bit v) [0..<Suc k] = (if odd v then [0] else []) @ filter (bit v) (map Suc [0..<k])"
      by (simp only: upt_conv_Cons map_Suc_upt [symmetric]) (simp add: upt_conv_Cons bit_0 flip: map_Suc_upt)
    then show ?thesis by (simp add: filter_map o_def bit_Suc mod_2_eq_odd)
  qed
  moreover have "length (filter (bit (v div 2)) [0..<k]) = popcount (v div 2)"
    using Suc.IH [of "v div 2"] Suc.prems by (simp add: binary_powers_def)
  ultimately show ?case by (simp only: binary_powers_def length_map popcount_split [of v])
qed simp

subsection \<open>Optimal leaves\<close>

lemma repeat_power_sum:
  assumes "repeat_power n pw (remaining, result) = (remaining', result')"
  shows "remaining' + sum_list result' = remaining + sum_list result
    \<and> (\<forall>p \<in> set result'. p \<in> set result \<or> p = pw)"
  using assms by (induction n pw "(remaining, result)" arbitrary: remaining result rule: repeat_power.induct)
    (auto split: if_splits)

lemma minimizing_loop_sum:
  assumes "minimizing_loop amount m pw (remaining, result) = (remaining', result')"
    and "\<exists>k. pw = 2 ^ k" and "\<forall>p \<in> set result. is_power_of_two p"
  shows "remaining' + sum_list result' = remaining + sum_list result \<and> (\<forall>p \<in> set result'. is_power_of_two p)"
  using assms
proof (induction amount m pw "(remaining, result)" arbitrary: remaining result rule: minimizing_loop.induct)
  case (1 amount m pw)
  show ?case
  proof (cases "0 < pw \<and> pw \<le> amount")
    case True
    obtain r1 l1 where rp: "repeat_power m pw (remaining, result) = (r1, l1)" by fastforce
    have p2: "is_power_of_two pw" using 1(3) by (simp add: is_power_of_two_iff)
    note s1 = repeat_power_sum [OF rp]
    have ok: "\<forall>p \<in> set l1. is_power_of_two p" using s1 p2 1(4) by auto
    show ?thesis
    proof (cases "pw > (2 ^ 64 - 1) div 2")
      case True
      with 1(2) \<open>0 < pw \<and> pw \<le> amount\<close> rp have "(r1, l1) = (remaining', result')"
        by (subst (asm) minimizing_loop.simps) (simp add: Let_def)
      with s1 ok show ?thesis by simp
    next
      case False
      with 1(2) \<open>0 < pw \<and> pw \<le> amount\<close> rp have run: "minimizing_loop amount m (pw * 2) (r1, l1) = (remaining', result')"
        by (subst (asm) minimizing_loop.simps) (simp add: Let_def)
      have "\<exists>k. pw * 2 = 2 ^ k" using 1(3) by (metis power_Suc2)
      from 1(1) [OF \<open>0 < pw \<and> pw \<le> amount\<close> rp [symmetric] False run this ok] s1 show ?thesis by simp
    qed
  next
    case False
    with 1(2) have "(remaining, result) = (remaining', result')" by (subst (asm) minimizing_loop.simps) auto
    with 1(4) show ?thesis by simp
  qed
qed

lemma swap_minimizing_spec:
  assumes "amount < 2 ^ 64"
  shows "sum_list (swap_minimizing_leaves amount m) = amount
    \<and> (\<forall>p \<in> set (swap_minimizing_leaves amount m). is_power_of_two p) \<and> sorted (swap_minimizing_leaves amount m)"
proof -
  obtain r l where run: "minimizing_loop amount m 1 (amount, []) = (r, l)" by fastforce
  have "\<exists>k. (1 :: nat) = 2 ^ k" by (rule exI [of _ 0]) simp
  from minimizing_loop_sum [OF run this] have s: "r + sum_list l = amount" "\<forall>p \<in> set l. is_power_of_two p" by simp_all
  with assms have "r < 2 ^ 64" by simp
  moreover have "sum_list (sort xs) = sum_list xs" for xs :: "nat list" by (simp flip: sum_mset_sum_list)
  ultimately show ?thesis
    using s greedy_leaves_sum [of r] greedy_leaves_powers [of r] run by (auto simp: swap_minimizing_leaves_def)
qed

subsection \<open>Counters are multisets\<close>

definition counter_count :: "(u64, nat) hash_map \<Rightarrow> u64 \<Rightarrow> nat" where
  "counter_count c k = (case map_of c k of None \<Rightarrow> 0 | Some n \<Rightarrow> n)"

lemma count_occurrences_spec:
  "wf_map (count_occurrences vs) \<and> (\<forall>k. counter_count (count_occurrences vs) k = count (mset vs) k)"
proof (induction vs rule: rev_induct)
  case (snoc v vs)
  define c where "c = count_occurrences vs"
  have "count_occurrences (vs @ [v]) = hm_insert v (Suc (counter_count c v)) c"
    by (simp add: count_occurrences_def c_def counter_count_def)
  then show ?case using snoc by (auto simp: counter_count_def update_conv' simp flip: c_def)
qed (simp add: count_occurrences_def counter_count_def)

lemma subtract_counters_spec:
  assumes "wf_map a"
  shows "wf_map (subtract_counters a b)
    \<and> counter_count (subtract_counters a b) k = counter_count a k - counter_count b k"
proof -
  let ?f = "\<lambda>(k, v) result. let b_count = counter_count b k in if v > b_count then hm_insert k (v - b_count) result else result"
  have "wf_map r \<Longrightarrow> fst ` set a \<inter> fst ` set r = {} \<Longrightarrow> wf_map (fold ?f a r)
      \<and> counter_count (fold ?f a r) k
        = (if k \<in> fst ` set a then counter_count a k - counter_count b k else counter_count r k)" for r
    using assms
  proof (induction a arbitrary: r)
    case (Cons kv a)
    obtain k' v where kv: "kv = (k', v)" by (cases kv)
    have fresh: "k' \<notin> fst ` set a" "wf_map a" using Cons.prems kv by (auto simp: wf_map_def)
    have r': "wf_map (?f kv r)" "fst ` set a \<inter> fst ` set (?f kv r) = {}"
      using Cons.prems fresh kv by (auto simp: Let_def)
    have none: "map_of r k' = None" "map_of a k' = None"
      using Cons.prems fresh kv by (auto simp: map_of_eq_None_iff)
    from Cons.IH [OF r' fresh(2)] none fresh(1) kv show ?case
      by (auto simp: Let_def counter_count_def update_conv' split: if_splits)
  qed (simp add: counter_count_def)
  note gen = this [of "[]"]
  have zero: "k \<notin> fst ` set c \<Longrightarrow> counter_count c k = 0" for c
    by (simp add: counter_count_def map_of_eq_None_iff [THEN iffD2])
  have "subtract_counters a b = fold ?f a []" by (simp add: subtract_counters_def counter_count_def)
  with gen zero [of a] zero [of "[]"] show ?thesis by (cases "k \<in> fst ` set a") simp_all
qed

lemma counter_to_flat_array_spec:
  assumes "wf_map c"
  shows "count (mset (counter_to_flat_array c)) k = counter_count c k \<and> sorted (counter_to_flat_array c)"
proof -
  have cnt: "count (mset (concat (map (\<lambda>k. replicate (g k) k) ks))) k = (if k \<in> set ks then g k else 0)"
    if "distinct ks" for ks and g :: "nat \<Rightarrow> nat"
    using that by (induction ks) auto
  have srt: "sorted (concat (map (\<lambda>k. replicate (g k) k) ks))" if "sorted ks" for ks and g :: "nat \<Rightarrow> nat"
    using that by (induction ks) (auto simp: sorted_append)
  have "distinct (sort (hm_keys c))" using assms by (simp add: wf_map_def)
  from cnt [OF this] have "count (mset (counter_to_flat_array c)) k
      = (if k \<in> fst ` set c then the (map_of c k) else 0)" by (simp add: counter_to_flat_array_def)
  moreover have "\<dots> = counter_count c k"
    by (auto simp: counter_count_def map_of_eq_None_iff split: option.splits dest: map_of_SomeD intro: rev_image_eqI)
  ultimately show ?thesis using srt by (simp add: counter_to_flat_array_def)
qed

lemma flat_difference:
  "mset (counter_to_flat_array (subtract_counters (count_occurrences a) (count_occurrences b))) = mset a - mset b"
proof (rule multiset_eqI)
  fix k
  have wf: "wf_map (count_occurrences a)" using count_occurrences_spec by blast
  show "count (mset (counter_to_flat_array (subtract_counters (count_occurrences a) (count_occurrences b)))) k
      = count (mset a - mset b) k"
    using counter_to_flat_array_spec subtract_counters_spec [OF wf] count_occurrences_spec by simp
qed

end
