(* ===== verification/Leaf_Optimizer_Props.thy ===== *)
theory Leaf_Optimizer_Props
  imports Leaf_Optimizer_Plan
begin

text \<open>
  Correctness of the optimisation plans: every planned swap is balanced, fits the swap size, and
  only gives leaves the wallet has; a plan marked as converging reaches the optimal
  set of leaves, after which the planner plans nothing more.
\<close>

subsection \<open>Vocabulary\<close>

definition plan_gives :: "swap_plan list \<Rightarrow> u64 list" where
  "plan_gives swaps = concat (map leaves_to_give swaps)"

definition plan_receives :: "swap_plan list \<Rightarrow> u64 list" where
  "plan_receives swaps = concat (map leaves_to_receive swaps)"

text \<open>A swap the operator will accept and the wallet can make: balanced, of powers of two, not empty,
  and no larger than the configured limit on its give side.\<close>

definition good_swap :: "nat \<Rightarrow> swap_plan \<Rightarrow> bool" where
  "good_swap max_leaves sw =
     (sum_list (leaves_to_give sw) = sum_list (leaves_to_receive sw)
      \<and> leaves_to_give sw \<noteq> [] \<and> length (leaves_to_give sw) \<le> max_leaves
      \<and> (\<forall>p \<in> set (leaves_to_receive sw). is_power_of_two p))"

lemma plan_append [simp]:
  "plan_gives (xs @ ys) = plan_gives xs @ plan_gives ys" "plan_receives (xs @ ys) = plan_receives xs @ plan_receives ys"
  "plan_gives [] = []" "plan_receives [] = []"
  "plan_gives [sw] = leaves_to_give sw" "plan_receives [sw] = leaves_to_receive sw"
  by (simp_all add: plan_gives_def plan_receives_def)

subsection \<open>Emitting swaps\<close>

lemma concat_chunks: "0 < n \<Longrightarrow> concat (chunks n xs) = xs"
proof (induction n xs rule: chunks.induct)
  case (1 n xs)
  then show ?case by (cases "xs = []") (simp_all add: chunks.simps [of n xs] chunks.simps [of n "[]"])
qed

lemma chunks_bounds: "c \<in> set (chunks n xs) \<Longrightarrow> c \<noteq> [] \<and> length c \<le> n"
proof (induction n xs rule: chunks.induct)
  case (1 n xs)
  then show ?case by (cases "xs = [] \<or> n = 0") (auto simp: chunks.simps [of n xs])
qed

lemma find_cutoff_spec:
  assumes "find_cutoff max_leaves c give_sum receive = Some alt" and "sum_list receive = give_sum" and "give_sum < 2 ^ 64"
    and "\<forall>p \<in> set receive. is_power_of_two p"
  shows "sum_list alt = give_sum \<and> length alt \<le> max_leaves \<and> (\<forall>p \<in> set alt. is_power_of_two p)"
  using assms
proof (induction max_leaves c give_sum receive rule: find_cutoff.induct)
  case (2 max_leaves c give_sum receive)
  let ?t = "take (Suc c) receive"
  let ?alt = "?t @ greedy_leaves (give_sum - sum_u64 ?t)"
  have split: "sum_list ?t + sum_list (drop (Suc c) receive) = give_sum"
    using 2(3) by (metis append_take_drop_id sum_list_append)
  then have s: "sum_u64 ?t = sum_list ?t" using 2(4) by (intro sum_u64_small) simp
  show ?case
  proof (cases "length ?alt \<le> max_leaves")
    case True
    with 2(2) have alt: "alt = ?alt" by (simp add: Let_def)
    have small: "give_sum - sum_list ?t < 2 ^ 64" using 2(4) by simp
    with split 2(5) True greedy_leaves_sum [OF small] greedy_leaves_powers [OF small] show ?thesis
      unfolding alt by (auto simp: s dest: in_set_takeD)
  next
    case False
    with 2 show ?thesis by (simp add: Let_def)
  qed
qed simp

lemma emit_swaps_spec:
  assumes "emit_swaps max_leaves gb rb = (swaps, ok)" and "0 < max_leaves" and "gb \<noteq> []"
    and "sum_list gb = sum_list rb" and "sum_list gb < 2 ^ 64" and "\<forall>p \<in> set rb. is_power_of_two p"
  shows "\<forall>sw \<in> set swaps. good_swap max_leaves sw" and "mset (plan_gives swaps) \<subseteq># mset gb"
    and "ok \<Longrightarrow> plan_gives swaps = gb \<and> plan_receives swaps = rb"
proof -
  consider (chunk) "length gb > max_leaves"
    | (cut) "length gb \<le> max_leaves" "length rb > max_leaves"
    | (fit) "length gb \<le> max_leaves" "length rb \<le> max_leaves" by linarith
  then have "(\<forall>sw \<in> set swaps. good_swap max_leaves sw) \<and> mset (plan_gives swaps) \<subseteq># mset gb
      \<and> (ok \<longrightarrow> plan_gives swaps = gb \<and> plan_receives swaps = rb)"
  proof cases
    case chunk
    then have sw: "swaps = map (\<lambda>c. \<lparr>leaves_to_give = c, leaves_to_receive = greedy_leaves (sum_u64 c)\<rparr>) (chunks max_leaves gb)"
        and nok: "\<not> ok"
      using assms(1) by (auto simp: emit_swaps_def)
    have gives: "plan_gives swaps = gb" using concat_chunks [OF assms(2)] by (simp add: sw plan_gives_def o_def)
    have "good_swap max_leaves \<lparr>leaves_to_give = c, leaves_to_receive = greedy_leaves (sum_u64 c)\<rparr>"
      if c: "c \<in> set (chunks max_leaves gb)" for c
    proof -
      obtain pre post where "chunks max_leaves gb = pre @ c # post" using c by (meson split_list)
      then have "gb = concat pre @ c @ concat post" using concat_chunks [OF assms(2), of gb] by simp
      then have "sum_list c \<le> sum_list gb" by simp
      then have small: "sum_list c < 2 ^ 64" using assms(5) by simp
      with greedy_leaves_sum [OF small] greedy_leaves_powers [OF small] chunks_bounds [OF c] show ?thesis
        by (simp add: good_swap_def sum_u64_small)
    qed
    then show ?thesis using gives nok sw by auto
  next
    case cut
    show ?thesis
    proof (cases "find_cutoff max_leaves max_leaves (sum_u64 gb) rb")
      case None
      with cut assms(1) show ?thesis by (auto simp: emit_swaps_def)
    next
      case (Some alt)
      with cut assms(1) have sw: "swaps = [\<lparr>leaves_to_give = gb, leaves_to_receive = alt\<rparr>]" and nok: "\<not> ok"
        by (auto simp: emit_swaps_def)
      have "sum_list rb = sum_u64 gb" "sum_u64 gb < 2 ^ 64" using assms(4,5) by (simp_all add: sum_u64_small)
      from find_cutoff_spec [OF Some this assms(6)] cut assms(3,5) show ?thesis
        by (auto simp: sw nok good_swap_def sum_u64_small)
    qed
  next
    case fit
    with assms show ?thesis by (auto simp: emit_swaps_def good_swap_def)
  qed
  then show "\<forall>sw \<in> set swaps. good_swap max_leaves sw" "mset (plan_gives swaps) \<subseteq># mset gb"
    "ok \<Longrightarrow> plan_gives swaps = gb \<and> plan_receives swaps = rb" by auto
qed

subsection \<open>The batching loop\<close>

definition batch_inv :: "nat \<Rightarrow> u64 list \<Rightarrow> u64 list \<Rightarrow> batch_state \<Rightarrow> bool" where
  "batch_inv max_leaves G R b =
     (sum_list (bs_give_batch b @ bs_give b) = sum_list (bs_receive_batch b @ bs_receive b)
      \<and> sum_list (bs_give_batch b @ bs_give b) < 2 ^ 64
      \<and> (\<forall>v \<in> set (bs_give_batch b @ bs_give b). 0 < v)
      \<and> (\<forall>p \<in> set (bs_receive_batch b @ bs_receive b). is_power_of_two p)
      \<and> (\<forall>sw \<in> set (bs_swaps b). good_swap max_leaves sw)
      \<and> mset (plan_gives (bs_swaps b)) + mset (bs_give_batch b) + mset (bs_give b) \<subseteq># mset G
      \<and> (bs_converges b \<longrightarrow> plan_gives (bs_swaps b) @ bs_give_batch b @ bs_give b = G
           \<and> plan_receives (bs_swaps b) @ bs_receive_batch b @ bs_receive b = R))"

definition batch_clear :: "batch_state \<Rightarrow> bool" where
  "batch_clear b = (bs_give_batch b = [] \<and> bs_receive_batch b = []
     \<or> sum_list (bs_give_batch b) \<noteq> sum_list (bs_receive_batch b))"

lemma take_next_inv:
  assumes "batch_inv n G R b" and "take_next b = Some b'"
  shows "batch_inv n G R b'"
  using assms by (auto simp: batch_inv_def take_next_def ac_simps split: if_splits list.splits)

lemma sum_pos: "\<forall>v \<in> set vs. 0 < v \<Longrightarrow> sum_list vs = 0 \<longleftrightarrow> vs = []" for vs :: "nat list"
  by (cases vs) auto

lemma batch_sums:
  assumes "batch_inv n G R b"
  shows "sum_u64 (bs_give_batch b) = sum_list (bs_give_batch b)"
    and "sum_u64 (bs_receive_batch b) = sum_list (bs_receive_batch b)"
    and "sum_list (bs_give_batch b) < 2 ^ 64"
  using assms by (auto simp: batch_inv_def intro!: sum_u64_small)

lemma flush_inv:
  assumes inv: "batch_inv n G R b" and n: "0 < n"
  shows "batch_inv n G R (flush_batch n b) \<and> batch_clear (flush_batch n b)"
proof -
  note sums = batch_sums [OF inv]
  show ?thesis
  proof (cases "bs_give_batch b \<noteq> [] \<and> bs_receive_batch b \<noteq> [] \<and> sum_list (bs_give_batch b) = sum_list (bs_receive_batch b)")
    case True
    obtain swaps ok where e: "emit_swaps n (bs_give_batch b) (bs_receive_batch b) = (swaps, ok)" by fastforce
    have fb: "flush_batch n b = b\<lparr>bs_swaps := bs_swaps b @ swaps, bs_converges := (bs_converges b \<and> ok),
        bs_give_batch := [], bs_receive_batch := []\<rparr>"
      using True sums e by (simp add: flush_batch_def)
    have p2: "\<forall>p \<in> set (bs_receive_batch b). is_power_of_two p" using inv by (simp add: batch_inv_def)
    note spec = emit_swaps_spec [OF e n _ _ sums(3) p2]
    have "mset (plan_gives swaps) + mset (plan_gives (bs_swaps b)) + mset (bs_give b)
        \<subseteq># mset (bs_give_batch b) + mset (plan_gives (bs_swaps b)) + mset (bs_give b)"
      using True spec(2) by (intro subset_mset.add_mono) auto
    moreover have "\<dots> \<subseteq># mset G" using inv by (simp add: batch_inv_def ac_simps)
    ultimately have "mset (plan_gives (bs_swaps b)) + mset (plan_gives swaps) + mset (bs_give b) \<subseteq># mset G"
      by (metis (no_types, lifting) add.commute subset_mset.order_trans)
    with inv True spec show ?thesis
      unfolding fb by (auto simp: batch_inv_def batch_clear_def)
  next
    case False
    then have "flush_batch n b = b" using sums by (auto simp: flush_batch_def)
    moreover have "batch_clear b"
    proof (cases "bs_give_batch b = [] \<or> bs_receive_batch b = []")
      case True
      have "\<forall>v \<in> set (bs_give_batch b). 0 < v" "\<forall>v \<in> set (bs_receive_batch b). 0 < v"
        using inv by (auto simp: batch_inv_def is_power_of_two_def)
      note z = sum_pos [OF this(1)] sum_pos [OF this(2)]
      from True z show ?thesis unfolding batch_clear_def by (metis sum_list.Nil)
    qed (use False in \<open>simp add: batch_clear_def\<close>)
    ultimately show ?thesis using inv by simp
  qed
qed

lemma take_next_exists:
  assumes inv: "batch_inv n G R b" and "bs_give b \<noteq> [] \<or> bs_receive b \<noteq> []"
  shows "take_next b \<noteq> None"
proof
  assume none: "take_next b = None"
  note sums = batch_sums [OF inv]
  have eq: "sum_list (bs_give_batch b) + sum_list (bs_give b) = sum_list (bs_receive_batch b) + sum_list (bs_receive b)"
    and pos: "\<forall>v \<in> set (bs_receive b). 0 < v"
    using inv by (auto simp: batch_inv_def is_power_of_two_def)
  from none consider
      "sum_list (bs_give_batch b) > sum_list (bs_receive_batch b)" "bs_receive b = []"
    | "sum_list (bs_give_batch b) \<le> sum_list (bs_receive_batch b)" "bs_give b = []"
    by (auto simp: take_next_def sums split: if_splits list.splits)
  then show False
  proof cases
    case 1
    with eq show False by simp
  next
    case 2
    with eq have "sum_list (bs_receive b) = 0" by simp
    with sum_pos [OF pos] 2 assms(2) show False by simp
  qed
qed

lemma batch_loop_inv:
  assumes "batch_inv n G R b" and "batch_clear b" and "0 < n"
  shows "batch_inv n G R (batch_loop n b)
    \<and> bs_give (batch_loop n b) = [] \<and> bs_receive (batch_loop n b) = []
    \<and> bs_give_batch (batch_loop n b) = [] \<and> bs_receive_batch (batch_loop n b) = []"
  using assms
proof (induction n b rule: batch_loop.induct)
  case (1 n b)
  show ?case
  proof (cases "bs_give b = [] \<and> bs_receive b = []")
    case True
    then have "batch_loop n b = b" by (simp add: batch_loop.simps)
    moreover have "sum_list (bs_give_batch b) = sum_list (bs_receive_batch b)"
      using True 1(2) by (simp add: batch_inv_def)
    ultimately show ?thesis using True 1(2,3) by (simp add: batch_clear_def)
  next
    case False
    then obtain b' where b': "take_next b = Some b'" using take_next_exists [OF 1(2)] by auto
    then have "batch_loop n b = batch_loop n (flush_batch n b')" using False by (subst batch_loop.simps) auto
    moreover have "batch_inv n G R (flush_batch n b')" "batch_clear (flush_batch n b')"
      using flush_inv [OF take_next_inv [OF 1(2) b'] 1(4)] by simp_all
    ultimately show ?thesis using 1(1) [OF False b'] 1(4) by simp
  qed
qed

subsection \<open>Minimising transfer swaps\<close>

lemma sum_mset_diff_eq:
  fixes A B :: "nat multiset"
  assumes "sum_mset A = sum_mset B"
  shows "sum_mset (A - B) = sum_mset (B - A)"
proof -
  have "sum_mset (A - B) + sum_mset (A \<inter># B) = sum_mset A" for A B :: "nat multiset"
    by (metis diff_intersect_left_idem subset_mset.diff_add subset_mset.inf_le1 sum_mset.union)
  from this [of A B] this [of B A] assms show ?thesis by (simp add: subset_mset.inf_commute [of A B])
qed

lemma mset_exchange: "A - (A - B) + (B - A) = (B :: 'a multiset)"
proof (rule multiset_eqI)
  fix x
  show "count (A - (A - B) + (B - A)) x = count B x" by (cases "count A x \<le> count B x") simp_all
qed

lemma minimize_spec:
  fixes input :: "u64 list" and m n :: nat
  defines "optimal \<equiv> swap_minimizing_leaves (sum_u64 input) m"
  assumes small: "sum_list input < 2 ^ 64" and pos: "\<forall>v \<in> set input. 0 < v" and n: "0 < n"
  shows "\<exists>G R. mset G = mset input - mset optimal \<and> mset R = mset optimal - mset input
    \<and> (\<forall>sw \<in> set (op_swaps (minimize_transfer_swap input m n)). good_swap n sw)
    \<and> mset (plan_gives (op_swaps (minimize_transfer_swap input m n))) \<subseteq># mset G
    \<and> (op_fully_converges (minimize_transfer_swap input m n) \<longrightarrow>
         plan_gives (op_swaps (minimize_transfer_swap input m n)) = G
         \<and> plan_receives (op_swaps (minimize_transfer_swap input m n)) = R)"
proof -
  define G where "G = counter_to_flat_array (subtract_counters (count_occurrences input) (count_occurrences optimal))"
  define R where "R = counter_to_flat_array (subtract_counters (count_occurrences optimal) (count_occurrences input))"
  have G: "mset G = mset input - mset optimal" and R: "mset R = mset optimal - mset input"
    by (simp_all add: G_def R_def flat_difference)
  have opt: "sum_list optimal = sum_list input" "\<forall>p \<in> set optimal. is_power_of_two p"
    using swap_minimizing_spec [of "sum_list input" m] small by (simp_all add: optimal_def sum_u64_small)
  have "sum_mset (mset G) = sum_mset (mset R)"
    unfolding G R using opt(1) by (intro sum_mset_diff_eq) (simp add: sum_mset_sum_list)
  then have eq: "sum_list G = sum_list R" by (simp add: sum_mset_sum_list)
  have subG: "mset G \<subseteq># mset input" and subR: "mset R \<subseteq># mset optimal" by (simp_all add: G R)
  have gs: "sum_list G < 2 ^ 64" using sum_list_mset_mono [OF subG, of id] small by simp
  have setG: "set G \<subseteq> set input" "set R \<subseteq> set optimal"
    using subG subR by (metis set_mset_mono set_mset_mset)+
  let ?b = "\<lparr>bs_give = G, bs_receive = R, bs_give_batch = [], bs_receive_batch = [], bs_swaps = [], bs_converges = True\<rparr>"
  have inv: "batch_inv n G R ?b" using eq gs setG pos opt(2) by (auto simp: batch_inv_def)
  have clear: "batch_clear ?b" by (simp add: batch_clear_def)
  note spec = batch_loop_inv [OF inv clear n]
  have run: "minimize_transfer_swap input m n =
      \<lparr>op_swaps = bs_swaps (batch_loop n ?b), op_fully_converges = bs_converges (batch_loop n ?b)\<rparr>"
    using eq gs by (simp add: minimize_transfer_swap_def Let_def sum_u64_small G_def R_def optimal_def)
  from G R spec show ?thesis by (intro exI [of _ G] exI [of _ R]) (auto simp: run batch_inv_def)
qed

lemma minimize_at_optimum:
  assumes small: "sum_list input < 2 ^ 64" and opt: "mset input = mset (swap_minimizing_leaves (sum_list input) m)"
  shows "op_swaps (minimize_transfer_swap input m n) = []"
proof -
  have s: "sum_u64 input = sum_list input" by (rule sum_u64_small [OF small])
  have "counter_to_flat_array (subtract_counters (count_occurrences input)
        (count_occurrences (swap_minimizing_leaves (sum_list input) m))) = []"
    "counter_to_flat_array (subtract_counters (count_occurrences (swap_minimizing_leaves (sum_list input) m))
        (count_occurrences input)) = []"
    using flat_difference [of input] flat_difference [of _ input] opt by (auto simp flip: mset_zero_iff)
  then show ?thesis by (simp add: minimize_transfer_swap_def Let_def s batch_loop.simps)
qed

subsection \<open>Maximising unilateral exits\<close>

lemma exit_batches_spec:
  assumes "exit_batches n ls batch swaps = (batch', swaps')" and "length batch < n"
    and "sum_list (batch @ ls) < 2 ^ 64" and "\<forall>sw \<in> set swaps. good_swap n sw"
  shows "(\<forall>sw \<in> set swaps'. good_swap n sw) \<and> length batch' < n \<and> sum_list batch' \<le> sum_list (batch @ ls)
    \<and> mset (plan_gives swaps') + mset batch' \<subseteq># mset (plan_gives swaps) + mset batch + mset ls"
  using assms
proof (induction n ls batch swaps rule: exit_batches.induct)
  case (2 n l ls batch swaps)
  let ?b = "batch @ [l]"
  let ?t = "greedy_leaves (sum_u64 ?b)"
  have small: "sum_list ?b < 2 ^ 64" using 2(5) by simp
  then have u: "sum_u64 ?b = sum_list ?b" by (rule sum_u64_small)
  have good: "good_swap n \<lparr>leaves_to_give = ?b, leaves_to_receive = ?t\<rparr>"
    unfolding u using 2(4) greedy_leaves_sum [OF small] greedy_leaves_powers [OF small] by (simp add: good_swap_def)
  show ?case
  proof (cases "length ?b \<ge> n \<or> length ?t \<ge> n")
    case True
    let ?s = "if ?t \<noteq> ?b then swaps @ [\<lparr>leaves_to_give = ?b, leaves_to_receive = ?t\<rparr>] else swaps"
    have run: "exit_batches n ls [] ?s = (batch', swaps')" using 2(3) True by (simp add: Let_def)
    have ok: "\<forall>sw \<in> set ?s. good_swap n sw" using 2(6) good by auto
    have "mset (plan_gives ?s) \<subseteq># mset (plan_gives swaps) + mset ?b" by simp
    then have "mset (plan_gives ?s) + mset ls \<subseteq># mset (plan_gives swaps) + mset batch + mset (l # ls)"
      by (simp add: ac_simps)
    with 2(1) [OF refl refl True run _ _ ok] 2(4,5) show ?thesis
      by (auto intro: subset_mset.order_trans)
  next
    case False
    have run: "exit_batches n ls ?b swaps = (batch', swaps')" using 2(3) False by (simp add: Let_def)
    from 2(2) [OF refl refl False run] 2(5,6) False show ?thesis by (auto simp: ac_simps)
  qed
qed simp

lemma maximize_spec:
  assumes small: "sum_list input < 2 ^ 64" and n: "0 < n"
  shows "(\<forall>sw \<in> set (op_swaps (maximize_unilateral_exit input n)). good_swap n sw)
    \<and> mset (plan_gives (op_swaps (maximize_unilateral_exit input n))) \<subseteq># mset input"
proof -
  obtain batch swaps where run: "exit_batches n (sort input) [] [] = (batch, swaps)" by fastforce
  have total: "sum_list (sort input) = sum_list input" by (simp flip: sum_mset_sum_list)
  have spec: "\<forall>sw \<in> set swaps. good_swap n sw" "length batch < n" "sum_list batch \<le> sum_list input"
      "mset (plan_gives swaps) + mset batch \<subseteq># mset input"
    using exit_batches_spec [OF run] small n total by simp_all
  have small': "sum_list batch < 2 ^ 64" using spec(3) small by simp
  have good: "batch \<noteq> [] \<Longrightarrow> good_swap n \<lparr>leaves_to_give = batch, leaves_to_receive = greedy_leaves (sum_u64 batch)\<rparr>"
    using spec(2) greedy_leaves_sum [OF small'] greedy_leaves_powers [OF small'] small'
    by (simp add: good_swap_def sum_u64_small)
  have "mset (plan_gives swaps) \<subseteq># mset input" using spec(4) by (rule subset_mset.order_trans [rotated]) simp
  with spec good show ?thesis by (auto simp: maximize_unilateral_exit_def Let_def run)
qed

subsection \<open>Properties\<close>

text \<open>The greedy decomposition of an amount is its binary expansion: distinct powers of two in
  ascending order that add up to the amount, and no other way of writing the amount as powers of
  two needs fewer leaves.\<close>

theorem greedy_leaves_optimal:
  assumes "v < 2 ^ 64"
  shows "sum_list (greedy_leaves v) = v \<and> sorted (greedy_leaves v) \<and> distinct (greedy_leaves v)
    \<and> (\<forall>p \<in> set (greedy_leaves v). is_power_of_two p)
    \<and> (\<forall>ps. (\<forall>p \<in> set ps. is_power_of_two p) \<longrightarrow> sum_list ps = v \<longrightarrow> length (greedy_leaves v) \<le> length ps)"
  using assms greedy_leaves_sum greedy_leaves_powers sorted_binary_powers popcount_sum
  by (auto simp: greedy_leaves_binary length_binary_powers)

lemma greedy_leaves_optimal_witness:
  "sum_list (greedy_leaves 21) = 21 \<and> distinct (greedy_leaves 21)"
  using greedy_leaves_optimal [of 21] by simp




lemma example_optimal: "swap_minimizing_leaves 3 (Suc 0) = [1, 2]"
proof -
  have "minimizing_loop 3 (Suc 0) 4 st = st" for st by (simp add: minimizing_loop.simps)
  then have "minimizing_loop 3 (Suc 0) 2 (2, [1]) = (0, [1, 2])" by (subst minimizing_loop.simps) simp
  then have "minimizing_loop 3 (Suc 0) 1 (3, []) = (0, [1, 2])" by (subst minimizing_loop.simps) simp
  then show ?thesis by (simp add: swap_minimizing_leaves_def greedy_leaves_binary)
qed

lemma example_plan:
  "calculate_optimization_swaps [3] (Suc 0) 64
     = \<lparr>op_swaps = [\<lparr>leaves_to_give = [3], leaves_to_receive = [1, 2]\<rparr>], op_fully_converges = True\<rparr>"
proof -
  have "counter_to_flat_array (subtract_counters (count_occurrences [3]) (count_occurrences [1, 2])) = [3]"
    "counter_to_flat_array (subtract_counters (count_occurrences [1, 2]) (count_occurrences [3])) = [1, 2]"
    by (simp_all add: count_occurrences_def subtract_counters_def counter_to_flat_array_def)
  then show ?thesis
    by (simp add: calculate_optimization_swaps_def minimize_transfer_swap_def Let_def sum_u64_small
        example_optimal [simplified] batch_loop.simps take_next_def flush_batch_def emit_swaps_def)
qed


lemma binary_powers_extend: "v < 2 ^ k \<Longrightarrow> binary_powers (k + j) v = binary_powers k v"
proof (induction j)
  case (Suc j)
  have "\<not> bit v (k + j)"
    using Suc.prems by (metis bit_take_bit_iff le_add1 not_less take_bit_nat_eq_self)
  with Suc show ?case by (simp add: binary_powers_Suc)
qed simp

lemma greedy_leaves_small:
  assumes "v < 2 ^ k" and "k \<le> 64"
  shows "greedy_leaves v = binary_powers k v"
proof -
  have "v < 2 ^ 64" using assms by (metis order_less_le_trans power_increasing one_le_numeral)
  then show ?thesis using binary_powers_extend [OF assms(1), of "64 - k"] assms(2) by (simp add: greedy_leaves_binary)
qed

lemma greedy_leaves_length:
  assumes "v < 2 ^ 63"
  shows "length (greedy_leaves v) < 64"
proof -
  have "length (binary_powers k v) \<le> k" for k
    unfolding binary_powers_def length_map by (rule order_trans [OF length_filter_le]) simp
  from this [of 63] greedy_leaves_small [OF assms] show ?thesis by simp
qed

lemma exit_batches_single:
  assumes "length (batch @ ls) \<le> n" and "64 \<le> n" and "sum_list (batch @ ls) < 2 ^ 63"
  shows "exit_batches n ls batch [] =
    (if ls = [] \<or> length (batch @ ls) < n then (batch @ ls, [])
     else ([], if greedy_leaves (sum_list (batch @ ls)) \<noteq> batch @ ls
               then [\<lparr>leaves_to_give = batch @ ls, leaves_to_receive = greedy_leaves (sum_list (batch @ ls))\<rparr>] else []))"
  using assms
proof (induction ls arbitrary: batch)
  case (Cons l ls)
  let ?b = "batch @ [l]"
  have small: "sum_list ?b < 2 ^ 63" using Cons.prems(3) by simp
  then have u: "sum_u64 ?b = sum_list ?b" by (intro sum_u64_small) simp
  have t: "length (greedy_leaves (sum_list ?b)) < n" using greedy_leaves_length [OF small] Cons.prems(2) by simp
  show ?case
  proof (cases "length ?b < n")
    case True
    then have "exit_batches n (l # ls) batch [] = exit_batches n ls ?b []" using t u by (simp add: Let_def)
    moreover have "length (?b @ ls) \<le> n" "sum_list (?b @ ls) < 2 ^ 63" using Cons.prems(1,3) by simp_all
    ultimately show ?thesis using Cons.IH [of ?b] Cons.prems(2) True by auto
  next
    case False
    then have "length ls = 0" "length ?b = n" using Cons.prems(1) unfolding length_append list.size by linarith+
    then have "ls = []" "length ?b = n" by simp_all
    with u show ?thesis by (simp add: Let_def)
  qed
qed simp

text \<open>With the default swap size the exit-maximising plan really converges: a wallet that fits one
  batch is turned by at most one swap into the binary expansion of its balance, the smallest
  possible number of leaves.\<close>

theorem exit_plan_single_batch:
  assumes "sum_list input < 2 ^ 63" and "64 \<le> n" and "length input \<le> n" and "input \<noteq> []"
  shows "op_swaps (maximize_unilateral_exit input n) =
    (if greedy_leaves (sum_list input) = sort input then []
     else [\<lparr>leaves_to_give = sort input, leaves_to_receive = greedy_leaves (sum_list input)\<rparr>])"
proof -
  have total: "sum_list (sort input) = sum_list input" by (simp flip: sum_mset_sum_list)
  have ne: "sort input \<noteq> []" using assms(4) by (metis set_empty set_sort)
  have u: "sum_u64 (sort input) = sum_list input" using assms(1) total by (subst sum_u64_small) simp_all
  show ?thesis
    using exit_batches_single [of "[]" "sort input" n] assms ne total u
    by (auto simp: maximize_unilateral_exit_def Let_def)
qed

lemma exit_plan_single_batch_witness:
  "op_swaps (maximize_unilateral_exit [3, 3] 64) = [\<lparr>leaves_to_give = [3, 3], leaves_to_receive = [2, 4]\<rparr>]"
proof -
  have "greedy_leaves 6 = [2, 4]" using greedy_leaves_small [of 6 3] by (simp add: binary_powers_def bit_Suc bit_0 upt_rec)
  then show ?thesis using exit_plan_single_batch [of "[3, 3]" 64] by simp
qed

text \<open>With a small swap size the convergence hint of that planner is too optimistic: for two leaves of
  value 3 and at most two leaves per swap, the plan claims to converge fully, but the leaves it
  leads to are not optimal and planning again yields further swaps.\<close>

theorem exit_plan_hint_too_optimistic:
  "op_fully_converges (maximize_unilateral_exit [3, 3] 2)
   \<and> op_swaps (maximize_unilateral_exit [3, 3] 2)
       = [\<lparr>leaves_to_give = [3], leaves_to_receive = [1, 2]\<rparr>, \<lparr>leaves_to_give = [3], leaves_to_receive = [1, 2]\<rparr>]
   \<and> op_swaps (maximize_unilateral_exit [1, 2, 1, 2] 2) \<noteq> []"
proof -
  have g: "greedy_leaves 3 = [1, 2]" "greedy_leaves 2 = [2]" "greedy_leaves (Suc 0) = [1]" "greedy_leaves 4 = [4]"
    using greedy_leaves_small [of 3 2] greedy_leaves_small [of 2 2] greedy_leaves_small [of 1 1] greedy_leaves_small [of 4 3]
    by (simp_all add: binary_powers_def bit_Suc bit_0 upt_rec)
  show ?thesis by (simp add: maximize_unilateral_exit_def Let_def sum_u64_small g)
qed

end
