(* ===== verification/Timelock.thy ===== *)
theory Timelock
  imports Tree_Model
begin

text \<open>
  Timelock arithmetic: \<^verbatim>\<open>crates/spark/src/core/constants.rs\<close>, on 16-bit block counts and 32-bit
  sequence numbers.

  Two functions of the \<^verbatim>\<open>bitcoin\<close> crate are parameters: \<open>height_locked\<close> for \<^verbatim>\<open>Sequence::is_height_locked\<close>
  and \<open>height\<close> for the consensus encoding of \<^verbatim>\<open>LockTime::Blocks(Height::from_height(b))\<close>. The
  properties that depend on the second assume what it documents: the number of blocks, zero
  extended (\<open>encodes_blocks\<close>). Nothing is assumed about the first.
\<close>

unbundle bit_operations_syntax

subsection \<open>Definitions\<close>

definition SPARK_SEQUENCE_FLAG :: "32 word" where "SPARK_SEQUENCE_FLAG = push_bit 30 1"
definition TIMELOCK_MASK :: "32 word" where "TIMELOCK_MASK = 0xFFFF"
definition INITIAL_TIME_LOCK :: "16 word" where "INITIAL_TIME_LOCK = 2000"
definition TIME_LOCK_INTERVAL :: "16 word" where "TIME_LOCK_INTERVAL = 100"
definition DIRECT_TIME_LOCK_OFFSET :: "16 word" where "DIRECT_TIME_LOCK_OFFSET = 50"
definition MAX_TIME_LOCK :: "16 word" where "MAX_TIME_LOCK = INITIAL_TIME_LOCK + DIRECT_TIME_LOCK_OFFSET"
definition DIRECT_HTLC_TIME_LOCK_OFFSET :: "16 word" where "DIRECT_HTLC_TIME_LOCK_OFFSET = 85"
definition HTLC_TIME_LOCK_OFFSET :: "16 word" where "HTLC_TIME_LOCK_OFFSET = 70"

definition checked_add_u16 :: "16 word \<Rightarrow> 16 word \<Rightarrow> 16 word option" where
  "checked_add_u16 a b = (if unat a + unat b < 2 ^ 16 then Some (a + b) else None)"

definition checked_sub_u16 :: "16 word \<Rightarrow> 16 word \<Rightarrow> 16 word option" where
  "checked_sub_u16 a b = (if b \<le> a then Some (a - b) else None)"

definition spark_sequence_flag :: "sequence \<Rightarrow> 32 word" where
  "spark_sequence_flag s = s AND SPARK_SEQUENCE_FLAG"

definition to_sequence :: "(16 word \<Rightarrow> 32 word) \<Rightarrow> 16 word \<Rightarrow> 32 word \<Rightarrow> sequence" where
  "to_sequence height blocks flag = height blocks OR flag"

definition initial_timelock_sequence :: "(16 word \<Rightarrow> 32 word) \<Rightarrow> sequence \<times> sequence" where
  "initial_timelock_sequence height =
     (to_sequence height INITIAL_TIME_LOCK 0,
      to_sequence height (INITIAL_TIME_LOCK + DIRECT_TIME_LOCK_OFFSET) 0)"

definition initial_root_timelock_sequence :: "(16 word \<Rightarrow> 32 word) \<Rightarrow> sequence \<times> sequence" where
  "initial_root_timelock_sequence height =
     (to_sequence height 0 0, to_sequence height DIRECT_TIME_LOCK_OFFSET 0)"

definition initial_zero_timelock_sequence :: "(16 word \<Rightarrow> 32 word) \<Rightarrow> sequence \<times> sequence" where
  "initial_zero_timelock_sequence height =
     (to_sequence height 0 0, to_sequence height DIRECT_TIME_LOCK_OFFSET 0)"

definition timelock_of :: "sequence \<Rightarrow> 16 word" where
  "timelock_of s = ucast (s AND TIMELOCK_MASK)"

definition checked_timelock :: "(sequence \<Rightarrow> bool) \<Rightarrow> sequence \<Rightarrow> 16 word option" where
  "checked_timelock height_locked s =
     (if \<not> height_locked s then None
      else let timelock = timelock_of s
           in if timelock \<le> MAX_TIME_LOCK then Some timelock else None)"

definition current_sequence :: "(16 word \<Rightarrow> 32 word) \<Rightarrow> sequence \<Rightarrow> (sequence \<times> sequence) option" where
  "current_sequence height s =
     (case checked_add_u16 (timelock_of s) DIRECT_TIME_LOCK_OFFSET of
        None \<Rightarrow> None
      | Some direct_timelock \<Rightarrow> Some (s, to_sequence height direct_timelock (spark_sequence_flag s)))"

definition enforce_timelock :: "(16 word \<Rightarrow> 32 word) \<Rightarrow> sequence \<Rightarrow> sequence" where
  "enforce_timelock height s =
     (let timelock = timelock_of s;
          enforced_timelock = timelock - (timelock mod TIME_LOCK_INTERVAL)
      in to_sequence height enforced_timelock (spark_sequence_flag s))"

definition check_next_timelock :: "(sequence \<Rightarrow> bool) \<Rightarrow> sequence \<Rightarrow> 16 word option" where
  "check_next_timelock height_locked s =
     (let timelock = (case checked_timelock height_locked s of None \<Rightarrow> timelock_of s | Some t \<Rightarrow> t)
      in checked_sub_u16 timelock TIME_LOCK_INTERVAL)"

definition next_sequence ::
  "(16 word \<Rightarrow> 32 word) \<Rightarrow> (sequence \<Rightarrow> bool) \<Rightarrow> sequence \<Rightarrow> (sequence \<times> sequence) option" where
  "next_sequence height height_locked s =
     (case check_next_timelock height_locked s of
        None \<Rightarrow> None
      | Some next_timelock \<Rightarrow>
          Some (to_sequence height next_timelock (spark_sequence_flag s),
                to_sequence height (next_timelock + DIRECT_TIME_LOCK_OFFSET) (spark_sequence_flag s)))"

definition next_lightning_htlc_sequence ::
  "(16 word \<Rightarrow> 32 word) \<Rightarrow> (sequence \<Rightarrow> bool) \<Rightarrow> sequence \<Rightarrow> (sequence \<times> sequence) option" where
  "next_lightning_htlc_sequence height height_locked s =
     (case check_next_timelock height_locked s of
        None \<Rightarrow> None
      | Some next_timelock \<Rightarrow>
          Some (to_sequence height (next_timelock + HTLC_TIME_LOCK_OFFSET) (spark_sequence_flag s),
                to_sequence height (next_timelock + DIRECT_HTLC_TIME_LOCK_OFFSET) (spark_sequence_flag s)))"

text \<open>The documented encoding of a block-based relative lock.\<close>

definition encodes_blocks :: "(16 word \<Rightarrow> 32 word) \<Rightarrow> bool" where
  "encodes_blocks height = (\<forall>b. height b = ucast b)"

subsection \<open>Bits\<close>

lemmas timelock_consts = INITIAL_TIME_LOCK_def TIME_LOCK_INTERVAL_def DIRECT_TIME_LOCK_OFFSET_def
  MAX_TIME_LOCK_def DIRECT_HTLC_TIME_LOCK_OFFSET_def HTLC_TIME_LOCK_OFFSET_def

lemma TIMELOCK_MASK_mask: "TIMELOCK_MASK = mask 16"
  by (simp add: TIMELOCK_MASK_def mask_eq_exp_minus_1)

lemma timelock_of_ucast: "timelock_of s = ucast s"
  by (rule bit_word_eqI) (simp add: timelock_of_def TIMELOCK_MASK_mask bit_simps)

lemma as_u16_timelock: "as_u16 s = timelock_of s"
  by (simp add: as_u16_def timelock_of_ucast)

lemma bit_flag: "bit (spark_sequence_flag s) n \<longleftrightarrow> n = 30 \<and> bit s 30"
  unfolding spark_sequence_flag_def SPARK_SEQUENCE_FLAG_def bit_and_iff bit_push_bit_iff bit_1_iff
  by (auto simp: exp_eq_0_imp_not_bit dest: bit_imp_le_length)

lemma timelock_of_to_sequence:
  assumes "encodes_blocks h"
  shows "timelock_of (to_sequence h b (spark_sequence_flag s)) = b"
  using assms by (intro bit_word_eqI) (auto simp: timelock_of_ucast to_sequence_def encodes_blocks_def bit_simps bit_flag)

lemma flag_of_to_sequence:
  assumes "encodes_blocks h"
  shows "spark_sequence_flag (to_sequence h b (spark_sequence_flag s)) = spark_sequence_flag s"
proof (rule bit_word_eqI)
  fix n assume "n < LENGTH(32)"
  have "\<not> bit b 30" using bit_imp_le_length [of b 30] by auto
  then show "bit (spark_sequence_flag (to_sequence h b (spark_sequence_flag s))) n = bit (spark_sequence_flag s) n"
    using assms by (auto simp: bit_flag to_sequence_def encodes_blocks_def bit_simps)
qed

lemma check_next_timelock_eq:
  "check_next_timelock l s = (if 100 \<le> timelock_of s then Some (timelock_of s - 100) else None)"
  by (simp add: check_next_timelock_def checked_timelock_def Let_def checked_sub_u16_def TIME_LOCK_INTERVAL_def)

lemma unat_plus_small: "unat (a :: 16 word) + unat b < 2 ^ 16 \<Longrightarrow> unat (a + b) = unat a + unat b"
  by (simp add: unat_word_ariths)

lemma unat_interval: "(100 :: 16 word) \<le> t \<Longrightarrow> unat (t - 100) = unat t - 100"
  by (simp add: unat_sub)

text \<open>What a step of the protocol does to an arbitrary 32-bit sequence, with no wrap-around.\<close>

lemma next_sequence_spec:
  assumes "encodes_blocks h"
  shows "case next_sequence h l s of
      None \<Rightarrow> unat (timelock_of s) < 100
    | Some (cpfp, direct) \<Rightarrow> unat (timelock_of s) = unat (timelock_of cpfp) + 100
        \<and> unat (timelock_of direct) = unat (timelock_of cpfp) + 50
        \<and> spark_sequence_flag cpfp = spark_sequence_flag s \<and> spark_sequence_flag direct = spark_sequence_flag s"
proof (cases "100 \<le> timelock_of s")
  case True
  then have "unat (timelock_of s - 100) = unat (timelock_of s) - 100" and ge: "100 \<le> unat (timelock_of s)"
    using unat_interval by (simp_all add: word_le_nat_alt)
  moreover have "unat (timelock_of s) < 2 ^ 16" using unsigned_less [of "timelock_of s"] by simp
  ultimately show ?thesis
    using True unat_plus_small [of "timelock_of s - 100" 50]
    by (simp add: next_sequence_def check_next_timelock_eq timelock_of_to_sequence [OF assms]
        flag_of_to_sequence [OF assms] DIRECT_TIME_LOCK_OFFSET_def)
next
  case False
  then show ?thesis by (simp add: next_sequence_def check_next_timelock_eq word_le_nat_alt)
qed

fun step_sequence ::
  "(16 word \<Rightarrow> 32 word) \<Rightarrow> (sequence \<Rightarrow> bool) \<Rightarrow> nat \<Rightarrow> sequence \<Rightarrow> sequence option" where
  "step_sequence h l 0 s = Some s"
| "step_sequence h l (Suc n) s =
     (case next_sequence h l s of None \<Rightarrow> None | Some (cpfp, _) \<Rightarrow> step_sequence h l n cpfp)"

subsection \<open>Properties\<close>

text \<open>For every sequence number, trusted or not, the next pair of timelocks is the current one less
  100 blocks, the direct one 50 blocks above it, with the flag bit kept and no wrap-around; there
  is none exactly when fewer than 100 blocks are left.\<close>

theorem next_sequence_decrements:
  assumes "encodes_blocks height"
  shows "case next_sequence height locked s of
      None \<Rightarrow> unat (timelock_of s) < 100
    | Some (cpfp, direct) \<Rightarrow> unat (timelock_of s) = unat (timelock_of cpfp) + 100
        \<and> unat (timelock_of direct) = unat (timelock_of cpfp) + 50
        \<and> spark_sequence_flag cpfp = spark_sequence_flag s \<and> spark_sequence_flag direct = spark_sequence_flag s"
  using assms by (rule next_sequence_spec)

lemma next_sequence_decrements_witness:
  "case next_sequence ucast (\<lambda>_. True) 0x400007D0 of
      None \<Rightarrow> False
    | Some (cpfp, direct) \<Rightarrow> unat (timelock_of cpfp) = 1900 \<and> unat (timelock_of direct) = 1950"
  using next_sequence_decrements [of ucast "0x400007D0" "\<lambda>_. True"]
  by (simp add: encodes_blocks_def timelock_of_ucast split: option.splits prod.splits)

text \<open>\<^bold>\<open>C40\<close>. A leaf can be moved exactly as often as its timelock allows: starting from any sequence number,
  \<open>n\<close> successive steps succeed if and only if \<open>n\<close> is at most the timelock divided by 100, and then
  exactly \<open>100 n\<close> blocks are gone. From the initial 2000 blocks that is twenty transfers.\<close>

theorem steps_until_exhausted:
  assumes "encodes_blocks height"
  shows "(step_sequence height locked n s \<noteq> None) = (100 * n \<le> unat (timelock_of s))
    \<and> (case step_sequence height locked n s of None \<Rightarrow> True
       | Some s' \<Rightarrow> unat (timelock_of s') = unat (timelock_of s) - 100 * n)"
proof (induction n arbitrary: s)
  case (Suc n)
  note spec = next_sequence_spec [OF assms, of s locked]
  show ?case
  proof (cases "next_sequence height locked s")
    case None
    with spec show ?thesis by simp
  next
    case (Some p)
    obtain cpfp direct where p: "p = (cpfp, direct)" by (cases p)
    from Suc [of cpfp] spec Some p show ?thesis by (auto split: option.splits)
  qed
qed simp

lemma steps_until_exhausted_witness:
  "step_sequence ucast (\<lambda>_. True) 20 (fst (initial_timelock_sequence ucast)) \<noteq> None
   \<and> step_sequence ucast (\<lambda>_. True) 21 (fst (initial_timelock_sequence ucast)) = None"
proof -
  have t: "unat (timelock_of (fst (initial_timelock_sequence ucast))) = 2000"
    by (simp add: initial_timelock_sequence_def to_sequence_def INITIAL_TIME_LOCK_def timelock_of_ucast)
  show ?thesis
    using steps_until_exhausted [of ucast "\<lambda>_. True" 20 "fst (initial_timelock_sequence ucast)"]
      steps_until_exhausted [of ucast "\<lambda>_. True" 21 "fst (initial_timelock_sequence ucast)"]
    by (simp add: encodes_blocks_def t)
qed

text \<open>The renewal test leaves room for one more transfer: a leaf whose refund transaction does not
  need renewal always has a next sequence number, for the plain and for the Lightning refund,
  with at least one block left on each lock.\<close>

theorem no_renewal_needed_has_next:
  assumes "encodes_blocks height" and "needs_refund_tx_renewed leaf = Inr False"
    and "refund_sequence leaf = Inr s"
  shows "\<exists>cpfp direct hcpfp hdirect. next_sequence height locked s = Some (cpfp, direct)
    \<and> next_lightning_htlc_sequence height locked s = Some (hcpfp, hdirect)
    \<and> 0 < unat (timelock_of cpfp) \<and> unat (timelock_of hcpfp) = unat (timelock_of cpfp) + 70
    \<and> unat (timelock_of hdirect) = unat (timelock_of cpfp) + 85"
proof -
  from assms(2,3) have gt: "100 < timelock_of s"
    by (simp add: needs_refund_tx_renewed_def as_u16_timelock not_le)
  define t where "t = timelock_of s - 100"
  have t: "unat t = unat (timelock_of s) - 100" "100 < unat (timelock_of s)" "unat (timelock_of s) < 2 ^ 16"
    using gt unat_interval [of "timelock_of s"] unsigned_less [of "timelock_of s"]
    by (simp_all add: t_def word_less_nat_alt word_le_nat_alt)
  have "check_next_timelock locked s = Some t"
    using gt by (simp add: check_next_timelock_eq t_def)
  then show ?thesis
    using t unat_plus_small [of t 70] unat_plus_small [of t 85]
    by (simp add: next_sequence_def next_lightning_htlc_sequence_def timelock_of_to_sequence [OF assms(1)]
        HTLC_TIME_LOCK_OFFSET_def DIRECT_HTLC_TIME_LOCK_OFFSET_def)
qed

lemma no_renewal_needed_has_next_witness:
  "\<exists>cpfp direct. next_sequence ucast (\<lambda>_. True) 0x400007D0 = Some (cpfp, direct) \<and> 0 < unat (timelock_of cpfp)"
proof -
  have s: "refund_sequence (example_leaf ''a'' 4 None) = Inr 0x400007D0"
    by (simp add: refund_sequence_def first_sequence_def example_leaf_def example_tx_def)
  then have "needs_refund_tx_renewed (example_leaf ''a'' 4 None) = Inr False"
    by (simp add: needs_refund_tx_renewed_def as_u16_def)
  from no_renewal_needed_has_next [OF _ this s, of ucast "\<lambda>_. True"] show ?thesis
    by (auto simp: encodes_blocks_def)
qed

text \<open>Claims align timelocks: the enforced timelock is the largest multiple of 100 not above the
  current one, the flag bit is kept, and enforcing twice changes nothing.\<close>

theorem enforce_timelock_aligns:
  assumes "encodes_blocks height"
  shows "unat (timelock_of (enforce_timelock height s)) = 100 * (unat (timelock_of s) div 100)
    \<and> spark_sequence_flag (enforce_timelock height s) = spark_sequence_flag s
    \<and> enforce_timelock height (enforce_timelock height s) = enforce_timelock height s"
proof -
  have al: "unat (t - t mod 100) = 100 * (unat t div 100)" for t :: "16 word"
  proof -
    have m: "unat (t mod 100) = unat t mod 100" by (simp add: unat_mod)
    then have "t mod 100 \<le> t" by (simp add: word_le_nat_alt)
    then have "unat (t - t mod 100) = unat t - unat (t mod 100)" by (rule unat_sub)
    with m show ?thesis by (simp only: minus_mod_eq_mult_div)
  qed
  have tl: "timelock_of (enforce_timelock height s) = timelock_of s - timelock_of s mod 100" for s
    by (simp add: enforce_timelock_def Let_def timelock_of_to_sequence [OF assms] TIME_LOCK_INTERVAL_def)
  have fl: "spark_sequence_flag (enforce_timelock height s) = spark_sequence_flag s" for s
    by (simp add: enforce_timelock_def Let_def flag_of_to_sequence [OF assms])
  have "unat ((timelock_of s - timelock_of s mod 100) mod 100) = 0" by (simp add: unat_mod al)
  then have "(timelock_of s - timelock_of s mod 100) mod 100 = 0" by (simp add: unat_eq_zero)
  then have "enforce_timelock height (enforce_timelock height s)
      = to_sequence height (timelock_of s - timelock_of s mod 100) (spark_sequence_flag s)"
    by (subst enforce_timelock_def) (simp add: Let_def tl fl TIME_LOCK_INTERVAL_def)
  then show ?thesis using tl fl al by (simp add: enforce_timelock_def Let_def TIME_LOCK_INTERVAL_def)
qed

lemma enforce_timelock_aligns_witness:
  "unat (timelock_of (enforce_timelock ucast 1950)) = 1900"
  using enforce_timelock_aligns [of ucast 1950] by (simp add: encodes_blocks_def timelock_of_ucast)

end
