(* ===== verification/Paging.thy ===== *)
theory Paging
  imports Spark_Prelude
begin

text \<open>
  Paged queries: \<^verbatim>\<open>crates/spark/src/utils/paging.rs\<close>.

  Offsets and limits are 64-bit words. The query is a parameter: the answer of a remote service to
  the \<open>n\<close>-th call with a filter. The loop ends for every such service, because an offset that does
  not grow stops it and offsets are bounded.
\<close>

datatype order = Ascending | Descending

record paging_filter =
  pf_offset :: "64 word"
  pf_limit :: "64 word"
  pf_order :: order

definition paging_filter_new :: "64 word option \<Rightarrow> 64 word option \<Rightarrow> order option \<Rightarrow> paging_filter" where
  "paging_filter_new offset limit ord =
     \<lparr>pf_offset = (case offset of None \<Rightarrow> 0 | Some x \<Rightarrow> x),
      pf_limit = (case limit of None \<Rightarrow> 100 | Some x \<Rightarrow> x),
      pf_order = (case ord of None \<Rightarrow> Descending | Some x \<Rightarrow> x)\<rparr>"

definition paging_filter_default :: paging_filter where
  "paging_filter_default = \<lparr>pf_offset = 0, pf_limit = 100, pf_order = Descending\<rparr>"

definition paging_filter_next :: "paging_filter \<Rightarrow> paging_filter" where
  "paging_filter_next f = f\<lparr>pf_offset := pf_offset f + pf_limit f\<rparr>"

definition next_from_offset :: "paging_filter \<Rightarrow> int \<Rightarrow> paging_filter option" where
  "next_from_offset f offset = (if offset \<le> 0 then None else Some (paging_filter_next f))"

record 'a paging_result =
  pr_items :: "'a list"
  pr_next :: "paging_filter option"

definition paging_complete :: "'a list \<Rightarrow> 'a paging_result" where
  "paging_complete items = \<lparr>pr_items = items, pr_next = None\<rparr>"

definition paging_map :: "('a \<Rightarrow> 'b) \<Rightarrow> 'a paging_result \<Rightarrow> 'b paging_result" where
  "paging_map f r = \<lparr>pr_items = map f (pr_items r), pr_next = pr_next r\<rparr>"

function pager_loop ::
  "(nat \<Rightarrow> paging_filter \<Rightarrow> ('e, 'a paging_result) rust_result) \<Rightarrow> nat \<Rightarrow> 'a list \<Rightarrow> paging_filter
     \<Rightarrow> ('e, 'a list) rust_result" where
  "pager_loop query n res f =
     (case query n f of
        Inl e \<Rightarrow> Inl e
      | Inr resp \<Rightarrow>
          if pr_items resp = [] then Inr res
          else (case pr_next resp of
                  None \<Rightarrow> Inr (res @ pr_items resp)
                | Some nxt \<Rightarrow>
                    if pf_offset nxt \<le> pf_offset f then Inr (res @ pr_items resp)
                    else pager_loop query (Suc n) (res @ pr_items resp) nxt))"
  by pat_completeness auto
termination
proof (relation "measure (\<lambda>(_, _, _, f). 2 ^ 64 - unat (pf_offset f))", goal_cases)
  case (2 query n res f resp nxt)
  have "unat (pf_offset nxt) < 2 ^ 64" using unsigned_less [of "pf_offset nxt"] by simp
  with 2 show ?case by (simp add: not_le word_less_nat_alt diff_less_mono2)
qed simp

declare pager_loop.simps [simp del]

definition pager ::
  "(nat \<Rightarrow> paging_filter \<Rightarrow> ('e, 'a paging_result) rust_result) \<Rightarrow> paging_filter
     \<Rightarrow> ('e, 'a paging_result) rust_result" where
  "pager query f = qbind (pager_loop query 0 [] f) (\<lambda>res. Inr (paging_complete res))"

subsection \<open>A service that pages a list\<close>

definition list_server :: "'a list \<Rightarrow> nat \<Rightarrow> paging_filter \<Rightarrow> ('e, 'a paging_result) rust_result" where
  "list_server xs n f =
     Inr \<lparr>pr_items = take (unat (pf_limit f)) (drop (unat (pf_offset f)) xs),
          pr_next = (if unat (pf_offset f) + unat (pf_limit f) < length xs
                     then Some (paging_filter_next f) else None)\<rparr>"

lemma pager_loop_list_server:
  assumes "0 < pf_limit f" and "length xs < 2 ^ 64"
  shows "pager_loop (list_server xs) n res f = (Inr (res @ drop (unat (pf_offset f)) xs) :: ('e, 'a list) rust_result)"
  using assms(1)
proof (induction "length xs - unat (pf_offset f)" arbitrary: n res f rule: less_induct)
  case less
  let ?o = "unat (pf_offset f)" and ?l = "unat (pf_limit f)"
  have l: "0 < ?l" using less.prems by (simp add: word_less_nat_alt)
  show ?case
  proof (cases "?o + ?l < length xs")
    case True
    define g where "g = paging_filter_next f"
    have o: "unat (pf_offset g) = ?o + ?l" and lim: "pf_limit g = pf_limit f"
      using True assms(2) by (simp_all add: g_def paging_filter_next_def unat_word_ariths)
    have "pager_loop (list_server xs) (Suc n) (res @ take ?l (drop ?o xs)) g
        = (Inr ((res @ take ?l (drop ?o xs)) @ drop (?o + ?l) xs) :: ('e, 'a list) rust_result)"
      using less.hyps [of g] True l less.prems by (simp add: o lim)
    moreover have "take ?l (drop ?o xs) @ drop (?o + ?l) xs = drop ?o xs"
      by (metis add.commute append_take_drop_id drop_drop)
    moreover have "\<not> pf_offset g \<le> pf_offset f" using o l by (simp add: word_le_nat_alt)
    moreover have "take ?l (drop ?o xs) \<noteq> []" using True l by simp
    ultimately show ?thesis
      using True by (subst pager_loop.simps) (simp add: list_server_def flip: g_def)
  next
    case False
    then have "take ?l (drop ?o xs) = drop ?o xs" by simp
    with False show ?thesis by (subst pager_loop.simps) (auto simp: list_server_def)
  qed
qed

subsection \<open>Properties\<close>

text \<open>Paging loses and repeats nothing: against a service that serves a list page by page, the
  collected result is everything from the starting offset on, in order, whatever the page size.\<close>

theorem pager_collects_all:
  assumes "0 < pf_limit f" and "length xs < 2 ^ 64"
  shows "pager (list_server xs) f = Inr (paging_complete (drop (unat (pf_offset f)) xs))"
  unfolding pager_def pager_loop_list_server [OF assms] by simp

lemma pager_collects_all_witness:
  "pager (list_server [1, 2, 3, 4, 5 :: nat]) \<lparr>pf_offset = 1, pf_limit = 2, pf_order = Ascending\<rparr>
     = (Inr (paging_complete [2, 3, 4, 5]) :: (unit, nat paging_result) rust_result)"
  using pager_collects_all [of "\<lparr>pf_offset = 1, pf_limit = 2, pf_order = Ascending\<rparr>" "[1, 2, 3, 4, 5 :: nat]"]
  by simp

end
