(* ===== verification/Byte_Padding.thy ===== *)
theory Byte_Padding
  imports Spark_Prelude
begin

text \<open>
  Unpadded byte encodings of 128-bit amounts: \<^verbatim>\<open>crates/spark/src/utils/byte_padding.rs\<close>. Bytes are
  natural numbers below 256; \<open>to_le_bytes\<close> and \<open>from_le_bytes\<close> are the fixed-width encodings of the
  standard library.
\<close>

fun le_bytes :: "nat \<Rightarrow> nat \<Rightarrow> nat list" where
  "le_bytes 0 n = []"
| "le_bytes (Suc k) n = (n mod 256) # le_bytes k (n div 256)"

fun le_value :: "nat list \<Rightarrow> nat" where
  "le_value [] = 0"
| "le_value (b # bs) = b + 256 * le_value bs"

definition to_unpadded_be_bytes :: "u128 \<Rightarrow> nat list" where
  "to_unpadded_be_bytes n =
     (if n = 0 then [0]
      else let bytes = rev (le_bytes 16 n);
               first_non_zero = (case position (\<lambda>b. b \<noteq> 0) bytes of None \<Rightarrow> length bytes | Some i \<Rightarrow> i)
           in drop first_non_zero bytes)"

text \<open>\<open>rposition\<close> counts from the front the last position that satisfies the predicate.\<close>

definition rposition :: "('a \<Rightarrow> bool) \<Rightarrow> 'a list \<Rightarrow> nat option" where
  "rposition P xs = map_option (\<lambda>i. length xs - 1 - i) (position P (rev xs))"

definition to_unpadded_le_bytes :: "u128 \<Rightarrow> nat list" where
  "to_unpadded_le_bytes n =
     (if n = 0 then [0]
      else let bytes = le_bytes 16 n;
               last_non_zero = (case rposition (\<lambda>b. b \<noteq> 0) bytes of None \<Rightarrow> 0 | Some i \<Rightarrow> i + 1)
           in take last_non_zero bytes)"

definition from_unpadded_be_bytes :: "nat list \<Rightarrow> (string, u128) rust_result" where
  "from_unpadded_be_bytes bytes =
     (if length bytes > 16 then Inl ''Input bytes exceed u128 size''
      else let padded = replicate (16 - length bytes) 0 @ bytes in Inr (le_value (rev padded)))"

definition from_unpadded_le_bytes :: "nat list \<Rightarrow> (string, u128) rust_result" where
  "from_unpadded_le_bytes bytes =
     (if length bytes > 16 then Inl ''Input bytes exceed u128 size''
      else let padded = bytes @ replicate (16 - length bytes) 0 in Inr (le_value padded))"

subsection \<open>Facts\<close>

lemma le_value_append: "le_value (xs @ ys) = le_value xs + 256 ^ length xs * le_value ys"
  by (induction xs) (simp_all add: algebra_simps)

lemma le_value_zeros [simp]: "le_value (replicate k 0) = 0"
  by (induction k) simp_all

lemma le_value_le_bytes: "le_value (le_bytes k n) = n mod 256 ^ k"
proof (induction k arbitrary: n)
  case (Suc k)
  then show ?case by (simp add: mod_mult2_eq add.commute)
qed simp

lemma length_le_bytes [simp]: "length (le_bytes k n) = k"
  by (induction k arbitrary: n) simp_all

lemma position_takeWhile:
  "(case position P xs of None \<Rightarrow> length xs | Some i \<Rightarrow> i) = length (takeWhile (\<lambda>x. \<not> P x) xs)"
  by (induction xs) (auto split: option.splits)

lemma drop_takeWhile: "drop (length (takeWhile P xs)) xs = dropWhile P xs"
  by (induction xs) simp_all

lemma to_be_dropWhile: "n \<noteq> 0 \<Longrightarrow> to_unpadded_be_bytes n = dropWhile (\<lambda>b. b = 0) (rev (le_bytes 16 n))"
  unfolding to_unpadded_be_bytes_def Let_def position_takeWhile drop_takeWhile by simp

lemma le_value_zero_list: "\<forall>b \<in> set bs. b = 0 \<Longrightarrow> le_value bs = 0"
  by (induction bs) simp_all

text \<open>Leading zeros do not count.\<close>

lemma le_value_rev_dropWhile: "le_value (rev (dropWhile (\<lambda>b. b = 0) bs)) = le_value (rev bs)"
proof -
  have "le_value (rev bs) = le_value (rev (dropWhile (\<lambda>b. b = 0) bs) @ rev (takeWhile (\<lambda>b. b = 0) bs))"
    by (metis rev_append takeWhile_dropWhile_id)
  moreover have "le_value (rev (takeWhile (\<lambda>b. b = 0) bs)) = 0"
    by (rule le_value_zero_list) (auto dest: set_takeWhileD)
  ultimately show ?thesis by (simp add: le_value_append)
qed

lemma be_roundtrip:
  assumes "n < 2 ^ 128"
  shows "from_unpadded_be_bytes (to_unpadded_be_bytes n) = Inr n"
proof (cases "n = 0")
  case False
  have "length (to_unpadded_be_bytes n) \<le> 16"
    unfolding to_be_dropWhile [OF False] using length_dropWhile_le [of "\<lambda>b. b = 0" "rev (le_bytes 16 n)"] by simp
  moreover have "le_value (rev (to_unpadded_be_bytes n)) = n"
    unfolding to_be_dropWhile [OF False] le_value_rev_dropWhile using assms by (simp add: le_value_le_bytes)
  ultimately show ?thesis by (simp add: from_unpadded_be_bytes_def le_value_append)
qed (simp add: from_unpadded_be_bytes_def to_unpadded_be_bytes_def le_value_append)

lemma rposition_take:
  "take (case rposition P xs of None \<Rightarrow> 0 | Some i \<Rightarrow> i + 1) xs = rev (dropWhile (\<lambda>x. \<not> P x) (rev xs))"
proof (cases "position P (rev xs)")
  case None
  then have "\<forall>x \<in> set (rev xs). \<not> P x" unfolding position_None .
  with None show ?thesis by (simp add: rposition_def)
next
  case (Some i)
  then have i: "i < length xs" using position_Some by fastforce
  have "dropWhile (\<lambda>x. \<not> P x) (rev xs) = drop i (rev xs)"
    using position_takeWhile [of "rev xs" P] Some by (simp flip: drop_takeWhile)
  then show ?thesis using Some i by (simp add: rposition_def rev_drop Suc_diff_Suc)
qed

lemma to_le_rev_be: "to_unpadded_le_bytes n = rev (to_unpadded_be_bytes n)"
proof (cases "n = 0")
  case False
  then show ?thesis
    unfolding to_be_dropWhile [OF False] by (simp add: to_unpadded_le_bytes_def Let_def rposition_take)
qed (simp add: to_unpadded_le_bytes_def to_unpadded_be_bytes_def)

lemma from_le_rev_be: "from_unpadded_le_bytes bs = from_unpadded_be_bytes (rev bs)"
  by (simp add: from_unpadded_le_bytes_def from_unpadded_be_bytes_def)

subsection \<open>Properties\<close>

text \<open>Every 128-bit amount survives its unpadded encoding in both byte orders, the encoding is
  minimal (no leading zero byte except for zero itself) and at most 16 bytes long, and the two
  byte orders mirror each other.\<close>

theorem unpadded_bytes_roundtrip:
  assumes "n < 2 ^ 128"
  shows "from_unpadded_be_bytes (to_unpadded_be_bytes n) = Inr n
    \<and> from_unpadded_le_bytes (to_unpadded_le_bytes n) = Inr n
    \<and> to_unpadded_le_bytes n = rev (to_unpadded_be_bytes n)
    \<and> (hd (to_unpadded_be_bytes n) = 0 \<longleftrightarrow> n = 0)
    \<and> length (to_unpadded_be_bytes n) \<le> 16"
proof -
  have rt: "from_unpadded_be_bytes (to_unpadded_be_bytes n) = Inr n" by (rule be_roundtrip [OF assms])
  then have len: "length (to_unpadded_be_bytes n) \<le> 16" by (auto simp: from_unpadded_be_bytes_def split: if_splits)
  have "hd (to_unpadded_be_bytes n) \<noteq> 0" if "n \<noteq> 0"
  proof -
    have "to_unpadded_be_bytes n \<noteq> []" using rt that by (auto simp: from_unpadded_be_bytes_def)
    then show ?thesis unfolding to_be_dropWhile [OF that] by (rule hd_dropWhile)
  qed
  then have "hd (to_unpadded_be_bytes n) = 0 \<longleftrightarrow> n = 0" by (auto simp: to_unpadded_be_bytes_def)
  with rt len show ?thesis by (simp add: to_le_rev_be from_le_rev_be)
qed

lemma unpadded_bytes_roundtrip_witness:
  "from_unpadded_be_bytes (to_unpadded_be_bytes 16909060) = Inr 16909060"
  using unpadded_bytes_roundtrip [of 16909060] by simp

end
