(* ===== verification/Exit_Plan.thy ===== *)
theory Exit_Plan
  imports Exit_Chain "HOL-Library.Product_Lexorder"
begin

text \<open>
  Planning a unilateral exit: \<^verbatim>\<open>crates/spark/src/services/unilateral_exit.rs\<close>, with the errors of
  \<^verbatim>\<open>crates/spark/src/services/error.rs\<close> and the anchor output of \<^verbatim>\<open>utils/transactions.rs\<close>.

  What the bitcoin crate computes from its structures (ids, weights, dust limits, an unsigned
  PSBT) and the sizes it names are the fields of \<open>bitcoin_api\<close>, a parameter of the model. Amounts
  and weights are 64-bit, with the saturation or wrap-around of each operation written out; the
  crate adds weights with the plain \<open>+\<close> of \<open>u64\<close>.
\<close>

subsection \<open>Errors\<close>

datatype (plugins only: size) service_error =
    SE_DepositAddressUsed | SE_InvalidDepositAddress | SE_InvalidDepositAddressNetwork | SE_InvalidIdentifier
  | SE_MissingDepositAddress | SE_MissingUtxo | SE_MissingDepositAddressProof | SE_MissingTreeSignatures
  | SE_MissingLeafId | SE_InvalidDepositAddressProof | SE_DepositAddressKeyMismatch
  | SE_DepositAddressUserKeyMismatch | SE_InvalidNodeId string | SE_InvalidOutputIndex | SE_InvalidPublicKey
  | SE_InvalidSignatureShare | SE_InvalidTransaction | SE_InvalidNetwork int | SE_InvalidVerifyingKey
  | SE_NotADepositOutput | SE_StaticDepositQuoteMismatch string | SE_InvoiceDecodingError string
  | SE_SSPswapError string | SE_PreimageShareStoreFailed string | SE_MaxRetriesExceeded | SE_NoLeavesToClaim
  | SE_SignatureVerificationFailed string | SE_InvalidAmount | SE_InsufficientFunds | SE_InvalidInput string
  | SE_InvalidPaymentHash string | SE_InvalidPreimage string | SE_NeededTooManyOutputs | SE_BitcoinError string
  | SE_FrostError string | SE_BitcoinIOError string | SE_RequestError string | SE_ServiceProviderError string
  | SE_ValidationError string | SE_InsufficientCpfpBudget u64 | SE_SignerError string
  | SE_ServiceConnectionError string | SE_TransferObserverError string | SE_Generic string

subsection \<open>Saturating arithmetic\<close>

definition u64_max :: u64 where
  "u64_max = 2 ^ 64 - 1"

definition sat_add :: "u64 \<Rightarrow> u64 \<Rightarrow> u64" where
  "sat_add a b = min u64_max (a + b)"

definition sat_mul :: "u64 \<Rightarrow> u64 \<Rightarrow> u64" where
  "sat_mul a b = min u64_max (a * b)"

definition sat_sum :: "u64 list \<Rightarrow> u64" where
  "sat_sum xs = fold (\<lambda>x acc. sat_add acc x) xs 0"

definition div_ceil :: "nat \<Rightarrow> nat \<Rightarrow> nat" where
  "div_ceil a b = a div b + (if a mod b > 0 then 1 else 0)"

subsection \<open>The bitcoin crate\<close>

record psbt_input =
  psi_witness_utxo :: "tx_out option"

record psbt =
  ps_unsigned_tx :: transaction
  ps_inputs :: "psbt_input list"

record bitcoin_api =
  compute_txid :: "transaction \<Rightarrow> txid"
  tx_weight :: "transaction \<Rightarrow> u64"
  tx_in_segwit_weight :: "tx_in \<Rightarrow> u64"
  tx_out_weight :: "tx_out \<Rightarrow> u64"
  minimal_non_dust :: "script \<Rightarrow> u64"
  from_unsigned_tx :: "transaction \<Rightarrow> (string, psbt) rust_result"
  to_relative_blocks :: "sequence \<Rightarrow> nat option"
  schnorr_signature_size :: nat
  max_signature_size :: nat
  public_key_size :: nat

definition tx_in_default :: tx_in where
  "tx_in_default = \<lparr>txi_previous_output = (replicate 32 (CHR 0x00), 2 ^ 32 - 1), txi_script_sig = [],
     txi_sequence = 0xFFFFFFFF, txi_witness = []\<rparr>"

definition enable_rbf_no_locktime :: sequence where
  "enable_rbf_no_locktime = 0xFFFFFFFD"

definition is_ephemeral_anchor_output :: "tx_out \<Rightarrow> bool" where
  "is_ephemeral_anchor_output out =
     (txo_value out = 0 \<and> txo_script_pubkey out = [CHR 0x51, CHR 0x02, CHR 0x4e, CHR 0x73])"

subsection \<open>The chain of a leaf\<close>

lemma exit_walk_measure:
  fixes m :: node_map
  assumes "tn_id current \<notin> set visited" and "map_of m p = Some parent"
  shows "card (insert (tn_id parent) (tn_id ` snd ` set m) - insert (tn_id current) (set visited))
    < card (insert (tn_id current) (tn_id ` snd ` set m) - set visited)"
proof (rule psubset_card_mono)
  have "parent \<in> snd ` set m" using assms(2) by (force dest: map_of_SomeD)
  then show "insert (tn_id parent) (tn_id ` snd ` set m) - insert (tn_id current) (set visited)
      \<subset> insert (tn_id current) (tn_id ` snd ` set m) - set visited"
    using assms(1) by auto
qed simp

function exit_walk ::
  "node_map \<Rightarrow> tree_node_id list \<Rightarrow> tree_node \<Rightarrow> tree_node list \<Rightarrow> (tree_node_id, tree_node list) rust_result" where
  "exit_walk node_map visited current chain =
     (if tn_id current \<in> set visited then Inl (tn_id current)
      else case tn_parent_node_id current of
        None \<Rightarrow> Inr (rev (chain @ [current]))
      | Some parent_id \<Rightarrow>
          (case map_of node_map parent_id of
             None \<Rightarrow> Inl parent_id
           | Some parent \<Rightarrow> exit_walk node_map (tn_id current # visited) parent (chain @ [current])))"
  by pat_completeness auto
termination
  by (relation "measure (\<lambda>(m, visited, current, _). card (insert (tn_id current) (tn_id ` snd ` set m) - set visited))")
     (auto simp: exit_walk_measure)

declare exit_walk.simps [simp del]

definition walk_unilateral_exit_chain ::
  "node_map \<Rightarrow> tree_node \<Rightarrow> (tree_node_id, tree_node list) rust_result" where
  "walk_unilateral_exit_chain node_map leaf = exit_walk node_map [] leaf []"

subsection \<open>Data of the plan\<close>

record cpfp_input =
  ci_outpoint :: bitcoin_outpoint
  ci_witness_utxo :: tx_out
  ci_signed_input_weight :: u64

record cpfp_child =
  cc_psbt :: psbt
  cc_change_input :: cpfp_input
  cc_fee_sat :: u64

datatype exit_node_confirmation = Cpfp | Direct

record confirmed_exit_node =
  cn_node_id :: tree_node_id
  cn_confirmed_by :: exit_node_confirmation
  cn_block_height :: "nat option"

datatype exit_refund_state =
    RefundOnChain transaction nat u64 "nat option"
  | RefundSwept

record exit_refund =
  er_leaf_id :: tree_node_id
  er_state :: exit_refund_state

record exit_chain_state =
  ec_nodes :: "confirmed_exit_node list"
  ec_refunds :: "exit_refund list"
  ec_stopped_leaves :: "tree_node_id list"
  ec_unverified_nodes :: "tree_node_id list"
  ec_unverifiable_confirmed_nodes :: "tree_node_id list"

definition has_node :: "exit_chain_state \<Rightarrow> tree_node_id \<Rightarrow> bool" where
  "has_node oc node_id = (\<exists>node \<in> set (ec_nodes oc). cn_node_id node = node_id)"

definition has_refund :: "exit_chain_state \<Rightarrow> tree_node_id \<Rightarrow> bool" where
  "has_refund oc leaf_id = (\<exists>refund \<in> set (ec_refunds oc). er_leaf_id refund = leaf_id)"

record selected_leaf =
  sel_id :: tree_node_id
  sel_value :: u64
  sel_estimated_cost :: u64
  sel_cpfp_cost :: u64

record exit_plan =
  ep_selected_leaves :: "selected_leaf list"
  ep_fan_out_psbt :: "psbt option"
  ep_per_branch_funding :: "(tree_node_id \<times> cpfp_input list) list"
  ep_tree_nodes :: node_map

record exit_quote =
  eq_selected_leaves :: "selected_leaf list"
  eq_per_branch_funding :: "(tree_node_id \<times> u64) list"
  eq_single_utxo_funding_sat :: u64
  eq_cpfp_fee_sat :: u64
  eq_fanout_fee_sat :: u64
  eq_sweep_fee_sat :: u64
  eq_total_fee_sat :: u64

record leaf_cost_params =
  lc_initial_cpfp_input_weight :: u64
  lc_single_cpfp_input_weight :: u64
  lc_change_script_len :: nat
  lc_destination_script_len :: nat
  lc_fee_rate_sat_per_kw :: u64

datatype leaf_filter = FilterAll | ProfitableOnly

abbreviation ci_value :: "cpfp_input \<Rightarrow> u64" where
  "ci_value i \<equiv> txo_value (ci_witness_utxo i)"

abbreviation ci_script :: "cpfp_input \<Rightarrow> script" where
  "ci_script i \<equiv> txo_script_pubkey (ci_witness_utxo i)"

definition is_complete_on_chain :: "exit_chain_state \<Rightarrow> node_map \<Rightarrow> tree_node_id \<Rightarrow> bool" where
  "is_complete_on_chain oc tree_nodes leaf_id =
     (if \<not> has_refund oc leaf_id then False
      else case map_of tree_nodes leaf_id of
        None \<Rightarrow> False
      | Some leaf \<Rightarrow>
          (case walk_unilateral_exit_chain tree_nodes leaf of
             Inl _ \<Rightarrow> False
           | Inr chain \<Rightarrow> list_all (\<lambda>node. has_node oc (tn_id node)) chain))"

subsection \<open>Weights and fees\<close>

definition csv_timelock :: "bitcoin_api \<Rightarrow> transaction \<Rightarrow> nat option" where
  "csv_timelock api tx =
     (let hs = filter (\<lambda>v. v > 0) (List.map_filter (\<lambda>i. to_relative_blocks api (txi_sequence i)) (tx_input tx))
      in if hs = [] then None else Some (Max (set hs)))"

definition input_segwit_weight :: "bitcoin_api \<Rightarrow> nat list \<Rightarrow> u64" where
  "input_segwit_weight api lens =
     tx_in_segwit_weight api (tx_in_default\<lparr>txi_witness := map (\<lambda>len. replicate len (CHR 0x00)) lens\<rparr>)"

definition p2tr_key_path_input_weight :: "bitcoin_api \<Rightarrow> u64" where
  "p2tr_key_path_input_weight api = input_segwit_weight api [schnorr_signature_size api]"

definition p2wpkh_input_weight :: "bitcoin_api \<Rightarrow> u64" where
  "p2wpkh_input_weight api = input_segwit_weight api [max_signature_size api, public_key_size api]"

definition anchor_input_weight :: "bitcoin_api \<Rightarrow> u64" where
  "anchor_input_weight api = input_segwit_weight api []"

definition tx_overhead_weight :: "bitcoin_api \<Rightarrow> u64" where
  "tx_overhead_weight api = tx_weight api \<lparr>tx_version = 2, tx_lock_time = 0, tx_input = [], tx_output = []\<rparr>"

definition output_weight :: "bitcoin_api \<Rightarrow> nat \<Rightarrow> u64" where
  "output_weight api script_len = tx_out_weight api \<lparr>txo_value = 0, txo_script_pubkey = replicate script_len (CHR 0x00)\<rparr>"

definition fee_sat :: "u64 \<Rightarrow> u64 \<Rightarrow> u64" where
  "fee_sat fee_rate weight = div_ceil (sat_mul fee_rate weight) 1000"

definition compute_cpfp_package_fee :: "bitcoin_api \<Rightarrow> u64 \<Rightarrow> u64 \<Rightarrow> nat \<Rightarrow> u64 \<Rightarrow> u64" where
  "compute_cpfp_package_fee api parent_weight cpfp_input_weight change_script_len fee_rate =
     (let child_weight = add_u64 (add_u64 (add_u64 cpfp_input_weight (anchor_input_weight api))
            (output_weight api change_script_len)) (tx_overhead_weight api)
      in fee_sat fee_rate (add_u64 parent_weight child_weight))"

definition compute_sweep_fee :: "bitcoin_api \<Rightarrow> u64 \<Rightarrow> nat \<Rightarrow> u64 \<Rightarrow> u64" where
  "compute_sweep_fee api total_input_weight destination_script_len fee_rate =
     fee_sat fee_rate (add_u64 (add_u64 total_input_weight (output_weight api destination_script_len))
       (tx_overhead_weight api))"

definition fan_out_weight :: "bitcoin_api \<Rightarrow> u64 \<Rightarrow> nat \<Rightarrow> nat \<Rightarrow> u64" where
  "fan_out_weight api total_input_weight output_script_len output_count =
     add_u64 (add_u64 total_input_weight (sat_mul (output_weight api output_script_len) output_count))
       (tx_overhead_weight api)"

definition fan_out_fee :: "bitcoin_api \<Rightarrow> u64 \<Rightarrow> nat \<Rightarrow> nat \<Rightarrow> u64 \<Rightarrow> u64" where
  "fan_out_fee api total_input_weight output_script_len output_count fee_rate =
     fee_sat fee_rate (fan_out_weight api total_input_weight output_script_len output_count)"

definition branch_required_funding :: "selected_leaf \<Rightarrow> u64 \<Rightarrow> u64" where
  "branch_required_funding leaf change_dust_limit = sat_add (sel_estimated_cost leaf) change_dust_limit"

subsection \<open>Selecting leaves\<close>

definition report_unexitable :: "leaf_filter \<Rightarrow> tree_node_id \<Rightarrow> string \<Rightarrow> (service_error, unit) rust_result" where
  "report_unexitable flt leaf_id reason =
     (if flt = FilterAll then Inl (SE_ValidationError (''Leaf '' @ leaf_id @ '' cannot be exited: '' @ reason))
      else Inr ())"

fun find_leaves ::
  "leaf_filter \<Rightarrow> node_map \<Rightarrow> tree_node_id list \<Rightarrow> (service_error, (tree_node_id \<times> tree_node) list) rust_result" where
  "find_leaves flt tree_nodes [] = Inr []"
| "find_leaves flt tree_nodes (i # ids) =
     (case map_of tree_nodes i of
        Some node \<Rightarrow> qbind (find_leaves flt tree_nodes ids) (\<lambda>leaves. Inr ((i, node) # leaves))
      | None \<Rightarrow> qbind (report_unexitable flt i ''not found in the tree node map'') (\<lambda>_.
          find_leaves flt tree_nodes ids))"

definition sort_leaves :: "(tree_node_id \<times> tree_node) list \<Rightarrow> (tree_node_id \<times> tree_node) list" where
  "sort_leaves leaves = sort_key (\<lambda>(i, node). (- int (tn_value node), i)) leaves"

definition ancestor_cost ::
  "bitcoin_api \<Rightarrow> leaf_cost_params \<Rightarrow> exit_chain_state \<Rightarrow> txid list \<Rightarrow> tree_node \<Rightarrow> u64 \<times> bool \<Rightarrow> u64 \<times> bool" where
  "ancestor_cost api params oc covered ancestor st =
     (case st of (cpfp_cost, already_funded) \<Rightarrow>
        if compute_txid api (tn_node_tx ancestor) \<in> set covered then st
        else if has_node oc (tn_id ancestor) \<or> tn_status ancestor = OnChain then st
        else (sat_add cpfp_cost (compute_cpfp_package_fee api (tx_weight api (tn_node_tx ancestor))
                (if already_funded then lc_single_cpfp_input_weight params else lc_initial_cpfp_input_weight params)
                (lc_change_script_len params) (lc_fee_rate_sat_per_kw params)), True))"

definition leaf_cpfp_cost ::
  "bitcoin_api \<Rightarrow> leaf_cost_params \<Rightarrow> exit_chain_state \<Rightarrow> txid list \<Rightarrow> tree_node_id \<Rightarrow> transaction \<Rightarrow> tree_node list \<Rightarrow> u64" where
  "leaf_cpfp_cost api params oc covered leaf_id refund_tx ancestors =
     (case fold (ancestor_cost api params oc covered) ancestors (0, False) of (cpfp_cost, already_funded) \<Rightarrow>
        if has_refund oc leaf_id then cpfp_cost
        else sat_add cpfp_cost (compute_cpfp_package_fee api (tx_weight api refund_tx)
               (if already_funded then lc_single_cpfp_input_weight params else lc_initial_cpfp_input_weight params)
               (lc_change_script_len params) (lc_fee_rate_sat_per_kw params)))"

definition leaf_sweep_cost :: "bitcoin_api \<Rightarrow> leaf_cost_params \<Rightarrow> nat \<Rightarrow> u64" where
  "leaf_sweep_cost api params selected_count =
     (let per_leaf = add_u64 (p2tr_key_path_input_weight api) (lc_single_cpfp_input_weight params);
          fee = (\<lambda>w. compute_sweep_fee api w (lc_destination_script_len params) (lc_fee_rate_sat_per_kw params))
      in if selected_count = 0 then fee per_leaf
         else fee (sat_mul (sat_add selected_count 1) per_leaf) - fee (sat_mul selected_count per_leaf))"

fun evaluate_loop ::
  "bitcoin_api \<Rightarrow> node_map \<Rightarrow> leaf_cost_params \<Rightarrow> leaf_filter \<Rightarrow> exit_chain_state
     \<Rightarrow> selected_leaf list \<Rightarrow> txid list \<Rightarrow> (tree_node_id \<times> tree_node) list
     \<Rightarrow> (service_error, selected_leaf list) rust_result" where
  "evaluate_loop api tree_nodes params flt oc selected covered [] = Inr selected"
| "evaluate_loop api tree_nodes params flt oc selected covered ((leaf_id, leaf) # leaves) =
     (case tn_refund_tx leaf of
        None \<Rightarrow> qbind (report_unexitable flt leaf_id ''no refund transaction'') (\<lambda>_.
          evaluate_loop api tree_nodes params flt oc selected covered leaves)
      | Some refund_tx \<Rightarrow>
          (case walk_unilateral_exit_chain tree_nodes leaf of
             Inl missing \<Rightarrow> qbind (report_unexitable flt leaf_id
                 (''incomplete ancestor chain (parent '' @ missing @ '' missing from the tree map)'')) (\<lambda>_.
               evaluate_loop api tree_nodes params flt oc selected covered leaves)
           | Inr ancestors \<Rightarrow>
               (let cpfp_cost = leaf_cpfp_cost api params oc covered leaf_id refund_tx ancestors;
                    total = sat_add cpfp_cost (leaf_sweep_cost api params (length selected))
                in if flt = FilterAll \<or> tn_value leaf > total
                   then evaluate_loop api tree_nodes params flt oc
                          (selected @ [\<lparr>sel_id = leaf_id, sel_value = tn_value leaf, sel_estimated_cost = total,
                                        sel_cpfp_cost = cpfp_cost\<rparr>])
                          (map (\<lambda>a. compute_txid api (tn_node_tx a)) ancestors @ covered) leaves
                   else evaluate_loop api tree_nodes params flt oc selected covered leaves)))"

definition evaluate_unilateral_exit_leaf_costs ::
  "bitcoin_api \<Rightarrow> node_map \<Rightarrow> tree_node_id list \<Rightarrow> leaf_cost_params \<Rightarrow> leaf_filter \<Rightarrow> exit_chain_state
     \<Rightarrow> (service_error, selected_leaf list) rust_result" where
  "evaluate_unilateral_exit_leaf_costs api tree_nodes ids params flt oc =
     qbind (find_leaves flt tree_nodes ids) (\<lambda>leaves.
       evaluate_loop api tree_nodes params flt oc [] [] (sort_leaves leaves))"

definition first_child_cpfp_floor ::
  "bitcoin_api \<Rightarrow> node_map \<Rightarrow> tree_node_id \<Rightarrow> cpfp_input list \<Rightarrow> nat \<Rightarrow> u64 \<Rightarrow> exit_chain_state \<Rightarrow> u64 option" where
  "first_child_cpfp_floor api tree_nodes leaf_id branch_inputs destination_script_len fee_rate oc =
     (case branch_inputs of
        [] \<Rightarrow> None
      | first # _ \<Rightarrow>
          (case evaluate_unilateral_exit_leaf_costs api tree_nodes [leaf_id]
                 \<lparr>lc_initial_cpfp_input_weight = sat_sum (map ci_signed_input_weight branch_inputs),
                  lc_single_cpfp_input_weight = ci_signed_input_weight first,
                  lc_change_script_len = length (ci_script first),
                  lc_destination_script_len = destination_script_len,
                  lc_fee_rate_sat_per_kw = fee_rate\<rparr> FilterAll oc of
             Inl _ \<Rightarrow> None
           | Inr [] \<Rightarrow> None
           | Inr (leaf # _) \<Rightarrow> Some (sel_cpfp_cost leaf)))"


subsection \<open>Funding the branches\<close>

fun take_until ::
  "u64 \<Rightarrow> nat \<Rightarrow> u64 \<Rightarrow> cpfp_input list \<Rightarrow> cpfp_input list \<Rightarrow> (cpfp_input list \<times> cpfp_input list) option" where
  "take_until required left_after acc assigned remaining =
     (if acc < required
      then (if length remaining \<le> left_after then None
            else case remaining of
              [] \<Rightarrow> None
            | input # rest \<Rightarrow> take_until required left_after (sat_add acc (ci_value input)) (assigned @ [input]) rest)
      else Some (assigned, remaining))"

declare take_until.simps [simp del]

fun assign_loop ::
  "u64 \<Rightarrow> selected_leaf list \<Rightarrow> cpfp_input list \<Rightarrow> (tree_node_id, cpfp_input list) hash_map
     \<Rightarrow> (tree_node_id, cpfp_input list) hash_map option" where
  "assign_loop dust [] remaining assigned_by_leaf = Some assigned_by_leaf"
| "assign_loop dust (leaf # leaves) remaining assigned_by_leaf =
     (case take_until (branch_required_funding leaf dust) (length leaves) 0 [] remaining of
        None \<Rightarrow> None
      | Some (assigned, remaining') \<Rightarrow> assign_loop dust leaves remaining' (hm_insert (sel_id leaf) assigned assigned_by_leaf))"

text \<open>Handing out the entries of a map in a given order; a second request for a key gets nothing.\<close>

fun collect_assigned ::
  "selected_leaf list \<Rightarrow> (tree_node_id, cpfp_input list) hash_map \<Rightarrow> (tree_node_id \<times> cpfp_input list) list" where
  "collect_assigned [] m = []"
| "collect_assigned (leaf # leaves) m =
     (sel_id leaf, case map_of m (sel_id leaf) of None \<Rightarrow> [] | Some inputs \<Rightarrow> inputs)
       # collect_assigned leaves (hm_remove (sel_id leaf) m)"

definition assign_inputs_to_leaves ::
  "cpfp_input list \<Rightarrow> selected_leaf list \<Rightarrow> u64 \<Rightarrow> (tree_node_id \<times> cpfp_input list) list option" where
  "assign_inputs_to_leaves inputs selected dust =
     (if length inputs < length selected then None
      else map_option (collect_assigned selected)
             (assign_loop dust (sort_key (\<lambda>l. (- int (sel_estimated_cost l), sel_id l)) selected)
                (sort_key (\<lambda>i. (- int (ci_value i), ci_outpoint i)) inputs) []))"

definition assignment_covers_first_child ::
  "bitcoin_api \<Rightarrow> (tree_node_id \<times> cpfp_input list) list \<Rightarrow> node_map \<Rightarrow> nat \<Rightarrow> u64 \<Rightarrow> exit_chain_state \<Rightarrow> bool" where
  "assignment_covers_first_child api assignment tree_nodes destination_script_len fee_rate oc =
     list_all (\<lambda>(leaf_id, branch_inputs).
       case branch_inputs of
         [] \<Rightarrow> False
       | first # _ \<Rightarrow>
           (case first_child_cpfp_floor api tree_nodes leaf_id branch_inputs destination_script_len fee_rate oc of
              None \<Rightarrow> False
            | Some cpfp_cost \<Rightarrow> sat_sum (map ci_value branch_inputs) \<ge> sat_add cpfp_cost (minimal_non_dust api (ci_script first))))
       assignment"

text \<open>The share of the surplus a branch gets; no share when all costs are zero or the share does not
  fit 64 bits.\<close>

definition surplus_share :: "u64 \<Rightarrow> u128 \<Rightarrow> selected_leaf \<Rightarrow> u64" where
  "surplus_share surplus cost_total leaf =
     (if cost_total = 0 then 0
      else let share = surplus * sel_estimated_cost leaf div cost_total in if share \<le> u64_max then share else 0)"

definition fan_out_values :: "u64 \<Rightarrow> u64 list \<Rightarrow> selected_leaf list \<Rightarrow> u64 list" where
  "fan_out_values surplus per_leaf_value selected =
     (if surplus > 0
      then let cost_total = sum_u128 (map sel_estimated_cost selected);
               shares = map (surplus_share surplus cost_total) selected;
               output_values = map2 sat_add per_leaf_value shares
           in output_values[0 := sat_add (output_values ! 0) (surplus - sat_sum shares)]
      else per_leaf_value)"

definition unsigned_input :: "bitcoin_outpoint \<Rightarrow> tx_in" where
  "unsigned_input op = tx_in_default\<lparr>txi_previous_output := op, txi_sequence := enable_rbf_no_locktime\<rparr>"

definition set_witness_utxos :: "tx_out list \<Rightarrow> psbt \<Rightarrow> psbt" where
  "set_witness_utxos utxos p = p\<lparr>ps_inputs := map (\<lambda>u. \<lparr>psi_witness_utxo = Some u\<rparr>) utxos @ drop (length utxos) (ps_inputs p)\<rparr>"

definition build_fan_out_psbt ::
  "bitcoin_api \<Rightarrow> cpfp_input list \<Rightarrow> selected_leaf list \<Rightarrow> u64 \<Rightarrow> u64
     \<Rightarrow> (service_error, psbt \<times> (tree_node_id \<times> cpfp_input) list) rust_result" where
  "build_fan_out_psbt api inputs selected fee_rate dust =
     (case inputs of
        [] \<Rightarrow> Inl (SE_ValidationError ''fan-out: at least one CPFP input is required'')
      | first # _ \<Rightarrow>
          if selected = [] then Inl (SE_ValidationError ''fan-out: at least one selected leaf is required'')
          else let
            total_input_value = sat_sum (map ci_value inputs);
            total_input_weight = sat_sum (map ci_signed_input_weight inputs);
            per_leaf_value = map (\<lambda>l. branch_required_funding l dust) selected;
            leaves_total = sat_sum per_leaf_value;
            fee_no_change = fan_out_fee api total_input_weight (length (ci_script first)) (length selected) fee_rate
          in if total_input_value < sat_add leaves_total fee_no_change
             then Inl (SE_InsufficientCpfpBudget (sat_add leaves_total fee_no_change))
             else let
               output_values = fan_out_values (total_input_value - leaves_total - fee_no_change) per_leaf_value selected;
               tx = \<lparr>tx_version = 2, tx_lock_time = 0, tx_input = map (\<lambda>i. unsigned_input (ci_outpoint i)) inputs,
                     tx_output = map (\<lambda>v. \<lparr>txo_value = v, txo_script_pubkey = ci_script first\<rparr>) output_values\<rparr>
             in (case from_unsigned_tx api tx of
                   Inl e \<Rightarrow> Inl (SE_ValidationError (''Failed to create fan-out PSBT: '' @ e))
                 | Inr p \<Rightarrow> Inr (set_witness_utxos (map ci_witness_utxo inputs) p,
                     map (\<lambda>(idx, leaf). (sel_id leaf,
                       \<lparr>ci_outpoint = (compute_txid api tx, idx mod 2 ^ 32),
                        ci_witness_utxo = \<lparr>txo_value = output_values ! idx, txo_script_pubkey = ci_script first\<rparr>,
                        ci_signed_input_weight = ci_signed_input_weight first\<rparr>)) (enumerate 0 selected))))"

definition build_cpfp_child ::
  "bitcoin_api \<Rightarrow> transaction \<Rightarrow> cpfp_input list \<Rightarrow> u64 \<Rightarrow> (service_error, cpfp_child) rust_result" where
  "build_cpfp_child api parent_tx funding_inputs fee_rate =
     (case position is_ephemeral_anchor_output (tx_output parent_tx) of
        None \<Rightarrow> Inl (SE_ValidationError ''Ephemeral anchor output not found'')
      | Some vout \<Rightarrow>
          (case funding_inputs of
             [] \<Rightarrow> Inl (SE_ValidationError ''At least one CPFP input is required for fee bumping'')
           | first # _ \<Rightarrow>
               let total_input_value = sat_sum (map ci_value funding_inputs);
                   change_script = ci_script first;
                   fee_amount = compute_cpfp_package_fee api (tx_weight api parent_tx)
                     (sat_sum (map ci_signed_input_weight funding_inputs)) (length change_script) fee_rate;
                   adjusted = total_input_value - fee_amount;
                   dust_limit = minimal_non_dust api change_script
               in if adjusted < dust_limit then Inl (SE_InsufficientCpfpBudget (sat_add fee_amount dust_limit))
                  else let fee_bump_tx = \<lparr>tx_version = 3, tx_lock_time = 0,
                         tx_input = map (\<lambda>i. unsigned_input (ci_outpoint i)) funding_inputs
                           @ [unsigned_input (compute_txid api parent_tx, vout mod 2 ^ 32)],
                         tx_output = [\<lparr>txo_value = adjusted, txo_script_pubkey = change_script\<rparr>]\<rparr>
                       in (case from_unsigned_tx api fee_bump_tx of
                             Inl e \<Rightarrow> Inl (SE_ValidationError (''Failed to create PSBT: '' @ e))
                           | Inr p \<Rightarrow> Inr \<lparr>cc_psbt = set_witness_utxos
                                 (map ci_witness_utxo funding_inputs @ [tx_output parent_tx ! vout]) p,
                               cc_change_input = \<lparr>ci_outpoint = (compute_txid api fee_bump_tx, 0),
                                 ci_witness_utxo = \<lparr>txo_value = adjusted, txo_script_pubkey = change_script\<rparr>,
                                 ci_signed_input_weight = ci_signed_input_weight first\<rparr>,
                               cc_fee_sat = fee_amount\<rparr>)))"

subsection \<open>Plan and quote\<close>

definition empty_exit_plan :: "node_map \<Rightarrow> exit_plan" where
  "empty_exit_plan tree_nodes = \<lparr>ep_selected_leaves = [], ep_fan_out_psbt = None, ep_per_branch_funding = [],
     ep_tree_nodes = tree_nodes\<rparr>"

definition fund_branches ::
  "bitcoin_api \<Rightarrow> node_map \<Rightarrow> selected_leaf list \<Rightarrow> cpfp_input list \<Rightarrow> u64 \<Rightarrow> nat \<Rightarrow> u64 \<Rightarrow> exit_chain_state
     \<Rightarrow> (service_error, (tree_node_id \<times> cpfp_input list) list \<times> psbt option) rust_result" where
  "fund_branches api tree_nodes to_build inputs fee_rate destination_script_len dust oc =
     (case to_build of
        [] \<Rightarrow> Inr ([], None)
      | [leaf] \<Rightarrow>
          let cpfp_cost = (if length inputs > 1
                then (case first_child_cpfp_floor api tree_nodes (sel_id leaf) inputs destination_script_len fee_rate oc of
                        None \<Rightarrow> sel_cpfp_cost leaf | Some c \<Rightarrow> c)
                else sel_cpfp_cost leaf);
              required = sat_add cpfp_cost dust
          in if sat_sum (map ci_value inputs) < required then Inl (SE_InsufficientCpfpBudget required)
             else Inr ([(sel_id leaf, inputs)], None)
      | _ \<Rightarrow>
          let assignment = (case assign_inputs_to_leaves inputs to_build dust of
                None \<Rightarrow> None
              | Some a \<Rightarrow> if assignment_covers_first_child api a tree_nodes destination_script_len fee_rate oc
                          then Some a else None)
          in (case assignment of
                Some a \<Rightarrow> Inr (a, None)
              | None \<Rightarrow> qbind (build_fan_out_psbt api inputs to_build fee_rate dust) (\<lambda>(p, per_leaf).
                  Inr (map (\<lambda>(i, input). (i, [input])) per_leaf, Some p))))"

definition plan_unilateral_exit ::
  "bitcoin_api \<Rightarrow> node_map \<Rightarrow> tree_node_id list \<Rightarrow> leaf_filter \<Rightarrow> cpfp_input list \<Rightarrow> u64 \<Rightarrow> nat \<Rightarrow> exit_chain_state
     \<Rightarrow> (service_error, exit_plan) rust_result" where
  "plan_unilateral_exit api tree_nodes ids flt inputs fee_rate destination_script_len oc =
     (case inputs of
        [] \<Rightarrow> Inl (SE_ValidationError ''At least one CPFP input is required'')
      | first # _ \<Rightarrow>
          if ids = [] then Inr (empty_exit_plan tree_nodes)
          else let dust = minimal_non_dust api (ci_script first) in
            qbind (evaluate_unilateral_exit_leaf_costs api tree_nodes ids
                \<lparr>lc_initial_cpfp_input_weight = ci_signed_input_weight first,
                 lc_single_cpfp_input_weight = ci_signed_input_weight first,
                 lc_change_script_len = length (ci_script first),
                 lc_destination_script_len = destination_script_len,
                 lc_fee_rate_sat_per_kw = fee_rate\<rparr> flt oc) (\<lambda>selected.
              if selected = [] then Inr (empty_exit_plan tree_nodes)
              else qbind (fund_branches api tree_nodes
                       (filter (\<lambda>l. \<not> is_complete_on_chain oc tree_nodes (sel_id l)) selected)
                       inputs fee_rate destination_script_len dust oc) (\<lambda>(assigned, fan_out).
                Inr \<lparr>ep_selected_leaves = selected, ep_fan_out_psbt = fan_out,
                     ep_per_branch_funding = collect_assigned selected (fold (\<lambda>(i, v) m. hm_insert i v m) assigned []),
                     ep_tree_nodes = tree_nodes\<rparr>)))"

definition quote_unilateral_exit ::
  "bitcoin_api \<Rightarrow> node_map \<Rightarrow> tree_node_id list \<Rightarrow> leaf_filter \<Rightarrow> u64 \<Rightarrow> nat \<Rightarrow> u64 \<Rightarrow> u64 \<Rightarrow> nat \<Rightarrow> exit_chain_state
     \<Rightarrow> (service_error, exit_quote) rust_result" where
  "quote_unilateral_exit api tree_nodes ids flt funding_input_weight funding_output_script_len dust fee_rate
       destination_script_len oc =
     qbind (evaluate_unilateral_exit_leaf_costs api tree_nodes ids
         \<lparr>lc_initial_cpfp_input_weight = funding_input_weight,
          lc_single_cpfp_input_weight = funding_input_weight,
          lc_change_script_len = funding_output_script_len,
          lc_destination_script_len = destination_script_len,
          lc_fee_rate_sat_per_kw = fee_rate\<rparr> flt oc) (\<lambda>selected.
       if selected = []
       then Inr \<lparr>eq_selected_leaves = [], eq_per_branch_funding = [], eq_single_utxo_funding_sat = 0, eq_cpfp_fee_sat = 0,
              eq_fanout_fee_sat = 0, eq_sweep_fee_sat = 0, eq_total_fee_sat = 0\<rparr>
       else let
         per_branch = map (\<lambda>l. (sel_id l, branch_required_funding l dust)) selected;
         cpfp_fee = sat_sum (map sel_cpfp_cost selected);
         sweep_fee = sat_sum (map (\<lambda>l. sel_estimated_cost l - sel_cpfp_cost l) selected);
         fanout_fee = (if length selected = 1 then 0
           else fan_out_fee api funding_input_weight funding_output_script_len (length selected) fee_rate)
       in Inr \<lparr>eq_selected_leaves = selected, eq_per_branch_funding = per_branch,
            eq_single_utxo_funding_sat = sat_add (sat_sum (map snd per_branch)) fanout_fee, eq_cpfp_fee_sat = cpfp_fee,
            eq_fanout_fee_sat = fanout_fee, eq_sweep_fee_sat = sweep_fee,
            eq_total_fee_sat = sat_add (sat_add cpfp_fee fanout_fee) sweep_fee\<rparr>)"

end
