(* ===== verification/Exit_Observe.thy ===== *)
theory Exit_Observe
  imports Exit_Plan
begin

text \<open>
  What the chain has done to an exit, read through lookups the caller performs:
  \<^verbatim>\<open>crates/spark-wallet/src/unilateral_exit.rs\<close>, the queries and their answers, the
  scan of the funding and the check of a kept exit.

  The scans are pure: they take the answers so far and return the lookups still pending. A
  \<open>HashSet\<close> is a list without duplicates. The \<open>frontier\<close> and \<open>stack\<close> vectors are popped at their
  end; here the end is the head of the list.
\<close>

subsection \<open>Queries and answers\<close>

type_synonym address = string

datatype chain_query =
    Outspend bitcoin_outpoint
  | TxConfirmed txid
  | QueryTransaction txid
  | RefundAddress tree_node_id address

record spend_info =
  si_spender_txid :: txid
  si_confirmed :: bool
  si_block_height :: "nat option"

record address_utxo =
  au_txid :: txid
  au_vout :: nat
  au_value :: u64
  au_confirmed :: bool
  au_block_height :: "nat option"

datatype chain_result =
    Spend "spend_info option"
  | Confirmed bool "nat option"
  | FoundTransaction transaction
  | AddressUtxos "address_utxo list"
  | Unavailable

record observation =
  ob_query :: chain_query
  ob_result :: chain_result

type_synonym observed_index = "(chain_query, chain_result) hash_map"

definition observed_index_new :: "observation list \<Rightarrow> observed_index" where
  "observed_index_new observed =
     fold (\<lambda>obs m. if hm_contains (ob_query obs) m then m else hm_insert (ob_query obs) (ob_result obs) m) observed []"

text \<open>Keeping the first of equal elements: \<open>retain(|q| seen.insert(q.clone()))\<close>.\<close>

fun retain_unseen :: "'a list \<Rightarrow> 'a list \<Rightarrow> 'a list" where
  "retain_unseen seen [] = []"
| "retain_unseen seen (q # qs) =
     (if q \<in> set seen then retain_unseen seen qs else q # retain_unseen (q # seen) qs)"

subsection \<open>The funding an exit can spend\<close>

record funding_scan =
  fs_inputs :: "cpfp_input list"
  fs_pending :: "chain_query list"

text \<open>The outputs of a confirmed spender that pay the script of the spent input.\<close>

definition follow_outputs :: "cpfp_input \<Rightarrow> txid \<Rightarrow> transaction \<Rightarrow> cpfp_input list" where
  "follow_outputs input spender tx =
     map (\<lambda>(vout, out). \<lparr>ci_outpoint = (spender, vout), ci_witness_utxo = out,
            ci_signed_input_weight = ci_signed_input_weight input\<rparr>)
       (filter (\<lambda>(vout, out). txo_script_pubkey out = ci_script input \<and> vout < 2 ^ 32) (enumerate 0 (tx_output tx)))"

text \<open>The outpoints the observed transactions can put on the frontier.\<close>

definition observed_outpoints :: "observed_index \<Rightarrow> bitcoin_outpoint set" where
  "observed_outpoints index =
     (\<Union>(q, r) \<in> set index. case q of
        QueryTransaction t \<Rightarrow> (case r of FoundTransaction tx \<Rightarrow> {t} \<times> {..<length (tx_output tx)} | _ \<Rightarrow> {})
      | _ \<Rightarrow> {})"

lemma finite_observed_outpoints [simp]: "finite (observed_outpoints index)"
  by (auto simp: observed_outpoints_def split: chain_query.splits chain_result.splits)

lemma follow_outputs_observed:
  assumes "map_of index (QueryTransaction spender) = Some (FoundTransaction tx)"
  shows "ci_outpoint ` set (follow_outputs input spender tx) \<subseteq> observed_outpoints index"
proof
  fix p
  assume "p \<in> ci_outpoint ` set (follow_outputs input spender tx)"
  then have "p \<in> {spender} \<times> {..<length (tx_output tx)}"
    by (auto simp: follow_outputs_def in_set_enumerate_eq)
  moreover have "(QueryTransaction spender, FoundTransaction tx) \<in> set index" using assms by (rule map_of_SomeD)
  ultimately show "p \<in> observed_outpoints index" unfolding observed_outpoints_def by force
qed

abbreviation funding_universe :: "observed_index \<Rightarrow> cpfp_input list \<Rightarrow> bitcoin_outpoint set" where
  "funding_universe index frontier \<equiv> ci_outpoint ` set frontier \<union> observed_outpoints index"

lemma funding_measure:
  assumes "ci_outpoint input \<notin> set visited"
    and "ci_outpoint ` set new \<subseteq> observed_outpoints index"
  shows "card (funding_universe index (new @ frontier) - insert (ci_outpoint input) (set visited))
    < card (funding_universe index (input # frontier) - set visited)"
  by (rule psubset_card_mono) (use assms in auto)

function (sequential) funding_loop ::
  "observed_index \<Rightarrow> (bitcoin_outpoint, cpfp_input) hash_map \<Rightarrow> chain_query list \<Rightarrow> bitcoin_outpoint list
     \<Rightarrow> cpfp_input list \<Rightarrow> (bitcoin_outpoint, cpfp_input) hash_map \<times> chain_query list" where
  "funding_loop index inputs pending visited [] = (inputs, pending)"
| "funding_loop index inputs pending visited (input # frontier) =
     (if ci_outpoint input \<in> set visited then funding_loop index inputs pending visited frontier
      else case map_of index (Outspend (ci_outpoint input)) of
        None \<Rightarrow> funding_loop index (hm_insert (ci_outpoint input) input inputs)
                  (pending @ [Outspend (ci_outpoint input)]) (ci_outpoint input # visited) frontier
      | Some result \<Rightarrow>
          (case (case result of Spend (Some info) \<Rightarrow> if si_confirmed info then Some (si_spender_txid info) else None
                 | _ \<Rightarrow> None) of
             None \<Rightarrow> funding_loop index (hm_insert (ci_outpoint input) input inputs) pending
                       (ci_outpoint input # visited) frontier
           | Some spender \<Rightarrow>
               (case map_of index (QueryTransaction spender) of
                  Some (FoundTransaction tx) \<Rightarrow> funding_loop index inputs pending (ci_outpoint input # visited)
                    (rev (follow_outputs input spender tx) @ frontier)
                | None \<Rightarrow> funding_loop index inputs (pending @ [QueryTransaction spender])
                    (ci_outpoint input # visited) frontier
                | Some _ \<Rightarrow> funding_loop index inputs pending (ci_outpoint input # visited) frontier)))"
  by pat_completeness auto
termination
proof (relation "measures [\<lambda>(index, _, _, visited, frontier). card (funding_universe index frontier - set visited),
    \<lambda>(_, _, _, _, frontier). length frontier]", goal_cases)
  case (2 index inputs pending visited input frontier)
  then have "card (funding_universe index frontier - set visited)
    \<le> card (funding_universe index (input # frontier) - set visited)"
    by (intro card_mono) auto
  then show ?case by auto
qed (use funding_measure [where new = "[]"] funding_measure [where new = "rev _"] follow_outputs_observed in force)+

declare funding_loop.simps [simp del]

definition scan_funding :: "cpfp_input list \<Rightarrow> observation list \<Rightarrow> funding_scan" where
  "scan_funding supplied observed =
     (case funding_loop (observed_index_new observed) [] [] [] (rev supplied) of (inputs, pending) \<Rightarrow>
        \<lparr>fs_inputs = sort_key ci_outpoint (hm_values inputs), fs_pending = retain_unseen [] pending\<rparr>)"

subsection \<open>Checking a kept exit\<close>

record exit_check_input =
  ei_tx :: transaction
  ei_cpfp :: "transaction option"
  ei_confirmed :: bool

record exit_check =
  ek_confirmed :: "(txid, nat option) hash_map"
  ek_diverged :: bool
  ek_not_confirmed :: "txid list"
  ek_pending :: "chain_query list"

abbreviation ei_txid :: "bitcoin_api \<Rightarrow> exit_check_input \<Rightarrow> txid" where
  "ei_txid api input \<equiv> compute_txid api (ei_tx input)"

definition spend_parents :: "exit_check_input \<Rightarrow> (txid, exit_check_input) hash_map \<Rightarrow> txid list" where
  "spend_parents input by_txid =
     filter (\<lambda>t. hm_contains t by_txid) (map (fst \<circ> txi_previous_output) (tx_input (ei_tx input)))"

definition ours :: "bitcoin_api \<Rightarrow> exit_check_input \<Rightarrow> txid \<Rightarrow> bool" where
  "ours api input spender =
     (spender = ei_txid api input \<or> (case ei_cpfp input of None \<Rightarrow> False | Some cpfp \<Rightarrow> compute_txid api cpfp = spender))"

lemma spend_parents_keys: "set (spend_parents input by_txid) \<subseteq> fst ` set by_txid"
  by (auto simp: spend_parents_def)

lemma settle_measure:
  assumes "t \<notin> set settled" and "set new \<subseteq> K" and "finite K"
  shows "card (set (new @ stack) \<union> K - insert t (set settled)) < card (set (t # stack) \<union> K - set settled)"
  by (rule psubset_card_mono) (use assms in auto)

function (sequential) settle_loop ::
  "(txid, exit_check_input) hash_map \<Rightarrow> txid list \<Rightarrow> (txid, nat option) hash_map \<Rightarrow> txid list
     \<Rightarrow> (txid, nat option) hash_map \<times> txid list" where
  "settle_loop by_txid [] confirmed settled = (confirmed, settled)"
| "settle_loop by_txid (txid # stack) confirmed settled =
     (if txid \<in> set settled then settle_loop by_txid stack confirmed settled
      else settle_loop by_txid
             (rev (case map_of by_txid txid of None \<Rightarrow> [] | Some input \<Rightarrow> spend_parents input by_txid) @ stack)
             (if hm_contains txid confirmed then confirmed else hm_insert txid None confirmed)
             (txid # settled))"
  by pat_completeness auto
termination
proof (relation "measures [\<lambda>(by_txid, stack, _, settled). card (set stack \<union> fst ` set by_txid - set settled),
    \<lambda>(_, stack, _, _). length stack]", goal_cases)
  case (2 by_txid txid stack confirmed settled)
  then have "set stack \<union> fst ` set by_txid - set settled = set (txid # stack) \<union> fst ` set by_txid - set settled" by auto
  then show ?case by simp
next
  case (3 by_txid txid stack confirmed settled)
  then have "card (set (rev (case map_of by_txid txid of None \<Rightarrow> [] | Some input \<Rightarrow> spend_parents input by_txid) @ stack)
      \<union> fst ` set by_txid - insert txid (set settled)) < card (set (txid # stack) \<union> fst ` set by_txid - set settled)"
    by (intro settle_measure) (auto simp: spend_parents_def split: option.splits)
  then show ?case by simp
qed simp

declare settle_loop.simps [simp del]

definition mark_settled ::
  "(txid, exit_check_input) hash_map \<Rightarrow> txid \<Rightarrow> (txid, nat option) hash_map \<Rightarrow> txid list
     \<Rightarrow> (txid, nat option) hash_map \<times> txid list" where
  "mark_settled by_txid txid confirmed settled = settle_loop by_txid [txid] confirmed settled"

record check_state =
  cs_pending :: "chain_query list"
  cs_confirmed :: "(txid, nat option) hash_map"
  cs_settled :: "txid list"
  cs_not_confirmed :: "txid list"
  cs_diverged :: bool

definition check_recorded ::
  "bitcoin_api \<Rightarrow> (txid, exit_check_input) hash_map \<Rightarrow> observed_index \<Rightarrow> exit_check_input \<Rightarrow> check_state \<Rightarrow> check_state" where
  "check_recorded api by_txid index input st =
     (let txid = ei_txid api input in
      if txid \<in> set (cs_settled st) then st
      else if \<not> ei_confirmed input then st
      else case map_of index (TxConfirmed txid) of
        Some (Confirmed True block_height) \<Rightarrow>
          (case mark_settled by_txid txid (hm_insert txid block_height (cs_confirmed st)) (cs_settled st) of
             (confirmed, settled) \<Rightarrow> st\<lparr>cs_confirmed := confirmed, cs_settled := settled\<rparr>)
      | Some (Confirmed False _) \<Rightarrow>
          st\<lparr>cs_not_confirmed := List.insert txid (cs_not_confirmed st), cs_settled := List.insert txid (cs_settled st)\<rparr>
      | Some _ \<Rightarrow> st\<lparr>cs_settled := List.insert txid (cs_settled st)\<rparr>
      | None \<Rightarrow> st\<lparr>cs_pending := cs_pending st @ [TxConfirmed txid]\<rparr>)"

definition check_outpoint ::
  "bitcoin_api \<Rightarrow> observed_index \<Rightarrow> exit_check_input \<Rightarrow> bitcoin_outpoint \<Rightarrow> check_state \<Rightarrow> check_state" where
  "check_outpoint api index input outpoint st =
     (case map_of index (Outspend outpoint) of
        Some (Spend (Some info)) \<Rightarrow>
          if si_confirmed info
          then (if si_spender_txid info = ei_txid api input
                then st\<lparr>cs_confirmed := hm_insert (ei_txid api input) (si_block_height info) (cs_confirmed st)\<rparr>
                else if \<not> ours api input (si_spender_txid info) then st\<lparr>cs_diverged := True\<rparr>
                else st)
          else st
      | None \<Rightarrow> st\<lparr>cs_pending := cs_pending st @ [Outspend outpoint]\<rparr>
      | _ \<Rightarrow> st)"

definition check_frontier ::
  "bitcoin_api \<Rightarrow> (txid, exit_check_input) hash_map \<Rightarrow> observed_index \<Rightarrow> exit_check_input \<Rightarrow> check_state \<Rightarrow> check_state" where
  "check_frontier api by_txid index input st =
     (let txid = ei_txid api input in
      if hm_contains txid (cs_confirmed st) then st
      else if \<not> list_all (\<lambda>parent. hm_contains parent (cs_confirmed st)) (spend_parents input by_txid) then st
      else case tx_input (ei_tx input) of
        [] \<Rightarrow> st
      | first # _ \<Rightarrow>
          fold (check_outpoint api index input)
            (txi_previous_output first
               # (case ei_cpfp input of None \<Rightarrow> []
                  | Some cpfp \<Rightarrow> filter (\<lambda>op. fst op = txid) (map txi_previous_output (tx_input cpfp)))) st)"

definition check_exit_chain :: "bitcoin_api \<Rightarrow> exit_check_input list \<Rightarrow> observation list \<Rightarrow> exit_check" where
  "check_exit_chain api txs observed =
     (let index = observed_index_new observed;
          by_txid = fold (\<lambda>t m. hm_insert (ei_txid api t) t m) txs [];
          st1 = fold (check_recorded api by_txid index) (rev txs)
            \<lparr>cs_pending = [], cs_confirmed = [], cs_settled = [], cs_not_confirmed = [], cs_diverged = False\<rparr>;
          st2 = (if cs_pending st1 = [] then fold (check_frontier api by_txid index) txs st1 else st1)
      in \<lparr>ek_confirmed = cs_confirmed st2, ek_diverged = cs_diverged st2,
          ek_not_confirmed = filter (\<lambda>t. \<not> hm_contains t (cs_confirmed st2)) (cs_not_confirmed st2),
          ek_pending = retain_unseen [] (cs_pending st2)\<rparr>)"

end
