(* ===== verification/Exit_Scan.thy ===== *)
theory Exit_Scan
  imports Exit_Observe
begin

text \<open>
  What the chain has done to the branches of an exit: \<^verbatim>\<open>crates/spark-wallet/src/unilateral_exit.rs\<close>,
  the walk down each branch, the resolution of refunds, the state kept between a scan and a build and
  its restoration. Reading an address off a script is the bitcoin crate's, and a parameter.
\<close>

subsection \<open>Resolved state\<close>

datatype node_state =
    ConfirmedCpfp "nat option"
  | ConfirmedDirect "nat option"

record confirmed_refund =
  cr_tx :: transaction
  cr_outpoint :: bitcoin_outpoint
  cr_value :: u64
  cr_block_height :: "nat option"

datatype refund_state =
    Adopted confirmed_refund
  | DriveDirect
  | Swept

record resolved_exit_state =
  re_nodes :: "(tree_node_id, node_state) hash_map"
  re_refunds :: "(tree_node_id, refund_state) hash_map"
  re_stopped :: "tree_node_id list"

record chain_interpretation =
  in_resolved :: resolved_exit_state
  in_unverified :: "tree_node_id list"

record exit_chain_walk =
  ew_nodes :: "(tree_node_id, node_state) hash_map"
  ew_refunds :: "(tree_node_id, refund_state) hash_map"
  ew_stopped :: "tree_node_id list"
  ew_unverified :: "tree_node_id list"
  ew_unverifiable_confirmed :: "tree_node_id list"
  ew_pending :: "chain_query list"

record exit_chain_scan =
  es_state :: exit_chain_state
  es_pending :: "chain_query list"

definition exit_chain_walk_default :: exit_chain_walk where
  "exit_chain_walk_default = \<lparr>ew_nodes = [], ew_refunds = [], ew_stopped = [], ew_unverified = [],
     ew_unverifiable_confirmed = [], ew_pending = []\<rparr>"

subsection \<open>Walking a branch\<close>

datatype resume_point = Below nat "nat option" | Deposit | Awaiting

fun resume_candidates ::
  "bitcoin_api \<Rightarrow> observed_index \<Rightarrow> chain_query list \<Rightarrow> (nat \<times> tree_node) list \<Rightarrow> resume_point \<times> chain_query list" where
  "resume_candidates api observed pending [] = (Deposit, pending)"
| "resume_candidates api observed pending ((index, node) # candidates) =
     (let query = TxConfirmed (compute_txid api (tn_node_tx node)) in
      case map_of observed query of
        Some (Confirmed True block_height) \<Rightarrow> (Below index block_height, pending)
      | Some (Confirmed False _) \<Rightarrow> resume_candidates api observed pending candidates
      | Some _ \<Rightarrow> (Deposit, pending)
      | None \<Rightarrow> (Awaiting, pending @ [query]))"

definition resume_point_of ::
  "bitcoin_api \<Rightarrow> tree_node list \<Rightarrow> observed_index \<Rightarrow> chain_query list \<Rightarrow> resume_point \<times> chain_query list" where
  "resume_point_of api chain_nodes observed pending =
     resume_candidates api observed pending (filter (\<lambda>(_, node). tn_status node = OnChain) (rev (enumerate 0 chain_nodes)))"

text \<open>The loop down a branch; \<open>outpoint\<close> is the live outpoint when there is no confirmed parent.\<close>

fun walk_nodes ::
  "bitcoin_api \<Rightarrow> tree_node_id \<Rightarrow> observed_index \<Rightarrow> bitcoin_outpoint \<Rightarrow> txid option \<Rightarrow> tree_node list \<Rightarrow> exit_chain_walk \<Rightarrow> exit_chain_walk" where
  "walk_nodes api leaf_id observed deposit prev [] walk = walk"
| "walk_nodes api leaf_id observed deposit prev (node # rest) walk =
     (let is_leaf = (tn_id node = leaf_id);
          live_outpoint = (case prev of Some txid \<Rightarrow> (txid, tn_vout node) | None \<Rightarrow> deposit);
          node_txid = compute_txid api (tn_node_tx node);
          direct_txid = map_option (compute_txid api) (tn_direct_tx node)
      in case map_of observed (Outspend live_outpoint) of
        None \<Rightarrow> walk\<lparr>ew_pending := ew_pending walk @ [Outspend live_outpoint]\<rparr>
      | Some (Spend None) \<Rightarrow> walk
      | Some Unavailable \<Rightarrow>
          if tn_status node = OnChain
          then let walk' = walk\<lparr>ew_nodes := hm_insert (tn_id node) (ConfirmedCpfp None) (ew_nodes walk),
                     ew_unverifiable_confirmed := List.insert (tn_id node) (ew_unverifiable_confirmed walk)\<rparr>
               in if is_leaf then walk' else walk_nodes api leaf_id observed deposit (Some node_txid) rest walk'
          else walk\<lparr>ew_unverified := List.insert (tn_id node) (ew_unverified walk)\<rparr>
      | Some (Spend (Some info)) \<Rightarrow>
          if si_spender_txid info = node_txid
          then (if \<not> si_confirmed info then walk
                else let walk' = walk\<lparr>ew_nodes := hm_insert (tn_id node) (ConfirmedCpfp (si_block_height info)) (ew_nodes walk)\<rparr>
                     in if is_leaf then walk' else walk_nodes api leaf_id observed deposit (Some node_txid) rest walk')
          else if is_leaf \<and> direct_txid = Some (si_spender_txid info)
          then (if tn_direct_refund_tx node \<noteq> None
                then walk\<lparr>ew_nodes := hm_insert (tn_id node) (ConfirmedDirect (si_block_height info)) (ew_nodes walk),
                          ew_refunds := hm_insert leaf_id DriveDirect (ew_refunds walk)\<rparr>
                else walk\<lparr>ew_stopped := List.insert leaf_id (ew_stopped walk)\<rparr>)
          else walk\<lparr>ew_stopped := List.insert leaf_id (ew_stopped walk)\<rparr>
      | Some _ \<Rightarrow> walk)"

definition walk_branch ::
  "bitcoin_api \<Rightarrow> node_map \<Rightarrow> tree_node_id \<Rightarrow> observed_index \<Rightarrow> exit_chain_walk \<Rightarrow> exit_chain_walk" where
  "walk_branch api node_map leaf_id observed walk =
     (case map_of node_map leaf_id of
        None \<Rightarrow> walk
      | Some leaf \<Rightarrow>
          (case walk_unilateral_exit_chain node_map leaf of
             Inl _ \<Rightarrow> walk
           | Inr [] \<Rightarrow> walk
           | Inr (root # nodes) \<Rightarrow>
               (case tx_input (tn_node_tx root) of
                  [] \<Rightarrow> walk
                | first # _ \<Rightarrow>
                    (let chain_nodes = root # nodes; deposit = txi_previous_output first in
                     case resume_point_of api chain_nodes observed (ew_pending walk) of
                       (Awaiting, pending) \<Rightarrow> walk\<lparr>ew_pending := pending\<rparr>
                     | (Deposit, pending) \<Rightarrow> walk_nodes api leaf_id observed deposit None chain_nodes (walk\<lparr>ew_pending := pending\<rparr>)
                     | (Below index block_height, pending) \<Rightarrow>
                         (let walk' = walk\<lparr>ew_pending := pending,
                                ew_nodes := fold (\<lambda>(i, node). hm_insert (tn_id node)
                                    (ConfirmedCpfp (if i = index then block_height else None)))
                                  (enumerate 0 (take (Suc index) chain_nodes)) (ew_nodes walk)\<rparr>
                          in if index + 1 \<ge> length chain_nodes then walk'
                             else walk_nodes api leaf_id observed deposit
                                    (Some (compute_txid api (tn_node_tx (chain_nodes ! index)))) (drop (index + 1) chain_nodes) walk')))))"

subsection \<open>Refunds\<close>

definition interpret_refund ::
  "tree_node_id \<Rightarrow> address \<Rightarrow> observed_index \<Rightarrow> exit_chain_walk \<Rightarrow> exit_chain_walk" where
  "interpret_refund leaf_id addr observed walk =
     (let push = (\<lambda>q. walk\<lparr>ew_pending := ew_pending walk @ [q]\<rparr>);
          unverify = walk\<lparr>ew_unverified := List.insert leaf_id (ew_unverified walk)\<rparr>
      in case map_of observed (RefundAddress leaf_id addr) of
        None \<Rightarrow> push (RefundAddress leaf_id addr)
      | Some (AddressUtxos txos) \<Rightarrow>
          (case List.find au_confirmed txos of
             None \<Rightarrow> walk
           | Some txo \<Rightarrow>
               (let refund_outpoint = (au_txid txo, au_vout txo) in
                case map_of observed (Outspend refund_outpoint) of
                  None \<Rightarrow> push (Outspend refund_outpoint)
                | Some spend \<Rightarrow>
                    if (case spend of Spend (Some info) \<Rightarrow> si_confirmed info | _ \<Rightarrow> False)
                    then walk\<lparr>ew_refunds := hm_insert leaf_id Swept (ew_refunds walk)\<rparr>
                    else if spend = Unavailable then unverify
                    else (case map_of observed (QueryTransaction (au_txid txo)) of
                            None \<Rightarrow> push (QueryTransaction (au_txid txo))
                          | Some (FoundTransaction tx) \<Rightarrow>
                              walk\<lparr>ew_refunds := hm_insert leaf_id (Adopted \<lparr>cr_tx = tx, cr_outpoint = refund_outpoint,
                                cr_value = au_value txo, cr_block_height = au_block_height txo\<rparr>) (ew_refunds walk)\<rparr>
                          | Some Unavailable \<Rightarrow> unverify
                          | Some _ \<Rightarrow> walk)))
      | Some Unavailable \<Rightarrow> unverify
      | Some _ \<Rightarrow> walk)"

definition walk_exit_chain ::
  "bitcoin_api \<Rightarrow> node_map \<Rightarrow> tree_node_id list \<Rightarrow> (tree_node_id, address) hash_map \<Rightarrow> observed_index \<Rightarrow> exit_chain_walk" where
  "walk_exit_chain api node_map ids refund_addresses observed =
     fold (\<lambda>(leaf_id, addr). interpret_refund leaf_id addr observed) refund_addresses
       (fold (\<lambda>leaf_id. walk_branch api node_map leaf_id observed) ids exit_chain_walk_default)"

definition leaf_refund_addresses ::
  "(script \<Rightarrow> address option) \<Rightarrow> node_map \<Rightarrow> tree_node_id list \<Rightarrow> (tree_node_id, address) hash_map" where
  "leaf_refund_addresses address_from_script tree_nodes ids =
     fold (\<lambda>leaf_id addresses.
       case (case map_of tree_nodes leaf_id of
               None \<Rightarrow> None
             | Some node \<Rightarrow> (case tn_refund_tx node of
                 None \<Rightarrow> None
               | Some tx \<Rightarrow> (case tx_output tx of [] \<Rightarrow> None | out # _ \<Rightarrow> address_from_script (txo_script_pubkey out)))) of
         None \<Rightarrow> addresses
       | Some addr \<Rightarrow> hm_insert leaf_id addr addresses) ids []"

subsection \<open>The state between a scan and a build\<close>

fun node_state_parts :: "node_state \<Rightarrow> exit_node_confirmation \<times> nat option" where
  "node_state_parts (ConfirmedCpfp h) = (Cpfp, h)"
| "node_state_parts (ConfirmedDirect h) = (Direct, h)"

definition to_confirmed_node :: "tree_node_id \<times> node_state \<Rightarrow> confirmed_exit_node" where
  "to_confirmed_node = (\<lambda>(node_id, state). case node_state_parts state of (by, h) \<Rightarrow>
     \<lparr>cn_node_id = node_id, cn_confirmed_by = by, cn_block_height = h\<rparr>)"

definition to_exit_refund :: "tree_node_id \<times> refund_state \<Rightarrow> exit_refund option" where
  "to_exit_refund = (\<lambda>(leaf_id, state). case state of
       Adopted r \<Rightarrow> Some \<lparr>er_leaf_id = leaf_id,
         er_state = RefundOnChain (cr_tx r) (snd (cr_outpoint r)) (cr_value r) (cr_block_height r)\<rparr>
     | Swept \<Rightarrow> Some \<lparr>er_leaf_id = leaf_id, er_state = RefundSwept\<rparr>
     | DriveDirect \<Rightarrow> None)"

definition scan_exit_chain ::
  "bitcoin_api \<Rightarrow> node_map \<Rightarrow> tree_node_id list \<Rightarrow> (tree_node_id, address) hash_map \<Rightarrow> observation list \<Rightarrow> exit_chain_scan" where
  "scan_exit_chain api tree_nodes ids refund_addresses observed =
     (let walk = walk_exit_chain api tree_nodes ids refund_addresses (observed_index_new observed)
      in \<lparr>es_state = \<lparr>ec_nodes = sort_key cn_node_id (map to_confirmed_node (ew_nodes walk)),
            ec_refunds = sort_key er_leaf_id (List.map_filter to_exit_refund (ew_refunds walk)),
            ec_stopped_leaves = sort (ew_stopped walk), ec_unverified_nodes = sort (ew_unverified walk),
            ec_unverifiable_confirmed_nodes = sort (ew_unverifiable_confirmed walk)\<rparr>,
          es_pending = retain_unseen [] (ew_pending walk)\<rparr>)"

definition restore_node :: "confirmed_exit_node \<Rightarrow> node_state" where
  "restore_node node = (case cn_confirmed_by node of
     Cpfp \<Rightarrow> ConfirmedCpfp (cn_block_height node) | Direct \<Rightarrow> ConfirmedDirect (cn_block_height node))"

definition restore_refund :: "bitcoin_api \<Rightarrow> exit_refund \<Rightarrow> refund_state" where
  "restore_refund api refund = (case er_state refund of
       RefundOnChain tx vout v h \<Rightarrow> Adopted \<lparr>cr_tx = tx, cr_outpoint = (compute_txid api tx, vout), cr_value = v, cr_block_height = h\<rparr>
     | RefundSwept \<Rightarrow> Swept)"

definition restore_exit_chain_walk :: "bitcoin_api \<Rightarrow> exit_chain_state \<Rightarrow> tree_node_id list \<Rightarrow> exit_chain_walk" where
  "restore_exit_chain_walk api state ids =
     (let confirmed = fold (\<lambda>node. hm_insert (cn_node_id node) (cn_confirmed_by node)) (ec_nodes state) [];
          nodes = fold (\<lambda>node. hm_insert (cn_node_id node) (restore_node node)) (ec_nodes state) [];
          stopped = fold List.insert (ec_stopped_leaves state) [];
          direct = fold (\<lambda>leaf_id refunds.
            if leaf_id \<notin> set stopped \<and> map_of confirmed leaf_id = Some Direct then hm_insert leaf_id DriveDirect refunds else refunds)
            ids [];
          refunds = fold (\<lambda>refund. hm_insert (er_leaf_id refund) (restore_refund api refund)) (ec_refunds state) direct
      in \<lparr>ew_nodes = nodes, ew_refunds = refunds, ew_stopped = stopped,
          ew_unverified = fold List.insert (ec_unverified_nodes state) [],
          ew_unverifiable_confirmed = fold List.insert (ec_unverifiable_confirmed_nodes state) [],
          ew_pending = []\<rparr>)"

definition flag_unverifiable_confirmation_branches ::
  "node_map \<Rightarrow> exit_plan \<Rightarrow> tree_node_id list \<Rightarrow> tree_node_id list \<Rightarrow> tree_node_id list" where
  "flag_unverifiable_confirmation_branches node_map plan unverifiable_confirmed unverified =
     fold (\<lambda>(leaf_id, _) unverified.
       case map_of node_map leaf_id of
         None \<Rightarrow> unverified
       | Some leaf \<Rightarrow>
           (case walk_unilateral_exit_chain node_map leaf of
              Inl _ \<Rightarrow> unverified
            | Inr chain \<Rightarrow> if list_ex (\<lambda>n. tn_id n \<in> set unverifiable_confirmed) chain
                           then fold (\<lambda>n. List.insert (tn_id n)) chain unverified else unverified))
       (ep_per_branch_funding plan) unverified"

definition interpret_chain :: "bitcoin_api \<Rightarrow> exit_plan \<Rightarrow> exit_chain_state \<Rightarrow> chain_interpretation" where
  "interpret_chain api plan state =
     (let walk = restore_exit_chain_walk api state (map fst (ep_per_branch_funding plan))
      in \<lparr>in_resolved = \<lparr>re_nodes = ew_nodes walk, re_refunds = ew_refunds walk, re_stopped = ew_stopped walk\<rparr>,
          in_unverified = flag_unverifiable_confirmation_branches (ep_tree_nodes plan) plan
            (ew_unverifiable_confirmed walk) (ew_unverified walk)\<rparr>)"

end
