(* ===== verification/Exit_Build.thy ===== *)
theory Exit_Build
  imports Exit_Scan Token_Model
begin

text \<open>
  Building the transactions of a unilateral exit from its plan and what the chain has already done:
  \<^verbatim>\<open>crates/spark-wallet/src/unilateral_exit.rs\<close>, \<open>build_unilateral_exit\<close> and \<open>build_exit\<close>, with the
  errors of \<^verbatim>\<open>crates/spark-wallet/src/error.rs\<close>. The log output is left out.
\<close>

subsection \<open>Errors\<close>

text \<open>The payloads of errors that come from parts which are not modelled are their messages.\<close>

datatype (plugins only: size) spark_wallet_error =
    WE_ValidationError string | WE_InsufficientFunds | WE_InvalidNetwork | WE_InvalidAddress string
  | WE_InvalidOutputIndex | WE_SelfPaymentNotAllowed | WE_LeavesNotFound | WE_NotADepositOutput
  | WE_SignerServiceError string | WE_DepositAddressUsed | WE_OperatorRpcError string | WE_OperatorPoolError string
  | WE_AddressError string | WE_TreeServiceError tree_service_error | WE_TokenOutputServiceError token_error
  | WE_ServiceError service_error | WE_SspError string | WE_Generic string

text \<open>The \<open>?\<close> operator on a \<open>ServiceError\<close>.\<close>

definition from_service :: "(service_error, 'a) rust_result \<Rightarrow> (spark_wallet_error, 'a) rust_result" where
  "from_service r = (case r of Inl e \<Rightarrow> Inl (WE_ServiceError e) | Inr x \<Rightarrow> Inr x)"

subsection \<open>The transactions of an exit\<close>

datatype exit_tx_kind = KindFanOut | KindNode | KindRefund

datatype exit_tx_status = StatusConfirmed "nat option" | StatusUnconfirmed | StatusUnverified

record exit_tx =
  xt_kind :: exit_tx_kind
  xt_node_id :: "tree_node_id option"
  xt_txid :: txid
  xt_base_tx :: transaction
  xt_to_sign :: "psbt option"
  xt_csv_timelock_blocks :: "nat option"
  xt_depends_on :: "txid list"
  xt_status :: exit_tx_status

record exit_branch =
  xb_leaf_id :: tree_node_id
  xb_txs :: "exit_tx list"

record refund_output =
  ro_outpoint :: bitcoin_outpoint
  ro_leaf_id :: tree_node_id
  ro_value :: u64

record cpfp_change_input =
  ch_outpoint :: bitcoin_outpoint
  ch_witness_utxo :: tx_out
  ch_signed_input_weight :: u64

record unilateral_exit_build =
  ub_fan_out :: "exit_tx option"
  ub_branches :: "exit_branch list"
  ub_refund_outputs :: "refund_output list"
  ub_cpfp_change_inputs :: "cpfp_change_input list"
  ub_recoverable_value_sat :: u64
  ub_cpfp_fee_sat :: u64
  ub_fanout_fee_sat :: u64

subsection \<open>One branch\<close>

text \<open>The variables of the loop over a branch: its own and the ones shared by all branches.\<close>

record drive_state =
  dr_funding :: "cpfp_input list"
  dr_txs :: "exit_tx list"
  dr_fan_out_dep :: "txid option"
  dr_prev_txid :: "txid option"
  dr_leaf_node_txid :: "txid option"
  dr_emitted :: "txid list"
  dr_cpfp_fee_sat :: u64
  dr_refund_outputs :: "refund_output list"
  dr_cpfp_change_inputs :: "cpfp_change_input list"

definition node_base_tx ::
  "node_state option \<Rightarrow> tree_node \<Rightarrow> (spark_wallet_error, transaction) rust_result" where
  "node_base_tx node_state node =
     (case node_state of
        Some (ConfirmedDirect _) \<Rightarrow>
          ok_or (tn_direct_tx node) (WE_Generic (''Node '' @ tn_id node @ '' resolved as direct but has no direct_tx''))
      | _ \<Rightarrow> Inr (tn_node_tx node))"

fun node_status :: "node_state option \<Rightarrow> exit_tx_status" where
  "node_status (Some (ConfirmedCpfp h)) = StatusConfirmed h"
| "node_status (Some (ConfirmedDirect h)) = StatusConfirmed h"
| "node_status None = StatusUnconfirmed"

definition drive_node ::
  "bitcoin_api \<Rightarrow> resolved_exit_state \<Rightarrow> u64 \<Rightarrow> tree_node_id \<Rightarrow> tree_node \<Rightarrow> drive_state
     \<Rightarrow> (spark_wallet_error, drive_state) rust_result" where
  "drive_node api resolved fee_rate leaf_id node st =
     (let node_state = map_of (re_nodes resolved) (tn_id node) in
      qbind (node_base_tx node_state node) (\<lambda>base_tx.
        let node_txid = compute_txid api base_tx;
            parent_txid = dr_prev_txid st;
            st1 = st\<lparr>dr_prev_txid := Some node_txid,
                     dr_leaf_node_txid := (if tn_id node = leaf_id then Some node_txid else dr_leaf_node_txid st)\<rparr>
        in if node_txid \<in> set (dr_emitted st1) then Inr st1
           else let st2 = st1\<lparr>dr_emitted := node_txid # dr_emitted st1\<rparr> in
             qbind (case node_state of
                      Some _ \<Rightarrow> Inr (None, st2)
                    | None \<Rightarrow> qbind (from_service (build_cpfp_child api (tn_node_tx node) (dr_funding st2) fee_rate)) (\<lambda>child.
                        Inr (Some (cc_psbt child), st2\<lparr>dr_cpfp_fee_sat := sat_add (dr_cpfp_fee_sat st2) (cc_fee_sat child),
                                                       dr_funding := [cc_change_input child]\<rparr>))) (\<lambda>(to_sign, st3).
               Inr (st3\<lparr>dr_fan_out_dep := (if to_sign \<noteq> None then None else dr_fan_out_dep st3),
                        dr_txs := dr_txs st3 @ [\<lparr>xt_kind = KindNode, xt_node_id = Some (tn_id node), xt_txid = node_txid,
                          xt_base_tx = base_tx, xt_to_sign = to_sign, xt_csv_timelock_blocks = csv_timelock api base_tx,
                          xt_depends_on = (case parent_txid of None \<Rightarrow> [] | Some p \<Rightarrow> [p])
                            @ (if to_sign \<noteq> None then (case dr_fan_out_dep st3 of None \<Rightarrow> [] | Some fo \<Rightarrow> [fo]) else []),
                          xt_status = node_status node_state\<rparr>]\<rparr>))))"

fun drive_nodes ::
  "bitcoin_api \<Rightarrow> resolved_exit_state \<Rightarrow> u64 \<Rightarrow> tree_node_id \<Rightarrow> tree_node list \<Rightarrow> drive_state
     \<Rightarrow> (spark_wallet_error, drive_state) rust_result" where
  "drive_nodes api resolved fee_rate leaf_id [] st = Inr st"
| "drive_nodes api resolved fee_rate leaf_id (node # nodes) st =
     qbind (drive_node api resolved fee_rate leaf_id node st) (drive_nodes api resolved fee_rate leaf_id nodes)"

definition refund_output_value :: "transaction \<Rightarrow> tree_node_id \<Rightarrow> (spark_wallet_error, u64) rust_result" where
  "refund_output_value refund_tx leaf_id =
     (case tx_output refund_tx of
        [] \<Rightarrow> Inl (WE_Generic (''refund tx for leaf '' @ leaf_id @ '' has no outputs''))
      | out # _ \<Rightarrow> Inr (txo_value out))"

definition push_refund :: "refund_output \<Rightarrow> exit_tx \<Rightarrow> drive_state \<Rightarrow> drive_state" where
  "push_refund out tx st = st\<lparr>dr_refund_outputs := dr_refund_outputs st @ [out], dr_txs := dr_txs st @ [tx]\<rparr>"

definition drive_refund ::
  "bitcoin_api \<Rightarrow> resolved_exit_state \<Rightarrow> u64 \<Rightarrow> tree_node_id \<Rightarrow> tree_node \<Rightarrow> bool \<Rightarrow> drive_state
     \<Rightarrow> (spark_wallet_error, drive_state) rust_result" where
  "drive_refund api resolved fee_rate leaf_id leaf stopped st =
     (case map_of (re_refunds resolved) leaf_id of
        Some (Adopted adopted) \<Rightarrow>
          Inr (push_refund \<lparr>ro_outpoint = cr_outpoint adopted, ro_leaf_id = leaf_id, ro_value = cr_value adopted\<rparr>
            \<lparr>xt_kind = KindRefund, xt_node_id = Some leaf_id, xt_txid = fst (cr_outpoint adopted), xt_base_tx = cr_tx adopted,
             xt_to_sign = None, xt_csv_timelock_blocks = csv_timelock api (cr_tx adopted), xt_depends_on = [],
             xt_status = StatusConfirmed (cr_block_height adopted)\<rparr> st)
      | Some DriveDirect \<Rightarrow>
          qbind (ok_or (tn_direct_refund_tx leaf) (WE_Generic (''Leaf '' @ leaf_id @ '' went direct but has no direct_refund_tx'')))
            (\<lambda>direct_refund.
          qbind (refund_output_value direct_refund leaf_id) (\<lambda>refund_value.
            Inr (push_refund \<lparr>ro_outpoint = (compute_txid api direct_refund, 0), ro_leaf_id = leaf_id, ro_value = refund_value\<rparr>
              \<lparr>xt_kind = KindRefund, xt_node_id = Some leaf_id, xt_txid = compute_txid api direct_refund, xt_base_tx = direct_refund,
               xt_to_sign = None, xt_csv_timelock_blocks = csv_timelock api direct_refund,
               xt_depends_on = (case dr_leaf_node_txid st of None \<Rightarrow> [] | Some t \<Rightarrow> [t]), xt_status = StatusUnconfirmed\<rparr> st)))
      | Some Swept \<Rightarrow> Inr st
      | None \<Rightarrow>
          if stopped then Inr st
          else
            qbind (ok_or (tn_refund_tx leaf) (WE_Generic (''Leaf '' @ leaf_id @ '' cannot be exited: no refund transaction''))) (\<lambda>refund_tx.
            qbind (refund_output_value refund_tx leaf_id) (\<lambda>refund_value.
            qbind (from_service (build_cpfp_child api refund_tx (dr_funding st) fee_rate)) (\<lambda>child.
              Inr (push_refund \<lparr>ro_outpoint = (compute_txid api refund_tx, 0), ro_leaf_id = leaf_id, ro_value = refund_value\<rparr>
                \<lparr>xt_kind = KindRefund, xt_node_id = Some leaf_id, xt_txid = compute_txid api refund_tx, xt_base_tx = refund_tx,
                 xt_to_sign = Some (cc_psbt child), xt_csv_timelock_blocks = csv_timelock api refund_tx,
                 xt_depends_on = (case dr_leaf_node_txid st of None \<Rightarrow> [] | Some t \<Rightarrow> [t])
                   @ (case dr_fan_out_dep st of None \<Rightarrow> [] | Some fo \<Rightarrow> [fo]),
                 xt_status = StatusUnconfirmed\<rparr>
                (st\<lparr>dr_cpfp_fee_sat := sat_add (dr_cpfp_fee_sat st) (cc_fee_sat child),
                    dr_fan_out_dep := None,
                    dr_cpfp_change_inputs := dr_cpfp_change_inputs st @
                      [\<lparr>ch_outpoint = ci_outpoint (cc_change_input child), ch_witness_utxo = ci_witness_utxo (cc_change_input child),
                        ch_signed_input_weight = ci_signed_input_weight (cc_change_input child)\<rparr>]\<rparr>))))))"

text \<open>The variables that outlive a branch.\<close>

record build_state =
  bs_emitted :: "txid list"
  bs_branches :: "exit_branch list"
  bs_refund_outputs :: "refund_output list"
  bs_cpfp_change_inputs :: "cpfp_change_input list"
  bs_cpfp_fee_sat :: u64

definition build_branch ::
  "bitcoin_api \<Rightarrow> node_map \<Rightarrow> resolved_exit_state \<Rightarrow> u64 \<Rightarrow> txid option \<Rightarrow> tree_node_id \<times> cpfp_input list \<Rightarrow> build_state
     \<Rightarrow> (spark_wallet_error, build_state) rust_result" where
  "build_branch api node_map resolved fee_rate fan_out_txid lf bs =
     (case lf of (leaf_id, branch_funding) \<Rightarrow>
        qbind (ok_or (map_of node_map leaf_id) (WE_Generic (''Leaf '' @ leaf_id @ '' missing from exit plan''))) (\<lambda>leaf.
        qbind (case walk_unilateral_exit_chain node_map leaf of
                 Inl missing \<Rightarrow> Inl (WE_Generic (''Incomplete ancestor chain for leaf '' @ leaf_id @ '': parent '' @ missing @ '' missing''))
               | Inr chain \<Rightarrow> Inr chain) (\<lambda>chain.
          let stopped = (leaf_id \<in> set (re_stopped resolved));
              st0 = \<lparr>dr_funding = branch_funding, dr_txs = [], dr_fan_out_dep = fan_out_txid, dr_prev_txid = None,
                     dr_leaf_node_txid = None, dr_emitted = bs_emitted bs, dr_cpfp_fee_sat = bs_cpfp_fee_sat bs,
                     dr_refund_outputs = bs_refund_outputs bs, dr_cpfp_change_inputs = bs_cpfp_change_inputs bs\<rparr>
          in qbind (if stopped then Inr st0 else drive_nodes api resolved fee_rate leaf_id chain st0) (\<lambda>st1.
             qbind (drive_refund api resolved fee_rate leaf_id leaf stopped st1) (\<lambda>st2.
               Inr \<lparr>bs_emitted = dr_emitted st2,
                    bs_branches = bs_branches bs @ [\<lparr>xb_leaf_id = leaf_id, xb_txs = dr_txs st2\<rparr>],
                    bs_refund_outputs = dr_refund_outputs st2, bs_cpfp_change_inputs = dr_cpfp_change_inputs st2,
                    bs_cpfp_fee_sat = dr_cpfp_fee_sat st2\<rparr>)))))"

fun build_branches ::
  "bitcoin_api \<Rightarrow> node_map \<Rightarrow> resolved_exit_state \<Rightarrow> u64 \<Rightarrow> txid option \<Rightarrow> (tree_node_id \<times> cpfp_input list) list \<Rightarrow> build_state
     \<Rightarrow> (spark_wallet_error, build_state) rust_result" where
  "build_branches api node_map resolved fee_rate fan_out_txid [] bs = Inr bs"
| "build_branches api node_map resolved fee_rate fan_out_txid (lf # lfs) bs =
     qbind (build_branch api node_map resolved fee_rate fan_out_txid lf bs)
       (build_branches api node_map resolved fee_rate fan_out_txid lfs)"

subsection \<open>The whole exit\<close>

definition fresh_fan_out_fee :: "exit_plan \<Rightarrow> exit_tx option \<Rightarrow> u64" where
  "fresh_fan_out_fee plan fan_out =
     (case (ep_fan_out_psbt plan, fan_out) of
        (Some p, Some fo) \<Rightarrow>
          if xt_to_sign fo = None then 0
          else sat_sum (map txo_value (List.map_filter psi_witness_utxo (ps_inputs p)))
             - sat_sum (map txo_value (tx_output (xt_base_tx fo)))
      | _ \<Rightarrow> 0)"

definition plan_fan_out :: "bitcoin_api \<Rightarrow> exit_plan \<Rightarrow> exit_tx option" where
  "plan_fan_out api plan = map_option (\<lambda>p. \<lparr>xt_kind = KindFanOut, xt_node_id = None, xt_txid = compute_txid api (ps_unsigned_tx p),
     xt_base_tx = ps_unsigned_tx p, xt_to_sign = Some p, xt_csv_timelock_blocks = None, xt_depends_on = [],
     xt_status = StatusUnconfirmed\<rparr>) (ep_fan_out_psbt plan)"

definition build_exit ::
  "bitcoin_api \<Rightarrow> exit_plan \<Rightarrow> resolved_exit_state \<Rightarrow> u64 \<Rightarrow> (spark_wallet_error, unilateral_exit_build) rust_result" where
  "build_exit api plan resolved fee_rate =
     (let fan_out = plan_fan_out api plan in
      qbind (build_branches api (ep_tree_nodes plan) resolved fee_rate (map_option xt_txid fan_out) (ep_per_branch_funding plan)
               \<lparr>bs_emitted = [], bs_branches = [], bs_refund_outputs = [], bs_cpfp_change_inputs = [], bs_cpfp_fee_sat = 0\<rparr>) (\<lambda>bs.
        Inr \<lparr>ub_fan_out = fan_out, ub_branches = bs_branches bs, ub_refund_outputs = bs_refund_outputs bs,
             ub_cpfp_change_inputs = bs_cpfp_change_inputs bs,
             ub_recoverable_value_sat = sat_sum (map sel_value (ep_selected_leaves plan)),
             ub_cpfp_fee_sat = bs_cpfp_fee_sat bs, ub_fanout_fee_sat = fresh_fan_out_fee plan fan_out\<rparr>))"

definition flag_unverified_tx :: "tree_node_id list \<Rightarrow> exit_tx \<Rightarrow> exit_tx" where
  "flag_unverified_tx unverified tx =
     (if xt_status tx = StatusUnconfirmed \<and> (case xt_node_id tx of None \<Rightarrow> False | Some i \<Rightarrow> i \<in> set unverified)
      then tx\<lparr>xt_status := StatusUnverified\<rparr> else tx)"

definition flag_unverified_txs :: "unilateral_exit_build \<Rightarrow> chain_interpretation \<Rightarrow> unilateral_exit_build" where
  "flag_unverified_txs build interpretation =
     build\<lparr>ub_branches := map (\<lambda>b. b\<lparr>xb_txs := map (flag_unverified_tx (in_unverified interpretation)) (xb_txs b)\<rparr>) (ub_branches build)\<rparr>"

definition build_unilateral_exit ::
  "bitcoin_api \<Rightarrow> exit_plan \<Rightarrow> exit_chain_state \<Rightarrow> u64 \<Rightarrow> (spark_wallet_error, unilateral_exit_build) rust_result" where
  "build_unilateral_exit api plan state fee_rate =
     (let interpretation = interpret_chain api plan state in
      qbind (build_exit api plan (in_resolved interpretation) fee_rate) (\<lambda>build.
        Inr (flag_unverified_txs build interpretation)))"

end
