(* ===== verification/Exit_Plan_Props.thy ===== *)
theory Exit_Plan_Props
  imports Exit_Plan
begin

text \<open>
  Properties of the exit planner: the walk to the root, the selection of leaves and their costs,
  the assignment of inputs to branches, and the fan-out.
\<close>

subsection \<open>Saturating arithmetic\<close>

lemma sat_add_small [arith64]: "a + b < 2 ^ 64 \<Longrightarrow> sat_add a b = a + b"
  by (simp add: sat_add_def u64_max_def)

lemma sat_add_le_max [simp]: "sat_add a b \<le> u64_max"
  by (simp add: sat_add_def)

lemma sat_add_0 [simp]: "a \<le> u64_max \<Longrightarrow> sat_add a 0 = a" "b \<le> u64_max \<Longrightarrow> sat_add 0 b = b"
  by (simp_all add: sat_add_def)

lemma fold_sat_add: "fold (\<lambda>x acc. sat_add acc x) xs (min u64_max n) = min u64_max (n + sum_list xs)"
proof (induction xs arbitrary: n)
  case (Cons x xs)
  have "sat_add (min u64_max n) x = min u64_max (n + x)" by (simp add: sat_add_def)
  with Cons [of "n + x"] show ?case by (simp add: add.assoc)
qed simp

lemma sat_sum_min: "sat_sum xs = min u64_max (sum_list xs)"
  using fold_sat_add [of xs 0] by (simp add: sat_sum_def)

lemma sat_sum_small [arith64]: "sum_list xs < 2 ^ 64 \<Longrightarrow> sat_sum xs = sum_list xs"
  by (simp add: sat_sum_min u64_max_def)

lemma sat_sum_snoc: "sat_sum (xs @ [x]) = sat_add (sat_sum xs) x"
  by (simp add: sat_sum_def)

subsection \<open>Assigning inputs\<close>

lemma take_until_spec:
  assumes "take_until required left_after acc assigned remaining = Some (as', rem')"
    and "acc = sat_sum (map ci_value assigned)"
  shows "\<exists>xs. as' = assigned @ xs \<and> remaining = xs @ rem' \<and> required \<le> sat_sum (map ci_value as')
    \<and> (required > 0 \<longrightarrow> as' \<noteq> [])"
  using assms
proof (induction required left_after acc assigned remaining rule: take_until.induct)
  case (1 required left_after acc assigned remaining)
  show ?case
  proof (cases "acc < required")
    case False
    with 1(2,3) show ?thesis by (auto simp: take_until.simps sat_sum_def)
  next
    case True
    with 1(2) obtain input rest where r: "remaining = input # rest" "\<not> length remaining \<le> left_after"
        and run: "take_until required left_after (sat_add acc (ci_value input)) (assigned @ [input]) rest = Some (as', rem')"
      by (auto simp: take_until.simps [of required left_after acc assigned remaining] split: if_splits list.splits)
    have "sat_add acc (ci_value input) = sat_sum (map ci_value (assigned @ [input]))" by (simp add: 1(3) sat_sum_snoc)
    from 1(1) [OF True r(2,1) run this] obtain xs where
        "as' = (assigned @ [input]) @ xs" "rest = xs @ rem'" "required \<le> sat_sum (map ci_value as')" by blast
    then show ?thesis by (intro exI [of _ "input # xs"]) (simp add: r)
  qed
qed

lemma assign_loop_spec:
  assumes "assign_loop dust leaves remaining m = Some m'"
  shows "\<exists>as. list_all2 (\<lambda>l ins. branch_required_funding l dust \<le> sat_sum (map ci_value ins)) leaves as
    \<and> mset (concat as) \<subseteq># mset remaining \<and> m' = fold (\<lambda>(l, a) m. hm_insert (sel_id l) a m) (zip leaves as) m"
  using assms
proof (induction dust leaves remaining m rule: assign_loop.induct)
  case (2 dust leaf leaves remaining m)
  from 2(2) obtain a rem' where t: "take_until (branch_required_funding leaf dust) (length leaves) 0 [] remaining = Some (a, rem')"
      and run: "assign_loop dust leaves rem' (hm_insert (sel_id leaf) a m) = Some m'"
    by (auto split: option.splits)
  have "remaining = a @ rem'" "branch_required_funding leaf dust \<le> sat_sum (map ci_value a)"
    using take_until_spec [OF t] by (auto simp: sat_sum_def)
  moreover obtain as where "list_all2 (\<lambda>l ins. branch_required_funding l dust \<le> sat_sum (map ci_value ins)) leaves as"
      "mset (concat as) \<subseteq># mset rem'" "m' = fold (\<lambda>(l, a) m. hm_insert (sel_id l) a m) (zip leaves as) (hm_insert (sel_id leaf) a m)"
    using 2(1) [OF t refl run] by blast
  ultimately show ?case by (intro exI [of _ "a # as"]) (simp add: subset_mset.add_left_mono)
qed simp

lemma fold_insert_lookup:
  assumes "length ls = length as" and "distinct (map k ls)"
  shows "map_of (fold (\<lambda>(l, a) m. hm_insert (k l) a m) (zip ls as) m) i
    = (case map_of (zip (map k ls) as) i of None \<Rightarrow> map_of m i | Some a \<Rightarrow> Some a)"
  using assms
proof (induction ls as arbitrary: m rule: list_induct2)
  case (Cons l ls a as)
  have n: "map_of (zip (map k ls) as) (k l) = None" using Cons.prems Cons.hyps by (simp add: map_of_zip_is_None)
  have d: "distinct (map k ls)" using Cons.prems by simp
  show ?case
  proof (cases "i = k l")
    case True
    with Cons.IH [OF d, of "hm_insert (k l) a m"] n show ?thesis by (simp add: update_conv')
  next
    case False
    with Cons.IH [OF d, of "hm_insert (k l) a m"] show ?thesis by (simp add: update_conv' split: option.splits)
  qed
qed simp

lemma collect_assigned_lookup:
  assumes "distinct (map sel_id selected)"
  shows "collect_assigned selected m
    = map (\<lambda>l. (sel_id l, case map_of m (sel_id l) of None \<Rightarrow> [] | Some ins \<Rightarrow> ins)) selected"
  using assms
proof (induction selected arbitrary: m)
  case (Cons l ls)
  have "sel_id l' \<noteq> sel_id l" if "l' \<in> set ls" for l'
    using Cons.prems that by (auto intro: rev_image_eqI)
  with Cons show ?case by (auto simp: delete_conv')
qed simp

lemma mset_concat_map: "mset (concat (map f xs)) = sum_mset (image_mset (\<lambda>x. mset (f x)) (mset xs))"
  by (induction xs) simp_all

lemma assign_inputs_spec:
  assumes "assign_inputs_to_leaves inputs selected dust = Some a" and "distinct (map sel_id selected)"
  shows "map fst a = map sel_id selected \<and> mset (concat (map snd a)) \<subseteq># mset inputs
    \<and> list_all2 (\<lambda>l (_, ins). branch_required_funding l dust \<le> sat_sum (map ci_value ins)) selected a"
proof -
  let ?sl = "sort_key (\<lambda>l. (- int (sel_estimated_cost l), sel_id l)) selected"
  let ?si = "sort_key (\<lambda>i. (- int (ci_value i), ci_outpoint i)) inputs"
  obtain m where m: "assign_loop dust ?sl ?si [] = Some m" and a: "a = collect_assigned selected m"
    using assms(1) by (auto simp: assign_inputs_to_leaves_def split: if_splits)
  obtain as where as: "list_all2 (\<lambda>l ins. branch_required_funding l dust \<le> sat_sum (map ci_value ins)) ?sl as"
      "mset (concat as) \<subseteq># mset ?si" "m = fold (\<lambda>(l, a) m. hm_insert (sel_id l) a m) (zip ?sl as) []"
    using assign_loop_spec [OF m] by blast
  have len: "length ?sl = length as" using as(1) by (rule list_all2_lengthD)
  have d: "distinct (map sel_id ?sl)" using assms(2) by (simp add: distinct_map)
  define f where "f l = (case map_of m (sel_id l) of None \<Rightarrow> [] | Some ins \<Rightarrow> ins)" for l :: selected_leaf
  have f: "f (?sl ! i) = as ! i" if "i < length as" for i
  proof -
    have "map_of (zip (map sel_id ?sl) as) (map sel_id ?sl ! i) = Some (as ! i)"
      using that len d by (intro map_of_zip_nth) simp_all
    then show ?thesis using that len fold_insert_lookup [OF len d] by (simp add: f_def as(3))
  qed
  have as_eq: "as = map f ?sl" using f len by (intro nth_equalityI) simp_all
  have "a = map (\<lambda>l. (sel_id l, f l)) selected" unfolding a collect_assigned_lookup [OF assms(2)] f_def ..
  moreover have "mset (concat (map f selected)) = mset (concat as)" 
    unfolding as_eq mset_concat_map mset_sort ..
  moreover have "\<forall>l \<in> set selected. branch_required_funding l dust \<le> sat_sum (map ci_value (f l))"
    using as(1) unfolding as_eq by (simp add: list_all2_map2 list_all2_same)
  ultimately show ?thesis using as(2) by (simp add: comp_def list_all2_map2 list_all2_same)
qed

text \<open>When the inputs can be split over the branches, they are: every branch, in the order of the
  selected leaves, gets inputs worth what it needs (its exit cost and a change output above dust),
  and no input is given out twice.\<close>

theorem assign_inputs_partition:
  assumes "assign_inputs_to_leaves inputs selected dust = Some a" and "distinct (map sel_id selected)"
  shows "map fst a = map sel_id selected \<and> mset (concat (map snd a)) \<subseteq># mset inputs
    \<and> list_all2 (\<lambda>l (_, ins). branch_required_funding l dust \<le> sat_sum (map ci_value ins)) selected a"
  using assign_inputs_spec [OF assms] by blast


definition example_input :: "txid \<Rightarrow> u64 \<Rightarrow> cpfp_input" where
  "example_input tid v = \<lparr>ci_outpoint = (tid, 0), ci_witness_utxo = \<lparr>txo_value = v, txo_script_pubkey = ''me''\<rparr>,
     ci_signed_input_weight = 230\<rparr>"

lemma example_input_simps [simp]: "ci_value (example_input tid v) = v" "ci_outpoint (example_input tid v) = (tid, 0)"
  "ci_signed_input_weight (example_input tid v) = 230" "ci_script (example_input tid v) = ''me''"
  by (simp_all add: example_input_def)

definition example_selected :: "tree_node_id \<Rightarrow> u64 \<Rightarrow> u64 \<Rightarrow> selected_leaf" where
  "example_selected i v c = \<lparr>sel_id = i, sel_value = v, sel_estimated_cost = c, sel_cpfp_cost = c\<rparr>"

lemma example_selected_simps [simp]: "sel_id (example_selected i v c) = i" "sel_estimated_cost (example_selected i v c) = c"
  by (simp_all add: example_selected_def)

lemma assign_inputs_partition_witness:
  "assign_inputs_to_leaves [example_input ''x'' 5, example_input ''y'' 30] [example_selected ''a'' 90 3, example_selected ''b'' 80 20] 1
     = Some [(''a'', [example_input ''x'' 5]), (''b'', [example_input ''y'' 30])]
   \<and> mset [example_input ''x'' 5, example_input ''y'' 30] \<subseteq># mset [example_input ''x'' 5, example_input ''y'' 30]"
proof -
  have run: "assign_inputs_to_leaves [example_input ''x'' 5, example_input ''y'' 30]
      [example_selected ''a'' 90 3, example_selected ''b'' 80 20] 1
     = Some [(''a'', [example_input ''x'' 5]), (''b'', [example_input ''y'' 30])]"
    by (simp add: assign_inputs_to_leaves_def take_until.simps branch_required_funding_def sat_add_def u64_max_def)
  from assign_inputs_partition [OF run] run show ?thesis by simp
qed

subsection \<open>The fan-out\<close>

lemma shares_le:
  fixes s :: nat
  assumes "0 < C"
  shows "C * sum_list (map (\<lambda>l. s * f l div C) ls) \<le> s * sum_list (map f ls)"
proof (induction ls)
  case (Cons l ls)
  have "C * (s * f l div C) + C * sum_list (map (\<lambda>l. s * f l div C) ls) \<le> s * f l + s * sum_list (map f ls)"
    by (rule add_mono [OF _ Cons]) simp
  then show ?case by (simp add: distrib_left)
qed simp

lemma sum_list_map2_add:
  "length xs = length ys \<Longrightarrow> sum_list (map2 (+) xs ys) = sum_list xs + (sum_list ys :: nat)"
  by (induction xs ys rule: list_induct2) simp_all

lemma surplus_shares:
  assumes "surplus \<le> u64_max" and "sum_list (map sel_estimated_cost selected) < 2 ^ 128"
  shows "sum_list (map (surplus_share surplus (sum_u128 (map sel_estimated_cost selected))) selected) \<le> surplus"
proof (cases "sum_list (map sel_estimated_cost selected) = 0")
  case True
  then show ?thesis using assms(2) by (simp add: surplus_share_def sum_u128_small cong: map_cong)
next
  case False
  let ?C = "sum_list (map sel_estimated_cost selected)"
  have "surplus_share surplus (sum_u128 (map sel_estimated_cost selected)) l \<le> surplus * sel_estimated_cost l div ?C" for l
    using assms(2) False by (simp add: surplus_share_def sum_u128_small Let_def)
  then have "sum_list (map (surplus_share surplus (sum_u128 (map sel_estimated_cost selected))) selected)
      \<le> sum_list (map (\<lambda>l. surplus * sel_estimated_cost l div ?C) selected)"
    by (intro sum_list_mono)
  also have "\<dots> \<le> surplus"
    using shares_le [of ?C surplus sel_estimated_cost selected] False by (metis mult.commute mult_le_cancel1 neq0_conv)
  finally show ?thesis .
qed

lemma map2_sat_add:
  assumes "length xs = length ys" and "sum_list xs + sum_list ys < 2 ^ 64"
  shows "map2 sat_add xs ys = map2 (+) xs ys"
  using assms by (induction xs ys rule: list_induct2) (simp_all add: sat_add_small)

lemma fan_out_values_conserve:
  assumes "length per_leaf = length selected" and "selected \<noteq> []" and "sum_list per_leaf + surplus < 2 ^ 64"
    and "sum_list (map sel_estimated_cost selected) < 2 ^ 128"
  shows "sum_list (fan_out_values surplus per_leaf selected) = sum_list per_leaf + surplus"
    and "list_all2 (\<le>) per_leaf (fan_out_values surplus per_leaf selected)"
proof -
  define shares where "shares = map (surplus_share surplus (sum_u128 (map sel_estimated_cost selected))) selected"
  have len: "length per_leaf = length shares" using assms(1) by (simp add: shares_def)
  have sh: "sum_list shares \<le> surplus" unfolding shares_def using assms(3,4) by (intro surplus_shares) (simp_all add: u64_max_def)
  have m2: "map2 sat_add per_leaf shares = map2 (+) per_leaf shares" using len sh assms(3) by (intro map2_sat_add) simp_all
  let ?ov = "map2 (+) per_leaf shares"
  have ov: "sum_list ?ov = sum_list per_leaf + sum_list shares" by (rule sum_list_map2_add [OF len])
  obtain v vs where vs: "?ov = v # vs" using len assms(1,2) by (cases per_leaf; cases shares) auto
  have "v + (surplus - sum_list shares) < 2 ^ 64" using ov vs sh assms(3) by simp
  then have s: "sat_add v (surplus - sum_list shares) = v + (surplus - sum_list shares)" by (rule sat_add_small)
  have ss: "sat_sum shares = sum_list shares" using sh assms(3) by (intro sat_sum_small) simp
  have eq: "fan_out_values surplus per_leaf selected = (if surplus > 0 then (v + (surplus - sum_list shares)) # vs else per_leaf)"
    using vs s ss m2 by (simp add: fan_out_values_def Let_def flip: shares_def)
  show "sum_list (fan_out_values surplus per_leaf selected) = sum_list per_leaf + surplus"
    using eq ov vs sh by auto
  have "list_all2 (\<le>) per_leaf ?ov" using len by (induction per_leaf shares rule: list_induct2) simp_all
  then have "list_all2 (\<le>) per_leaf (v # vs)" using vs by simp
  then show "list_all2 (\<le>) per_leaf (fan_out_values surplus per_leaf selected)"
    unfolding eq by (cases per_leaf) (auto simp: list.rel_refl)
qed

lemma fan_out_spec:
  assumes "build_fan_out_psbt api inputs selected fee_rate dust = Inr (p, per_leaf)"
    and "sum_list (map ci_value inputs) < 2 ^ 64 - 1"
    and "sum_list (map sel_estimated_cost selected) < 2 ^ 128"
  shows "sum_list (map (\<lambda>(_, i). ci_value i) per_leaf)
      + fan_out_fee api (sat_sum (map ci_signed_input_weight inputs)) (length (ci_script (hd inputs))) (length selected) fee_rate
      = sum_list (map ci_value inputs)
    \<and> list_all2 (\<lambda>l (i, input). i = sel_id l \<and> branch_required_funding l dust \<le> ci_value input) selected per_leaf
    \<and> list_all (\<lambda>(_, i). ci_script i = ci_script (hd inputs) \<and> ci_signed_input_weight i = ci_signed_input_weight (hd inputs)) per_leaf"
proof -
  obtain first rest where inputs: "inputs = first # rest" using assms(1) by (cases inputs) (simp_all add: build_fan_out_psbt_def)
  let ?req = "map (\<lambda>l. branch_required_funding l dust) selected"
  let ?fee = "fan_out_fee api (sat_sum (map ci_signed_input_weight inputs)) (length (ci_script first)) (length selected) fee_rate"
  have tot: "sat_sum (map ci_value inputs) = sum_list (map ci_value inputs)" using assms(2) by (intro sat_sum_small) simp
  have sel: "selected \<noteq> []" using assms(1) by (auto simp: build_fan_out_psbt_def inputs)
  have enough: "sat_add (sat_sum ?req) ?fee \<le> sum_list (map ci_value inputs)"
    using assms(1) tot by (auto simp: build_fan_out_psbt_def inputs Let_def split: if_splits)
  then have fits: "sum_list ?req + ?fee \<le> sum_list (map ci_value inputs)"
    using assms(2) by (simp add: sat_sum_min sat_add_def u64_max_def)
  define ov where "ov = fan_out_values (sum_list (map ci_value inputs) - sum_list ?req - ?fee) ?req selected"
  have len: "length ov = length selected"
    by (simp add: ov_def fan_out_values_def Let_def)
  have "sat_sum ?req = sum_list ?req" using fits assms(2) by (intro sat_sum_small) simp
  then obtain tx where pl: "per_leaf = map (\<lambda>(idx, leaf). (sel_id leaf,
       \<lparr>ci_outpoint = (compute_txid api tx, idx mod 2 ^ 32),
        ci_witness_utxo = \<lparr>txo_value = ov ! idx, txo_script_pubkey = ci_script first\<rparr>,
        ci_signed_input_weight = ci_signed_input_weight first\<rparr>)) (enumerate 0 selected)"
    using assms(1) tot unfolding ov_def by (auto simp: build_fan_out_psbt_def inputs Let_def split: if_splits sum.splits)
  have "map (\<lambda>(_, i). ci_value i) per_leaf = ov"
    using len by (intro nth_equalityI) (simp_all add: pl case_prod_unfold nth_enumerate_eq)
  moreover have "sum_list ov = sum_list ?req + (sum_list (map ci_value inputs) - sum_list ?req - ?fee)"
    unfolding ov_def using fits assms(2,3) sel by (intro fan_out_values_conserve(1)) simp_all
  moreover have "list_all2 (\<le>) ?req ov"
    unfolding ov_def using fits assms(2,3) sel by (intro fan_out_values_conserve(2)) simp_all
  then have "list_all2 (\<lambda>l (i, input). i = sel_id l \<and> branch_required_funding l dust \<le> ci_value input) selected per_leaf"
    using len by (simp add: list_all2_conv_all_nth pl case_prod_unfold nth_enumerate_eq)
  moreover have "list_all (\<lambda>(_, i). ci_script i = ci_script first \<and> ci_signed_input_weight i = ci_signed_input_weight first) per_leaf"
    unfolding pl by (auto simp: list_all_iff)
  ultimately show ?thesis using fits by (simp add: inputs)
qed

text \<open>The fan-out neither creates nor loses value: its outputs and its fee add up to exactly the
  inputs, and every branch gets at least what it needs, so no change output is necessary.\<close>

theorem fan_out_conserves_value:
  assumes "build_fan_out_psbt api inputs selected fee_rate dust = Inr (p, per_leaf)"
    and "sum_list (map ci_value inputs) < 2 ^ 64 - 1"
    and "sum_list (map sel_estimated_cost selected) < 2 ^ 128"
  shows "sum_list (map (\<lambda>(_, i). ci_value i) per_leaf)
      + fan_out_fee api (sat_sum (map ci_signed_input_weight inputs)) (length (ci_script (hd inputs))) (length selected) fee_rate
      = sum_list (map ci_value inputs)
    \<and> list_all2 (\<lambda>l (i, input). i = sel_id l \<and> branch_required_funding l dust \<le> ci_value input) selected per_leaf"
  using fan_out_spec [OF assms] by blast


text \<open>A concrete stand-in for the bitcoin crate, for the witnesses.\<close>

definition example_api :: bitcoin_api where
  "example_api = \<lparr>compute_txid = (\<lambda>tx. ''tx '' @ concat (map (fst \<circ> txi_previous_output) (tx_input tx))),
     tx_weight = (\<lambda>tx. 40 + 400 * length (tx_input tx)),
     tx_in_segwit_weight = (\<lambda>i. 164 + sum_list (map length (txi_witness i))),
     tx_out_weight = (\<lambda>out. 36 + 4 * length (txo_script_pubkey out)),
     minimal_non_dust = (\<lambda>_. 300),
     from_unsigned_tx = (\<lambda>tx. Inr \<lparr>ps_unsigned_tx = tx, ps_inputs = replicate (length (tx_input tx)) \<lparr>psi_witness_utxo = None\<rparr>\<rparr>),
     to_relative_blocks = (\<lambda>_. None), schnorr_signature_size = 64, max_signature_size = 72, public_key_size = 33\<rparr>"

lemma example_weights [simp]:
  "tx_overhead_weight example_api = 40" "anchor_input_weight example_api = 164"
  "p2tr_key_path_input_weight example_api = 228" "output_weight example_api n = 36 + 4 * n"
  "minimal_non_dust example_api sc = 300"
  by (simp_all add: example_api_def tx_overhead_weight_def anchor_input_weight_def p2tr_key_path_input_weight_def
      input_segwit_weight_def output_weight_def)

lemma fan_out_conserves_value_witness:
  "\<exists>p per_leaf. build_fan_out_psbt example_api [example_input ''x'' 3000] [example_selected ''a'' 900 300, example_selected ''b'' 800 100] 250 300
      = Inr (p, per_leaf)
    \<and> sum_list (map (\<lambda>(_, i). ci_value i) per_leaf) + fan_out_fee example_api 230 (length ''me'') (length [''a'', ''b'']) 250 = 3000"
proof -
  obtain p per_leaf where run: "build_fan_out_psbt example_api [example_input ''x'' 3000]
      [example_selected ''a'' 900 300, example_selected ''b'' 800 100] 250 300 = Inr (p, per_leaf)"
    by (simp add: build_fan_out_psbt_def Let_def branch_required_funding_def sat_sum_def sat_add_def u64_max_def
        fan_out_fee_def fan_out_weight_def fee_sat_def div_ceil_def sat_mul_def add_u64_def wrap64_def, simp add: example_api_def)
  from fan_out_conserves_value [OF run] run show ?thesis
    by (auto simp: sat_sum_def sat_add_def u64_max_def)
qed

subsection \<open>Costs\<close>

lemma sat_mul_mono: "a \<le> b \<Longrightarrow> sat_mul c a \<le> sat_mul c b"
  unfolding sat_mul_def by (rule min.mono) simp_all

lemma div_ceil_le_iff:
  assumes "0 < b"
  shows "div_ceil a b \<le> c \<longleftrightarrow> a \<le> c * b"
proof -
  have a: "a = a div b * b + a mod b" by simp
  have r: "a mod b < b" using assms by simp
  show ?thesis
  proof (cases "a mod b = 0")
    case True
    with a have "a \<le> c * b \<longleftrightarrow> a div b * b \<le> c * b" by simp
    with True assms show ?thesis by (simp add: div_ceil_def)
  next
    case False
    have "a \<le> c * b \<longleftrightarrow> a div b < c"
    proof
      assume "a \<le> c * b"
      with a False have "a div b * b < c * b" by linarith
      then show "a div b < c" by simp
    next
      assume "a div b < c"
      then have "Suc (a div b) * b \<le> c * b" by (intro mult_le_mono1) simp
      moreover have "Suc (a div b) * b = b + a div b * b" by simp
      ultimately show "a \<le> c * b" using a r by linarith
    qed
    with False show ?thesis by (simp add: div_ceil_def less_eq_Suc_le)
  qed
qed

lemma div_ceil_mono: "a \<le> b \<Longrightarrow> div_ceil a 1000 \<le> div_ceil b 1000"
  using div_ceil_le_iff [of 1000 a "div_ceil b 1000"] div_ceil_le_iff [of 1000 b "div_ceil b 1000"] by simp

lemma fee_sat_mono: "a \<le> b \<Longrightarrow> fee_sat r a \<le> fee_sat r b"
  by (simp add: fee_sat_def div_ceil_mono sat_mul_mono)

text \<open>The cost of the \<open>i\<close>-th selected leaf: its own package fees, and what it adds to the sweep.\<close>

lemma evaluate_loop_costs:
  assumes "evaluate_loop api nodes params flt oc selected covered leaves = Inr res"
    and "\<forall>i < length selected. sel_estimated_cost (selected ! i) = sat_add (sel_cpfp_cost (selected ! i)) (leaf_sweep_cost api params i)"
  shows "\<forall>i < length res. sel_estimated_cost (res ! i) = sat_add (sel_cpfp_cost (res ! i)) (leaf_sweep_cost api params i)"
  using assms
proof (induction api nodes params flt oc selected covered leaves rule: evaluate_loop.induct)
  case (2 api nodes params flt oc selected covered leaf_id leaf leaves)
  show ?case
  proof (cases "tn_refund_tx leaf")
    case None
    with 2 show ?thesis by (cases flt) (auto simp: report_unexitable_def)
  next
    case (Some refund_tx)
    show ?thesis
    proof (cases "walk_unilateral_exit_chain nodes leaf")
      case (Inl missing)
      with 2 Some show ?thesis by (cases flt) (auto simp: report_unexitable_def)
    next
      case (Inr ancestors)
      show ?thesis
        using 2(3-6) Some Inr by (auto simp: Let_def nth_append less_Suc_eq split: if_splits)
    qed
  qed
qed simp

lemma sum_shares_telescope:
  assumes "\<And>i. i < n \<Longrightarrow> (fee :: nat \<Rightarrow> nat) i \<le> fee (Suc i)" and "0 < n"
  shows "(\<Sum>i<n. if i = 0 then fee 1 else fee (Suc i) - fee i) = fee n"
  using assms(2,1)
proof (induction n rule: nat_induct_non_zero)
  case (Suc n)
  have "fee n \<le> fee (Suc n)" using Suc.prems by simp
  with Suc show ?case by simp
qed simp


lemma leaf_sweep_cost_eq:
  assumes "p2tr_key_path_input_weight api + lc_single_cpfp_input_weight params < 2 ^ 64"
    and "Suc n * (p2tr_key_path_input_weight api + lc_single_cpfp_input_weight params) < 2 ^ 64"
  shows "leaf_sweep_cost api params n =
    (let fee = (\<lambda>k. compute_sweep_fee api (k * (p2tr_key_path_input_weight api + lc_single_cpfp_input_weight params))
                 (lc_destination_script_len params) (lc_fee_rate_sat_per_kw params))
     in if n = 0 then fee 1 else fee (Suc n) - fee n)"
proof (cases "p2tr_key_path_input_weight api + lc_single_cpfp_input_weight params = 0")
  case True
  then show ?thesis by (simp add: leaf_sweep_cost_def Let_def sat_mul_def)
next
  case False
  let ?w = "p2tr_key_path_input_weight api + lc_single_cpfp_input_weight params"
  have "1 \<le> ?w" using False by linarith
  then have "Suc n * 1 \<le> Suc n * ?w" by (intro mult_le_mono) simp_all
  then have n: "Suc n < 2 ^ 64" using assms(2) by (metis mult.right_neutral order_le_less_trans)
  have small: "sat_mul k ?w = k * ?w" if "k * ?w < 2 ^ 64" for k using that by (simp add: sat_mul_def u64_max_def)
  have "n * ?w \<le> Suc n * ?w" by simp
  then have "sat_mul n ?w = n * ?w" "sat_mul (Suc n) ?w = Suc n * ?w"
    using assms(2) order_le_less_trans by (blast intro: small)+
  moreover have "sat_add n 1 = Suc n" using n by (simp add: sat_add_def u64_max_def)
  ultimately show ?thesis using assms(1) by (simp add: leaf_sweep_cost_def Let_def add_u64_small)
qed

lemma sum_list_nth_lessThan: "sum_list (map f xs) = (\<Sum>i<length xs. f (xs ! i))" for f :: "'a \<Rightarrow> nat"
  by (simp add: sum_list_sum_nth atLeast0LessThan)

text \<open>The sweep fee of a quote is exact: the shares charged to the leaves one by one, each the
  increase it causes, add up to the fee of the one sweep that spends all their refunds and
  change outputs.\<close>

theorem quote_sweep_fee_exact:
  assumes "quote_unilateral_exit api nodes ids flt weight script_len dust rate dest_len oc = Inr q"
    and "eq_selected_leaves q \<noteq> []"
    and "list_all (\<lambda>l. sel_estimated_cost l < 2 ^ 64 - 1) (eq_selected_leaves q)"
    and "length (eq_selected_leaves q) * (p2tr_key_path_input_weight api + weight) + output_weight api dest_len
      + tx_overhead_weight api < 2 ^ 64"
    and "compute_sweep_fee api (length (eq_selected_leaves q) * (p2tr_key_path_input_weight api + weight)) dest_len rate < 2 ^ 64"
  shows "eq_sweep_fee_sat q = compute_sweep_fee api
    (length (eq_selected_leaves q) * (p2tr_key_path_input_weight api + weight)) dest_len rate"
proof -
  define params where "params = \<lparr>lc_initial_cpfp_input_weight = weight, lc_single_cpfp_input_weight = weight,
     lc_change_script_len = script_len, lc_destination_script_len = dest_len, lc_fee_rate_sat_per_kw = rate\<rparr>"
  let ?w = "p2tr_key_path_input_weight api + weight"
  let ?fee = "\<lambda>k. compute_sweep_fee api (k * ?w) dest_len rate"
  obtain selected where ev: "evaluate_unilateral_exit_leaf_costs api nodes ids params flt oc = Inr selected"
      and sel: "eq_selected_leaves q = selected" "selected \<noteq> []"
      and sw: "eq_sweep_fee_sat q = sat_sum (map (\<lambda>l. sel_estimated_cost l - sel_cpfp_cost l) selected)"
    using assms(1,2) by (auto simp: quote_unilateral_exit_def params_def Let_def split: if_splits)
  let ?n = "length selected"
  have costs: "sel_estimated_cost (selected ! i) = sat_add (sel_cpfp_cost (selected ! i)) (leaf_sweep_cost api params i)"
    if "i < ?n" for i
    using ev that evaluate_loop_costs [of api nodes params flt oc "[]"]
    by (auto simp: evaluate_unilateral_exit_leaf_costs_def)
  have small: "k * ?w + output_weight api dest_len + tx_overhead_weight api < 2 ^ 64" if "k \<le> ?n" for k
  proof -
    have "k * ?w \<le> ?n * ?w" using that by (intro mult_le_mono1)
    with assms(4) [unfolded sel(1)] show ?thesis by linarith
  qed
  have w: "?w < 2 ^ 64" using small [of 1] sel(2) by (cases selected) simp_all
  have share: "sel_estimated_cost (selected ! i) - sel_cpfp_cost (selected ! i) = (if i = 0 then ?fee 1 else ?fee (Suc i) - ?fee i)"
    if "i < ?n" for i
  proof -
    have "sel_estimated_cost (selected ! i) < 2 ^ 64 - 1" using assms(3) sel(1) that by (simp add: list_all_length)
    then have "sel_estimated_cost (selected ! i) = sel_cpfp_cost (selected ! i) + leaf_sweep_cost api params i"
      using costs [OF that] by (simp add: sat_add_def u64_max_def)
    moreover have "leaf_sweep_cost api params i = (if i = 0 then ?fee 1 else ?fee (Suc i) - ?fee i)"
      using leaf_sweep_cost_eq [of api params i] small [of "Suc i"] that w by (simp add: params_def Let_def)
    ultimately show ?thesis by simp
  qed
  have mono: "?fee i \<le> ?fee (Suc i)" if "i < ?n" for i
    using small [of i] small [of "Suc i"] that by (auto simp: compute_sweep_fee_def add_u64_small intro!: fee_sat_mono)
  have "sum_list (map (\<lambda>l. sel_estimated_cost l - sel_cpfp_cost l) selected)
      = (\<Sum>i<?n. if i = 0 then ?fee 1 else ?fee (Suc i) - ?fee i)"
    unfolding sum_list_nth_lessThan by (intro sum.cong) (simp_all add: share)
  also have "\<dots> = ?fee ?n" using mono sel(2) by (intro sum_shares_telescope [of ?n ?fee]) simp_all
  finally show ?thesis using sw sel(1) assms(5) by (simp add: sat_sum_small)
qed

definition empty_chain_state :: exit_chain_state where
  "empty_chain_state = \<lparr>ec_nodes = [], ec_refunds = [], ec_stopped_leaves = [], ec_unverified_nodes = [],
     ec_unverifiable_confirmed_nodes = []\<rparr>"

lemma empty_chain_state_simps [simp]: "\<not> has_node empty_chain_state i" "\<not> has_refund empty_chain_state i"
  by (simp_all add: empty_chain_state_def has_node_def has_refund_def)

lemma example_exit_cost:
  "\<exists>c e. evaluate_unilateral_exit_leaf_costs example_api [(''a'', example_leaf ''a'' 90000 None)] [''a'']
      \<lparr>lc_initial_cpfp_input_weight = 230, lc_single_cpfp_input_weight = 230, lc_change_script_len = 2,
       lc_destination_script_len = 2, lc_fee_rate_sat_per_kw = 250\<rparr> FilterAll empty_chain_state
    = Inr [\<lparr>sel_id = ''a'', sel_value = 90000, sel_estimated_cost = e, sel_cpfp_cost = c\<rparr>]
    \<and> c < 2 ^ 64 - 1 \<and> e < 2 ^ 64 - 1"
proof -
  let ?L = "example_leaf ''a'' 90000 None"
  have walk: "walk_unilateral_exit_chain [(''a'', ?L)] ?L = Inr [?L]"
    by (simp add: walk_unilateral_exit_chain_def exit_walk.simps)
  have weight [simp]: "tx_weight example_api (example_tx p v) = 440" for p v by (simp add: example_api_def example_tx_def)
  have [simp]: "tn_node_tx ?L = example_tx ''parent of a'' 90000" "tn_refund_tx ?L = Some (example_tx ''a'' 90000)"
    by (simp_all add: example_leaf_def)
  have fee [simp]: "compute_cpfp_package_fee example_api 440 230 2 250 = 230" "compute_sweep_fee example_api 458 2 250 = 136"
    by (simp_all add: compute_cpfp_package_fee_def compute_sweep_fee_def fee_sat_def div_ceil_def sat_mul_def u64_max_def
        add_u64_def wrap64_def)
  show ?thesis
    by (simp add: evaluate_unilateral_exit_leaf_costs_def sort_leaves_def walk leaf_cpfp_cost_def ancestor_cost_def
        leaf_sweep_cost_def sat_add_def u64_max_def add_u64_def wrap64_def)
qed

lemma quote_sweep_fee_exact_witness:
  "\<exists>q. quote_unilateral_exit example_api [(''a'', example_leaf ''a'' 90000 None)] [''a''] FilterAll 230 2 300 250 2 empty_chain_state = Inr q
     \<and> eq_sweep_fee_sat q = compute_sweep_fee example_api 458 2 250"
proof -
  let ?q = "quote_unilateral_exit example_api [(''a'', example_leaf ''a'' 90000 None)] [''a''] FilterAll 230 2 300 250 2 empty_chain_state"
  obtain c e where cost: "evaluate_unilateral_exit_leaf_costs example_api [(''a'', example_leaf ''a'' 90000 None)] [''a'']
      \<lparr>lc_initial_cpfp_input_weight = 230, lc_single_cpfp_input_weight = 230, lc_change_script_len = 2,
       lc_destination_script_len = 2, lc_fee_rate_sat_per_kw = 250\<rparr> FilterAll empty_chain_state
    = Inr [\<lparr>sel_id = ''a'', sel_value = 90000, sel_estimated_cost = e, sel_cpfp_cost = c\<rparr>]" and e: "e < 2 ^ 64 - 1"
    using example_exit_cost by blast
  then obtain q where run: "?q = Inr q" and q: "eq_selected_leaves q = [\<lparr>sel_id = ''a'', sel_value = 90000, sel_estimated_cost = e, sel_cpfp_cost = c\<rparr>]"
    by (simp add: quote_unilateral_exit_def Let_def)
  have "eq_sweep_fee_sat q = compute_sweep_fee example_api (length (eq_selected_leaves q) * (p2tr_key_path_input_weight example_api + 230)) 2 250"
    by (rule quote_sweep_fee_exact [OF run])
       (use e in \<open>simp_all add: q compute_sweep_fee_def fee_sat_def div_ceil_def sat_mul_def u64_max_def add_u64_def wrap64_def\<close>)
  with run q show ?thesis by simp
qed


subsection \<open>The walk to the root\<close>

text \<open>The chain of a leaf as a relation: from a root down to the leaf, each node the registered
  parent of the next.\<close>

inductive root_chain :: "node_map \<Rightarrow> tree_node \<Rightarrow> tree_node list \<Rightarrow> bool" for m where
  rc_root: "tn_parent_node_id n = None \<Longrightarrow> root_chain m n [n]"
| rc_step: "tn_parent_node_id n = Some p \<Longrightarrow> map_of m p = Some parent \<Longrightarrow> root_chain m parent ns
    \<Longrightarrow> root_chain m n (ns @ [n])"

lemma root_chain_last: "root_chain m n ns \<Longrightarrow> ns \<noteq> [] \<and> last ns = n"
  by (induction rule: root_chain.induct) simp_all

lemma root_chain_det: "root_chain m n ns \<Longrightarrow> root_chain m n ns' \<Longrightarrow> ns = ns'"
proof (induction arbitrary: ns' rule: root_chain.induct)
  case (rc_root n)
  then show ?case by (auto elim: root_chain.cases)
next
  case (rc_step n p parent ns)
  from rc_step.prems rc_step.hyps obtain ns'' where "ns' = ns'' @ [n]" "root_chain m parent ns''"
    by (auto elim: root_chain.cases)
  with rc_step.IH show ?case by simp
qed

lemma exit_walk_chain:
  "exit_walk m visited current chain = Inr res \<Longrightarrow>
     \<exists>ns. root_chain m current ns \<and> res = ns @ rev chain \<and> distinct (map tn_id ns) \<and> tn_id ` set ns \<inter> set visited = {}"
proof (induction m visited current chain rule: exit_walk.induct)
  case (1 m visited current chain)
  have nv: "tn_id current \<notin> set visited" using 1(2) by (auto simp: exit_walk.simps [of m visited current chain])
  show ?case
  proof (cases "tn_parent_node_id current")
    case None
    with 1(2) nv show ?thesis
      by (intro exI [of _ "[current]"]) (auto simp: exit_walk.simps [of m visited current chain] intro: rc_root)
  next
    case (Some p)
    with 1(2) nv obtain parent where par: "map_of m p = Some parent"
        and run: "exit_walk m (tn_id current # visited) parent (chain @ [current]) = Inr res"
      by (auto simp: exit_walk.simps [of m visited current chain] split: option.splits)
    from 1(1) [OF nv Some par run] obtain ns where ns: "root_chain m parent ns" "res = ns @ rev (chain @ [current])"
        "distinct (map tn_id ns)" "tn_id ` set ns \<inter> set (tn_id current # visited) = {}" by blast
    then show ?thesis
      using rc_step [OF Some par ns(1)] nv by (intro exI [of _ "ns @ [current]"]) auto
  qed
qed

lemma exit_walk_complete:
  "root_chain m current ns \<Longrightarrow> distinct (map tn_id ns) \<Longrightarrow> tn_id ` set ns \<inter> set visited = {}
     \<Longrightarrow> exit_walk m visited current chain = Inr (ns @ rev chain)"
proof (induction arbitrary: visited chain rule: root_chain.induct)
  case (rc_root n)
  then show ?case by (simp add: exit_walk.simps)
next
  case (rc_step n p parent ns)
  have "exit_walk m (tn_id n # visited) parent (chain @ [n]) = Inr (ns @ rev (chain @ [n]))"
    using rc_step.prems by (intro rc_step.IH) auto
  with rc_step show ?case by (subst exit_walk.simps) auto
qed

lemma walk_root_chain:
  "walk_unilateral_exit_chain m leaf = Inr ns \<longleftrightarrow> root_chain m leaf ns \<and> distinct (map tn_id ns)"
  using exit_walk_chain [of m "[]" leaf "[]" ns] exit_walk_complete [of m leaf ns "[]" "[]"]
  by (auto simp: walk_unilateral_exit_chain_def)

text \<open>The walk a unilateral exit follows finds the chain from the root to the leaf exactly when there
  is one without a repeated node id, whatever the statuses of the nodes; the chain ends with the
  leaf. Otherwise it reports an id (a missing parent, or where a cycle closes).\<close>

theorem exit_chain_walk_iff:
  "walk_unilateral_exit_chain m leaf = Inr ns \<longleftrightarrow> root_chain m leaf ns \<and> distinct (map tn_id ns)"
  by (rule walk_root_chain)


subsection \<open>Selecting leaves\<close>

lemma leaf_cpfp_cost_le_max: "leaf_cpfp_cost api params oc covered i refund ancestors \<le> u64_max"
proof -
  have "fst (fold (ancestor_cost api params oc covered) ns st) \<le> u64_max" if "fst st \<le> u64_max" for ns st
    using that by (induction ns arbitrary: st) (auto simp: ancestor_cost_def split: prod.splits)
  from this [of "(0, False)" ancestors] show ?thesis
    by (auto simp: leaf_cpfp_cost_def split: prod.splits)
qed

definition selected_ok :: "leaf_filter \<Rightarrow> selected_leaf \<Rightarrow> bool" where
  "selected_ok flt l = (sel_cpfp_cost l \<le> sel_estimated_cost l \<and> (flt = FilterAll \<or> sel_estimated_cost l < sel_value l))"

lemma report_unexitable_simps [simp]:
  "report_unexitable ProfitableOnly i reason = Inr ()"
  "report_unexitable FilterAll i reason = Inl (SE_ValidationError (''Leaf '' @ i @ '' cannot be exited: '' @ reason))"
  by (simp_all add: report_unexitable_def)

definition exit_error :: "leaf_filter \<Rightarrow> service_error \<Rightarrow> bool" where
  "exit_error flt e = (flt = FilterAll \<and> (\<exists>msg. e = SE_ValidationError msg))"

text \<open>One round of the loop either skips the leaf, keeps it, or stops with an error.\<close>

lemma evaluate_loop_step:
  obtains (stop) e where "evaluate_loop api nodes params flt oc selected covered ((i, leaf) # leaves) = Inl e" "exit_error flt e"
  | (skip) "flt = ProfitableOnly"
      "evaluate_loop api nodes params flt oc selected covered ((i, leaf) # leaves) =
         evaluate_loop api nodes params flt oc selected covered leaves"
  | (keep) covered' l refund_tx ancestors where "selected_ok flt l" "sel_id l = i"
      "tn_refund_tx leaf = Some refund_tx" "walk_unilateral_exit_chain nodes leaf = Inr ancestors"
      "sel_cpfp_cost l = leaf_cpfp_cost api params oc covered i refund_tx ancestors"
      "covered' = map (\<lambda>a. compute_txid api (tn_node_tx a)) ancestors @ covered"
      "evaluate_loop api nodes params flt oc selected covered ((i, leaf) # leaves) =
         evaluate_loop api nodes params flt oc (selected @ [l]) covered' leaves"
proof (cases "tn_refund_tx leaf")
  case None
  then show thesis
    by (cases flt) (auto simp: exit_error_def intro: that(1,2))
next
  case (Some refund_tx)
  show thesis
  proof (cases "walk_unilateral_exit_chain nodes leaf")
    case (Inl missing)
    with Some show thesis by (cases flt) (auto simp: exit_error_def intro: that(1,2))
  next
    case (Inr ancestors)
    let ?c = "leaf_cpfp_cost api params oc covered i refund_tx ancestors"
    let ?t = "sat_add ?c (leaf_sweep_cost api params (length selected))"
    let ?l = "\<lparr>sel_id = i, sel_value = tn_value leaf, sel_estimated_cost = ?t, sel_cpfp_cost = ?c\<rparr>"
    have c: "?c \<le> ?t" using leaf_cpfp_cost_le_max by (simp add: sat_add_def)
    show thesis
    proof (cases "flt = FilterAll \<or> tn_value leaf > ?t")
      case True
      with c have ok: "selected_ok flt ?l" by (auto simp: selected_ok_def)
      show thesis
        by (rule that(3) [OF ok _ Some Inr _ refl])
           (simp, simp, simp only: evaluate_loop.simps Some Inr option.case sum.case Let_def True if_True)
    next
      case False
      then have "flt = ProfitableOnly" by (cases flt) auto
      then show thesis
        by (rule that(2))
           (simp only: evaluate_loop.simps Some Inr option.case sum.case Let_def False if_False)
    qed
  qed
qed

lemma evaluate_loop_spec:
  "case evaluate_loop api nodes params flt oc selected covered leaves of
     Inl e \<Rightarrow> exit_error flt e
   | Inr res \<Rightarrow> (\<exists>new. res = selected @ new \<and> list_all (selected_ok flt) new
        \<and> (flt = FilterAll \<longrightarrow> map sel_id new = map fst leaves))"
proof (induction leaves arbitrary: selected covered)
  case (Cons x leaves)
  obtain i leaf where x: "x = (i, leaf)" by (cases x)
  show ?case
  proof (cases rule: evaluate_loop_step [of api nodes params flt oc selected covered i leaf leaves])
    case (stop e)
    then show ?thesis by (simp add: x del: evaluate_loop.simps)
  next
    case skip
    with Cons.IH [of selected covered] show ?thesis by (simp add: x del: evaluate_loop.simps split: sum.splits)
  next
    case (keep covered' l refund_tx ancestors)
    show ?thesis
    proof (cases "evaluate_loop api nodes params flt oc (selected @ [l]) covered' leaves")
      case (Inl e)
      with Cons.IH [of "selected @ [l]" covered'] keep show ?thesis by (simp add: x del: evaluate_loop.simps)
    next
      case (Inr res)
      with Cons.IH [of "selected @ [l]" covered'] obtain new where
          "res = (selected @ [l]) @ new" "list_all (selected_ok flt) new" "flt = FilterAll \<longrightarrow> map sel_id new = map fst leaves"
        by auto
      with keep Inr show ?thesis by (simp add: x del: evaluate_loop.simps)
    qed
  qed
qed simp

text \<open>The selected leaves in their order: each can be walked to its root, and is charged for what the ones
  before it do not already cover.\<close>

fun charged_in_order ::
  "bitcoin_api \<Rightarrow> node_map \<Rightarrow> leaf_cost_params \<Rightarrow> exit_chain_state \<Rightarrow> txid list \<Rightarrow> selected_leaf list \<Rightarrow> bool" where
  "charged_in_order api nodes params oc covered [] = True"
| "charged_in_order api nodes params oc covered (l # ls) =
     (\<exists>leaf refund_tx chain. map_of nodes (sel_id l) = Some leaf \<and> tn_refund_tx leaf = Some refund_tx
        \<and> walk_unilateral_exit_chain nodes leaf = Inr chain \<and> sel_cpfp_cost l \<le> sel_estimated_cost l
        \<and> sel_cpfp_cost l = leaf_cpfp_cost api params oc covered (sel_id l) refund_tx chain
        \<and> charged_in_order api nodes params oc (map (\<lambda>a. compute_txid api (tn_node_tx a)) chain @ covered) ls)"

lemma evaluate_loop_charged:
  assumes "evaluate_loop api nodes params flt oc selected covered leaves = Inr res"
    and "\<forall>(i, leaf) \<in> set leaves. map_of nodes i = Some leaf" and "distinct (map fst leaves)"
  shows "\<exists>new. res = selected @ new \<and> charged_in_order api nodes params oc covered new
    \<and> distinct (map sel_id new) \<and> sel_id ` set new \<subseteq> fst ` set leaves"
  using assms
proof (induction leaves arbitrary: selected covered)
  case (Cons x leaves)
  obtain i leaf where x: "x = (i, leaf)" by (cases x)
  show ?case
  proof (cases rule: evaluate_loop_step [of api nodes params flt oc selected covered i leaf leaves])
    case (stop e)
    with Cons.prems(1) show ?thesis by (simp add: x del: evaluate_loop.simps)
  next
    case skip
    with Cons.prems(1) have "evaluate_loop api nodes params flt oc selected covered leaves = Inr res"
      by (simp only: x)
    moreover have "\<forall>(i, leaf) \<in> set leaves. map_of nodes i = Some leaf" "distinct (map fst leaves)" using Cons.prems(2,3) by simp_all
    ultimately obtain new where "res = selected @ new" "charged_in_order api nodes params oc covered new" "distinct (map sel_id new)"
        "sel_id ` set new \<subseteq> fst ` set leaves"
      using Cons.IH [of selected covered] by blast
    then show ?thesis by (intro exI [of _ new]) auto
  next
    case (keep covered' l refund_tx ancestors)
    with Cons.prems(1) have "evaluate_loop api nodes params flt oc (selected @ [l]) covered' leaves = Inr res"
      by (simp only: x)
    with Cons.IH [of "selected @ [l]" covered'] Cons.prems(2,3) obtain new where
        new: "res = (selected @ [l]) @ new" "charged_in_order api nodes params oc covered' new" "distinct (map sel_id new)"
          "sel_id ` set new \<subseteq> fst ` set leaves" by auto
    have "sel_id l \<notin> sel_id ` set new" using new(4) Cons.prems(3) keep(2) x by auto
    moreover have "map_of nodes (sel_id l) = Some leaf" using Cons.prems(2) keep(2) x by auto
    ultimately show ?thesis
      using new keep x by (intro exI [of _ "l # new"]) (auto simp: selected_ok_def)
  qed
qed simp

lemma find_leaves_lookup:
  assumes "find_leaves flt nodes ids = Inr leaves"
  shows "\<forall>(i, leaf) \<in> set leaves. map_of nodes i = Some leaf" "fst ` set leaves \<subseteq> set ids"
    "distinct ids \<Longrightarrow> distinct (map fst leaves)"
proof -
  have "(\<forall>(i, leaf) \<in> set leaves. map_of nodes i = Some leaf) \<and> fst ` set leaves \<subseteq> set ids
      \<and> (distinct ids \<longrightarrow> distinct (map fst leaves))"
    using assms
  proof (induction ids arbitrary: leaves)
    case (Cons i ids)
    show ?case
    proof (cases "map_of nodes i")
      case None
      with Cons show ?thesis by (cases flt) fastforce+
    next
      case (Some node)
      with Cons.prems obtain rest where "find_leaves flt nodes ids = Inr rest" "leaves = (i, node) # rest" by auto
      with Cons.IH [of rest] Some show ?thesis by auto
    qed
  qed simp
  then show "\<forall>(i, leaf) \<in> set leaves. map_of nodes i = Some leaf" "fst ` set leaves \<subseteq> set ids"
    "distinct ids \<Longrightarrow> distinct (map fst leaves)" by blast+
qed

lemma evaluate_charged:
  assumes "evaluate_unilateral_exit_leaf_costs api nodes ids params flt oc = Inr selected" and "distinct ids"
  shows "charged_in_order api nodes params oc [] selected" "distinct (map sel_id selected)" "sel_id ` set selected \<subseteq> set ids"
proof -
  obtain leaves where leaves: "find_leaves flt nodes ids = Inr leaves"
      and run: "evaluate_loop api nodes params flt oc [] [] (sort_leaves leaves) = Inr selected"
    using assms(1) by (auto simp: evaluate_unilateral_exit_leaf_costs_def)
  have sort: "set (sort_leaves leaves) = set leaves" "distinct (map fst (sort_leaves leaves))"
    using find_leaves_lookup(3) [OF leaves assms(2)] by (simp_all add: sort_leaves_def distinct_map)
  have "\<exists>new. selected = [] @ new \<and> charged_in_order api nodes params oc [] new \<and> distinct (map sel_id new)
      \<and> sel_id ` set new \<subseteq> fst ` set (sort_leaves leaves)"
    by (rule evaluate_loop_charged [OF run]) (use find_leaves_lookup(1) [OF leaves] sort in simp_all)
  then have "charged_in_order api nodes params oc [] selected \<and> distinct (map sel_id selected) \<and> sel_id ` set selected \<subseteq> fst ` set leaves"
    using sort(1) by simp
  then show "charged_in_order api nodes params oc [] selected" "distinct (map sel_id selected)" "sel_id ` set selected \<subseteq> set ids"
    using find_leaves_lookup(2) [OF leaves] by (blast intro: subset_trans)+
qed

lemma find_leaves_spec:
  "case find_leaves flt nodes ids of
     Inl e \<Rightarrow> exit_error flt e
   | Inr leaves \<Rightarrow> flt = FilterAll \<longrightarrow> map fst leaves = ids"
proof (induction ids)
  case (Cons i ids)
  show ?case
  proof (cases "map_of nodes i")
    case None
    with Cons show ?thesis by (cases flt) (simp_all add: exit_error_def split: sum.splits)
  next
    case (Some node)
    with Cons show ?thesis by (cases "find_leaves flt nodes ids") simp_all
  qed
qed simp

text \<open>Selecting the leaves to exit. Asked for specific leaves, the selection is all of them or a
  validation error naming one that cannot be exited; asked for the profitable ones it never
  fails, and every leaf it keeps is worth more than its exit costs. The funding floor of a leaf
  never exceeds its full cost.\<close>

theorem exit_selection:
  "case evaluate_unilateral_exit_leaf_costs api nodes ids params flt oc of
     Inl e \<Rightarrow> flt = FilterAll \<and> (\<exists>msg. e = SE_ValidationError msg)
   | Inr selected \<Rightarrow> list_all (\<lambda>l. sel_cpfp_cost l \<le> sel_estimated_cost l
          \<and> (flt = FilterAll \<or> sel_estimated_cost l < sel_value l)) selected
        \<and> (if flt = FilterAll then mset (map sel_id selected) = mset ids else True)"
proof (cases "find_leaves flt nodes ids")
  case (Inl e)
  with find_leaves_spec [where flt = flt and nodes = nodes and ids = ids] show ?thesis
    by (simp add: evaluate_unilateral_exit_leaf_costs_def exit_error_def)
next
  case (Inr leaves)
  have sorted: "mset (map fst (sort_leaves leaves)) = mset (map fst leaves)"
    unfolding sort_leaves_def mset_map by simp
  have ids: "mset (map fst (sort_leaves leaves)) = mset ids" if "flt = FilterAll"
    using find_leaves_spec [where flt = flt and nodes = nodes and ids = ids] that Inr unfolding sorted by simp
  have eval: "evaluate_unilateral_exit_leaf_costs api nodes ids params flt oc =
      evaluate_loop api nodes params flt oc [] [] (sort_leaves leaves)"
    using Inr by (simp add: evaluate_unilateral_exit_leaf_costs_def)
  have ok: "selected_ok flt = (\<lambda>l. sel_cpfp_cost l \<le> sel_estimated_cost l
          \<and> (flt = FilterAll \<or> sel_estimated_cost l < sel_value l))"
    by (simp add: fun_eq_iff selected_ok_def)
  show ?thesis
    using evaluate_loop_spec [where api = api and nodes = nodes and params = params and flt = flt and oc = oc
        and selected = "[]" and covered = "[]" and leaves = "sort_leaves leaves"] ids
    unfolding eval ok by (auto simp: exit_error_def simp del: mset_map split: sum.splits)
qed

end
