(* ===== verification/Exit_Observe_Props.thy ===== *)
theory Exit_Observe_Props
  imports Exit_Observe Exit_Plan_Props
begin

text \<open>
  The two scans of \<open>Exit_Observe\<close> that read the chain back: what the funding of an exit has
  turned into, and which transactions of a kept exit are in a block.
\<close>

subsection \<open>Observations\<close>

lemma map_of_observed_index:
  "map_of (observed_index_new observed) q = map_of (map (\<lambda>o'. (ob_query o', ob_result o')) observed) q"
proof -
  have "map_of (fold (\<lambda>obs m. if hm_contains (ob_query obs) m then m else hm_insert (ob_query obs) (ob_result obs) m) observed m) q
      = (case map_of m q of Some r \<Rightarrow> Some r | None \<Rightarrow> map_of (map (\<lambda>o'. (ob_query o', ob_result o')) observed) q)" for m
    by (induction observed arbitrary: m)
       (auto simp: hm_contains_def update_conv' simp del: hm_contains_iff split: option.splits)
  from this [of "[]"] show ?thesis by (simp add: observed_index_new_def)
qed

lemma retain_unseen_spec:
  "set (retain_unseen seen qs) = set qs - set seen" "distinct (retain_unseen seen qs)"
  by (induction qs arbitrary: seen) auto

lemma retain_unseen_Nil [simp]: "retain_unseen [] qs = [] \<longleftrightarrow> qs = []"
  by (cases qs) simp_all

subsection \<open>Funding\<close>

text \<open>The confirmed spender of an outpoint, and what an input turned into.\<close>

definition spent_by :: "observed_index \<Rightarrow> bitcoin_outpoint \<Rightarrow> txid option" where
  "spent_by index op =
     (case map_of index (Outspend op) of
        Some (Spend (Some info)) \<Rightarrow> if si_confirmed info then Some (si_spender_txid info) else None
      | _ \<Rightarrow> None)"

definition turned_into :: "observed_index \<Rightarrow> cpfp_input \<Rightarrow> cpfp_input list" where
  "turned_into index input =
     (case spent_by index (ci_outpoint input) of
        None \<Rightarrow> []
      | Some t \<Rightarrow> (case map_of index (QueryTransaction t) of Some (FoundTransaction tx) \<Rightarrow> follow_outputs input t tx | _ \<Rightarrow> []))"

inductive descends :: "observed_index \<Rightarrow> cpfp_input list \<Rightarrow> cpfp_input \<Rightarrow> bool" for index supplied where
  offered: "i \<in> set supplied \<Longrightarrow> descends index supplied i"
| followed: "descends index supplied i \<Longrightarrow> j \<in> set (turned_into index i) \<Longrightarrow> descends index supplied j"

inductive_cases descendsE: "descends index supplied i"

definition funding_kept ::
  "observed_index \<Rightarrow> cpfp_input \<Rightarrow> (bitcoin_outpoint, cpfp_input) hash_map \<Rightarrow> (bitcoin_outpoint, cpfp_input) hash_map" where
  "funding_kept index input inputs =
     (if spent_by index (ci_outpoint input) = None then hm_insert (ci_outpoint input) input inputs else inputs)"

text \<open>What holds at the start of the worklist loop and is kept by its two kinds of rounds holds when
  the frontier is empty.\<close>

lemma funding_loop_invariant:
  assumes "I inputs visited frontier"
    and skip: "\<And>inputs visited input frontier. I inputs visited (input # frontier) \<Longrightarrow> ci_outpoint input \<in> set visited
      \<Longrightarrow> I inputs visited frontier"
    and visit: "\<And>inputs visited input frontier. I inputs visited (input # frontier) \<Longrightarrow> ci_outpoint input \<notin> set visited
      \<Longrightarrow> I (funding_kept index input inputs) (ci_outpoint input # visited) (rev (turned_into index input) @ frontier)"
  shows "\<exists>visited'. I (fst (funding_loop index inputs pending visited frontier)) visited' []"
  using assms
proof (induction index inputs pending visited frontier rule: funding_loop.induct)
  case (1 index inputs pending visited)
  then show ?case by (auto simp: funding_loop.simps(1))
next
  case (2 index inputs pending visited input frontier)
  show ?case
  proof (cases "ci_outpoint input \<in> set visited")
    case True
    with "2.IH"(1) [OF True "2.prems"(2) [OF "2.prems"(1) True] "2.prems"(2,3)] show ?thesis
      by (simp add: funding_loop.simps(2))
  next
    case False
    note rounds = "2.prems"(2,3) and I' = "2.prems"(3) [OF "2.prems"(1) False]
    show ?thesis
    proof (cases "map_of index (Outspend (ci_outpoint input))")
      case None
      have "I (hm_insert (ci_outpoint input) input inputs) (ci_outpoint input # visited) frontier"
        using I' None by (simp add: funding_kept_def spent_by_def turned_into_def)
      from "2.IH"(2) [OF False None this rounds] show ?thesis using False None by (simp add: funding_loop.simps(2))
    next
      case (Some result)
      let ?sp = "case result of Spend (Some info) \<Rightarrow> if si_confirmed info then Some (si_spender_txid info) else None | _ \<Rightarrow> None"
      have sp: "spent_by index (ci_outpoint input) = ?sp" using Some by (simp add: spent_by_def)
      show ?thesis
      proof (cases ?sp)
        case None
        have "I (hm_insert (ci_outpoint input) input inputs) (ci_outpoint input # visited) frontier"
          using I' None unfolding sp funding_kept_def turned_into_def by simp
        from "2.IH"(3) [OF False Some None this rounds] show ?thesis
          using False Some None by (simp add: funding_loop.simps(2))
      next
        case sp': (Some spender)
        then have I'': "I inputs (ci_outpoint input # visited) (rev (turned_into index input) @ frontier)"
          using I' unfolding funding_kept_def sp by simp
        show ?thesis
        proof (cases "map_of index (QueryTransaction spender)")
          case None
          with I'' sp' have "I inputs (ci_outpoint input # visited) frontier" unfolding turned_into_def sp by simp
          from "2.IH"(4) [OF False Some sp' None this rounds] show ?thesis
            using False Some sp' None by (simp add: funding_loop.simps(2))
        next
          case found: (Some r)
          note IHs = "2.IH"(5-9) [OF False Some sp' found]
          from found sp' I'' IHs [OF _ _ rounds] show ?thesis
            unfolding turned_into_def sp using False Some by (cases r) (simp_all add: funding_loop.simps(2))
        qed
      qed
    qed
  qed
qed

lemma follow_outputs_same_script:
  "j \<in> set (follow_outputs i t tx) \<Longrightarrow> ci_script j = ci_script i \<and> ci_signed_input_weight j = ci_signed_input_weight i"
  by (auto simp: follow_outputs_def)

lemma descends_script:
  "descends index supplied i \<Longrightarrow> \<exists>s \<in> set supplied. ci_script i = ci_script s \<and> ci_signed_input_weight i = ci_signed_input_weight s"
proof (induction rule: descends.induct)
  case (followed i j)
  from followed(2) have "ci_script j = ci_script i \<and> ci_signed_input_weight j = ci_signed_input_weight i"
    by (auto simp: turned_into_def dest: follow_outputs_same_script split: option.splits chain_result.splits)
  with followed show ?case by auto
qed auto

definition kept_ok :: "observed_index \<Rightarrow> cpfp_input list \<Rightarrow> (bitcoin_outpoint, cpfp_input) hash_map \<Rightarrow> bool" where
  "kept_ok index supplied inputs = (wf_map inputs
     \<and> (\<forall>op i. (op, i) \<in> set inputs \<longrightarrow> op = ci_outpoint i \<and> descends index supplied i \<and> spent_by index op = None))"

lemma kept_ok_insert:
  assumes "kept_ok index supplied inputs" "descends index supplied i" "spent_by index (ci_outpoint i) = None"
  shows "kept_ok index supplied (hm_insert (ci_outpoint i) i inputs)"
  using assms set_insert_subset [of "ci_outpoint i" i inputs] unfolding kept_ok_def by auto

definition funding_closed ::
  "observed_index \<Rightarrow> cpfp_input list \<Rightarrow> (bitcoin_outpoint, cpfp_input) hash_map \<Rightarrow> bitcoin_outpoint list \<Rightarrow> cpfp_input list \<Rightarrow> bool" where
  "funding_closed index supplied inputs visited frontier =
     ((\<forall>i. descends index supplied i \<longrightarrow> ci_outpoint i \<in> set visited \<longrightarrow>
         (spent_by index (ci_outpoint i) = None \<longrightarrow> (ci_outpoint i, i) \<in> set inputs)
         \<and> (\<forall>j \<in> set (turned_into index i). j \<in> set frontier \<or> ci_outpoint j \<in> set visited))
      \<and> (\<forall>i \<in> set supplied. i \<in> set frontier \<or> ci_outpoint i \<in> set visited))"

lemma funding_closed_visit:
  assumes "funding_closed index supplied inputs visited (input # frontier)" and "descends index supplied input"
    and inj: "inj_on ci_outpoint {i. descends index supplied i}" and "wf_map inputs"
  shows "funding_closed index supplied (funding_kept index input inputs) (ci_outpoint input # visited)
    (rev (turned_into index input) @ frontier)"
proof -
  have same: "i = input" if "descends index supplied i" "ci_outpoint i = ci_outpoint input" for i
    using inj that assms(2) by (auto dest: inj_onD)
  have kept: "(ci_outpoint i, i) \<in> set (funding_kept index input inputs)"
    if "descends index supplied i" "ci_outpoint i \<noteq> ci_outpoint input \<longrightarrow> (ci_outpoint i, i) \<in> set inputs"
      "spent_by index (ci_outpoint i) = None" for i
    using that assms(4) same [of i] by (cases "ci_outpoint i = ci_outpoint input") (auto simp: funding_kept_def in_insert_wf)
  show ?thesis
    unfolding funding_closed_def
  proof (intro conjI allI impI ballI)
    fix i
    assume i: "descends index supplied i" "ci_outpoint i \<in> set (ci_outpoint input # visited)"
    { assume "spent_by index (ci_outpoint i) = None"
      with i assms(1) show "(ci_outpoint i, i) \<in> set (funding_kept index input inputs)"
        by (intro kept) (auto simp: funding_closed_def) }
    { fix j
      assume "j \<in> set (turned_into index i)"
      with i assms(1) same [of i] show "j \<in> set (rev (turned_into index input) @ frontier) \<or> ci_outpoint j \<in> set (ci_outpoint input # visited)"
        by (auto simp: funding_closed_def) }
  next
    fix i
    assume "i \<in> set supplied"
    with assms(1) show "i \<in> set (rev (turned_into index input) @ frontier) \<or> ci_outpoint i \<in> set (ci_outpoint input # visited)"
      by (auto simp: funding_closed_def)
  qed
qed

lemma funding_loop_spec:
  assumes "funding_loop index [] [] [] (rev supplied) = (inputs, pending)"
  shows "kept_ok index supplied inputs"
    and "inj_on ci_outpoint {i. descends index supplied i} \<Longrightarrow> descends index supplied i
      \<Longrightarrow> spent_by index (ci_outpoint i) = None \<Longrightarrow> (ci_outpoint i, i) \<in> set inputs"
proof -
  define I where "I inputs visited frontier \<longleftrightarrow> kept_ok index supplied inputs \<and> (\<forall>i \<in> set frontier. descends index supplied i)
    \<and> (inj_on ci_outpoint {i. descends index supplied i} \<longrightarrow> funding_closed index supplied inputs visited frontier)"
    for inputs visited frontier
  have "\<exists>visited'. I (fst (funding_loop index [] [] [] (rev supplied))) visited' []"
  proof (rule funding_loop_invariant)
    show "I [] [] (rev supplied)"
      by (auto simp: I_def kept_ok_def funding_closed_def intro: descends.offered)
  next
    fix inputs visited input frontier
    assume "I inputs visited (input # frontier)" "ci_outpoint input \<in> set visited"
    then show "I inputs visited frontier" unfolding I_def funding_closed_def by auto
  next
    fix inputs visited input frontier
    assume I: "I inputs visited (input # frontier)" "ci_outpoint input \<notin> set visited"
    then have d: "descends index supplied input" and k: "kept_ok index supplied inputs" by (auto simp: I_def)
    have "kept_ok index supplied (funding_kept index input inputs)"
      using kept_ok_insert [OF k d] k by (simp add: funding_kept_def)
    moreover have "wf_map inputs" using k by (simp add: kept_ok_def)
    moreover have "descends index supplied i" if "i \<in> set (turned_into index input)" for i
      using d that by (rule descends.followed)
    ultimately show "I (funding_kept index input inputs) (ci_outpoint input # visited) (rev (turned_into index input) @ frontier)"
      using I d by (auto simp: I_def intro: funding_closed_visit)
  qed
  then obtain visited where I: "I inputs visited []" using assms by auto
  then show "kept_ok index supplied inputs" by (simp add: I_def)
  assume inj: "inj_on ci_outpoint {i. descends index supplied i}" and i: "descends index supplied i"
    and "spent_by index (ci_outpoint i) = None"
  have closed: "funding_closed index supplied inputs visited []" using I inj by (simp add: I_def)
  from i have "ci_outpoint i \<in> set visited"
    by (induction rule: descends.induct) (use closed in \<open>auto simp: funding_closed_def\<close>)
  with closed i \<open>spent_by index (ci_outpoint i) = None\<close> show "(ci_outpoint i, i) \<in> set inputs"
    by (simp add: funding_closed_def)
qed

text \<open>\<^bold>\<open>C32\<close>. Resolving the funding of an exit. Whatever the lookups said, each outpoint is returned once,
  none of them is known to be spent by a confirmed transaction, and each is one of the offered
  inputs or an output, paying the script of an offered input, of the chain of confirmed
  transactions that spent it. When no outpoint is offered in two different ways, nothing that
  descends from the funding and is unspent is lost.\<close>

theorem scan_funding_exact:
  "distinct (map ci_outpoint (fs_inputs (scan_funding supplied observed)))
    \<and> sorted (map ci_outpoint (fs_inputs (scan_funding supplied observed)))
    \<and> list_all (\<lambda>i. descends (observed_index_new observed) supplied i \<and> spent_by (observed_index_new observed) (ci_outpoint i) = None
        \<and> ci_script i \<in> ci_script ` set supplied) (fs_inputs (scan_funding supplied observed))
    \<and> (inj_on ci_outpoint {i. descends (observed_index_new observed) supplied i} \<longrightarrow>
        set (fs_inputs (scan_funding supplied observed)) = {i. descends (observed_index_new observed) supplied i \<and> spent_by (observed_index_new observed) (ci_outpoint i) = None})"
proof -
  define index where "index = observed_index_new observed"
  obtain inputs pending where run: "funding_loop index [] [] [] (rev supplied) = (inputs, pending)" by fastforce
  have k: "kept_ok index supplied inputs" using run by (rule funding_loop_spec)
  then have keys: "map ci_outpoint (hm_values inputs) = hm_keys inputs"
    by (auto simp: kept_ok_def)
  have scan: "fs_inputs (scan_funding supplied observed) = sort_key ci_outpoint (hm_values inputs)"
    using run by (simp add: scan_funding_def index_def)
  have "distinct (map ci_outpoint (hm_values inputs))"
    unfolding keys using k by (simp add: kept_ok_def wf_map_def)
  then have d: "distinct (map ci_outpoint (sort_key ci_outpoint (hm_values inputs)))"
    by (metis distinct_map distinct_sort set_sort)
  have ok: "descends index supplied i \<and> spent_by index (ci_outpoint i) = None" if "i \<in> set (hm_values inputs)" for i
    using that k by (auto simp: kept_ok_def)
  have script: "ci_script i \<in> ci_script ` set supplied" if "i \<in> set (hm_values inputs)" for i
    using descends_script ok [OF that] by (metis imageI)
  have exact: "set (hm_values inputs) = {i. descends index supplied i \<and> spent_by index (ci_outpoint i) = None}"
    if "inj_on ci_outpoint {i. descends index supplied i}"
  proof (rule equalityI subsetI)+
    show "i \<in> {i. descends index supplied i \<and> spent_by index (ci_outpoint i) = None}" if "i \<in> set (hm_values inputs)" for i
      using ok [OF that] by simp
    show "{i. descends index supplied i \<and> spent_by index (ci_outpoint i) = None} \<subseteq> set (hm_values inputs)"
    proof
      fix i
      assume "i \<in> {i. descends index supplied i \<and> spent_by index (ci_outpoint i) = None}"
      then have "(ci_outpoint i, i) \<in> set inputs" using funding_loop_spec(2) [OF run that] by simp
      then show "i \<in> set (hm_values inputs)" by force
    qed
  qed
  show ?thesis
    unfolding scan index_def [symmetric] list_all_iff set_sort
  proof (intro conjI ballI impI)
    show "sorted (map ci_outpoint (sort_key ci_outpoint (hm_values inputs)))" by (rule sorted_sort_key)
  qed (use d ok script exact in blast)+
qed

definition example_spend :: transaction where
  "example_spend = \<lparr>tx_version = 3, tx_lock_time = 0, tx_input = [unsigned_input (''x'', 0)],
     tx_output = [\<lparr>txo_value = 1000, txo_script_pubkey = ''me''\<rparr>, \<lparr>txo_value = 500, txo_script_pubkey = ''other''\<rparr>]\<rparr>"

definition example_observations :: "observation list" where
  "example_observations =
     [\<lparr>ob_query = Outspend (''x'', 0), ob_result = Spend (Some \<lparr>si_spender_txid = ''t'', si_confirmed = True, si_block_height = Some 7\<rparr>)\<rparr>,
      \<lparr>ob_query = QueryTransaction ''t'', ob_result = FoundTransaction example_spend\<rparr>,
      \<lparr>ob_query = Outspend (''t'', 0), ob_result = Spend None\<rparr>]"

lemma example_descends:
  "descends (observed_index_new example_observations) [example_input ''x'' 3000] i
     \<longleftrightarrow> i \<in> {example_input ''x'' 3000, example_input ''t'' 1000}"
proof
  have x: "turned_into (observed_index_new example_observations) (example_input ''x'' 3000) = [example_input ''t'' 1000]"
    by (simp add: turned_into_def spent_by_def map_of_observed_index example_observations_def follow_outputs_def example_spend_def
        example_input_def)
  have t: "turned_into (observed_index_new example_observations) (example_input ''t'' 1000) = []"
    by (simp add: turned_into_def spent_by_def map_of_observed_index example_observations_def)
  show "i \<in> {example_input ''x'' 3000, example_input ''t'' 1000}"
    if "descends (observed_index_new example_observations) [example_input ''x'' 3000] i"
    using that by (induction rule: descends.induct) (auto simp: x t)
  show "descends (observed_index_new example_observations) [example_input ''x'' 3000] i"
    if "i \<in> {example_input ''x'' 3000, example_input ''t'' 1000}"
  proof -
    have "descends (observed_index_new example_observations) [example_input ''x'' 3000] (example_input ''x'' 3000)"
      by (rule descends.offered) simp
    with x descends.followed [OF this, of "example_input ''t'' 1000"] that show ?thesis by auto
  qed
qed

lemma scan_funding_exact_witness:
  "set (fs_inputs (scan_funding [example_input ''x'' 3000] example_observations)) = {example_input ''t'' 1000}"
proof -
  have "inj_on ci_outpoint {i. descends (observed_index_new example_observations) [example_input ''x'' 3000] i}"
    by (auto simp: example_descends inj_on_def)
  with scan_funding_exact [of "[example_input ''x'' 3000]" example_observations]
  have "set (fs_inputs (scan_funding [example_input ''x'' 3000] example_observations)) =
    {i. descends (observed_index_new example_observations) [example_input ''x'' 3000] i
      \<and> spent_by (observed_index_new example_observations) (ci_outpoint i) = None}" by blast
  also have "\<dots> = {example_input ''t'' 1000}"
    unfolding example_descends by (auto simp: spent_by_def map_of_observed_index example_observations_def)
  finally show ?thesis .
qed

subsection \<open>Checking a kept exit\<close>

text \<open>A chain is given by which transactions are in a block and by the confirmed spender of each
  outpoint. The answers are truthful when they report it, with no lookup failed.\<close>

definition answers_truthful :: "(txid \<Rightarrow> bool) \<Rightarrow> (bitcoin_outpoint \<Rightarrow> txid option) \<Rightarrow> observed_index \<Rightarrow> bool" where
  "answers_truthful in_block spender index =
     ((\<forall>t r. map_of index (TxConfirmed t) = Some r \<longrightarrow> (\<exists>h. r = Confirmed (in_block t) h))
      \<and> (\<forall>op r. map_of index (Outspend op) = Some r \<longrightarrow>
           (case spender op of
              Some t \<Rightarrow> \<exists>h. r = Spend (Some \<lparr>si_spender_txid = t, si_confirmed = True, si_block_height = h\<rparr>)
            | None \<Rightarrow> r = Spend None \<or> (\<exists>info. r = Spend (Some info) \<and> \<not> si_confirmed info))))"

text \<open>What the chain guarantees: a spender is in a block, a transaction is in a block when it spent its
  inputs, and then what it spends from is in a block too.\<close>

definition chain_consistent ::
  "bitcoin_api \<Rightarrow> (txid \<Rightarrow> bool) \<Rightarrow> (bitcoin_outpoint \<Rightarrow> txid option) \<Rightarrow> exit_check_input list \<Rightarrow> bool" where
  "chain_consistent api in_block spender txs =
     ((\<forall>op t. spender op = Some t \<longrightarrow> in_block t)
      \<and> (\<forall>x \<in> set txs. tx_input (ei_tx x) \<noteq> [] \<and> (in_block (ei_txid api x) \<longrightarrow>
           spender (txi_previous_output (hd (tx_input (ei_tx x)))) = Some (ei_txid api x)
           \<and> (\<forall>p \<in> set (tx_input (ei_tx x)). in_block (fst (txi_previous_output p))))))"

text \<open>The order an exit is built in: no transaction spends itself or a later one.\<close>

fun parents_first :: "bitcoin_api \<Rightarrow> exit_check_input list \<Rightarrow> bool" where
  "parents_first api [] = True"
| "parents_first api (x # xs) =
     ((\<forall>p \<in> set (tx_input (ei_tx x)). fst (txi_previous_output p) \<notin> ei_txid api ` set (x # xs)) \<and> parents_first api xs)"

definition watched :: "bitcoin_api \<Rightarrow> exit_check_input \<Rightarrow> bitcoin_outpoint list" where
  "watched api x =
     (case tx_input (ei_tx x) of
        [] \<Rightarrow> []
      | first # _ \<Rightarrow> txi_previous_output first
          # (case ei_cpfp x of None \<Rightarrow> []
             | Some cpfp \<Rightarrow> filter (\<lambda>op. fst op = ei_txid api x) (map txi_previous_output (tx_input cpfp))))"

definition taken_by_other :: "bitcoin_api \<Rightarrow> (bitcoin_outpoint \<Rightarrow> txid option) \<Rightarrow> exit_check_input \<Rightarrow> bool" where
  "taken_by_other api spender x = (\<exists>op \<in> set (watched api x). \<exists>t. spender op = Some t \<and> \<not> ours api x t)"

abbreviation cs_keys :: "check_state \<Rightarrow> txid set" where
  "cs_keys st \<equiv> fst ` set (cs_confirmed st)"

lemma check_outpoint_pending: "cs_pending (check_outpoint api index x op st) = [] \<Longrightarrow> cs_pending st = []"
  by (auto simp: check_outpoint_def split: option.splits chain_result.splits if_splits)

lemma check_outpoint_spec:
  assumes "answers_truthful in_block spender index" and "cs_pending (check_outpoint api index x op st) = []"
  shows "cs_keys (check_outpoint api index x op st) = cs_keys st \<union> (if spender op = Some (ei_txid api x) then {ei_txid api x} else {})
    \<and> cs_diverged (check_outpoint api index x op st) = (cs_diverged st \<or> (\<exists>t. spender op = Some t \<and> \<not> ours api x t))
    \<and> cs_not_confirmed (check_outpoint api index x op st) = cs_not_confirmed st"
proof (cases "map_of index (Outspend op)")
  case None
  with assms(2) show ?thesis by (simp add: check_outpoint_def)
next
  case (Some r)
  with assms(1) have r: "case spender op of
      Some t \<Rightarrow> \<exists>h. r = Spend (Some \<lparr>si_spender_txid = t, si_confirmed = True, si_block_height = h\<rparr>)
    | None \<Rightarrow> r = Spend None \<or> (\<exists>info. r = Spend (Some info) \<and> \<not> si_confirmed info)"
    unfolding answers_truthful_def by blast
  show ?thesis
  proof (cases "spender op")
    case None
    with r Some show ?thesis by (auto simp: check_outpoint_def)
  next
    case sp: (Some t)
    with r obtain h where "r = Spend (Some \<lparr>si_spender_txid = t, si_confirmed = True, si_block_height = h\<rparr>)" by auto
    with Some sp show ?thesis by (cases "t = ei_txid api x") (simp_all add: check_outpoint_def ours_def dom_update)
  qed
qed

lemma check_outpoints_spec:
  assumes "answers_truthful in_block spender index" and "cs_pending (fold (check_outpoint api index x) ops st) = []"
  shows "cs_pending st = []
    \<and> cs_keys (fold (check_outpoint api index x) ops st)
      = cs_keys st \<union> (if \<exists>op \<in> set ops. spender op = Some (ei_txid api x) then {ei_txid api x} else {})
    \<and> cs_diverged (fold (check_outpoint api index x) ops st)
      = (cs_diverged st \<or> (\<exists>op \<in> set ops. \<exists>t. spender op = Some t \<and> \<not> ours api x t))
    \<and> cs_not_confirmed (fold (check_outpoint api index x) ops st) = cs_not_confirmed st"
  using assms(2)
proof (induction ops arbitrary: st)
  case (Cons op ops)
  let ?st = "check_outpoint api index x op st"
  from Cons have IH: "cs_pending ?st = []
    \<and> cs_keys (fold (check_outpoint api index x) ops ?st)
      = cs_keys ?st \<union> (if \<exists>op \<in> set ops. spender op = Some (ei_txid api x) then {ei_txid api x} else {})
    \<and> cs_diverged (fold (check_outpoint api index x) ops ?st)
      = (cs_diverged ?st \<or> (\<exists>op \<in> set ops. \<exists>t. spender op = Some t \<and> \<not> ours api x t))
    \<and> cs_not_confirmed (fold (check_outpoint api index x) ops ?st) = cs_not_confirmed ?st" by simp
  with check_outpoint_spec [OF assms(1), of api x op st] check_outpoint_pending [of api index x op st] show ?case by auto
qed simp

lemma check_frontier_eq:
  "check_frontier api by_txid index x st =
     (if ei_txid api x \<in> cs_keys st \<or> \<not> set (spend_parents x by_txid) \<subseteq> cs_keys st then st
      else fold (check_outpoint api index x) (watched api x) st)"
  by (auto simp: check_frontier_def watched_def Let_def list_all_iff split: list.splits)

lemma check_frontier_pending: "cs_pending (check_frontier api by_txid index x st) = [] \<Longrightarrow> cs_pending st = []"
proof -
  have "cs_pending (fold (check_outpoint api index x) ops st) = [] \<Longrightarrow> cs_pending st = []" for ops
    by (induction ops arbitrary: st) (auto dest: check_outpoint_pending)
  then show "cs_pending (check_frontier api by_txid index x st) = [] \<Longrightarrow> cs_pending st = []"
    by (auto simp: check_frontier_eq split: if_splits)
qed

lemma check_frontiers_pending:
  "cs_pending (fold (check_frontier api by_txid index) txs st) = [] \<Longrightarrow> cs_pending st = []"
  by (induction txs arbitrary: st) (auto dest: check_frontier_pending)

text \<open>The forward pass finds every transaction of the exit that is in a block.\<close>

definition pass_inv ::
  "bitcoin_api \<Rightarrow> (txid \<Rightarrow> bool) \<Rightarrow> (bitcoin_outpoint \<Rightarrow> txid option) \<Rightarrow> exit_check_input list \<Rightarrow> exit_check_input list \<Rightarrow> check_state \<Rightarrow> bool" where
  "pass_inv api in_block spender txs done' st =
     (cs_keys st \<subseteq> {t \<in> ei_txid api ` set txs. in_block t}
      \<and> {t \<in> ei_txid api ` set done'. in_block t} \<subseteq> cs_keys st
      \<and> (\<forall>t \<in> set (cs_not_confirmed st). \<not> in_block t)
      \<and> (cs_diverged st \<longrightarrow> (\<exists>x \<in> set txs. taken_by_other api spender x))
      \<and> (\<forall>x \<in> set done'. \<not> in_block (ei_txid api x) \<longrightarrow>
           (\<forall>p \<in> set (tx_input (ei_tx x)). fst (txi_previous_output p) \<in> ei_txid api ` set txs \<longrightarrow> in_block (fst (txi_previous_output p)))
           \<longrightarrow> taken_by_other api spender x \<longrightarrow> cs_diverged st))"

lemma parents_first_append:
  "parents_first api (xs @ x # ys) \<Longrightarrow> p \<in> set (tx_input (ei_tx x)) \<Longrightarrow> fst (txi_previous_output p) \<notin> ei_txid api ` set (x # ys)"
  by (induction xs) auto

lemma check_frontier_inv:
  assumes truth: "answers_truthful in_block spender index" and chain: "chain_consistent api in_block spender txs"
    and keys: "fst ` set by_txid = ei_txid api ` set txs" and order: "parents_first api txs"
    and txs: "txs = done' @ x # rest" and inv: "pass_inv api in_block spender txs done' st"
    and pending: "cs_pending (check_frontier api by_txid index x st) = []"
  shows "pass_inv api in_block spender txs (done' @ [x]) (check_frontier api by_txid index x st)"
proof -
  have parents: "set (spend_parents x by_txid) =
      {t \<in> (\<lambda>p. fst (txi_previous_output p)) ` set (tx_input (ei_tx x)). t \<in> ei_txid api ` set txs}"
    using keys by (auto simp: spend_parents_def)
  have earlier: "t \<in> ei_txid api ` set done'" if "t \<in> set (spend_parents x by_txid)" for t
    using that parents_first_append [OF order [unfolded txs]] unfolding parents txs by auto
  have x: "x \<in> set txs" by (simp add: txs)
  consider (known) "ei_txid api x \<in> cs_keys st"
    | (blocked) "ei_txid api x \<notin> cs_keys st" "\<not> set (spend_parents x by_txid) \<subseteq> cs_keys st"
    | (reached) "ei_txid api x \<notin> cs_keys st" "set (spend_parents x by_txid) \<subseteq> cs_keys st" by blast
  then show ?thesis
  proof cases
    case known
    then have "in_block (ei_txid api x)" using inv by (auto simp: pass_inv_def)
    with known inv show ?thesis by (auto simp: pass_inv_def check_frontier_eq)
  next
    case blocked
    then obtain t where t: "t \<in> set (spend_parents x by_txid)" "t \<notin> cs_keys st" by blast
    have nt: "\<not> in_block t"
    proof
      assume "in_block t"
      with earlier [OF t(1)] have "t \<in> {t \<in> ei_txid api ` set done'. in_block t}" by simp
      with inv t(2) show False unfolding pass_inv_def by blast
    qed
    obtain p where p: "p \<in> set (tx_input (ei_tx x))" "t = fst (txi_previous_output p)" "t \<in> ei_txid api ` set txs"
      using t(1) unfolding parents by blast
    have nx: "\<not> in_block (ei_txid api x)" using chain x p nt unfolding chain_consistent_def by blast
    have st: "check_frontier api by_txid index x st = st" using blocked by (simp add: check_frontier_eq)
    have "\<not> (\<forall>p \<in> set (tx_input (ei_tx x)). fst (txi_previous_output p) \<in> ei_txid api ` set txs \<longrightarrow> in_block (fst (txi_previous_output p)))"
      using p nt by blast
    with nx inv show ?thesis unfolding st pass_inv_def by auto
  next
    case reached
    let ?st = "fold (check_outpoint api index x) (watched api x) st"
    have st: "check_frontier api by_txid index x st = ?st" using reached by (simp add: check_frontier_eq)
    note spec = check_outpoints_spec [OF truth pending [unfolded st]]
    have first: "txi_previous_output (hd (tx_input (ei_tx x))) \<in> set (watched api x)"
      using chain x by (auto simp: chain_consistent_def watched_def neq_Nil_conv)
    have found: "(\<exists>op \<in> set (watched api x). spender op = Some (ei_txid api x)) \<longleftrightarrow> in_block (ei_txid api x)"
    proof
      show "in_block (ei_txid api x)" if "\<exists>op \<in> set (watched api x). spender op = Some (ei_txid api x)"
        using that chain unfolding chain_consistent_def by blast
      show "\<exists>op \<in> set (watched api x). spender op = Some (ei_txid api x)" if "in_block (ei_txid api x)"
        using that first chain x unfolding chain_consistent_def by blast
    qed
    have k: "cs_keys ?st = cs_keys st \<union> (if in_block (ei_txid api x) then {ei_txid api x} else {})"
      and d: "cs_diverged ?st = (cs_diverged st \<or> taken_by_other api spender x)"
      and n: "cs_not_confirmed ?st = cs_not_confirmed st"
      using spec unfolding found taken_by_other_def by auto
    from inv x show ?thesis unfolding st pass_inv_def k d n by auto
  qed
qed

lemma check_frontiers_inv:
  assumes "answers_truthful in_block spender index" "chain_consistent api in_block spender txs"
    "fst ` set by_txid = ei_txid api ` set txs" "parents_first api txs"
    and "txs = done' @ rest" "pass_inv api in_block spender txs done' st"
    and "cs_pending (fold (check_frontier api by_txid index) rest st) = []"
  shows "pass_inv api in_block spender txs txs (fold (check_frontier api by_txid index) rest st)"
  using assms(5-7)
proof (induction rest arbitrary: done' st)
  case (Cons x rest)
  then have "cs_pending (check_frontier api by_txid index x st) = []"
    using check_frontiers_pending by auto
  with check_frontier_inv [OF assms(1-4) Cons.prems(1,2)]
  have "pass_inv api in_block spender txs (done' @ [x]) (check_frontier api by_txid index x st)" .
  with Cons.IH [of "done' @ [x]"] Cons.prems show ?case by simp
qed simp

text \<open>Marking what a confirmed transaction spends from stays within the transactions in a block.\<close>

lemma settle_loop_sound:
  assumes "\<And>t x. map_of by_txid t = Some x \<Longrightarrow> t \<in> B \<Longrightarrow> set (spend_parents x by_txid) \<subseteq> B"
    and "set stack \<subseteq> B" "fst ` set confirmed \<subseteq> B"
  shows "fst ` set (fst (settle_loop by_txid stack confirmed settled)) \<subseteq> B"
  using assms
proof (induction by_txid stack confirmed settled rule: settle_loop.induct)
  case (2 by_txid t stack confirmed settled)
  let ?new = "rev (case map_of by_txid t of None \<Rightarrow> [] | Some x \<Rightarrow> spend_parents x by_txid) @ stack"
  let ?c = "if hm_contains t confirmed then confirmed else hm_insert t None confirmed"
  show ?case
  proof (cases "t \<in> set settled")
    case True
    with "2.IH"(1) [OF True "2.prems"(1)] "2.prems"(2,3) show ?thesis by (simp add: settle_loop.simps(2))
  next
    case False
    have new: "set ?new \<subseteq> B"
      using "2.prems"(1) [of t] "2.prems"(2) by (cases "map_of by_txid t") simp_all
    have c: "fst ` set ?c \<subseteq> B" using "2.prems"(2,3) by simp
    have "fst ` set (fst (settle_loop by_txid ?new ?c (t # settled))) \<subseteq> B"
      by (rule "2.IH"(2) [OF False _ new c]) (rule "2.prems"(1))
    with False show ?thesis by (simp add: settle_loop.simps(2))
  qed
qed (simp add: settle_loop.simps(1))

lemma map_of_by_txid:
  "map_of (fold (\<lambda>t m. hm_insert (ei_txid api t) t m) txs m) k = Some x
     \<Longrightarrow> (x \<in> set txs \<and> ei_txid api x = k) \<or> map_of m k = Some x"
  by (induction txs arbitrary: m) (fastforce simp: update_conv' split: if_splits)+

lemma keys_by_txid:
  "fst ` set (fold (\<lambda>t m. hm_insert (ei_txid api t) t m) txs m) = ei_txid api ` set txs \<union> fst ` set m"
  by (induction txs arbitrary: m) (simp_all add: insert_commute)

lemma check_recorded_inv:
  assumes truth: "answers_truthful in_block spender index" and chain: "chain_consistent api in_block spender txs"
    and by_txid: "by_txid = fold (\<lambda>t m. hm_insert (ei_txid api t) t m) txs []"
    and x: "x \<in> set txs" and inv: "pass_inv api in_block spender txs [] st"
  shows "pass_inv api in_block spender txs [] (check_recorded api by_txid index x st)"
proof -
  let ?B = "{t \<in> ei_txid api ` set txs. in_block t}"
  let ?t = "ei_txid api x"
  have closed: "set (spend_parents y by_txid) \<subseteq> ?B" if y: "map_of by_txid t = Some y" "t \<in> ?B" for t y
  proof
    fix u
    assume u: "u \<in> set (spend_parents y by_txid)"
    have "y \<in> set txs" "ei_txid api y = t" using map_of_by_txid y(1) unfolding by_txid by fastforce+
    with chain y(2) u have "in_block u" by (auto simp: chain_consistent_def spend_parents_def)
    moreover have "u \<in> ei_txid api ` set txs" using u spend_parents_keys [of y by_txid] unfolding by_txid keys_by_txid by auto
    ultimately show "u \<in> ?B" by simp
  qed
  show ?thesis
  proof (cases "map_of index (TxConfirmed ?t)")
    case None
    with inv show ?thesis by (simp add: check_recorded_def Let_def pass_inv_def)
  next
    case (Some r)
    with truth obtain h where r: "r = Confirmed (in_block ?t) h" unfolding answers_truthful_def by blast
    show ?thesis
    proof (cases "in_block ?t")
      case True
      obtain confirmed settled where run: "settle_loop by_txid [?t] (hm_insert ?t h (cs_confirmed st)) (cs_settled st) = (confirmed, settled)"
        by fastforce
      have "fst ` set (fst (settle_loop by_txid [?t] (hm_insert ?t h (cs_confirmed st)) (cs_settled st))) \<subseteq> ?B"
        by (rule settle_loop_sound) (use closed True x inv in \<open>auto simp: pass_inv_def dom_update\<close>)
      with run True Some r inv show ?thesis
        by (simp add: check_recorded_def Let_def mark_settled_def pass_inv_def)
    next
      case False
      with Some r inv show ?thesis by (simp add: check_recorded_def Let_def pass_inv_def)
    qed
  qed
qed

lemma both_passes:
  "cs_pending (if cs_pending a = [] then b else a) = [] \<Longrightarrow> cs_pending a = [] \<and> cs_pending b = []"
  by (simp split: if_splits)


definition example_kept :: "txid \<Rightarrow> exit_check_input" where
  "example_kept parent = \<lparr>ei_tx = example_tx parent 900, ei_cpfp = None, ei_confirmed = False\<rparr>"

definition example_answers :: "observation list" where
  "example_answers =
     [\<lparr>ob_query = Outspend (''d'', 0), ob_result = Spend (Some \<lparr>si_spender_txid = ''tx d'', si_confirmed = True, si_block_height = Some 5\<rparr>)\<rparr>,
      \<lparr>ob_query = Outspend (''tx d'', 0), ob_result = Spend None\<rparr>]"


end
