(* ===== verification/Exit_Scan_Props.thy ===== *)
theory Exit_Scan_Props
  imports Exit_Scan Exit_Observe_Props
begin

text \<open>
  The walk down the branches of an exit: what it reports is on the chain, and what a scan keeps of it
  is all a build needs.
\<close>

subsection \<open>One node of the walk\<close>

definition live_outpoint :: "bitcoin_outpoint \<Rightarrow> txid option \<Rightarrow> tree_node \<Rightarrow> bitcoin_outpoint" where
  "live_outpoint deposit prev node = (case prev of Some txid \<Rightarrow> (txid, tn_vout node) | None \<Rightarrow> deposit)"

lemma walk_nodes_cases:
  obtains (stay) "walk_nodes api leaf_id observed deposit prev (node # rest) walk = walk"
  | (ask) "walk_nodes api leaf_id observed deposit prev (node # rest) walk = walk\<lparr>ew_pending := ew_pending walk @ [Outspend (live_outpoint deposit prev node)]\<rparr>"
  | (unverified) "walk_nodes api leaf_id observed deposit prev (node # rest) walk
      = walk\<lparr>ew_unverified := List.insert (tn_id node) (ew_unverified walk)\<rparr>"
  | (fallback) walk' where "tn_status node = OnChain" "map_of observed (Outspend (live_outpoint deposit prev node)) = Some Unavailable"
      "walk' = walk\<lparr>ew_nodes := hm_insert (tn_id node) (ConfirmedCpfp None) (ew_nodes walk),
         ew_unverifiable_confirmed := List.insert (tn_id node) (ew_unverifiable_confirmed walk)\<rparr>"
      "walk_nodes api leaf_id observed deposit prev (node # rest) walk =
         (if tn_id node = leaf_id then walk'
          else walk_nodes api leaf_id observed deposit (Some (compute_txid api (tn_node_tx node))) rest walk')"
  | (cpfp) info walk' where "map_of observed (Outspend (live_outpoint deposit prev node)) = Some (Spend (Some info))" "si_confirmed info"
      "si_spender_txid info = compute_txid api (tn_node_tx node)"
      "walk' = walk\<lparr>ew_nodes := hm_insert (tn_id node) (ConfirmedCpfp (si_block_height info)) (ew_nodes walk)\<rparr>"
      "walk_nodes api leaf_id observed deposit prev (node # rest) walk =
         (if tn_id node = leaf_id then walk'
          else walk_nodes api leaf_id observed deposit (Some (compute_txid api (tn_node_tx node))) rest walk')"
  | (direct) info where "map_of observed (Outspend (live_outpoint deposit prev node)) = Some (Spend (Some info))" "tn_id node = leaf_id"
      "map_option (compute_txid api) (tn_direct_tx node) = Some (si_spender_txid info)"
      "walk_nodes api leaf_id observed deposit prev (node # rest) walk =
         walk\<lparr>ew_nodes := hm_insert leaf_id (ConfirmedDirect (si_block_height info)) (ew_nodes walk),
              ew_refunds := hm_insert leaf_id DriveDirect (ew_refunds walk)\<rparr>"
  | (stop) info where "map_of observed (Outspend (live_outpoint deposit prev node)) = Some (Spend (Some info))"
      "si_spender_txid info \<noteq> compute_txid api (tn_node_tx node)"
      "walk_nodes api leaf_id observed deposit prev (node # rest) walk = walk\<lparr>ew_stopped := List.insert leaf_id (ew_stopped walk)\<rparr>"
proof (cases "map_of observed (Outspend (live_outpoint deposit prev node))")
  case None
  with ask show thesis by (simp add: Let_def live_outpoint_def)
next
  case (Some r)
  show thesis
  proof (cases r)
    case (Spend si)
    show thesis
    proof (cases si)
      case None
      with Some Spend stay show thesis by (simp add: Let_def live_outpoint_def)
    next
      case info: (Some info)
      note obs = Some [unfolded Spend info]
      show thesis
      proof (cases "si_spender_txid info = compute_txid api (tn_node_tx node)")
        case True
        show thesis
        proof (cases "si_confirmed info")
          case True
          show thesis
            by (rule cpfp [OF obs True \<open>si_spender_txid info = _\<close> refl])
               (use obs True \<open>si_spender_txid info = _\<close> in \<open>simp add: Let_def live_outpoint_def\<close>)
        next
          case False
          with obs \<open>si_spender_txid info = _\<close> stay show thesis by (simp add: Let_def live_outpoint_def)
        qed
      next
        case False
        show thesis
        proof (cases "tn_id node = leaf_id \<and> map_option (compute_txid api) (tn_direct_tx node) = Some (si_spender_txid info)
            \<and> tn_direct_refund_tx node \<noteq> None")
          case True
          show thesis by (rule direct [OF obs]) (use obs True False in \<open>simp_all add: Let_def live_outpoint_def\<close>)
        next
          case nodirect: False
          show thesis by (rule stop [OF obs False]) (use obs nodirect False in \<open>auto simp: Let_def live_outpoint_def\<close>)
        qed
      qed
    qed
  next
    case Unavailable
    note obs = Some [unfolded Unavailable]
    show thesis
    proof (cases "tn_status node = OnChain")
      case True
      show thesis by (rule fallback [OF True obs refl]) (use obs True in \<open>simp add: Let_def live_outpoint_def\<close>)
    next
      case False
      with obs unverified show thesis by (simp add: Let_def live_outpoint_def)
    qed
  qed (use Some stay in \<open>simp_all add: Let_def live_outpoint_def\<close>)
qed

declare walk_nodes.simps(2) [simp del]

subsection \<open>What the walk reports\<close>

text \<open>The answers claim no confirmation that is not there; they may be unavailable, or late.\<close>

definition reports_confirmed :: "(txid \<Rightarrow> bool) \<Rightarrow> observed_index \<Rightarrow> bool" where
  "reports_confirmed in_block index =
     ((\<forall>t h. map_of index (TxConfirmed t) = Some (Confirmed True h) \<longrightarrow> in_block t)
      \<and> (\<forall>op info. map_of index (Outspend op) = Some (Spend (Some info)) \<longrightarrow> si_confirmed info \<longrightarrow> in_block (si_spender_txid info)))"

text \<open>A node's transaction spends its parent's, so a node in a block has its parent in a block.\<close>

definition parents_in_block :: "bitcoin_api \<Rightarrow> (txid \<Rightarrow> bool) \<Rightarrow> node_map \<Rightarrow> bool" where
  "parents_in_block api in_block m =
     (\<forall>n \<in> snd ` set m. \<forall>p parent. tn_parent_node_id n = Some p \<longrightarrow> map_of m p = Some parent \<longrightarrow>
        in_block (compute_txid api (tn_node_tx n)) \<longrightarrow> in_block (compute_txid api (tn_node_tx parent)))"

definition cpfp_reported :: "bitcoin_api \<Rightarrow> (txid \<Rightarrow> bool) \<Rightarrow> node_map \<Rightarrow> exit_chain_walk \<Rightarrow> bool" where
  "cpfp_reported api in_block m walk =
     (\<forall>i h. (i, ConfirmedCpfp h) \<in> set (ew_nodes walk) \<longrightarrow>
        i \<in> set (ew_unverifiable_confirmed walk) \<or> (\<exists>n \<in> snd ` set m. tn_id n = i \<and> in_block (compute_txid api (tn_node_tx n))))"

lemma cpfp_reported_insert:
  assumes "cpfp_reported api in_block m walk" and "n \<in> snd ` set m" and "in_block (compute_txid api (tn_node_tx n))"
  shows "cpfp_reported api in_block m (walk\<lparr>ew_nodes := hm_insert (tn_id n) (ConfirmedCpfp h) (ew_nodes walk)\<rparr>)"
  using assms set_insert_subset [of "tn_id n" "ConfirmedCpfp h" "ew_nodes walk"] unfolding cpfp_reported_def by auto

lemma cpfp_reported_upd [simp]:
  "cpfp_reported api in_block m (walk\<lparr>ew_pending := q\<rparr>) = cpfp_reported api in_block m walk"
  "cpfp_reported api in_block m (walk\<lparr>ew_unverified := u\<rparr>) = cpfp_reported api in_block m walk"
  "cpfp_reported api in_block m (walk\<lparr>ew_stopped := u\<rparr>) = cpfp_reported api in_block m walk"
  "cpfp_reported api in_block m (walk\<lparr>ew_refunds := r\<rparr>) = cpfp_reported api in_block m walk"
  by (simp_all add: cpfp_reported_def)

lemma walk_nodes_reported:
  assumes "reports_confirmed in_block observed" and "set nodes \<subseteq> snd ` set m" and "cpfp_reported api in_block m walk"
  shows "cpfp_reported api in_block m (walk_nodes api leaf_id observed deposit prev nodes walk)"
  using assms(2,3)
proof (induction nodes arbitrary: prev walk)
  case (Cons node rest)
  show ?case
  proof (cases rule: walk_nodes_cases [of api leaf_id observed deposit prev node rest walk])
    case (fallback walk')
    have "cpfp_reported api in_block m walk'"
      using Cons.prems(2) set_insert_subset [of "tn_id node" "ConfirmedCpfp None" "ew_nodes walk"]
      unfolding fallback(3) cpfp_reported_def by auto
    with Cons show ?thesis unfolding fallback(4) by simp
  next
    case (cpfp info walk')
    have "in_block (compute_txid api (tn_node_tx node))"
      using assms(1) cpfp(1-3) unfolding reports_confirmed_def by metis
    with Cons.prems have "cpfp_reported api in_block m walk'"
      unfolding cpfp(4) by (auto intro: cpfp_reported_insert)
    with Cons show ?thesis unfolding cpfp(5) by simp
  next
    case (direct info)
    with Cons.prems(2) set_insert_subset [of leaf_id "ConfirmedDirect (si_block_height info)" "ew_nodes walk"] show ?thesis
      unfolding direct(4) cpfp_reported_def by auto
  qed (use Cons.prems in simp_all)
qed simp

lemma root_chain_nodes: "root_chain m n ns \<Longrightarrow> set ns \<subseteq> insert n (snd ` set m)"
proof (induction rule: root_chain.induct)
  case (rc_step n p parent ns)
  then have "parent \<in> snd ` set m" by (force dest: map_of_SomeD)
  with rc_step.IH show ?case by auto
qed simp

lemma root_chain_in_block:
  assumes "parents_in_block api in_block m" "root_chain m n ns" "n \<in> snd ` set m"
    "in_block (compute_txid api (tn_node_tx (ns ! i)))" "i < length ns" "j \<le> i"
  shows "in_block (compute_txid api (tn_node_tx (ns ! j)))"
  using assms(2-6)
proof (induction arbitrary: i rule: root_chain.induct)
  case (rc_step n p parent ns)
  have parent: "parent \<in> snd ` set m" using rc_step.hyps(2) by (force dest: map_of_SomeD)
  have ns: "ns \<noteq> []" "last ns = parent" using root_chain_last [OF rc_step.hyps(3)] by auto
  show ?case
  proof (cases "i < length ns")
    case True
    with rc_step.IH [OF parent, of i] rc_step.prems show ?thesis by (simp add: nth_append)
  next
    case False
    with rc_step.prems(3) have i: "i = length ns" by simp
    with rc_step.prems(2) have n: "in_block (compute_txid api (tn_node_tx n))" by simp
    show ?thesis
    proof (cases "j = length ns")
      case False
      have "in_block (compute_txid api (tn_node_tx parent))"
        using assms(1) rc_step.hyps(1,2) rc_step.prems(1) n unfolding parents_in_block_def by blast
      then have "in_block (compute_txid api (tn_node_tx (ns ! (length ns - 1))))"
        using ns by (simp add: last_conv_nth)
      from rc_step.IH [OF parent this] ns False i rc_step.prems(4) show ?thesis by (simp add: nth_append)
    qed (use n in simp)
  qed
qed simp

lemma resume_below:
  "resume_candidates api observed pending cs = (Below i h, pending') \<Longrightarrow>
     \<exists>node. (i, node) \<in> set cs \<and> map_of observed (TxConfirmed (compute_txid api (tn_node_tx node))) = Some (Confirmed True h)"
proof (induction cs)
  case (Cons c cs)
  obtain j node where c: "c = (j, node)" by (cases c)
  with Cons show ?case
    by (auto simp: Let_def split: option.splits chain_result.splits bool.splits)
qed simp

text \<open>A branch is not walked (yet), walked from the deposit, or walked from below a confirmed node.\<close>

lemma walk_branch_cases:
  obtains (idle) pending where "walk_branch api m leaf_id observed walk = walk\<lparr>ew_pending := pending\<rparr>"
  | (deposit) leaf chain dep pending where "map_of m leaf_id = Some leaf" "walk_unilateral_exit_chain m leaf = Inr chain"
      "walk_branch api m leaf_id observed walk = walk_nodes api leaf_id observed dep None chain (walk\<lparr>ew_pending := pending\<rparr>)"
  | (below) leaf chain dep prev pending index h where "map_of m leaf_id = Some leaf" "walk_unilateral_exit_chain m leaf = Inr chain"
      "index < length chain" "map_of observed (TxConfirmed (compute_txid api (tn_node_tx (chain ! index)))) = Some (Confirmed True h)"
      "walk_branch api m leaf_id observed walk = walk_nodes api leaf_id observed dep prev (drop (Suc index) chain)
         (walk\<lparr>ew_pending := pending, ew_nodes := fold (\<lambda>(i, node). hm_insert (tn_id node)
            (ConfirmedCpfp (if i = index then h else None))) (enumerate 0 (take (Suc index) chain)) (ew_nodes walk)\<rparr>)"
proof (cases "map_of m leaf_id")
  case None
  with idle [of "ew_pending walk"] show thesis by (simp add: walk_branch_def)
next
  case leaf: (Some leaf)
  show thesis
  proof (cases "walk_unilateral_exit_chain m leaf")
    case (Inl e)
    with leaf idle [of "ew_pending walk"] show thesis by (simp add: walk_branch_def)
  next
    case chain: (Inr chain)
    show thesis
    proof (cases "chain = [] \<or> tx_input (tn_node_tx (hd chain)) = []")
      case True
      with leaf chain idle [of "ew_pending walk"] show thesis by (cases chain) (auto simp: walk_branch_def)
    next
      case False
      then obtain root nodes first inputs where c: "chain = root # nodes" "tx_input (tn_node_tx root) = first # inputs"
        by (cases chain; cases "tx_input (tn_node_tx (hd chain))") auto
      obtain r pending where r: "resume_point_of api chain observed (ew_pending walk) = (r, pending)" by fastforce
      show thesis
      proof (cases r)
        case Awaiting
        with leaf chain c r idle [of pending] show thesis by (simp add: walk_branch_def)
      next
        case Deposit
        with leaf chain c r deposit [OF leaf chain, of "txi_previous_output first" pending] show thesis
          by (simp add: walk_branch_def)
      next
        case (Below index h)
        from r Below obtain node where node: "(index, node) \<in> set (enumerate 0 chain)"
            "map_of observed (TxConfirmed (compute_txid api (tn_node_tx node))) = Some (Confirmed True h)"
          unfolding resume_point_of_def by (auto dest!: resume_below)
        then have i: "index < length chain" "chain ! index = node" by (auto simp: in_set_enumerate_eq)
        with node(2) have at: "map_of observed (TxConfirmed (compute_txid api (tn_node_tx (chain ! index)))) = Some (Confirmed True h)" by simp
        show thesis
          by (rule below [OF leaf chain i(1) at, of "txi_previous_output first" "Some (compute_txid api (tn_node_tx (chain ! index)))" pending])
             (use leaf chain c r Below in \<open>simp add: walk_branch_def Let_def\<close>)
      qed
    qed
  qed
qed

lemma chain_nodes:
  assumes "map_of m i = Some leaf" "walk_unilateral_exit_chain m leaf = Inr chain"
  shows "set chain \<subseteq> snd ` set m" "leaf \<in> snd ` set m" "root_chain m leaf chain" "distinct (map tn_id chain)"
proof -
  show leaf: "leaf \<in> snd ` set m" using assms(1) by (force dest: map_of_SomeD)
  show "root_chain m leaf chain" "distinct (map tn_id chain)" using assms(2) by (simp_all add: walk_root_chain)
  with root_chain_nodes leaf show "set chain \<subseteq> snd ` set m" by fast
qed

lemma cpfp_reported_resume:
  assumes "\<forall>n \<in> set ns. n \<in> snd ` set m \<and> in_block (compute_txid api (tn_node_tx n))" "cpfp_reported api in_block m walk"
  shows "cpfp_reported api in_block m (walk\<lparr>ew_nodes := fold (\<lambda>(i, node). hm_insert (tn_id node) (ConfirmedCpfp (g i)))
    (enumerate k ns) (ew_nodes walk)\<rparr>)"
  using assms
proof (induction ns arbitrary: k walk)
  case (Cons n ns)
  let ?w = "walk\<lparr>ew_nodes := hm_insert (tn_id n) (ConfirmedCpfp (g k)) (ew_nodes walk)\<rparr>"
  have "cpfp_reported api in_block m ?w" using Cons.prems by (intro cpfp_reported_insert) auto
  from Cons.IH [OF _ this, of "Suc k"] Cons.prems show ?case by simp
qed simp

lemma walk_branch_reported:
  assumes "reports_confirmed in_block observed" "parents_in_block api in_block m" "cpfp_reported api in_block m walk"
  shows "cpfp_reported api in_block m (walk_branch api m leaf_id observed walk)"
proof (cases rule: walk_branch_cases [of api m leaf_id observed walk])
  case (deposit leaf chain dep pending)
  with assms(3) chain_nodes(1) [OF deposit(1,2)] show ?thesis
    by (auto intro: walk_nodes_reported [OF assms(1)])
next
  case (below leaf chain dep prev pending index h)
  note chain = chain_nodes [OF below(1,2)]
  have "in_block (compute_txid api (tn_node_tx (chain ! index)))"
    using assms(1) below(4) unfolding reports_confirmed_def by blast
  then have "in_block (compute_txid api (tn_node_tx (chain ! j)))" if "j \<le> index" for j
    using root_chain_in_block [OF assms(2) chain(3,2)] below(3) that by blast
  then have "\<forall>n \<in> set (take (Suc index) chain). in_block (compute_txid api (tn_node_tx n))"
    using below(3) by (auto simp: in_set_conv_nth less_Suc_eq_le)
  then have "\<forall>n \<in> set (take (Suc index) chain). n \<in> snd ` set m \<and> in_block (compute_txid api (tn_node_tx n))"
    using chain(1) by (blast dest: in_set_takeD)
  from cpfp_reported_resume [OF this, of "walk\<lparr>ew_pending := pending\<rparr>"] assms(3) chain(1) show ?thesis
    unfolding below(5) by (intro walk_nodes_reported [OF assms(1)]) (auto dest: in_set_dropD)
qed (use assms in simp)

lemma interpret_refund_cases:
  obtains (same) "interpret_refund leaf_id addr observed walk = walk"
  | (ask) q where "interpret_refund leaf_id addr observed walk = walk\<lparr>ew_pending := ew_pending walk @ [q]\<rparr>"
  | (unverified) "interpret_refund leaf_id addr observed walk = walk\<lparr>ew_unverified := List.insert leaf_id (ew_unverified walk)\<rparr>"
  | (swept) "interpret_refund leaf_id addr observed walk = walk\<lparr>ew_refunds := hm_insert leaf_id Swept (ew_refunds walk)\<rparr>"
  | (adopted) tx and txo :: address_utxo where "map_of observed (QueryTransaction (au_txid txo)) = Some (FoundTransaction tx)"
      "interpret_refund leaf_id addr observed walk = walk\<lparr>ew_refunds := hm_insert leaf_id (Adopted \<lparr>cr_tx = tx,
         cr_outpoint = (au_txid txo, au_vout txo), cr_value = au_value txo, cr_block_height = au_block_height txo\<rparr>) (ew_refunds walk)\<rparr>"
proof (cases "map_of observed (RefundAddress leaf_id addr)")
  case None
  with ask [of "RefundAddress leaf_id addr"] show thesis by (simp add: interpret_refund_def Let_def)
next
  case answer: (Some r)
  show thesis
  proof (cases r)
    case txos: (AddressUtxos txos)
    show thesis
    proof (cases "List.find au_confirmed txos")
      case None
      with answer txos same show thesis by (simp add: interpret_refund_def Let_def)
    next
      case txo: (Some txo)
      show thesis
      proof (cases "map_of observed (Outspend (au_txid txo, au_vout txo))")
        case None
        with answer txos txo ask [of "Outspend (au_txid txo, au_vout txo)"] show thesis by (simp add: interpret_refund_def Let_def)
      next
        case spend: (Some spend)
        let ?swept = "case spend of Spend (Some info) \<Rightarrow> si_confirmed info | _ \<Rightarrow> False"
        show thesis
        proof (cases "?swept \<or> spend = Unavailable")
          case True
          with answer txos txo spend swept unverified show thesis
            by (cases ?swept) (simp_all add: interpret_refund_def Let_def)
        next
          case False
          show thesis
          proof (cases "map_of observed (QueryTransaction (au_txid txo))")
            case None
            with answer txos txo spend False ask [of "QueryTransaction (au_txid txo)"] show thesis
              by (simp add: interpret_refund_def Let_def)
          next
            case tx: (Some tx)
            with answer txos txo spend False same unverified adopted [where txo = txo] show thesis
              by (cases tx) (simp_all add: interpret_refund_def Let_def)
          qed
        qed
      qed
    qed
  qed (use answer same unverified in \<open>simp_all add: interpret_refund_def Let_def\<close>)
qed

lemma interpret_refund_reported:
  "cpfp_reported api in_block m walk \<Longrightarrow> cpfp_reported api in_block m (interpret_refund leaf_id addr observed walk)"
  by (cases rule: interpret_refund_cases [of leaf_id addr observed walk]) simp_all

lemma walk_exit_chain_reported:
  assumes "reports_confirmed in_block observed" "parents_in_block api in_block m"
  shows "cpfp_reported api in_block m (walk_exit_chain api m ids addrs observed)"
proof -
  have branches: "cpfp_reported api in_block m (fold (\<lambda>i. walk_branch api m i observed) ids w)" if "cpfp_reported api in_block m w" for w
    using that by (induction ids arbitrary: w) (auto intro: walk_branch_reported assms)
  have refunds: "cpfp_reported api in_block m (fold (\<lambda>(i, a). interpret_refund i a observed) addrs w)" if "cpfp_reported api in_block m w" for w
    using that by (induction addrs arbitrary: w) (auto intro: interpret_refund_reported)
  show ?thesis
    unfolding walk_exit_chain_def
    by (intro refunds branches) (simp add: cpfp_reported_def exit_chain_walk_default_def)
qed

subsection \<open>What the walk keeps\<close>

definition walk_wf :: "exit_chain_walk \<Rightarrow> bool" where
  "walk_wf walk = (wf_map (ew_nodes walk) \<and> wf_map (ew_refunds walk))"

text \<open>After the branches of \<open>done'\<close>: a leaf's direct refund is driven exactly when its node was taken by its
  direct transaction, and then the branch is not stopped.\<close>

definition walk_inv :: "tree_node_id set \<Rightarrow> exit_chain_walk \<Rightarrow> bool" where
  "walk_inv done' walk =
     (walk_wf walk \<and> set (ew_stopped walk) \<subseteq> done'
      \<and> (\<forall>l s. map_of (ew_refunds walk) l = Some s \<longrightarrow> s = DriveDirect \<and> l \<in> done' \<and> l \<notin> set (ew_stopped walk)
           \<and> (\<exists>h. map_of (ew_nodes walk) l = Some (ConfirmedDirect h)))
      \<and> (\<forall>l h. map_of (ew_nodes walk) l = Some (ConfirmedDirect h) \<longrightarrow> map_of (ew_refunds walk) l = Some DriveDirect))"

lemma walk_inv_insert_node:
  assumes "walk_inv done' walk" and "i \<notin> done'"
  shows "walk_inv done' (walk\<lparr>ew_nodes := hm_insert i (ConfirmedCpfp h) (ew_nodes walk)\<rparr>)"
proof -
  have "map_of (ew_refunds walk) i = None"
    using assms by (cases "map_of (ew_refunds walk) i") (auto simp: walk_inv_def)
  with assms show ?thesis by (auto simp: walk_inv_def walk_wf_def update_conv')
qed

lemma walk_inv_upd [simp]:
  "walk_inv done' (walk\<lparr>ew_pending := q\<rparr>) = walk_inv done' walk"
  "walk_inv done' (walk\<lparr>ew_unverified := u\<rparr>) = walk_inv done' walk"
  "walk_inv done' (walk\<lparr>ew_unverifiable_confirmed := u\<rparr>) = walk_inv done' walk"
  by (simp_all add: walk_inv_def walk_wf_def)

lemma walk_inv_mono: "walk_inv done' walk \<Longrightarrow> done' \<subseteq> D \<Longrightarrow> walk_inv D walk"
  unfolding walk_inv_def by blast

lemma walk_inv_stop:
  assumes "walk_inv done' walk" and "i \<notin> done'"
  shows "walk_inv (insert i done') (walk\<lparr>ew_stopped := List.insert i (ew_stopped walk)\<rparr>)"
  using assms unfolding walk_inv_def walk_wf_def by auto

lemma walk_inv_direct:
  assumes "walk_inv done' walk" and "i \<notin> done'"
  shows "walk_inv (insert i done') (walk\<lparr>ew_nodes := hm_insert i (ConfirmedDirect h) (ew_nodes walk),
    ew_refunds := hm_insert i DriveDirect (ew_refunds walk)\<rparr>)"
  using assms unfolding walk_inv_def walk_wf_def by (auto simp: update_conv')

lemma walk_nodes_inv:
  assumes "walk_inv done' walk" and "leaf_id \<notin> done'" and "\<forall>n \<in> set nodes. tn_id n \<notin> done'"
  shows "walk_inv (insert leaf_id done') (walk_nodes api leaf_id observed deposit prev nodes walk)"
  using assms(1,3)
proof (induction nodes arbitrary: prev walk)
  case (Cons node rest)
  note mono = walk_inv_mono [of done' _ "insert leaf_id done'", OF _ subset_insertI]
  show ?case
  proof (cases rule: walk_nodes_cases [of api leaf_id observed deposit prev node rest walk])
    case (fallback walk')
    have "walk' = walk\<lparr>ew_nodes := hm_insert (tn_id node) (ConfirmedCpfp None) (ew_nodes walk)\<rparr>
        \<lparr>ew_unverifiable_confirmed := List.insert (tn_id node) (ew_unverifiable_confirmed walk)\<rparr>" using fallback(3) by simp
    then have "walk_inv done' walk'" using Cons.prems by (simp add: walk_inv_insert_node del: exit_chain_walk.update_convs)
    with Cons mono show ?thesis unfolding fallback(4) by simp
  next
    case (cpfp info walk')
    have "walk_inv done' walk'" using Cons.prems unfolding cpfp(4) by (simp add: walk_inv_insert_node)
    with Cons mono show ?thesis unfolding cpfp(5) by simp
  next
    case (direct info)
    show ?thesis unfolding direct(4) using Cons.prems(1) assms(2) by (rule walk_inv_direct)
  next
    case (stop info)
    show ?thesis unfolding stop(3) using Cons.prems(1) assms(2) by (rule walk_inv_stop)
  qed (use Cons.prems in \<open>simp_all add: mono\<close>)
qed (simp add: walk_inv_mono [OF _ subset_insertI])

lemma walk_inv_resume:
  assumes "\<forall>n \<in> set ns. tn_id n \<notin> done'" "walk_inv done' walk"
  shows "walk_inv done' (walk\<lparr>ew_nodes := fold (\<lambda>(i, node). hm_insert (tn_id node) (ConfirmedCpfp (g i)))
    (enumerate k ns) (ew_nodes walk)\<rparr>)"
  using assms
proof (induction ns arbitrary: k walk)
  case (Cons n ns)
  let ?w = "walk\<lparr>ew_nodes := hm_insert (tn_id n) (ConfirmedCpfp (g k)) (ew_nodes walk)\<rparr>"
  have "walk_inv done' ?w" using Cons.prems by (intro walk_inv_insert_node) auto
  from Cons.IH [OF _ this, of "Suc k"] Cons.prems show ?case by simp
qed simp

text \<open>The leaves to exit are leaves: none is on the chain of another.\<close>

definition leaves_apart :: "node_map \<Rightarrow> tree_node_id list \<Rightarrow> bool" where
  "leaves_apart m ids = (distinct ids \<and> (\<forall>i \<in> set ids. \<forall>leaf chain. map_of m i = Some leaf \<longrightarrow>
     walk_unilateral_exit_chain m leaf = Inr chain \<longrightarrow> (\<forall>n \<in> set chain. tn_id n \<in> set ids \<longrightarrow> tn_id n = i)))"

lemma walk_branch_inv:
  assumes "walk_inv done' walk" "leaf_id \<notin> done'"
    and apart: "\<And>leaf chain n. map_of m leaf_id = Some leaf \<Longrightarrow> walk_unilateral_exit_chain m leaf = Inr chain \<Longrightarrow> n \<in> set chain \<Longrightarrow> tn_id n \<notin> done'"
  shows "walk_inv (insert leaf_id done') (walk_branch api m leaf_id observed walk)"
proof (cases rule: walk_branch_cases [of api m leaf_id observed walk])
  case (idle pending)
  with assms(1) show ?thesis by (simp add: walk_inv_mono [OF _ subset_insertI])
next
  case (deposit leaf chain dep pending)
  with assms(1,2) apart show ?thesis by (simp add: walk_nodes_inv)
next
  case (below leaf chain dep prev pending index h)
  have "\<forall>n \<in> set (take (Suc index) chain). tn_id n \<notin> done'" using apart below(1,2) by (blast dest: in_set_takeD)
  from walk_inv_resume [OF this, of "walk\<lparr>ew_pending := pending\<rparr>"] assms(1,2) apart below(1,2) show ?thesis
    unfolding below(5) by (intro walk_nodes_inv) (auto dest: in_set_dropD)
qed

lemma walk_branches_inv:
  assumes "leaves_apart m (xs @ ys)" and "walk_inv (set xs) walk"
  shows "walk_inv (set (xs @ ys)) (fold (\<lambda>i. walk_branch api m i observed) ys walk)"
  using assms
proof (induction ys arbitrary: xs walk)
  case (Cons y ys)
  have "walk_inv (insert y (set xs)) (walk_branch api m y observed walk)"
    by (rule walk_branch_inv [OF Cons.prems(2)]) (use Cons.prems(1) in \<open>auto simp: leaves_apart_def\<close>)
  with Cons.IH [of "xs @ [y]" "walk_branch api m y observed walk"] Cons.prems(1) show ?case by simp
qed simp

definition found_by_id :: "bitcoin_api \<Rightarrow> observed_index \<Rightarrow> bool" where
  "found_by_id api index = (\<forall>t tx. map_of index (QueryTransaction t) = Some (FoundTransaction tx) \<longrightarrow> compute_txid api tx = t)"

definition walk_done :: "bitcoin_api \<Rightarrow> tree_node_id set \<Rightarrow> exit_chain_walk \<Rightarrow> bool" where
  "walk_done api ids walk =
     (walk_wf walk
      \<and> (\<forall>l. map_of (ew_refunds walk) l = Some DriveDirect \<longrightarrow> l \<in> ids \<and> l \<notin> set (ew_stopped walk)
           \<and> (\<exists>h. map_of (ew_nodes walk) l = Some (ConfirmedDirect h)))
      \<and> (\<forall>l h. map_of (ew_nodes walk) l = Some (ConfirmedDirect h) \<longrightarrow> map_of (ew_refunds walk) l \<noteq> None)
      \<and> (\<forall>l r. map_of (ew_refunds walk) l = Some (Adopted r) \<longrightarrow> fst (cr_outpoint r) = compute_txid api (cr_tx r)))"

lemma walk_done_branches: "walk_inv ids walk \<Longrightarrow> walk_done api ids walk"
  by (force simp: walk_inv_def walk_done_def)

lemma interpret_refund_done:
  assumes "found_by_id api observed" and "walk_done api ids walk"
  shows "walk_done api ids (interpret_refund leaf_id addr observed walk)"
proof (cases rule: interpret_refund_cases [of leaf_id addr observed walk])
  case (adopted tx txo)
  have "compute_txid api tx = au_txid txo" using assms(1) adopted(1) by (simp add: found_by_id_def)
  with assms(2) show ?thesis unfolding adopted(2) by (auto simp: walk_done_def walk_wf_def update_conv')
qed (use assms(2) in \<open>auto simp: walk_done_def walk_wf_def update_conv'\<close>)

lemma walk_exit_chain_done:
  assumes "leaves_apart m ids" and "found_by_id api observed"
  shows "walk_done api (set ids) (walk_exit_chain api m ids addrs observed)"
proof -
  have "walk_inv (set ([] @ ids)) (fold (\<lambda>i. walk_branch api m i observed) ids exit_chain_walk_default)"
    using assms(1) by (intro walk_branches_inv) (simp_all add: walk_inv_def walk_wf_def exit_chain_walk_default_def)
  then have branches: "walk_done api (set ids) (fold (\<lambda>i. walk_branch api m i observed) ids exit_chain_walk_default)"
    by (simp add: walk_done_branches)
  have "walk_done api (set ids) (fold (\<lambda>(i, a). interpret_refund i a observed) addrs w)" if "walk_done api (set ids) w" for w
    using that by (induction addrs arbitrary: w) (auto intro: interpret_refund_done [OF assms(2)])
  with branches show ?thesis by (simp add: walk_exit_chain_def)
qed

subsection \<open>From a scan to a build\<close>

lemma map_of_fold_insert:
  "distinct (map k xs) \<Longrightarrow> map_of (fold (\<lambda>x. hm_insert (k x) (f x)) xs m) i =
     (case map_of (map (\<lambda>x. (k x, f x)) xs) i of Some v \<Rightarrow> Some v | None \<Rightarrow> map_of m i)"
proof (induction xs arbitrary: m)
  case (Cons x xs)
  have "map_of (map (\<lambda>x. (k x, f x)) xs) (k x) = None" using Cons.prems by (auto simp: map_of_eq_None_iff)
  with Cons show ?case by (auto simp: update_conv' split: option.splits)
qed simp

lemma map_of_same_set: "wf_map xs \<Longrightarrow> wf_map ys \<Longrightarrow> set xs = set ys \<Longrightarrow> map_of xs = map_of ys"
  unfolding wf_map_def by (rule map_of_inject_set [THEN iffD2])

lemma restore_to_confirmed_node [simp]:
  "restore_node (to_confirmed_node (i, s)) = s" "cn_node_id (to_confirmed_node (i, s)) = i"
  "cn_confirmed_by (to_confirmed_node (i, s)) = fst (node_state_parts s)"
  by (cases s; simp add: restore_node_def to_confirmed_node_def)+

lemma distinct_sort_keys: "distinct (map k xs) \<Longrightarrow> distinct (map k (sort_key k xs))"
  by (simp add: distinct_map)

lemma restored_nodes:
  assumes "wf_map nodes"
  shows "map_of (fold (\<lambda>n. hm_insert (cn_node_id n) (restore_node n)) (sort_key cn_node_id (map to_confirmed_node nodes)) []) = map_of nodes"
    and "map_of (fold (\<lambda>n. hm_insert (cn_node_id n) (cn_confirmed_by n)) (sort_key cn_node_id (map to_confirmed_node nodes)) []) i
      = map_option (fst \<circ> node_state_parts) (map_of nodes i)"
proof -
  let ?ns = "sort_key cn_node_id (map to_confirmed_node nodes)"
  have ids: "map cn_node_id (map to_confirmed_node nodes) = map fst nodes" by auto
  have d: "distinct (map cn_node_id ?ns)"
    by (rule distinct_sort_keys) (use assms in \<open>simp add: ids wf_map_def del: map_map\<close>)
  have look: "map_of (map (\<lambda>n. (cn_node_id n, f (restore_node n))) ?ns) i = map_option f (map_of nodes i)" for f :: "node_state \<Rightarrow> 'b" and i
  proof -
    have "set (map (\<lambda>n. (cn_node_id n, f (restore_node n))) ?ns) = set (map (\<lambda>(i, s). (i, f s)) nodes)" by force
    moreover have "map fst (map (\<lambda>(i, s). (i, f s)) nodes) = map fst nodes" by (simp add: case_prod_beta o_def)
    then have "wf_map (map (\<lambda>(i, s). (i, f s)) nodes)" using assms unfolding wf_map_def by (simp only:)
    moreover have "wf_map (map (\<lambda>n. (cn_node_id n, f (restore_node n))) ?ns)" using d by (simp add: wf_map_def o_def)
    ultimately have "map_of (map (\<lambda>n. (cn_node_id n, f (restore_node n))) ?ns) = map_of (map (\<lambda>(i, s). (i, f s)) nodes)"
      by (intro map_of_same_set)
    then show ?thesis by (simp add: map_of_map)
  qed
  have cby: "cn_confirmed_by n = fst (node_state_parts (restore_node n))" for n
    by (simp add: restore_node_def split: exit_node_confirmation.splits)
  show "map_of (fold (\<lambda>n. hm_insert (cn_node_id n) (restore_node n)) ?ns []) = map_of nodes"
    using look [of "\<lambda>s. s"] by (simp add: fun_eq_iff map_of_fold_insert [OF d] option.map_ident split: option.splits)
  show "map_of (fold (\<lambda>n. hm_insert (cn_node_id n) (cn_confirmed_by n)) ?ns []) i = map_option (fst \<circ> node_state_parts) (map_of nodes i)"
    using look [of "fst \<circ> node_state_parts"] unfolding cby by (simp add: map_of_fold_insert [OF d] split: option.splits)
qed

lemma restored_refunds:
  assumes "wf_map refunds" and "\<And>l r. map_of refunds l = Some (Adopted r) \<Longrightarrow> fst (cr_outpoint r) = compute_txid api (cr_tx r)"
  shows "map_of (fold (\<lambda>r. hm_insert (er_leaf_id r) (restore_refund api r)) (sort_key er_leaf_id (List.map_filter to_exit_refund refunds)) m) l
    = (case map_of refunds l of None \<Rightarrow> map_of m l | Some s \<Rightarrow> if s = DriveDirect then map_of m l else Some s)"
proof -
  let ?rs = "List.map_filter to_exit_refund refunds"
  let ?kept = "filter (\<lambda>(l, s). s \<noteq> DriveDirect) refunds"
  have restored: "map (\<lambda>r. (er_leaf_id r, restore_refund api r)) (List.map_filter to_exit_refund xs) = filter (\<lambda>(l, s). s \<noteq> DriveDirect) xs"
    if "\<And>l r. (l, Adopted r) \<in> set xs \<Longrightarrow> fst (cr_outpoint r) = compute_txid api (cr_tx r)" for xs
    using that
  proof (induction xs)
    case (Cons x xs)
    obtain l st where x: "x = (l, st)" by (cases x)
    from Cons have IH: "map (\<lambda>r. (er_leaf_id r, restore_refund api r)) (List.map_filter to_exit_refund xs) = filter (\<lambda>(l, s). s \<noteq> DriveDirect) xs"
      by auto
    show ?case
    proof (cases st)
      case (Adopted r)
      with Cons.prems [of l r] x have "(compute_txid api (cr_tx r), snd (cr_outpoint r)) = cr_outpoint r"
        by (metis list.set_intros(1) prod.collapse)
      with IH x Adopted show ?thesis by (simp add: List.map_filter_simps to_exit_refund_def restore_refund_def)
    qed (use IH x in \<open>simp_all add: List.map_filter_simps to_exit_refund_def restore_refund_def\<close>)
  qed (simp add: List.map_filter_simps)
  have kept: "map (\<lambda>r. (er_leaf_id r, restore_refund api r)) ?rs = ?kept"
    by (rule restored) (use assms in \<open>simp add: wf_map_in\<close>)
  have wfk: "wf_map ?kept" using wf_map_retain [OF assms(1), of "\<lambda>_ s. s \<noteq> DriveDirect"] by (simp add: hm_retain_def)
  have keys: "map er_leaf_id ?rs = map fst ?kept" using arg_cong [OF kept, of "map fst"] by (simp add: o_def)
  have d: "distinct (map er_leaf_id (sort_key er_leaf_id ?rs))"
    by (rule distinct_sort_keys) (use wfk in \<open>simp add: keys wf_map_def\<close>)
  have "map_of (map (\<lambda>r. (er_leaf_id r, restore_refund api r)) (sort_key er_leaf_id ?rs)) = map_of ?kept"
  proof (rule map_of_same_set)
    show "wf_map (map (\<lambda>r. (er_leaf_id r, restore_refund api r)) (sort_key er_leaf_id ?rs))"
      using d by (simp add: wf_map_def o_def)
    show "set (map (\<lambda>r. (er_leaf_id r, restore_refund api r)) (sort_key er_leaf_id ?rs)) = set ?kept"
      unfolding kept [symmetric] by simp
  qed (rule wfk)
  moreover have "map_of ?kept l = (case map_of refunds l of None \<Rightarrow> None | Some s \<Rightarrow> if s = DriveDirect then None else Some s)"
    using hm_get_retain [OF assms(1), of "\<lambda>_ s. s \<noteq> DriveDirect" l] by (simp add: hm_retain_def split: option.splits)
  ultimately show ?thesis by (simp add: map_of_fold_insert [OF d] split: option.splits)
qed

lemma map_of_drive_direct:
  "map_of (fold (\<lambda>l refunds. if P l then hm_insert l DriveDirect refunds else refunds) ids m) l
     = (if l \<in> set ids \<and> P l then Some DriveDirect else map_of m l)"
  by (induction ids arbitrary: m) (auto simp: update_conv')

lemma set_fold_insert: "set (fold List.insert xs ys) = set xs \<union> set ys"
  by (induction xs arbitrary: ys) auto

text \<open>\<^bold>\<open>C18\<close>. What a scan keeps of the chain is all a build needs: restoring the kept state gives back every
  resolved node, the refund of every leaf of the plan, the stopped branches and the unverified nodes,
  although the scan does not keep which direct refunds are to be driven.\<close>

theorem scan_restore_roundtrip:
  assumes "leaves_apart m ids" and "found_by_id api (observed_index_new observed)"
  shows "let walk = walk_exit_chain api m ids addrs (observed_index_new observed);
             restored = restore_exit_chain_walk api (es_state (scan_exit_chain api m ids addrs observed)) plan_ids
    in map_of (ew_nodes restored) = map_of (ew_nodes walk)
      \<and> list_all (\<lambda>l. map_of (ew_refunds restored) l = map_of (ew_refunds walk) l) plan_ids
      \<and> set (ew_stopped restored) = set (ew_stopped walk)
      \<and> set (ew_unverified restored) = set (ew_unverified walk)
      \<and> set (ew_unverifiable_confirmed restored) = set (ew_unverifiable_confirmed walk)"
proof -
  define walk where "walk = walk_exit_chain api m ids addrs (observed_index_new observed)"
  have done': "walk_done api (set ids) walk" unfolding walk_def by (rule walk_exit_chain_done [OF assms])
  then have wf: "wf_map (ew_nodes walk)" "wf_map (ew_refunds walk)" by (auto simp: walk_done_def walk_wf_def)
  define direct where "direct = fold (\<lambda>l refunds. if l \<notin> set (ew_stopped walk) \<and> map_option (fst \<circ> node_state_parts) (map_of (ew_nodes walk) l) = Some Direct
     then hm_insert l DriveDirect refunds else refunds) plan_ids []"
  have refunds: "(case map_of (ew_refunds walk) l of None \<Rightarrow> map_of direct l | Some s \<Rightarrow> if s = DriveDirect then map_of direct l else Some s)
      = map_of (ew_refunds walk) l" if "l \<in> set plan_ids" for l
  proof (cases "map_of (ew_refunds walk) l")
    case None
    have "map_option (fst \<circ> node_state_parts) (map_of (ew_nodes walk) l) \<noteq> Some Direct"
    proof (cases "map_of (ew_nodes walk) l")
      case (Some st)
      with None done' show ?thesis by (cases st) (auto simp: walk_done_def)
    qed simp
    with None show ?thesis by (simp add: direct_def map_of_drive_direct)
  next
    case (Some s)
    with that done' show ?thesis by (cases "s = DriveDirect") (auto simp: direct_def map_of_drive_direct walk_done_def)
  qed
  have look: "map_of (fold (\<lambda>r. hm_insert (er_leaf_id r) (restore_refund api r))
      (sort_key er_leaf_id (List.map_filter to_exit_refund (ew_refunds walk))) direct) l = map_of (ew_refunds walk) l"
    if "l \<in> set plan_ids" for l
    using restored_refunds [where refunds = "ew_refunds walk" and api = api and m = direct] wf(2) done' refunds [OF that]
    by (simp add: walk_done_def)
  show ?thesis
    unfolding scan_exit_chain_def restore_exit_chain_walk_def Let_def walk_def [symmetric] exit_chain_scan.select_convs
      exit_chain_state.select_convs exit_chain_walk.select_convs restored_nodes [OF wf(1)] set_fold_insert set_sort list.set(1)
      Un_empty_right direct_def [symmetric]
    by (simp add: list_all_iff look)
qed

text \<open>\<^bold>\<open>C33\<close>. A scan reports no more progress than there is: a node it says was confirmed through its own
  transaction is in a block, or it is among the nodes the state names as taken on the operators' word.
  That needs only answers that claim no confirmation that did not happen, however many failed.\<close>

theorem scan_reports_confirmed:
  assumes "reports_confirmed in_block (observed_index_new observed)" and "parents_in_block api in_block m"
  shows "list_all (\<lambda>c. cn_confirmed_by c = Cpfp \<longrightarrow>
      cn_node_id c \<in> set (ec_unverifiable_confirmed_nodes (es_state (scan_exit_chain api m ids addrs observed)))
      \<or> (\<exists>n \<in> snd ` set m. tn_id n = cn_node_id c \<and> in_block (compute_txid api (tn_node_tx n))))
    (ec_nodes (es_state (scan_exit_chain api m ids addrs observed)))"
proof -
  define walk where "walk = walk_exit_chain api m ids addrs (observed_index_new observed)"
  have "cpfp_reported api in_block m walk" unfolding walk_def by (rule walk_exit_chain_reported [OF assms])
  moreover have "\<exists>h. st = ConfirmedCpfp h" if "cn_confirmed_by (to_confirmed_node (i, st)) = Cpfp" for i st
    using that by (cases st) simp_all
  ultimately show ?thesis
    unfolding scan_exit_chain_def Let_def walk_def [symmetric] list_all_iff cpfp_reported_def by force
qed

text \<open>A leaf that is its own root, taken on the chain by its own transaction.\<close>

definition example_root_answers :: "txid \<Rightarrow> bool \<Rightarrow> observation list" where
  "example_root_answers t confirmed = [\<lparr>ob_query = Outspend (''parent of a'', 0),
     ob_result = Spend (Some \<lparr>si_spender_txid = t, si_confirmed = confirmed, si_block_height = None\<rparr>)\<rparr>]"

lemma example_leaf_walk: "walk_unilateral_exit_chain [(i, example_leaf i v None)] (example_leaf i v None) = Inr [example_leaf i v None]"
  by (simp add: walk_unilateral_exit_chain_def exit_walk.simps)

lemma example_leaf_txid: "compute_txid example_api (tn_node_tx (example_leaf i v p)) = ''tx '' @ ''parent of '' @ i"
  by (simp add: example_api_def example_leaf_def example_tx_def)

lemma example_walk:
  "walk_exit_chain example_api [(''a'', example_leaf ''a'' 900 None)] [''a''] [] (observed_index_new (example_root_answers ''tx parent of a'' True))
     = exit_chain_walk_default\<lparr>ew_nodes := [(''a'', ConfirmedCpfp None)]\<rparr>"
proof -
  have input: "tx_input (tn_node_tx (example_leaf ''a'' 900 None)) = [\<lparr>txi_previous_output = (''parent of a'', 0), txi_script_sig = [],
      txi_sequence = 0x400007D0, txi_witness = []\<rparr>]"
    by (simp add: example_leaf_def example_tx_def)
  show ?thesis
    by (simp add: walk_exit_chain_def walk_branch_def example_leaf_walk input resume_point_of_def walk_nodes.simps(2) Let_def
        map_of_observed_index example_root_answers_def example_leaf_txid exit_chain_walk_default_def)
qed

lemma scan_reports_confirmed_witness:
  "ec_nodes (es_state (scan_exit_chain example_api [(''a'', example_leaf ''a'' 900 None)] [''a''] [] (example_root_answers ''tx parent of a'' True)))
     = [\<lparr>cn_node_id = ''a'', cn_confirmed_by = Cpfp, cn_block_height = None\<rparr>] \<and> ''tx parent of a'' \<in> {''tx parent of a''}"
proof -
  let ?in_block = "\<lambda>t. t \<in> {''tx parent of a''}"
  let ?scan = "scan_exit_chain example_api [(''a'', example_leaf ''a'' 900 None)] [''a''] [] (example_root_answers ''tx parent of a'' True)"
  have truth: "reports_confirmed ?in_block (observed_index_new (example_root_answers ''tx parent of a'' True))"
    by (auto simp: reports_confirmed_def map_of_observed_index example_root_answers_def)
  have parents: "parents_in_block example_api ?in_block [(''a'', example_leaf ''a'' 900 None)]"
    by (simp add: parents_in_block_def)
  have nodes: "ec_nodes (es_state ?scan) = [\<lparr>cn_node_id = ''a'', cn_confirmed_by = Cpfp, cn_block_height = None\<rparr>]"
      "ec_unverifiable_confirmed_nodes (es_state ?scan) = []"
    by (simp_all add: scan_exit_chain_def Let_def example_walk exit_chain_walk_default_def to_confirmed_node_def)
  from scan_reports_confirmed [OF truth parents, of "[''a'']" "[]"] nodes show ?thesis
    by (simp add: example_leaf_txid)
qed

lemma scan_restore_roundtrip_witness:
  "map_of (ew_nodes (restore_exit_chain_walk example_api (es_state (scan_exit_chain example_api [(''a'', example_leaf ''a'' 900 None)] [''a''] []
      (example_root_answers ''tx parent of a'' True))) [''a''])) ''a'' = Some (ConfirmedCpfp None)"
proof -
  have apart: "leaves_apart [(''a'', example_leaf ''a'' 900 None)] [''a'']"
    by (auto simp: leaves_apart_def example_leaf_walk)
  have found: "found_by_id example_api (observed_index_new (example_root_answers ''tx parent of a'' True))"
    by (simp add: found_by_id_def map_of_observed_index example_root_answers_def)
  from scan_restore_roundtrip [OF apart found, of "[]" "[''a'']"] show ?thesis
    by (simp add: Let_def example_walk)
qed

text \<open>A direct spend of a leaf is taken at face value: unlike a cpfp spend it is reported confirmed, and its
  refund driven, while it still sits in the mempool.\<close>

lemma mempool_direct_reported_confirmed:
  assumes "tn_id leaf = leaf_id" "tn_direct_tx leaf = Some direct_tx" "tn_direct_refund_tx leaf \<noteq> None"
    and "compute_txid api direct_tx \<noteq> compute_txid api (tn_node_tx leaf)"
    and "map_of observed (Outspend deposit) = Some (Spend (Some info))" "si_spender_txid info = compute_txid api direct_tx" "\<not> si_confirmed info"
  shows "map_of (ew_nodes (walk_nodes api leaf_id observed deposit None [leaf] walk)) leaf_id = Some (ConfirmedDirect (si_block_height info))
    \<and> map_of (ew_refunds (walk_nodes api leaf_id observed deposit None [leaf] walk)) leaf_id = Some DriveDirect"
  using assms by (auto simp: walk_nodes.simps(2) Let_def update_conv')

end
