(* ===== verification/Exit_Build_Props.thy ===== *)
theory Exit_Build_Props
  imports Exit_Build Exit_Scan_Props
begin

text \<open>
  The transactions of a built exit: each node of the tree once, and every transaction after the ones
  it depends on.
\<close>

subsection \<open>One node\<close>

lemma from_service_simps [simp]:
  "from_service (Inl e) = Inl (WE_ServiceError e)" "from_service (Inr x) = Inr x"
  "from_service r = Inr y \<longleftrightarrow> r = Inr y"
  by (auto simp: from_service_def split: sum.splits)

text \<open>A node already emitted only moves the branch on; another is emitted with or without a child.\<close>

lemma drive_node_cases:
  assumes "drive_node api resolved rate leaf_id node st = Inr st'"
  obtains (seen) base where
      "node_base_tx (map_of (re_nodes resolved) (tn_id node)) node = Inr base" "compute_txid api base \<in> set (dr_emitted st)"
      "st' = st\<lparr>dr_prev_txid := Some (compute_txid api base),
        dr_leaf_node_txid := (if tn_id node = leaf_id then Some (compute_txid api base) else dr_leaf_node_txid st)\<rparr>"
  | (confirmed) base s where
      "node_base_tx (map_of (re_nodes resolved) (tn_id node)) node = Inr base" "compute_txid api base \<notin> set (dr_emitted st)"
      "map_of (re_nodes resolved) (tn_id node) = Some s"
      "st' = st\<lparr>dr_prev_txid := Some (compute_txid api base),
        dr_leaf_node_txid := (if tn_id node = leaf_id then Some (compute_txid api base) else dr_leaf_node_txid st),
        dr_emitted := compute_txid api base # dr_emitted st,
        dr_txs := dr_txs st @ [\<lparr>xt_kind = KindNode, xt_node_id = Some (tn_id node), xt_txid = compute_txid api base, xt_base_tx = base,
          xt_to_sign = None, xt_csv_timelock_blocks = csv_timelock api base,
          xt_depends_on = (case dr_prev_txid st of None \<Rightarrow> [] | Some p \<Rightarrow> [p]), xt_status = node_status (Some s)\<rparr>]\<rparr>"
  | (driven) child where
      "map_of (re_nodes resolved) (tn_id node) = None" "compute_txid api (tn_node_tx node) \<notin> set (dr_emitted st)"
      "build_cpfp_child api (tn_node_tx node) (dr_funding st) rate = Inr child"
      "st' = st\<lparr>dr_prev_txid := Some (compute_txid api (tn_node_tx node)),
        dr_leaf_node_txid := (if tn_id node = leaf_id then Some (compute_txid api (tn_node_tx node)) else dr_leaf_node_txid st),
        dr_emitted := compute_txid api (tn_node_tx node) # dr_emitted st,
        dr_cpfp_fee_sat := sat_add (dr_cpfp_fee_sat st) (cc_fee_sat child), dr_funding := [cc_change_input child],
        dr_fan_out_dep := None,
        dr_txs := dr_txs st @ [\<lparr>xt_kind = KindNode, xt_node_id = Some (tn_id node), xt_txid = compute_txid api (tn_node_tx node),
          xt_base_tx = tn_node_tx node, xt_to_sign = Some (cc_psbt child), xt_csv_timelock_blocks = csv_timelock api (tn_node_tx node),
          xt_depends_on = (case dr_prev_txid st of None \<Rightarrow> [] | Some p \<Rightarrow> [p]) @ (case dr_fan_out_dep st of None \<Rightarrow> [] | Some f \<Rightarrow> [f]),
          xt_status = StatusUnconfirmed\<rparr>]\<rparr>"
proof (cases "map_of (re_nodes resolved) (tn_id node)")
  case None
  then have base: "node_base_tx (map_of (re_nodes resolved) (tn_id node)) node = Inr (tn_node_tx node)"
    by (simp add: node_base_tx_def)
  show thesis
  proof (cases "compute_txid api (tn_node_tx node) \<in> set (dr_emitted st)")
    case True
    show thesis by (rule seen [OF base True]) (use assms base True in \<open>simp add: drive_node_def Let_def\<close>)
  next
    case False
    with assms base None obtain child where child: "build_cpfp_child api (tn_node_tx node) (dr_funding st) rate = Inr child"
      by (auto simp: drive_node_def Let_def)
    show thesis
      by (rule driven [OF None False child]) (use assms base None False child in \<open>simp add: drive_node_def Let_def\<close>)
  qed
next
  case (Some s)
  from assms obtain base where base: "node_base_tx (map_of (re_nodes resolved) (tn_id node)) node = Inr base"
    by (auto simp: drive_node_def Let_def)
  show thesis
  proof (cases "compute_txid api base \<in> set (dr_emitted st)")
    case True
    show thesis by (rule seen [OF base True]) (use assms base True in \<open>simp add: drive_node_def Let_def\<close>)
  next
    case False
    show thesis
      by (rule confirmed [OF base False Some]) (use assms base Some False in \<open>simp add: drive_node_def Let_def\<close>)
  qed
qed

subsection \<open>Order\<close>

fun deps_met :: "txid set \<Rightarrow> exit_tx list \<Rightarrow> bool" where
  "deps_met known [] = True"
| "deps_met known (t # ts) = (set (xt_depends_on t) \<subseteq> known \<and> deps_met (insert (xt_txid t) known) ts)"

lemma deps_met_append: "deps_met known (xs @ ys) \<longleftrightarrow> deps_met known xs \<and> deps_met (known \<union> xt_txid ` set xs) ys"
  by (induction xs arbitrary: known) auto

abbreviation node_txids :: "exit_tx list \<Rightarrow> txid list" where
  "node_txids txs \<equiv> map xt_txid (filter (\<lambda>t. xt_kind t = KindNode) txs)"

text \<open>Inside a branch: \<open>before\<close> are the transactions of the earlier branches.\<close>

definition drive_ordered :: "txid set \<Rightarrow> exit_tx list \<Rightarrow> drive_state \<Rightarrow> bool" where
  "drive_ordered known before st =
     (deps_met known (before @ dr_txs st)
      \<and> distinct (node_txids (before @ dr_txs st)) \<and> set (dr_emitted st) = set (node_txids (before @ dr_txs st))
      \<and> set_option (dr_prev_txid st) \<subseteq> set (dr_emitted st) \<and> set_option (dr_leaf_node_txid st) \<subseteq> set (dr_emitted st)
      \<and> set_option (dr_fan_out_dep st) \<subseteq> known)"

lemma drive_node_ordered:
  assumes "drive_node api resolved rate leaf_id node st = Inr st'" and "drive_ordered known before st"
  shows "drive_ordered known before st'"
  using assms(1)
proof (cases rule: drive_node_cases)
  case (seen base)
  with assms(2) show ?thesis by (auto simp: drive_ordered_def)
next
  case (confirmed base s)
  with assms(2) show ?thesis
    by (auto simp: drive_ordered_def deps_met_append split: option.splits)
next
  case (driven child)
  with assms(2) show ?thesis
    by (auto simp: drive_ordered_def deps_met_append split: option.splits)
qed

lemma drive_nodes_ordered:
  assumes "drive_nodes api resolved rate leaf_id nodes st = Inr st'" and "drive_ordered known before st"
  shows "drive_ordered known before st'"
  using assms by (induction nodes arbitrary: st) (auto dest: drive_node_ordered)

lemma drive_refund_cases:
  assumes "drive_refund api resolved rate leaf_id leaf stopped st = Inr st'"
  obtains (nothing) "st' = st"
  | (refund) t where "dr_txs st' = dr_txs st @ [t]" "xt_kind t = KindRefund" "dr_emitted st' = dr_emitted st"
      "set (xt_depends_on t) \<subseteq> set_option (dr_leaf_node_txid st) \<union> set_option (dr_fan_out_dep st)"
      "dr_prev_txid st' = dr_prev_txid st" "dr_leaf_node_txid st' = dr_leaf_node_txid st"
      "set_option (dr_fan_out_dep st') \<subseteq> set_option (dr_fan_out_dep st)"
proof (cases "map_of (re_refunds resolved) leaf_id")
  case None
  show thesis
  proof (cases stopped)
    case True
    with None assms have "st' = st" by (simp add: drive_refund_def)
    then show thesis by (rule nothing)
  next
    case False
    with None assms show thesis
      by (auto simp: drive_refund_def push_refund_def split: option.splits intro!: refund)
  qed
next
  case (Some r)
  show thesis
  proof (cases "r = Swept")
    case True
    with Some assms have "st' = st" by (simp add: drive_refund_def)
    then show thesis by (rule nothing)
  next
    case False
    with Some assms show thesis
      by (cases r) (auto simp: drive_refund_def push_refund_def split: option.splits intro!: refund)
  qed
qed

lemma drive_refund_ordered:
  assumes "drive_refund api resolved rate leaf_id leaf stopped st = Inr st'" and "drive_ordered known before st"
  shows "drive_ordered known before st'"
  using assms(1)
proof (cases rule: drive_refund_cases)
  case (refund t)
  have "set (dr_emitted st) \<subseteq> xt_txid ` set (before @ dr_txs st)"
    using assms(2) by (auto simp: drive_ordered_def)
  moreover have "set (xt_depends_on t) \<subseteq> known \<union> set (dr_emitted st)"
    using refund(4) assms(2) by (auto simp: drive_ordered_def)
  ultimately have "set (xt_depends_on t) \<subseteq> known \<union> xt_txid ` set (before @ dr_txs st)" by blast
  with refund assms(2) show ?thesis
    by (auto simp: drive_ordered_def deps_met_append Un_assoc image_Un)
qed (use assms(2) in simp)

definition build_ordered :: "txid set \<Rightarrow> build_state \<Rightarrow> bool" where
  "build_ordered known bs =
     (let txs = concat (map xb_txs (bs_branches bs))
      in deps_met known txs \<and> distinct (node_txids txs) \<and> set (bs_emitted bs) = set (node_txids txs))"

definition branch_start :: "cpfp_input list \<Rightarrow> txid option \<Rightarrow> build_state \<Rightarrow> drive_state" where
  "branch_start funding fan_out bs = \<lparr>dr_funding = funding, dr_txs = [], dr_fan_out_dep = fan_out, dr_prev_txid = None,
     dr_leaf_node_txid = None, dr_emitted = bs_emitted bs, dr_cpfp_fee_sat = bs_cpfp_fee_sat bs,
     dr_refund_outputs = bs_refund_outputs bs, dr_cpfp_change_inputs = bs_cpfp_change_inputs bs\<rparr>"

lemma build_branch_Inr:
  "build_branch api m resolved rate fan_out (leaf_id, funding) bs = Inr bs' \<longleftrightarrow>
     (\<exists>leaf chain st1 st2. map_of m leaf_id = Some leaf \<and> walk_unilateral_exit_chain m leaf = Inr chain
        \<and> (if leaf_id \<in> set (re_stopped resolved) then st1 = branch_start funding fan_out bs
            else drive_nodes api resolved rate leaf_id chain (branch_start funding fan_out bs) = Inr st1)
        \<and> drive_refund api resolved rate leaf_id leaf (leaf_id \<in> set (re_stopped resolved)) st1 = Inr st2
        \<and> bs' = \<lparr>bs_emitted = dr_emitted st2, bs_branches = bs_branches bs @ [\<lparr>xb_leaf_id = leaf_id, xb_txs = dr_txs st2\<rparr>],
             bs_refund_outputs = dr_refund_outputs st2, bs_cpfp_change_inputs = dr_cpfp_change_inputs st2,
             bs_cpfp_fee_sat = dr_cpfp_fee_sat st2\<rparr>)"
proof (cases "map_of m leaf_id")
  case (Some leaf)
  show ?thesis
  proof (cases "walk_unilateral_exit_chain m leaf")
    case (Inr chain)
    with Some show ?thesis
      by (cases "leaf_id \<in> set (re_stopped resolved)") (auto simp: build_branch_def branch_start_def Let_def)
  qed (simp add: build_branch_def Some)
qed (simp add: build_branch_def)

lemma build_branch_ordered:
  assumes "build_branch api m resolved rate fan_out lf bs = Inr bs'" and "build_ordered known bs" and "set_option fan_out \<subseteq> known"
  shows "build_ordered known bs'"
proof -
  obtain leaf_id funding where lf: "lf = (leaf_id, funding)" by (cases lf)
  let ?before = "concat (map xb_txs (bs_branches bs))"
  let ?st0 = "branch_start funding fan_out bs"
  have st0: "drive_ordered known ?before ?st0" using assms(2,3) by (auto simp: build_ordered_def drive_ordered_def branch_start_def Let_def)
  from assms(1) obtain leaf chain st1 st2 where
      st1: "if leaf_id \<in> set (re_stopped resolved) then st1 = ?st0 else drive_nodes api resolved rate leaf_id chain ?st0 = Inr st1"
      and st2: "drive_refund api resolved rate leaf_id leaf (leaf_id \<in> set (re_stopped resolved)) st1 = Inr st2"
      and bs': "bs' = \<lparr>bs_emitted = dr_emitted st2, bs_branches = bs_branches bs @ [\<lparr>xb_leaf_id = leaf_id, xb_txs = dr_txs st2\<rparr>],
             bs_refund_outputs = dr_refund_outputs st2, bs_cpfp_change_inputs = dr_cpfp_change_inputs st2,
             bs_cpfp_fee_sat = dr_cpfp_fee_sat st2\<rparr>"
    unfolding lf build_branch_Inr by blast
  from st1 st0 have "drive_ordered known ?before st1" by (auto intro: drive_nodes_ordered split: if_splits)
  with st2 have "drive_ordered known ?before st2" by (rule drive_refund_ordered)
  moreover have "concat (map xb_txs (bs_branches bs')) = ?before @ dr_txs st2" "bs_emitted bs' = dr_emitted st2" using bs' by simp_all
  ultimately show ?thesis unfolding build_ordered_def drive_ordered_def Let_def by (simp only:)
qed

lemma build_branches_ordered:
  assumes "build_branches api m resolved rate fan_out lfs bs = Inr bs'" and "build_ordered known bs" and "set_option fan_out \<subseteq> known"
  shows "build_ordered known bs'"
  using assms(1,2) by (induction lfs arbitrary: bs) (auto dest: build_branch_ordered [OF _ _ assms(3)])


definition example_tree :: node_map where
  "example_tree = [(''r'', example_leaf ''r'' 1000 None), (''a'', example_leaf ''a'' 900 (Some ''r''))]"

definition example_resolved :: resolved_exit_state where
  "example_resolved = \<lparr>re_nodes = [(''r'', ConfirmedCpfp (Some 7)), (''a'', ConfirmedCpfp None)], re_refunds = [(''a'', Swept)], re_stopped = []\<rparr>"

definition example_plan :: exit_plan where
  "example_plan = \<lparr>ep_selected_leaves = [example_selected ''a'' 900 100], ep_fan_out_psbt = None, ep_per_branch_funding = [(''a'', [])],
     ep_tree_nodes = example_tree\<rparr>"

lemma example_tree_walk:
  "walk_unilateral_exit_chain example_tree (example_leaf ''a'' 900 (Some ''r'')) = Inr [example_leaf ''r'' 1000 None, example_leaf ''a'' 900 (Some ''r'')]"
  by (simp add: walk_unilateral_exit_chain_def exit_walk.simps example_tree_def)


end
