(* ===== verification/Exit_Feasible.thy ===== *)
theory Exit_Feasible
  imports Exit_Build_Props
begin

text \<open>
  The planner and the builder agree: an exit that was planned can be built. The planner charges each
  leaf for the transactions its branch has to drive and for nothing else; the builder pays them one after
  the other out of what the branch was assigned.
\<close>

subsection \<open>Paying for a branch\<close>

text \<open>What driving transactions of the given weights costs: the first child spends all the funding, each later
  one the change of the one before.\<close>

fun drive_cost :: "(u64 \<Rightarrow> u64 \<Rightarrow> u64) \<Rightarrow> u64 \<Rightarrow> u64 \<Rightarrow> bool \<Rightarrow> u64 list \<Rightarrow> nat" where
  "drive_cost fee initial single funded [] = 0"
| "drive_cost fee initial single funded (w # ws) =
     fee w (if funded then single else initial) + drive_cost fee initial single True ws"

text \<open>A fee that grows with the weight of the inputs, and by no more than any other package costs.\<close>

definition fee_tame :: "(u64 \<Rightarrow> u64 \<Rightarrow> u64) \<Rightarrow> u64 \<Rightarrow> u64 \<Rightarrow> u64 set \<Rightarrow> bool" where
  "fee_tame fee initial single W =
     ((\<forall>w \<in> W. fee w single \<le> fee w initial) \<and> (\<forall>w \<in> W. \<forall>w' \<in> W. fee w' initial \<le> fee w initial + fee w' single))"

lemma drive_cost_funded: "fee_tame fee i s W \<Longrightarrow> set ws \<subseteq> W \<Longrightarrow> drive_cost fee i s True ws \<le> drive_cost fee i s False ws"
  by (cases ws) (auto simp: fee_tame_def)

lemma drive_cost_Cons: "fee_tame fee i s W \<Longrightarrow> set ws \<subseteq> W \<Longrightarrow> w \<in> W \<Longrightarrow> drive_cost fee i s False ws \<le> drive_cost fee i s False (w # ws)"
  by (cases ws) (auto simp: fee_tame_def)

lemma drive_cost_same: "drive_cost fee s s b ws = drive_cost fee i s True ws"
  by (induction ws arbitrary: b) auto

lemma drive_cost_skip:
  assumes "fee_tame fee i s W" "g ` set xs \<subseteq> W" "set ws \<subseteq> W" "\<And>x. x \<in> set xs \<Longrightarrow> Q x \<Longrightarrow> P x"
  shows "drive_cost fee i s b (map g (filter Q xs) @ ws) \<le> drive_cost fee i s b (map g (filter P xs) @ ws)"
  using assms(2,4)
proof (induction xs arbitrary: b)
  case (Cons x xs)
  have IH: "drive_cost fee i s b (map g (filter Q xs) @ ws) \<le> drive_cost fee i s b (map g (filter P xs) @ ws)" for b
    using Cons by auto
  have W: "set (map g (filter P xs) @ ws) \<subseteq> W" using Cons.prems(1) assms(3) by auto
  show ?case
  proof (cases "P x")
    case True
    have "drive_cost fee i s b (map g (filter P xs) @ ws) \<le> drive_cost fee i s b (g x # map g (filter P xs) @ ws)"
      using drive_cost_Cons [OF assms(1) W, of "g x"] Cons.prems(1) by (cases b) auto
    with True IH [of b] IH [of True] show ?thesis by (cases b) auto
  next
    case False
    with Cons.prems(2) [of x] IH show ?thesis by auto
  qed
qed simp

subsection \<open>Package fees\<close>

definition weight_fits :: "bitcoin_api \<Rightarrow> u64 \<Rightarrow> nat \<Rightarrow> u64 \<Rightarrow> bool" where
  "weight_fits api input_weight script_len w =
     (w + input_weight + anchor_input_weight api + output_weight api script_len + tx_overhead_weight api < 2 ^ 64)"

lemma package_fee_eq:
  assumes "weight_fits api i len w"
  shows "compute_cpfp_package_fee api w i len r = fee_sat r (w + i + anchor_input_weight api + output_weight api len + tx_overhead_weight api)"
  using assms by (simp add: compute_cpfp_package_fee_def weight_fits_def add_u64_small ac_simps)

lemma fee_sat_sub: "fee_sat r (a + b) \<le> fee_sat r a + fee_sat r b"
proof -
  have "sat_mul r (a + b) \<le> sat_mul r a + sat_mul r b" by (simp add: sat_mul_def min_def distrib_left)
  moreover have "sat_mul r x \<le> fee_sat r x * 1000" for x
    unfolding fee_sat_def using div_ceil_le_iff [of 1000 "sat_mul r x" "div_ceil (sat_mul r x) 1000"] by simp
  then have "sat_mul r a \<le> fee_sat r a * 1000" "sat_mul r b \<le> fee_sat r b * 1000" by blast+
  ultimately have "sat_mul r (a + b) \<le> (fee_sat r a + fee_sat r b) * 1000" by (simp add: distrib_right)
  then show ?thesis unfolding fee_sat_def using div_ceil_le_iff [of 1000 "sat_mul r (a + b)"] by simp
qed

lemma package_fee_tame:
  assumes "\<forall>w \<in> W. weight_fits api i len w" and "s \<le> i"
  shows "fee_tame (\<lambda>w x. compute_cpfp_package_fee api w x len r) i s W"
proof -
  have fits: "weight_fits api s len w" if "w \<in> W" for w using assms that by (fastforce simp: weight_fits_def)
  let ?c = "anchor_input_weight api + output_weight api len + tx_overhead_weight api"
  have sub: "fee_sat r (w' + i + ?c) \<le> fee_sat r (w' + s + ?c) + fee_sat r (w + i + ?c)" for w w'
  proof -
    have "fee_sat r (w' + i + ?c) \<le> fee_sat r ((w' + s + ?c) + (w + i + ?c))"
      by (rule fee_sat_mono) (use assms(2) in simp)
    also have "\<dots> \<le> fee_sat r (w' + s + ?c) + fee_sat r (w + i + ?c)" by (rule fee_sat_sub)
    finally show ?thesis .
  qed
  have "compute_cpfp_package_fee api w' i len r \<le> compute_cpfp_package_fee api w i len r + compute_cpfp_package_fee api w' s len r"
    if "w \<in> W" "w' \<in> W" for w w'
    using that assms(1) fits sub [where w = w and w' = w'] by (simp add: package_fee_eq ac_simps)
  moreover have "compute_cpfp_package_fee api w s len r \<le> compute_cpfp_package_fee api w i len r" if "w \<in> W" for w
    using that assms fits by (simp add: package_fee_eq fee_sat_mono)
  ultimately show ?thesis by (simp add: fee_tame_def)
qed

subsection \<open>Children\<close>

text \<open>The PSBT constructor accepts every transaction whose inputs are unsigned.\<close>

definition psbt_total :: "bitcoin_api \<Rightarrow> bool" where
  "psbt_total api = (\<forall>tx. list_all (\<lambda>i. txi_script_sig i = [] \<and> txi_witness i = []) (tx_input tx) \<longrightarrow> is_ok (from_unsigned_tx api tx))"

definition has_anchor :: "transaction \<Rightarrow> bool" where
  "has_anchor tx = list_ex is_ephemeral_anchor_output (tx_output tx)"

text \<open>The funding covers driving transactions of the weights \<open>ws\<close> and leaves a change output above dust.\<close>

definition can_pay :: "bitcoin_api \<Rightarrow> u64 \<Rightarrow> u64 set \<Rightarrow> u64 list \<Rightarrow> cpfp_input list \<Rightarrow> bool" where
  "can_pay api rate W ws funding =
     (ws = [] \<or> (\<exists>first rest. funding = first # rest
        \<and> sum_list (map ci_value funding) < 2 ^ 64 \<and> ci_signed_input_weight first < 2 ^ 64
        \<and> (\<forall>w \<in> W. weight_fits api (sat_sum (map ci_signed_input_weight funding)) (length (ci_script first)) w)
        \<and> drive_cost (\<lambda>w x. compute_cpfp_package_fee api w x (length (ci_script first)) rate)
             (sat_sum (map ci_signed_input_weight funding)) (ci_signed_input_weight first) False ws
           + minimal_non_dust api (ci_script first) \<le> sum_list (map ci_value funding)))"

lemma single_le_initial: "ci_signed_input_weight first < 2 ^ 64 \<Longrightarrow> ci_signed_input_weight first \<le> sat_sum (map ci_signed_input_weight (first # rest))"
  by (simp add: sat_sum_min u64_max_def)

lemma can_pay_skip:
  assumes "can_pay api rate W (map g (filter P xs) @ ws) funding" "g ` set xs \<subseteq> W" "set ws \<subseteq> W"
    and "\<And>x. x \<in> set xs \<Longrightarrow> Q x \<Longrightarrow> P x"
  shows "can_pay api rate W (map g (filter Q xs) @ ws) funding"
proof (cases "map g (filter P xs) @ ws = []")
  case True
  with assms(4) have "map g (filter Q xs) @ ws = []" by (auto simp: filter_empty_conv)
  then show ?thesis by (simp add: can_pay_def)
next
  case False
  with assms(1) obtain first rest where f: "funding = first # rest" "sum_list (map ci_value funding) < 2 ^ 64"
      "ci_signed_input_weight first < 2 ^ 64"
      "\<forall>w \<in> W. weight_fits api (sat_sum (map ci_signed_input_weight funding)) (length (ci_script first)) w"
      "drive_cost (\<lambda>w x. compute_cpfp_package_fee api w x (length (ci_script first)) rate)
         (sat_sum (map ci_signed_input_weight funding)) (ci_signed_input_weight first) False (map g (filter P xs) @ ws)
       + minimal_non_dust api (ci_script first) \<le> sum_list (map ci_value funding)"
    unfolding can_pay_def by blast
  have "fee_tame (\<lambda>w x. compute_cpfp_package_fee api w x (length (ci_script first)) rate)
      (sat_sum (map ci_signed_input_weight funding)) (ci_signed_input_weight first) W"
    using f(1,3,4) single_le_initial by (intro package_fee_tame) simp_all
  from drive_cost_skip [OF this assms(2,3), of Q P False] assms(4)
  have le: "drive_cost (\<lambda>w x. compute_cpfp_package_fee api w x (length (ci_script first)) rate)
      (sat_sum (map ci_signed_input_weight funding)) (ci_signed_input_weight first) False (map g (filter Q xs) @ ws)
    \<le> drive_cost (\<lambda>w x. compute_cpfp_package_fee api w x (length (ci_script first)) rate)
      (sat_sum (map ci_signed_input_weight funding)) (ci_signed_input_weight first) False (map g (filter P xs) @ ws)" by blast
  have "drive_cost (\<lambda>w x. compute_cpfp_package_fee api w x (length (ci_script first)) rate)
      (sat_sum (map ci_signed_input_weight funding)) (ci_signed_input_weight first) False (map g (filter Q xs) @ ws)
    + minimal_non_dust api (ci_script first) \<le> sum_list (map ci_value funding)" using le f(5) by linarith
  then show ?thesis
    unfolding can_pay_def
    by (intro disjI2 exI [of _ first] exI [of _ rest] conjI f(1) f(2) f(3) f(4))
qed

lemma can_pay_child:
  assumes "can_pay api rate W (tx_weight api tx # ws) funding" "has_anchor tx" "psbt_total api"
  obtains child where "build_cpfp_child api tx funding rate = Inr child" "can_pay api rate W ws [cc_change_input child]"
proof -
  from assms(1) obtain first rest where f: "funding = first # rest" "sum_list (map ci_value funding) < 2 ^ 64"
      "ci_signed_input_weight first < 2 ^ 64"
      "\<forall>w \<in> W. weight_fits api (sat_sum (map ci_signed_input_weight funding)) (length (ci_script first)) w"
      "drive_cost (\<lambda>w x. compute_cpfp_package_fee api w x (length (ci_script first)) rate)
         (sat_sum (map ci_signed_input_weight funding)) (ci_signed_input_weight first) False (tx_weight api tx # ws)
       + minimal_non_dust api (ci_script first) \<le> sum_list (map ci_value funding)"
    unfolding can_pay_def by auto
  let ?S = "ci_signed_input_weight first" and ?I = "sat_sum (map ci_signed_input_weight funding)"
  let ?fee = "compute_cpfp_package_fee api (tx_weight api tx) ?I (length (ci_script first)) rate"
  let ?V = "sum_list (map ci_value funding)"
  have V: "sat_sum (map ci_value funding) = ?V" using f(2) by (rule sat_sum_small)
  have paid: "minimal_non_dust api (ci_script first) + drive_cost (\<lambda>w x. compute_cpfp_package_fee api w x (length (ci_script first)) rate) ?I ?S True ws
      \<le> ?V - ?fee" using f(5) by simp
  obtain vout where vout: "position is_ephemeral_anchor_output (tx_output tx) = Some vout"
    using assms(2) by (cases "position is_ephemeral_anchor_output (tx_output tx)") (auto simp: has_anchor_def position_None list_ex_iff)
  let ?bump = "\<lparr>tx_version = 3, tx_lock_time = 0, tx_input = map (\<lambda>i. unsigned_input (ci_outpoint i)) funding
      @ [unsigned_input (compute_txid api tx, vout mod 2 ^ 32)],
      tx_output = [\<lparr>txo_value = ?V - ?fee, txo_script_pubkey = ci_script first\<rparr>]\<rparr>"
  have "list_all (\<lambda>i. txi_script_sig i = [] \<and> txi_witness i = []) (tx_input ?bump)"
    by (simp add: list_all_iff unsigned_input_def tx_in_default_def)
  with assms(3) have "is_ok (from_unsigned_tx api ?bump)" unfolding psbt_total_def by blast
  then obtain p where p: "from_unsigned_tx api ?bump = Inr p" by (cases "from_unsigned_tx api ?bump") simp_all
  let ?change = "\<lparr>ci_outpoint = (compute_txid api ?bump, 0), ci_witness_utxo = \<lparr>txo_value = ?V - ?fee, txo_script_pubkey = ci_script first\<rparr>,
      ci_signed_input_weight = ?S\<rparr>"
  have dust: "\<not> ?V - ?fee < minimal_non_dust api (ci_script first)" using paid by simp
  have run: "\<exists>child. build_cpfp_child api tx funding rate = Inr child \<and> cc_change_input child = ?change"
    using vout V p dust f(1) by (simp add: build_cpfp_child_def Let_def)
  have S: "sat_sum [?S] = ?S" using f(3) by (simp add: sat_sum_min u64_max_def)
  have "weight_fits api ?S (length (ci_script first)) w" if "w \<in> W" for w
    using f(1,3,4) that single_le_initial [of first rest] by (fastforce simp: weight_fits_def)
  moreover have "?V - ?fee < 2 ^ 64" using f(2) by linarith
  ultimately have "can_pay api rate W ws [?change]"
    unfolding can_pay_def using paid f(3) S drive_cost_same [of _ ?S False ws ?I] by simp
  with run that show thesis by metis
qed

subsection \<open>One branch\<close>

abbreviation base_ok :: "resolved_exit_state \<Rightarrow> tree_node \<Rightarrow> bool" where
  "base_ok resolved n \<equiv> is_ok (node_base_tx (map_of (re_nodes resolved) (tn_id n)) n)"

text \<open>The nodes a branch still has to drive.\<close>

definition to_drive :: "bitcoin_api \<Rightarrow> resolved_exit_state \<Rightarrow> txid list \<Rightarrow> tree_node \<Rightarrow> bool" where
  "to_drive api resolved emitted n = (map_of (re_nodes resolved) (tn_id n) = None \<and> compute_txid api (tn_node_tx n) \<notin> set emitted)"

lemma drive_node_ok:
  assumes "can_pay api rate W (map (\<lambda>n. tx_weight api (tn_node_tx n)) (filter (to_drive api resolved (dr_emitted st)) [n]) @ ws) (dr_funding st)"
    and "base_ok resolved n" "has_anchor (tn_node_tx n)" "psbt_total api"
  obtains st' base where "drive_node api resolved rate leaf_id n st = Inr st'" "can_pay api rate W ws (dr_funding st')"
    "node_base_tx (map_of (re_nodes resolved) (tn_id n)) n = Inr base" "set (dr_emitted st') = insert (compute_txid api base) (set (dr_emitted st))"
proof -
  obtain base where base: "node_base_tx (map_of (re_nodes resolved) (tn_id n)) n = Inr base"
    using assms(2) by (cases "node_base_tx (map_of (re_nodes resolved) (tn_id n)) n") simp_all
  show thesis
  proof (cases "to_drive api resolved (dr_emitted st) n")
    case True
    then have nb: "map_of (re_nodes resolved) (tn_id n) = None" "compute_txid api (tn_node_tx n) \<notin> set (dr_emitted st)" "base = tn_node_tx n"
      using base by (auto simp: to_drive_def node_base_tx_def)
    have "can_pay api rate W (tx_weight api (tn_node_tx n) # ws) (dr_funding st)" using assms(1) True by simp
    from can_pay_child [OF this assms(3,4)] obtain child where child: "build_cpfp_child api (tn_node_tx n) (dr_funding st) rate = Inr child"
        "can_pay api rate W ws [cc_change_input child]" by blast
    then obtain st' where "drive_node api resolved rate leaf_id n st = Inr st'" "dr_funding st' = [cc_change_input child]"
        "dr_emitted st' = compute_txid api base # dr_emitted st"
      using nb base by (simp add: drive_node_def Let_def)
    with child base that show thesis by simp
  next
    case False
    have pay: "can_pay api rate W ws (dr_funding st)" using assms(1) False by simp
    show thesis
    proof (cases "compute_txid api base \<in> set (dr_emitted st)")
      case True
      then obtain st' where "drive_node api resolved rate leaf_id n st = Inr st'" "dr_funding st' = dr_funding st" "dr_emitted st' = dr_emitted st"
        using base by (simp add: drive_node_def Let_def)
      with pay base True that show thesis by (simp add: insert_absorb)
    next
      case fresh: False
      with False base obtain s where s: "map_of (re_nodes resolved) (tn_id n) = Some s"
        by (cases "map_of (re_nodes resolved) (tn_id n)") (auto simp: to_drive_def node_base_tx_def)
      then obtain st' where "drive_node api resolved rate leaf_id n st = Inr st'" "dr_funding st' = dr_funding st"
          "dr_emitted st' = compute_txid api base # dr_emitted st"
        using base fresh by (simp add: drive_node_def Let_def)
      with pay base that show thesis by simp
    qed
  qed
qed

lemma drive_nodes_ok:
  assumes "can_pay api rate W (map (\<lambda>n. tx_weight api (tn_node_tx n)) (filter (to_drive api resolved (dr_emitted st)) ns) @ ws) (dr_funding st)"
    and "\<forall>n \<in> set ns. base_ok resolved n \<and> has_anchor (tn_node_tx n)" "psbt_total api"
    and "(\<lambda>n. tx_weight api (tn_node_tx n)) ` set ns \<subseteq> W" "set ws \<subseteq> W"
  shows "\<exists>st'. drive_nodes api resolved rate leaf_id ns st = Inr st' \<and> can_pay api rate W ws (dr_funding st')
    \<and> set (dr_emitted st) \<subseteq> set (dr_emitted st')
    \<and> (\<forall>n \<in> set ns. \<forall>base. node_base_tx (map_of (re_nodes resolved) (tn_id n)) n = Inr base \<longrightarrow> compute_txid api base \<in> set (dr_emitted st'))"
  using assms(1,2,4)
proof (induction ns arbitrary: st)
  case (Cons n ns)
  let ?w = "\<lambda>n. tx_weight api (tn_node_tx n)"
  have "can_pay api rate W (map ?w (filter (to_drive api resolved (dr_emitted st)) [n])
      @ (map ?w (filter (to_drive api resolved (dr_emitted st)) ns) @ ws)) (dr_funding st)"
    using Cons.prems(1) by (simp split: if_splits)
  then obtain st1 base where st1: "drive_node api resolved rate leaf_id n st = Inr st1"
      "can_pay api rate W (map ?w (filter (to_drive api resolved (dr_emitted st)) ns) @ ws) (dr_funding st1)"
      "node_base_tx (map_of (re_nodes resolved) (tn_id n)) n = Inr base" "set (dr_emitted st1) = insert (compute_txid api base) (set (dr_emitted st))"
    using Cons.prems(2) by (elim drive_node_ok) (use assms(3) in auto)
  have "can_pay api rate W (map ?w (filter (to_drive api resolved (dr_emitted st1)) ns) @ ws) (dr_funding st1)"
    by (rule can_pay_skip [OF st1(2)]) (use Cons.prems(3) assms(5) st1(4) in \<open>auto simp: to_drive_def\<close>)
  with Cons.IH [of st1] Cons.prems obtain st' where st': "drive_nodes api resolved rate leaf_id ns st1 = Inr st'"
      "can_pay api rate W ws (dr_funding st')" "set (dr_emitted st1) \<subseteq> set (dr_emitted st')"
      "\<forall>n \<in> set ns. \<forall>base. node_base_tx (map_of (re_nodes resolved) (tn_id n)) n = Inr base \<longrightarrow> compute_txid api base \<in> set (dr_emitted st')"
    by auto
  show ?case
  proof (intro exI [of _ st'] conjI ballI allI impI)
    show "drive_nodes api resolved rate leaf_id (n # ns) st = Inr st'" using st1(1) st'(1) by simp
    show "set (dr_emitted st) \<subseteq> set (dr_emitted st')" using st1(4) st'(3) by auto
    fix n' b
    assume n': "n' \<in> set (n # ns)" "node_base_tx (map_of (re_nodes resolved) (tn_id n')) n' = Inr b"
    show "compute_txid api b \<in> set (dr_emitted st')"
    proof (cases "n' = n")
      case True
      with n'(2) st1(3) have "b = base" by simp
      with st1(4) st'(3) show ?thesis by auto
    next
      case False
      with n' st'(4) show ?thesis by auto
    qed
  qed (rule st'(2))
qed auto

definition refund_weights :: "bitcoin_api \<Rightarrow> resolved_exit_state \<Rightarrow> tree_node_id \<Rightarrow> tree_node \<Rightarrow> u64 list" where
  "refund_weights api resolved leaf_id leaf =
     (case map_of (re_refunds resolved) leaf_id of
        None \<Rightarrow> (case tn_refund_tx leaf of None \<Rightarrow> [] | Some tx \<Rightarrow> [tx_weight api tx])
      | Some _ \<Rightarrow> [])"

definition refund_ready :: "resolved_exit_state \<Rightarrow> tree_node_id \<Rightarrow> tree_node \<Rightarrow> bool" where
  "refund_ready resolved leaf_id leaf =
     (case map_of (re_refunds resolved) leaf_id of
        None \<Rightarrow> (case tn_refund_tx leaf of None \<Rightarrow> False | Some tx \<Rightarrow> has_anchor tx)
      | Some DriveDirect \<Rightarrow> (case tn_direct_refund_tx leaf of None \<Rightarrow> False | Some tx \<Rightarrow> tx_output tx \<noteq> [])
      | Some _ \<Rightarrow> True)"

lemma has_anchor_outputs: "has_anchor tx \<Longrightarrow> \<exists>out outs. tx_output tx = out # outs"
  by (cases "tx_output tx") (simp_all add: has_anchor_def)

lemma drive_refund_ok:
  assumes "can_pay api rate W (refund_weights api resolved leaf_id leaf) (dr_funding st)" "refund_ready resolved leaf_id leaf" "psbt_total api"
  shows "\<exists>st'. drive_refund api resolved rate leaf_id leaf False st = Inr st' \<and> dr_emitted st' = dr_emitted st"
proof (cases "map_of (re_refunds resolved) leaf_id")
  case None
  with assms(2) obtain tx where tx: "tn_refund_tx leaf = Some tx" "has_anchor tx" by (auto simp: refund_ready_def split: option.splits)
  then obtain out outs where out: "tx_output tx = out # outs" using has_anchor_outputs by blast
  have "can_pay api rate W [tx_weight api tx] (dr_funding st)" using assms(1) None tx by (simp add: refund_weights_def)
  from can_pay_child [OF this tx(2) assms(3)] obtain child where "build_cpfp_child api tx (dr_funding st) rate = Inr child" by blast
  with None tx(1) out show ?thesis by (simp add: drive_refund_def refund_output_value_def push_refund_def)
next
  case (Some r)
  show ?thesis
  proof (cases r)
    case DriveDirect
    with Some assms(2) obtain tx where tx: "tn_direct_refund_tx leaf = Some tx" "tx_output tx \<noteq> []"
      by (auto simp: refund_ready_def split: option.splits)
    then obtain out outs where out: "tx_output tx = out # outs" by (auto simp: neq_Nil_conv)
    with Some DriveDirect tx(1) show ?thesis by (simp add: drive_refund_def refund_output_value_def push_refund_def)
  qed (use Some in \<open>simp_all add: drive_refund_def push_refund_def\<close>)
qed

lemma build_branch_ok:
  assumes "map_of m leaf_id = Some leaf" "walk_unilateral_exit_chain m leaf = Inr chain" "leaf_id \<notin> set (re_stopped resolved)"
    and "can_pay api rate W (map (\<lambda>n. tx_weight api (tn_node_tx n)) (filter (to_drive api resolved (bs_emitted bs)) chain)
      @ refund_weights api resolved leaf_id leaf) funding"
    and "\<forall>n \<in> set chain. base_ok resolved n \<and> has_anchor (tn_node_tx n)" "refund_ready resolved leaf_id leaf" "psbt_total api"
    and "(\<lambda>n. tx_weight api (tn_node_tx n)) ` set chain \<subseteq> W" "set (refund_weights api resolved leaf_id leaf) \<subseteq> W"
  shows "\<exists>bs'. build_branch api m resolved rate fan_out (leaf_id, funding) bs = Inr bs' \<and> set (bs_emitted bs) \<subseteq> set (bs_emitted bs')
    \<and> (\<forall>n \<in> set chain. \<forall>base. node_base_tx (map_of (re_nodes resolved) (tn_id n)) n = Inr base \<longrightarrow> compute_txid api base \<in> set (bs_emitted bs'))"
proof -
  let ?st0 = "branch_start funding fan_out bs"
  have st0: "dr_emitted ?st0 = bs_emitted bs" "dr_funding ?st0 = funding" by (simp_all add: branch_start_def)
  obtain st1 where st1: "drive_nodes api resolved rate leaf_id chain ?st0 = Inr st1"
      "can_pay api rate W (refund_weights api resolved leaf_id leaf) (dr_funding st1)" "set (dr_emitted ?st0) \<subseteq> set (dr_emitted st1)"
      "\<forall>n \<in> set chain. \<forall>base. node_base_tx (map_of (re_nodes resolved) (tn_id n)) n = Inr base \<longrightarrow> compute_txid api base \<in> set (dr_emitted st1)"
    using drive_nodes_ok [where st = ?st0 and ns = chain and leaf_id = leaf_id, OF _ assms(5,7,8,9)] assms(4) unfolding st0 by blast
  obtain st2 where st2: "drive_refund api resolved rate leaf_id leaf False st1 = Inr st2" "dr_emitted st2 = dr_emitted st1"
    using drive_refund_ok [OF st1(2) assms(6,7)] by blast
  let ?bs' = "\<lparr>bs_emitted = dr_emitted st2, bs_branches = bs_branches bs @ [\<lparr>xb_leaf_id = leaf_id, xb_txs = dr_txs st2\<rparr>],
      bs_refund_outputs = dr_refund_outputs st2, bs_cpfp_change_inputs = dr_cpfp_change_inputs st2, bs_cpfp_fee_sat = dr_cpfp_fee_sat st2\<rparr>"
  have "build_branch api m resolved rate fan_out (leaf_id, funding) bs = Inr ?bs'"
    unfolding build_branch_Inr using assms(1-3) st1(1) st2(1) by auto
  then show ?thesis using st1(3,4) st2(2) st0(1) by (intro exI [of _ ?bs']) simp
qed

subsection \<open>What the plan charges\<close>

definition charged :: "bitcoin_api \<Rightarrow> exit_chain_state \<Rightarrow> txid list \<Rightarrow> tree_node \<Rightarrow> bool" where
  "charged api oc covered n = (compute_txid api (tn_node_tx n) \<notin> set covered \<and> \<not> (has_node oc (tn_id n) \<or> tn_status n = OnChain))"

definition charged_weights :: "bitcoin_api \<Rightarrow> exit_chain_state \<Rightarrow> txid list \<Rightarrow> tree_node_id \<Rightarrow> transaction \<Rightarrow> tree_node list \<Rightarrow> u64 list" where
  "charged_weights api oc covered i refund_tx chain =
     map (\<lambda>n. tx_weight api (tn_node_tx n)) (filter (charged api oc covered) chain)
       @ (if has_refund oc i then [] else [tx_weight api refund_tx])"

lemma sat_add_min: "sat_add (min u64_max a) b = min u64_max (a + b)"
  by (simp add: sat_add_def)

lemma drive_cost_append:
  "drive_cost fee i s b (xs @ ys) = drive_cost fee i s b xs + drive_cost fee i s (b \<or> xs \<noteq> []) ys"
  by (induction xs arbitrary: b) auto

lemma leaf_cpfp_cost_eq:
  "leaf_cpfp_cost api params oc covered i refund_tx chain =
     min u64_max (drive_cost (\<lambda>w x. compute_cpfp_package_fee api w x (lc_change_script_len params) (lc_fee_rate_sat_per_kw params))
       (lc_initial_cpfp_input_weight params) (lc_single_cpfp_input_weight params) False (charged_weights api oc covered i refund_tx chain))"
proof -
  let ?f = "\<lambda>w x. compute_cpfp_package_fee api w x (lc_change_script_len params) (lc_fee_rate_sat_per_kw params)"
  let ?I = "lc_initial_cpfp_input_weight params" and ?S = "lc_single_cpfp_input_weight params"
  let ?w = "\<lambda>ns. map (\<lambda>n. tx_weight api (tn_node_tx n)) (filter (charged api oc covered) ns)"
  have fold: "fold (ancestor_cost api params oc covered) ns (min u64_max c, b)
      = (min u64_max (c + drive_cost ?f ?I ?S b (?w ns)), b \<or> ?w ns \<noteq> [])" for ns c b
  proof (induction ns arbitrary: c b)
    case (Cons n ns)
    show ?case
    proof (cases "charged api oc covered n")
      case True
      then have "ancestor_cost api params oc covered n (min u64_max c, b)
          = (min u64_max (c + ?f (tx_weight api (tn_node_tx n)) (if b then ?S else ?I)), True)"
        by (simp add: ancestor_cost_def charged_def sat_add_min)
      with True Cons show ?thesis by (simp add: add.assoc)
    next
      case False
      then have "ancestor_cost api params oc covered n (min u64_max c, b) = (min u64_max c, b)"
        by (auto simp: ancestor_cost_def charged_def)
      with False Cons show ?thesis by simp
    qed
  qed simp
  from fold [of chain 0 False] have "fold (ancestor_cost api params oc covered) chain (0, False)
      = (min u64_max (drive_cost ?f ?I ?S False (?w chain)), ?w chain \<noteq> [])" by simp
  then show ?thesis
    by (simp add: leaf_cpfp_cost_def charged_weights_def drive_cost_append sat_add_min)
qed

text \<open>The transactions of the tree, by weight.\<close>

definition tree_weights :: "bitcoin_api \<Rightarrow> node_map \<Rightarrow> u64 set" where
  "tree_weights api m = (\<lambda>n. tx_weight api (tn_node_tx n)) ` snd ` set m
     \<union> {tx_weight api tx |n tx. n \<in> snd ` set m \<and> tn_refund_tx n = Some tx}"

text \<open>Every selected leaf can pay for what it was charged.\<close>

fun payable :: "bitcoin_api \<Rightarrow> u64 \<Rightarrow> node_map \<Rightarrow> exit_chain_state \<Rightarrow> txid list \<Rightarrow> (tree_node_id \<times> cpfp_input list) list \<Rightarrow> bool" where
  "payable api rate m oc covered [] = True"
| "payable api rate m oc covered ((i, funding) # lfs) =
     (\<exists>leaf refund_tx chain. map_of m i = Some leaf \<and> tn_refund_tx leaf = Some refund_tx \<and> walk_unilateral_exit_chain m leaf = Inr chain
        \<and> can_pay api rate (tree_weights api m) (charged_weights api oc covered i refund_tx chain) funding
        \<and> payable api rate m oc (map (\<lambda>a. compute_txid api (tn_node_tx a)) chain @ covered) lfs)"

text \<open>What the tree and the resolved state have to provide: anchors to pay on, no node labelled on-chain that the
  chain does not confirm, node transactions that identify their nodes, and the direct transactions of leaves
  that were taken by them.\<close>

definition exit_ready :: "bitcoin_api \<Rightarrow> node_map \<Rightarrow> exit_chain_state \<Rightarrow> bool" where
  "exit_ready api m oc =
     (psbt_total api
      \<and> (\<forall>i n. map_of m i = Some n \<longrightarrow> tn_id n = i)
      \<and> (\<forall>n \<in> snd ` set m. has_anchor (tn_node_tx n) \<and> (case tn_refund_tx n of None \<Rightarrow> True | Some tx \<Rightarrow> has_anchor tx)
           \<and> (tn_status n = OnChain \<longrightarrow> has_node oc (tn_id n)))
      \<and> (\<forall>n \<in> snd ` set m. \<forall>n' \<in> snd ` set m. compute_txid api (tn_node_tx n) = compute_txid api (tn_node_tx n') \<longrightarrow> tn_id n = tn_id n')
      \<and> (\<forall>c \<in> set (ec_nodes oc). cn_confirmed_by c = Direct \<longrightarrow>
           (\<forall>n \<in> snd ` set m. tn_id n = cn_node_id c \<longrightarrow> tn_direct_tx n \<noteq> None
              \<and> (case tn_direct_refund_tx n of None \<Rightarrow> False | Some tx \<Rightarrow> tx_output tx \<noteq> []))))"

lemma exit_readyD:
  assumes "exit_ready api m oc"
  shows "psbt_total api" "map_of m i = Some n \<Longrightarrow> tn_id n = i"
    "n \<in> snd ` set m \<Longrightarrow> has_anchor (tn_node_tx n)" "n \<in> snd ` set m \<Longrightarrow> tn_refund_tx n = Some tx \<Longrightarrow> has_anchor tx"
    "n \<in> snd ` set m \<Longrightarrow> tn_status n = OnChain \<Longrightarrow> has_node oc (tn_id n)"
    "n \<in> snd ` set m \<Longrightarrow> n' \<in> snd ` set m \<Longrightarrow> compute_txid api (tn_node_tx n) = compute_txid api (tn_node_tx n') \<Longrightarrow> tn_id n = tn_id n'"
    "c \<in> set (ec_nodes oc) \<Longrightarrow> cn_confirmed_by c = Direct \<Longrightarrow> n \<in> snd ` set m \<Longrightarrow> tn_id n = cn_node_id c \<Longrightarrow>
       tn_direct_tx n \<noteq> None \<and> (case tn_direct_refund_tx n of None \<Rightarrow> False | Some tx \<Rightarrow> tx_output tx \<noteq> [])"
proof -
  note r1 = assms [unfolded exit_ready_def] note r2 = conjunct2 [OF r1] note r3 = conjunct2 [OF r2] note r4 = conjunct2 [OF r3]
  note r5 = conjunct2 [OF r4]
  show "psbt_total api" by (rule conjunct1 [OF r1])
  show "map_of m i = Some n \<Longrightarrow> tn_id n = i" using conjunct1 [OF r2] by simp
  show "n \<in> snd ` set m \<Longrightarrow> has_anchor (tn_node_tx n)" "n \<in> snd ` set m \<Longrightarrow> tn_refund_tx n = Some tx \<Longrightarrow> has_anchor tx"
    "n \<in> snd ` set m \<Longrightarrow> tn_status n = OnChain \<Longrightarrow> has_node oc (tn_id n)"
    using bspec [OF conjunct1 [OF r3], of n] by simp_all
  show "n \<in> snd ` set m \<Longrightarrow> n' \<in> snd ` set m \<Longrightarrow> compute_txid api (tn_node_tx n) = compute_txid api (tn_node_tx n') \<Longrightarrow> tn_id n = tn_id n'"
    using bspec [OF bspec [OF conjunct1 [OF r4], of n], of n'] by simp
  show "c \<in> set (ec_nodes oc) \<Longrightarrow> cn_confirmed_by c = Direct \<Longrightarrow> n \<in> snd ` set m \<Longrightarrow> tn_id n = cn_node_id c \<Longrightarrow>
       tn_direct_tx n \<noteq> None \<and> (case tn_direct_refund_tx n of None \<Rightarrow> False | Some tx \<Rightarrow> tx_output tx \<noteq> [])"
    using bspec [OF r5, of c] by blast
qed

subsection \<open>The restored state\<close>

lemma map_of_fold_insert_Some:
  "map_of (fold (\<lambda>x. hm_insert (k x) (f x)) xs m) i = Some v \<Longrightarrow> (\<exists>x \<in> set xs. k x = i \<and> f x = v) \<or> map_of m i = Some v"
  by (induction xs arbitrary: m) (fastforce simp: update_conv' split: if_splits)+

lemma map_of_fold_insert_None:
  "map_of (fold (\<lambda>x. hm_insert (k x) (f x)) xs m) i = None \<longleftrightarrow> (\<forall>x \<in> set xs. k x \<noteq> i) \<and> map_of m i = None"
  by (induction xs arbitrary: m) (auto simp: update_conv')

definition restored :: "bitcoin_api \<Rightarrow> exit_plan \<Rightarrow> exit_chain_state \<Rightarrow> resolved_exit_state" where
  "restored api plan oc = in_resolved (interpret_chain api plan oc)"

lemma restored_node_None: "map_of (re_nodes (restored api plan oc)) i = None \<longleftrightarrow> \<not> has_node oc i"
  by (auto simp: restored_def interpret_chain_def restore_exit_chain_walk_def Let_def map_of_fold_insert_None has_node_def)

lemma restored_node_Direct:
  assumes "map_of (re_nodes (restored api plan oc)) i = Some (ConfirmedDirect h)"
  shows "\<exists>c \<in> set (ec_nodes oc). cn_node_id c = i \<and> cn_confirmed_by c = Direct"
proof -
  from assms have "\<exists>c \<in> set (ec_nodes oc). cn_node_id c = i \<and> restore_node c = ConfirmedDirect h"
    by (auto simp: restored_def interpret_chain_def restore_exit_chain_walk_def Let_def dest: map_of_fold_insert_Some)
  moreover have "cn_confirmed_by c = Direct" if "restore_node c = ConfirmedDirect h" for c
    using that by (auto simp: restore_node_def split: exit_node_confirmation.splits)
  ultimately show ?thesis by blast
qed

lemma restored_stopped: "set (re_stopped (restored api plan oc)) = set (ec_stopped_leaves oc)"
  by (simp add: restored_def interpret_chain_def restore_exit_chain_walk_def Let_def set_fold_insert)

lemma restored_refund:
  "has_refund oc i \<Longrightarrow> \<exists>s. map_of (re_refunds (restored api plan oc)) i = Some s \<and> s \<noteq> DriveDirect"
  "\<not> has_refund oc i \<Longrightarrow> map_of (re_refunds (restored api plan oc)) i = Some s \<Longrightarrow> s = DriveDirect \<and>
     (\<exists>c \<in> set (ec_nodes oc). cn_node_id c = i \<and> cn_confirmed_by c = Direct)"
proof -
  let ?confirmed = "fold (\<lambda>node. hm_insert (cn_node_id node) (cn_confirmed_by node)) (ec_nodes oc) []"
  let ?direct = "fold (\<lambda>l refunds. if l \<notin> set (fold List.insert (ec_stopped_leaves oc) []) \<and> map_of ?confirmed l = Some Direct
      then hm_insert l DriveDirect refunds else refunds) (map fst (ep_per_branch_funding plan)) []"
  let ?refunds = "fold (\<lambda>r. hm_insert (er_leaf_id r) (restore_refund api r)) (ec_refunds oc) ?direct"
  have eq: "re_refunds (restored api plan oc) = ?refunds"
    by (simp add: restored_def interpret_chain_def restore_exit_chain_walk_def Let_def)
  have no: "restore_refund api r \<noteq> DriveDirect" for r by (simp add: restore_refund_def split: exit_refund_state.splits)
  have kept: "map_of (fold (\<lambda>r. hm_insert (er_leaf_id r) (restore_refund api r)) rs m) i =
      (if \<exists>r \<in> set rs. er_leaf_id r = i then map_of (fold (\<lambda>r. hm_insert (er_leaf_id r) (restore_refund api r)) rs []) i else map_of m i)" for rs m
  proof (induction rs arbitrary: m)
    case (Cons r rs)
    show ?case using Cons [of "hm_insert (er_leaf_id r) (restore_refund api r) m"] Cons [of "hm_insert (er_leaf_id r) (restore_refund api r) []"]
      by (auto simp: update_conv')
  qed simp
  { assume "has_refund oc i"
    then have some: "map_of ?refunds i \<noteq> None" and only: "map_of ?refunds i = map_of (fold (\<lambda>r. hm_insert (er_leaf_id r) (restore_refund api r)) (ec_refunds oc) []) i"
      using kept [of "ec_refunds oc" ?direct] by (auto simp: has_refund_def map_of_fold_insert_None)
    then obtain s where s: "map_of ?refunds i = Some s" by blast
    with only have "\<exists>r \<in> set (ec_refunds oc). er_leaf_id r = i \<and> restore_refund api r = s"
      using map_of_fold_insert_Some [of er_leaf_id "restore_refund api" "ec_refunds oc" "[]" i s] s by auto
    with no s show "\<exists>s. map_of (re_refunds (restored api plan oc)) i = Some s \<and> s \<noteq> DriveDirect"
      unfolding eq by blast }
  { assume "\<not> has_refund oc i" and s: "map_of (re_refunds (restored api plan oc)) i = Some s"
    then have "map_of ?direct i = Some s" using kept [of "ec_refunds oc" ?direct] unfolding eq by (auto simp: has_refund_def)
    then have "s = DriveDirect" "map_of ?confirmed i = Some Direct" by (auto simp: map_of_drive_direct split: if_splits)
    then show "s = DriveDirect \<and> (\<exists>c \<in> set (ec_nodes oc). cn_node_id c = i \<and> cn_confirmed_by c = Direct)"
      by (auto dest: map_of_fold_insert_Some) }
qed

subsection \<open>All branches\<close>

lemma can_pay_prefix: "can_pay api rate W (xs @ ys) funding \<Longrightarrow> can_pay api rate W xs funding"
  unfolding can_pay_def by (auto simp: drive_cost_append)

lemma restored_base_ok:
  assumes "exit_ready api m oc" "n \<in> snd ` set m"
  shows "base_ok (restored api plan oc) n"
proof (cases "map_of (re_nodes (restored api plan oc)) (tn_id n)")
  case (Some st)
  show ?thesis
  proof (cases st)
    case (ConfirmedDirect h)
    with Some obtain c where "c \<in> set (ec_nodes oc)" "cn_node_id c = tn_id n" "cn_confirmed_by c = Direct"
      using restored_node_Direct by blast
    with exit_readyD(7) [OF assms(1) _ _ assms(2)] have "tn_direct_tx n \<noteq> None" by simp
    with Some ConfirmedDirect show ?thesis by (auto simp: node_base_tx_def)
  qed (simp add: Some node_base_tx_def)
qed (simp add: node_base_tx_def)

lemma restored_refund_ready:
  assumes "exit_ready api m oc" "map_of m i = Some leaf" "tn_refund_tx leaf = Some tx"
  shows "refund_ready (restored api plan oc) i leaf"
proof -
  have leaf: "leaf \<in> snd ` set m" "tn_id leaf = i"
    using assms(2) exit_readyD(2) [OF assms(1,2)] by (force dest: map_of_SomeD)+
  show ?thesis
  proof (cases "map_of (re_refunds (restored api plan oc)) i")
    case None
    have "has_anchor tx" by (rule exit_readyD(4) [OF assms(1) leaf(1) assms(3)])
    with None assms(3) show ?thesis by (simp add: refund_ready_def)
  next
    case (Some st)
    show ?thesis
    proof (cases "st = DriveDirect")
      case True
      with Some restored_refund [of oc i api plan] obtain c where "c \<in> set (ec_nodes oc)" "cn_node_id c = i" "cn_confirmed_by c = Direct"
        by fastforce
      with exit_readyD(7) [OF assms(1) _ _ leaf(1)] leaf(2)
      have "case tn_direct_refund_tx leaf of None \<Rightarrow> False | Some tx \<Rightarrow> tx_output tx \<noteq> []" by simp
      with Some True show ?thesis by (simp add: refund_ready_def)
    qed (use Some in \<open>cases st; simp add: refund_ready_def\<close>)
  qed
qed

lemma restored_refund_weights:
  assumes "tn_refund_tx leaf = Some tx"
  shows "refund_weights api (restored api plan oc) i leaf = [] \<or>
    (\<not> has_refund oc i \<and> refund_weights api (restored api plan oc) i leaf = [tx_weight api tx])"
  using restored_refund(1) [of oc i api plan] assms by (auto simp: refund_weights_def split: option.splits)

text \<open>What the earlier branches cover and the chain has not confirmed has been emitted.\<close>

definition covered_emitted :: "bitcoin_api \<Rightarrow> node_map \<Rightarrow> exit_chain_state \<Rightarrow> txid list \<Rightarrow> txid list \<Rightarrow> bool" where
  "covered_emitted api m oc covered emitted =
     (\<forall>n \<in> snd ` set m. compute_txid api (tn_node_tx n) \<in> set covered \<longrightarrow> \<not> has_node oc (tn_id n)
        \<longrightarrow> compute_txid api (tn_node_tx n) \<in> set emitted)"

lemma payable_branch_ok:
  assumes ready: "exit_ready api m oc" and leaf: "map_of m i = Some leaf" "tn_refund_tx leaf = Some refund_tx"
    and walk: "walk_unilateral_exit_chain m leaf = Inr chain" and "i \<notin> set (ec_stopped_leaves oc)"
    and pay: "can_pay api rate (tree_weights api m) (charged_weights api oc covered i refund_tx chain) funding"
    and cov: "covered_emitted api m oc covered (bs_emitted bs)"
  shows "\<exists>bs'. build_branch api m (restored api plan oc) rate fan_out (i, funding) bs = Inr bs'
    \<and> covered_emitted api m oc (map (\<lambda>a. compute_txid api (tn_node_tx a)) chain @ covered) (bs_emitted bs')"
proof -
  let ?R = "restored api plan oc" and ?W = "tree_weights api m" and ?w = "\<lambda>n. tx_weight api (tn_node_tx n)"
  note chain = chain_nodes [OF leaf(1) walk]
  have W: "?w ` set chain \<subseteq> ?W" using chain(1) by (auto simp: tree_weights_def)
  have rW: "set (refund_weights api ?R i leaf) \<subseteq> ?W"
    using restored_refund_weights [OF leaf(2), of api plan oc i] chain(2) leaf(2) unfolding tree_weights_def by force
  have "can_pay api rate ?W (map ?w (filter (charged api oc covered) chain) @ refund_weights api ?R i leaf) funding"
    using pay restored_refund_weights [OF leaf(2), of api plan oc i]
    unfolding charged_weights_def by (auto dest: can_pay_prefix)
  then have drive: "can_pay api rate ?W (map ?w (filter (to_drive api ?R (bs_emitted bs)) chain) @ refund_weights api ?R i leaf) funding"
  proof (rule can_pay_skip [OF _ W rW])
    fix n
    assume n: "n \<in> set chain" "to_drive api ?R (bs_emitted bs) n"
    then have "\<not> has_node oc (tn_id n)" "compute_txid api (tn_node_tx n) \<notin> set (bs_emitted bs)"
      by (simp_all add: to_drive_def restored_node_None)
    moreover have "n \<in> snd ` set m" using n(1) chain(1) by blast
    ultimately show "charged api oc covered n"
      using cov exit_readyD(5) [OF ready, of n] unfolding charged_def covered_emitted_def by blast
  qed
  have nodes: "\<forall>n \<in> set chain. base_ok ?R n \<and> has_anchor (tn_node_tx n)"
  proof
    fix n
    assume "n \<in> set chain"
    then have "n \<in> snd ` set m" using chain(1) by blast
    then show "base_ok ?R n \<and> has_anchor (tn_node_tx n)" by (simp add: restored_base_ok [OF ready] exit_readyD(3) [OF ready])
  qed
  have psbt: "psbt_total api" by (rule exit_readyD(1) [OF ready])
  have live: "i \<notin> set (re_stopped ?R)" using assms(5) by (simp add: restored_stopped)
  obtain bs' where bs': "build_branch api m ?R rate fan_out (i, funding) bs = Inr bs'" "set (bs_emitted bs) \<subseteq> set (bs_emitted bs')"
      "\<forall>n \<in> set chain. \<forall>base. node_base_tx (map_of (re_nodes ?R) (tn_id n)) n = Inr base \<longrightarrow> compute_txid api base \<in> set (bs_emitted bs')"
    using build_branch_ok [OF leaf(1) walk live drive nodes restored_refund_ready [OF ready leaf] psbt W rW] by blast
  have "covered_emitted api m oc (map (\<lambda>a. compute_txid api (tn_node_tx a)) chain @ covered) (bs_emitted bs')"
    unfolding covered_emitted_def
  proof (intro ballI impI)
    fix n
    assume n: "n \<in> snd ` set m" "compute_txid api (tn_node_tx n) \<in> set (map (\<lambda>a. compute_txid api (tn_node_tx a)) chain @ covered)"
      "\<not> has_node oc (tn_id n)"
    show "compute_txid api (tn_node_tx n) \<in> set (bs_emitted bs')"
    proof (cases "compute_txid api (tn_node_tx n) \<in> set covered")
      case True
      with n cov bs'(2) show ?thesis unfolding covered_emitted_def by blast
    next
      case False
      with n(2) obtain c where c: "c \<in> set chain" "compute_txid api (tn_node_tx n) = compute_txid api (tn_node_tx c)" by auto
      have "c \<in> snd ` set m" using c(1) chain(1) by blast
      from exit_readyD(6) [OF ready n(1) this c(2)] have "tn_id n = tn_id c" .
      with n(3) have "map_of (re_nodes ?R) (tn_id c) = None" by (simp add: restored_node_None)
      with bs'(3) c show ?thesis by (simp add: node_base_tx_def)
    qed
  qed
  with bs'(1) show ?thesis by blast
qed

lemma payable_branches_ok:
  assumes "exit_ready api m oc" and "payable api rate m oc covered lfs" and "covered_emitted api m oc covered (bs_emitted bs)"
    and "fst ` set lfs \<inter> set (ec_stopped_leaves oc) = {}"
  shows "\<exists>bs'. build_branches api m (restored api plan oc) rate fan_out lfs bs = Inr bs'"
  using assms(2-4)
proof (induction lfs arbitrary: covered bs)
  case (Cons lf lfs)
  obtain i funding where lf: "lf = (i, funding)" by (cases lf)
  from Cons.prems(1) obtain leaf refund_tx chain where b: "map_of m i = Some leaf" "tn_refund_tx leaf = Some refund_tx"
      "walk_unilateral_exit_chain m leaf = Inr chain"
      "can_pay api rate (tree_weights api m) (charged_weights api oc covered i refund_tx chain) funding"
      "payable api rate m oc (map (\<lambda>a. compute_txid api (tn_node_tx a)) chain @ covered) lfs"
    unfolding lf by auto
  have "i \<notin> set (ec_stopped_leaves oc)" using Cons.prems(3) lf by auto
  from payable_branch_ok [OF assms(1) b(1-3) this b(4) Cons.prems(2), of plan fan_out] obtain bs1 where
      "build_branch api m (restored api plan oc) rate fan_out (i, funding) bs = Inr bs1"
      "covered_emitted api m oc (map (\<lambda>a. compute_txid api (tn_node_tx a)) chain @ covered) (bs_emitted bs1)" by blast
  with Cons.IH [OF b(5), of bs1] Cons.prems(3) lf show ?case by auto
qed simp

subsection \<open>What the plan funds\<close>

text \<open>The funding of a branch: nothing for a branch that is complete on chain, otherwise inputs that pay the
  charged cost and a change output above dust.\<close>

definition branch_cost ::
  "bitcoin_api \<Rightarrow> node_map \<Rightarrow> exit_chain_state \<Rightarrow> leaf_cost_params \<Rightarrow> selected_leaf \<Rightarrow> cpfp_input list \<Rightarrow> u64 \<Rightarrow> bool" where
  "branch_cost api m oc params l funding c =
     ((\<exists>first. funding = [first] \<and> c = sel_cpfp_cost l \<and> ci_signed_input_weight first = lc_single_cpfp_input_weight params
         \<and> lc_initial_cpfp_input_weight params = lc_single_cpfp_input_weight params
         \<and> length (ci_script first) = lc_change_script_len params)
      \<or> first_child_cpfp_floor api m (sel_id l) funding (lc_destination_script_len params) (lc_fee_rate_sat_per_kw params) oc = Some c)"

definition branch_funds ::
  "bitcoin_api \<Rightarrow> node_map \<Rightarrow> exit_chain_state \<Rightarrow> leaf_cost_params \<Rightarrow> selected_leaf \<Rightarrow> cpfp_input list \<Rightarrow> bool" where
  "branch_funds api m oc params l funding =
     (\<exists>first rest c. funding = first # rest \<and> sum_list (map ci_value funding) < 2 ^ 64 - 1 \<and> ci_signed_input_weight first < 2 ^ 64
        \<and> (\<forall>w \<in> tree_weights api m. weight_fits api (sat_sum (map ci_signed_input_weight funding)) (length (ci_script first)) w)
        \<and> branch_cost api m oc params l funding c
        \<and> sat_add c (minimal_non_dust api (ci_script first)) \<le> sat_sum (map ci_value funding))"

lemma first_child_cpfp_floor_eq:
  assumes "map_of m i = Some leaf" "tn_refund_tx leaf = Some refund_tx" "walk_unilateral_exit_chain m leaf = Inr chain"
  shows "first_child_cpfp_floor api m i (first # rest) dlen rate oc = Some (leaf_cpfp_cost api
     \<lparr>lc_initial_cpfp_input_weight = sat_sum (map ci_signed_input_weight (first # rest)), lc_single_cpfp_input_weight = ci_signed_input_weight first,
      lc_change_script_len = length (ci_script first), lc_destination_script_len = dlen, lc_fee_rate_sat_per_kw = rate\<rparr> oc [] i refund_tx chain)"
  using assms by (simp add: first_child_cpfp_floor_def evaluate_unilateral_exit_leaf_costs_def sort_leaves_def Let_def)

lemma can_pay_cost:
  assumes "funding = first # rest" "sum_list (map ci_value funding) < 2 ^ 64 - 1" "ci_signed_input_weight first < 2 ^ 64"
    and "\<forall>w \<in> W. weight_fits api (sat_sum (map ci_signed_input_weight funding)) (length (ci_script first)) w"
    and "lc_initial_cpfp_input_weight params = sat_sum (map ci_signed_input_weight funding)"
    and "lc_single_cpfp_input_weight params = ci_signed_input_weight first" "lc_change_script_len params = length (ci_script first)"
    and "sat_add (leaf_cpfp_cost api params oc covered i refund_tx chain) (minimal_non_dust api (ci_script first)) \<le> sat_sum (map ci_value funding)"
  shows "can_pay api (lc_fee_rate_sat_per_kw params) W (charged_weights api oc covered i refund_tx chain) funding"
proof -
  have "sat_sum (map ci_value funding) = sum_list (map ci_value funding)" using assms(2) by (intro sat_sum_small) simp
  with assms(2,8) have "drive_cost (\<lambda>w x. compute_cpfp_package_fee api w x (length (ci_script first)) (lc_fee_rate_sat_per_kw params))
       (sat_sum (map ci_signed_input_weight funding)) (ci_signed_input_weight first) False (charged_weights api oc covered i refund_tx chain)
     + minimal_non_dust api (ci_script first) \<le> sum_list (map ci_value funding)"
    by (simp add: leaf_cpfp_cost_eq assms(5-7) sat_add_def u64_max_def)
  moreover have "sum_list (map ci_value funding) < 2 ^ 64" using assms(2) by simp
  ultimately show ?thesis unfolding can_pay_def using assms(1,3,4) by blast
qed

lemma charged_weights_cover:
  assumes "map_of m i = Some leaf" "tn_refund_tx leaf = Some refund_tx" "walk_unilateral_exit_chain m leaf = Inr chain"
    and "can_pay api rate (tree_weights api m) (charged_weights api oc [] i refund_tx chain) funding"
  shows "can_pay api rate (tree_weights api m) (charged_weights api oc covered i refund_tx chain) funding"
proof -
  note chain = chain_nodes [OF assms(1,3)]
  have W: "(\<lambda>n. tx_weight api (tn_node_tx n)) ` set chain \<subseteq> tree_weights api m" using chain(1) by (auto simp: tree_weights_def)
  have "tx_weight api refund_tx \<in> tree_weights api m"
    using chain(2) assms(2) unfolding tree_weights_def by blast
  then have rW: "set (if has_refund oc i then [] else [tx_weight api refund_tx]) \<subseteq> tree_weights api m" by simp
  show ?thesis
    using can_pay_skip [OF assms(4) [unfolded charged_weights_def] W rW, of "charged api oc covered"]
    unfolding charged_weights_def by (simp add: charged_def)
qed

lemma branch_funds_pay:
  assumes "branch_funds api m oc params l funding" and "map_of m (sel_id l) = Some leaf" "tn_refund_tx leaf = Some refund_tx"
    "walk_unilateral_exit_chain m leaf = Inr chain"
    and "sel_cpfp_cost l = leaf_cpfp_cost api params oc covered (sel_id l) refund_tx chain"
  shows "can_pay api (lc_fee_rate_sat_per_kw params) (tree_weights api m) (charged_weights api oc covered (sel_id l) refund_tx chain) funding"
proof -
  obtain first rest c where f: "funding = first # rest" "sum_list (map ci_value funding) < 2 ^ 64 - 1" "ci_signed_input_weight first < 2 ^ 64"
      "\<forall>w \<in> tree_weights api m. weight_fits api (sat_sum (map ci_signed_input_weight funding)) (length (ci_script first)) w"
      and c: "branch_cost api m oc params l funding c"
      and enough: "sat_add c (minimal_non_dust api (ci_script first)) \<le> sat_sum (map ci_value funding)"
    using assms(1) unfolding branch_funds_def by blast
  from c [unfolded branch_cost_def] show ?thesis
  proof
    assume "\<exists>first. funding = [first] \<and> c = sel_cpfp_cost l \<and> ci_signed_input_weight first = lc_single_cpfp_input_weight params
         \<and> lc_initial_cpfp_input_weight params = lc_single_cpfp_input_weight params \<and> length (ci_script first) = lc_change_script_len params"
    then have one: "funding = [first]" "c = sel_cpfp_cost l" "ci_signed_input_weight first = lc_single_cpfp_input_weight params"
        "lc_initial_cpfp_input_weight params = lc_single_cpfp_input_weight params" "length (ci_script first) = lc_change_script_len params"
      using f(1) by auto
    have "sat_sum (map ci_signed_input_weight funding) = ci_signed_input_weight first"
      unfolding one(1) using f(3) by (simp add: sat_sum_min u64_max_def)
    with one enough show ?thesis by (intro can_pay_cost [OF f]) (simp_all add: assms(5))
  next
    assume floor: "first_child_cpfp_floor api m (sel_id l) funding (lc_destination_script_len params) (lc_fee_rate_sat_per_kw params) oc = Some c"
    let ?p = "\<lparr>lc_initial_cpfp_input_weight = sat_sum (map ci_signed_input_weight funding), lc_single_cpfp_input_weight = ci_signed_input_weight first,
      lc_change_script_len = length (ci_script first), lc_destination_script_len = lc_destination_script_len params,
      lc_fee_rate_sat_per_kw = lc_fee_rate_sat_per_kw params\<rparr>"
    have "c = leaf_cpfp_cost api ?p oc [] (sel_id l) refund_tx chain"
      using floor unfolding f(1) first_child_cpfp_floor_eq [OF assms(2-4)] by simp
    with enough have "can_pay api (lc_fee_rate_sat_per_kw ?p) (tree_weights api m) (charged_weights api oc [] (sel_id l) refund_tx chain) funding"
      by (intro can_pay_cost [OF f]) simp_all
    then show ?thesis using charged_weights_cover [OF assms(2-4)] by simp
  qed
qed

lemma complete_charges_nothing:
  assumes "is_complete_on_chain oc m i" "map_of m i = Some leaf" "walk_unilateral_exit_chain m leaf = Inr chain"
  shows "charged_weights api oc covered i refund_tx chain = []"
  using assms by (auto simp: is_complete_on_chain_def charged_weights_def charged_def filter_empty_conv list_all_iff split: if_splits)

lemma charged_payable:
  assumes "charged_in_order api m params oc covered selected"
    and "\<forall>l \<in> set selected. is_complete_on_chain oc m (sel_id l) \<or> branch_funds api m oc params l (f l)"
  shows "payable api (lc_fee_rate_sat_per_kw params) m oc covered (map (\<lambda>l. (sel_id l, f l)) selected)"
  using assms
proof (induction selected arbitrary: covered)
  case (Cons l ls)
  from Cons.prems(1) obtain leaf refund_tx chain where b: "map_of m (sel_id l) = Some leaf" "tn_refund_tx leaf = Some refund_tx"
      "walk_unilateral_exit_chain m leaf = Inr chain"
      "sel_cpfp_cost l = leaf_cpfp_cost api params oc covered (sel_id l) refund_tx chain"
      "charged_in_order api m params oc (map (\<lambda>a. compute_txid api (tn_node_tx a)) chain @ covered) ls" by auto
  have "is_complete_on_chain oc m (sel_id l) \<or> branch_funds api m oc params l (f l)" using Cons.prems(2) by simp
  then have "can_pay api (lc_fee_rate_sat_per_kw params) (tree_weights api m) (charged_weights api oc covered (sel_id l) refund_tx chain) (f l)"
  proof
    assume "is_complete_on_chain oc m (sel_id l)"
    from complete_charges_nothing [OF this b(1,3)] show ?thesis by (simp add: can_pay_def)
  qed (rule branch_funds_pay [OF _ b(1-4)])
  with b(1-3) Cons.IH [OF b(5)] Cons.prems(2) show ?case by auto
qed simp

text \<open>What the planner was given: values and weights that fit 64 bits.\<close>

definition inputs_fit :: "bitcoin_api \<Rightarrow> node_map \<Rightarrow> cpfp_input list \<Rightarrow> bool" where
  "inputs_fit api m inputs =
     (sum_list (map ci_value inputs) < 2 ^ 64 - 1 \<and> sum_list (map ci_signed_input_weight inputs) < 2 ^ 64
      \<and> (\<forall>w \<in> tree_weights api m. \<forall>i \<in> set inputs. weight_fits api (sum_list (map ci_signed_input_weight inputs)) (length (ci_script i)) w))"

lemma weight_fits_mono: "weight_fits api i len w \<Longrightarrow> i' \<le> i \<Longrightarrow> weight_fits api i' len w"
  unfolding weight_fits_def by linarith

lemma sum_list_mset_le: "mset xs \<subseteq># mset ys \<Longrightarrow> sum_list (map f xs) \<le> sum_list (map f ys)" for f :: "'a \<Rightarrow> nat"
proof -
  assume "mset xs \<subseteq># mset ys"
  then obtain M where "mset ys = mset xs + M" by (auto simp: mset_subset_eq_exists_conv)
  then have "sum_mset (image_mset f (mset ys)) = sum_mset (image_mset f (mset xs)) + sum_mset (image_mset f M)" by simp
  then show ?thesis by (simp flip: sum_mset_sum_list)
qed

lemma inputs_fit_sub:
  assumes "inputs_fit api m inputs" "mset (first # rest) \<subseteq># mset inputs"
  shows "sum_list (map ci_value (first # rest)) < 2 ^ 64 - 1" "ci_signed_input_weight first < 2 ^ 64"
    "\<forall>w \<in> tree_weights api m. weight_fits api (sat_sum (map ci_signed_input_weight (first # rest))) (length (ci_script first)) w"
proof -
  note fit = assms(1) [unfolded inputs_fit_def]
  have wt: "sum_list (map ci_signed_input_weight (first # rest)) \<le> sum_list (map ci_signed_input_weight inputs)"
    by (rule sum_list_mset_le [OF assms(2)])
  show "sum_list (map ci_value (first # rest)) < 2 ^ 64 - 1"
    using fit sum_list_mset_le [OF assms(2), of ci_value] by linarith
  show "ci_signed_input_weight first < 2 ^ 64" using fit wt by simp
  have "first \<in> set inputs" using assms(2) by (metis in_multiset_in_set list.set_intros(1) mset_subset_eqD)
  moreover have "sat_sum (map ci_signed_input_weight (first # rest)) \<le> sum_list (map ci_signed_input_weight inputs)"
    using wt by (simp add: sat_sum_min)
  ultimately show "\<forall>w \<in> tree_weights api m. weight_fits api (sat_sum (map ci_signed_input_weight (first # rest))) (length (ci_script first)) w"
    using fit by (blast intro: weight_fits_mono)
qed

lemma fund_single:
  assumes fit: "inputs_fit api m inputs" and inputs: "inputs = first # rest"
    and params: "params = \<lparr>lc_initial_cpfp_input_weight = ci_signed_input_weight first, lc_single_cpfp_input_weight = ci_signed_input_weight first,
      lc_change_script_len = length (ci_script first), lc_destination_script_len = dlen, lc_fee_rate_sat_per_kw = rate\<rparr>"
    and leaf: "map_of m (sel_id l) = Some leaf" "tn_refund_tx leaf = Some refund_tx" "walk_unilateral_exit_chain m leaf = Inr chain"
    and run: "fund_branches api m [l] inputs rate dlen (minimal_non_dust api (ci_script first)) oc = Inr (assigned, fo)"
  shows "assigned = [(sel_id l, inputs)] \<and> branch_funds api m oc params l inputs"
proof -
  let ?c = "if length inputs > 1 then (case first_child_cpfp_floor api m (sel_id l) inputs dlen rate oc of None \<Rightarrow> sel_cpfp_cost l | Some c \<Rightarrow> c)
    else sel_cpfp_cost l"
  have a: "assigned = [(sel_id l, inputs)]" and enough: "sat_add ?c (minimal_non_dust api (ci_script first)) \<le> sat_sum (map ci_value inputs)"
    using run by (auto simp: fund_branches_def Let_def split: if_splits)
  have "branch_cost api m oc params l inputs ?c"
    using first_child_cpfp_floor_eq [OF leaf, of api first rest dlen rate oc] unfolding branch_cost_def inputs params by (cases rest) simp_all
  then have "branch_funds api m oc params l inputs"
    unfolding branch_funds_def using inputs_fit_sub [OF fit, of first rest] enough inputs by blast
  with a show ?thesis by blast
qed

lemma fund_assignment:
  assumes fit: "inputs_fit api m inputs" and dlen: "lc_destination_script_len params = dlen" and rate: "lc_fee_rate_sat_per_kw params = rate"
    and a: "assign_inputs_to_leaves inputs to_build dust = Some a" "distinct (map sel_id to_build)"
    and covers: "assignment_covers_first_child api a m dlen rate oc"
  shows "list_all2 (\<lambda>l (i, funding). i = sel_id l \<and> branch_funds api m oc params l funding) to_build a"
proof -
  note spec = assign_inputs_spec [OF a]
  have len: "length to_build = length a" using spec map_eq_imp_length_eq by metis
  show ?thesis unfolding list_all2_conv_all_nth
  proof (intro conjI allI impI)
    fix k
    assume k: "k < length to_build"
    obtain i funding where ak: "a ! k = (i, funding)" by (cases "a ! k")
    then have mem: "(i, funding) \<in> set a" using k len by (metis nth_mem)
    have i: "i = sel_id (to_build ! k)" using spec k len ak by (metis fst_conv nth_map)
    obtain first rest c where f: "funding = first # rest" "first_child_cpfp_floor api m i funding dlen rate oc = Some c"
        "sat_add c (minimal_non_dust api (ci_script first)) \<le> sat_sum (map ci_value funding)"
      using covers mem unfolding assignment_covers_first_child_def list_all_iff
      by (fastforce split: list.splits option.splits)
    have "mset funding \<subseteq># mset (concat (map snd a))"
      using mem by (metis (no_types, lifting) concat.simps(2) concat_append in_set_conv_decomp list.simps(9) map_append mset_append
          mset_subset_eq_add_left mset_subset_eq_add_right snd_conv subset_mset.order_trans)
    then have "mset (first # rest) \<subseteq># mset inputs" using spec f(1) by (metis subset_mset.order_trans)
    note sub = inputs_fit_sub [OF fit this]
    have "branch_cost api m oc params (to_build ! k) funding c" using f(2) i unfolding branch_cost_def dlen rate by simp
    then have "branch_funds api m oc params (to_build ! k) funding" unfolding branch_funds_def using f sub by blast
    with i ak show "case a ! k of (i, funding) \<Rightarrow> i = sel_id (to_build ! k) \<and> branch_funds api m oc params (to_build ! k) funding" by simp
  qed (rule len)
qed

lemma fan_out_costs_small:
  assumes "build_fan_out_psbt api inputs selected fee_rate dust = Inr (p, per_leaf)" and "sum_list (map ci_value inputs) < 2 ^ 64 - 1"
  shows "sum_list (map sel_estimated_cost selected) < 2 ^ 128"
proof -
  let ?req = "map (\<lambda>l. branch_required_funding l dust) selected"
  obtain first rest where inputs: "inputs = first # rest" using assms(1) by (cases inputs) (simp_all add: build_fan_out_psbt_def)
  have "sat_add (sat_sum ?req) (fan_out_fee api (sat_sum (map ci_signed_input_weight inputs)) (length (ci_script first)) (length selected) fee_rate)
      \<le> sat_sum (map ci_value inputs)"
    using assms(1) by (auto simp: build_fan_out_psbt_def inputs Let_def split: if_splits)
  then have small: "sum_list ?req < u64_max" using assms(2) by (simp add: sat_sum_min sat_add_def u64_max_def min_def split: if_splits)
  have "sel_estimated_cost l \<le> branch_required_funding l dust" if "l \<in> set selected" for l
  proof -
    have "branch_required_funding l dust \<le> sum_list ?req" using that by (intro member_le_sum_list) simp_all
    with small show ?thesis by (simp add: branch_required_funding_def sat_add_def)
  qed
  then have "sum_list (map sel_estimated_cost selected) \<le> sum_list ?req" by (intro sum_list_mono) simp
  with small show ?thesis by (simp add: u64_max_def)
qed

lemma fund_fan_out:
  assumes fit: "inputs_fit api m inputs" and inputs: "inputs = first # rest"
    and params: "params = \<lparr>lc_initial_cpfp_input_weight = ci_signed_input_weight first, lc_single_cpfp_input_weight = ci_signed_input_weight first,
      lc_change_script_len = length (ci_script first), lc_destination_script_len = dlen, lc_fee_rate_sat_per_kw = rate\<rparr>"
    and run: "build_fan_out_psbt api inputs to_build rate (minimal_non_dust api (ci_script first)) = Inr (p, per_leaf)"
    and cost: "\<forall>l \<in> set to_build. sel_cpfp_cost l \<le> sel_estimated_cost l"
  shows "list_all2 (\<lambda>l (i, funding). i = sel_id l \<and> branch_funds api m oc params l funding) to_build (map (\<lambda>(i, input). (i, [input])) per_leaf)"
proof -
  let ?dust = "minimal_non_dust api (ci_script first)"
  have small: "sum_list (map ci_value inputs) < 2 ^ 64 - 1" using fit by (simp add: inputs_fit_def)
  note spec = fan_out_spec [OF run small fan_out_costs_small [OF run small]]
  have value_le: "ci_value input < 2 ^ 64 - 1" if "(i, input) \<in> set per_leaf" for i input
  proof -
    have "ci_value input \<le> sum_list (map (\<lambda>(_, i). ci_value i) per_leaf)" using that by (intro member_le_sum_list) force+
    with spec small show ?thesis by linarith
  qed
  have "branch_funds api m oc params l [input]"
    if mem: "(i, input) \<in> set per_leaf" and l: "l \<in> set to_build" and req: "branch_required_funding l ?dust \<le> ci_value input" for l i input
  proof -
    have sw: "ci_script input = ci_script first" "ci_signed_input_weight input = ci_signed_input_weight first"
      using spec mem by (auto simp: inputs list_all_iff)
    have wt: "ci_signed_input_weight first < 2 ^ 64" using inputs_fit_sub(2) [OF fit, of first rest] inputs by simp
    have "\<forall>w \<in> tree_weights api m. weight_fits api (sat_sum (map ci_signed_input_weight [input])) (length (ci_script input)) w"
      using inputs_fit_sub(3) [OF fit, of first "[]"] sw inputs by simp
    moreover have "branch_cost api m oc params l [input] (sel_cpfp_cost l)" using sw by (simp add: branch_cost_def params)
    moreover have "sat_add (sel_cpfp_cost l) ?dust \<le> sat_sum (map ci_value [input])"
      using req cost l value_le [OF mem] by (auto simp: branch_required_funding_def sat_sum_min sat_add_def u64_max_def)
    ultimately show ?thesis
      unfolding branch_funds_def using value_le [OF mem] wt sw
      by (intro exI [of _ input] exI [of _ "[]"] exI [of _ "sel_cpfp_cost l"]) simp
  qed
  then have funds: "branch_funds api m oc params l [snd x]"
    if "x \<in> set per_leaf" "l \<in> set to_build" "branch_required_funding l ?dust \<le> ci_value (snd x)" for x l
    using that by (cases x) simp
  have "list_all2 (\<lambda>l (i, input). i = sel_id l \<and> branch_required_funding l ?dust \<le> ci_value input) to_build per_leaf"
    using spec by blast
  then have "list_all2 (\<lambda>l x. fst x = sel_id l \<and> branch_funds api m oc params l [snd x]) to_build per_leaf"
    unfolding list_all2_conv_all_nth case_prod_unfold using funds by (metis nth_mem)
  then show ?thesis by (simp add: list_all2_map2 case_prod_unfold)
qed

lemma fund_branches_spec:
  assumes fit: "inputs_fit api m inputs" and inputs: "inputs = first # rest"
    and params: "params = \<lparr>lc_initial_cpfp_input_weight = ci_signed_input_weight first, lc_single_cpfp_input_weight = ci_signed_input_weight first,
      lc_change_script_len = length (ci_script first), lc_destination_script_len = dlen, lc_fee_rate_sat_per_kw = rate\<rparr>"
    and run: "fund_branches api m to_build inputs rate dlen (minimal_non_dust api (ci_script first)) oc = Inr (assigned, fo)"
    and sel: "\<forall>l \<in> set to_build. sel_cpfp_cost l \<le> sel_estimated_cost l \<and> (\<exists>leaf refund_tx chain. map_of m (sel_id l) = Some leaf
        \<and> tn_refund_tx leaf = Some refund_tx \<and> walk_unilateral_exit_chain m leaf = Inr chain)"
    and dist: "distinct (map sel_id to_build)"
  shows "list_all2 (\<lambda>l (i, funding). i = sel_id l \<and> branch_funds api m oc params l funding) to_build assigned"
proof (cases "length to_build \<le> 1")
  case True
  show ?thesis
  proof (cases to_build)
    case Nil
    with run show ?thesis by (simp add: fund_branches_def)
  next
    case (Cons l ls)
    with True have l: "to_build = [l]" by simp
    with sel obtain leaf refund_tx chain where "map_of m (sel_id l) = Some leaf" "tn_refund_tx leaf = Some refund_tx"
        "walk_unilateral_exit_chain m leaf = Inr chain" by auto
    from fund_single [OF fit inputs params this run [unfolded l]] l show ?thesis by simp
  qed
next
  case False
  then obtain l l' ls where many: "to_build = l # l' # ls" by (cases to_build; cases "List.tl to_build") auto
  let ?dust = "minimal_non_dust api (ci_script first)"
  show ?thesis
  proof (cases "\<exists>a. assign_inputs_to_leaves inputs to_build ?dust = Some a \<and> assignment_covers_first_child api a m dlen rate oc")
    case True
    then obtain a where a: "assign_inputs_to_leaves inputs to_build ?dust = Some a" "assignment_covers_first_child api a m dlen rate oc" by blast
    with run have "assigned = a" by (simp add: fund_branches_def many)
    with fund_assignment [OF fit _ _ a(1) dist a(2), of params] show ?thesis by (simp add: params)
  next
    case no: False
    then have none: "(case assign_inputs_to_leaves inputs to_build ?dust of None \<Rightarrow> None
        | Some a \<Rightarrow> if assignment_covers_first_child api a m dlen rate oc then Some a else None) = None"
      by (auto split: option.splits)
    obtain p per_leaf where fan: "build_fan_out_psbt api inputs to_build rate ?dust = Inr (p, per_leaf)"
        and a: "assigned = map (\<lambda>(i, input). (i, [input])) per_leaf"
      using run none by (cases "build_fan_out_psbt api inputs to_build rate ?dust") (auto simp: fund_branches_def many Let_def)
    show ?thesis unfolding a by (rule fund_fan_out [OF fit inputs params fan]) (use sel in blast)
  qed
qed

lemma charged_in_order_leaves:
  "charged_in_order api m params oc covered selected \<Longrightarrow> l \<in> set selected \<Longrightarrow>
     sel_cpfp_cost l \<le> sel_estimated_cost l \<and> (\<exists>leaf refund_tx chain. map_of m (sel_id l) = Some leaf
        \<and> tn_refund_tx leaf = Some refund_tx \<and> walk_unilateral_exit_chain m leaf = Inr chain)"
  by (induction selected arbitrary: covered) auto

lemma fold_assigned_lookup:
  assumes "list_all2 (\<lambda>l (i, funding). i = sel_id l \<and> P l funding) ls assigned" "distinct (map sel_id ls)" "l \<in> set ls"
  shows "\<exists>funding. map_of (fold (\<lambda>(i, v) m. hm_insert i v m) assigned []) (sel_id l) = Some funding \<and> P l funding"
proof -
  have ids: "map sel_id ls = map fst assigned" and len: "length ls = length assigned"
    using assms(1) by (auto simp: list_all2_conv_all_nth case_prod_unfold intro: nth_equalityI)
  from assms(3) obtain k where k: "k < length ls" "ls ! k = l" by (auto simp: in_set_conv_nth)
  obtain i funding where ak: "assigned ! k = (i, funding)" by (cases "assigned ! k")
  have p: "i = sel_id l" "P l funding" using assms(1) k ak unfolding list_all2_conv_all_nth by auto
  have mem: "(sel_id l, funding) \<in> set assigned" using k(1) len ak p(1) nth_mem by metis
  have look: "map_of (zip (map id (map fst assigned)) (map snd assigned)) (sel_id l) = Some funding"
    using mem assms(2) unfolding ids list.map_id zip_map_fst_snd by simp
  have "map_of (fold (\<lambda>(l, a) m. hm_insert (id l) a m) (zip (map fst assigned) (map snd assigned)) []) (sel_id l) = Some funding"
    using fold_insert_lookup [of "map fst assigned" "map snd assigned" id "[]" "sel_id l"] look assms(2) ids by simp
  then show ?thesis using p(2) by (simp add: zip_map_fst_snd)
qed

lemma planned_payable:
  assumes plan: "plan_unilateral_exit api m ids flt inputs rate dlen oc = Inr plan" and "distinct ids" and fit: "inputs_fit api m inputs"
  shows "payable api rate m oc [] (ep_per_branch_funding plan) \<and> fst ` set (ep_per_branch_funding plan) \<subseteq> set ids \<and> ep_tree_nodes plan = m"
proof -
  obtain first rest where inputs: "inputs = first # rest" using plan by (cases inputs) (simp_all add: plan_unilateral_exit_def)
  define params where "params = \<lparr>lc_initial_cpfp_input_weight = ci_signed_input_weight first, lc_single_cpfp_input_weight = ci_signed_input_weight first,
      lc_change_script_len = length (ci_script first), lc_destination_script_len = dlen, lc_fee_rate_sat_per_kw = rate\<rparr>"
  let ?dust = "minimal_non_dust api (ci_script first)"
  show ?thesis
  proof (cases "plan = empty_exit_plan m")
    case True
    then show ?thesis by (simp add: empty_exit_plan_def)
  next
    case False
    with plan obtain selected where sel: "evaluate_unilateral_exit_leaf_costs api m ids params flt oc = Inr selected"
      by (cases "evaluate_unilateral_exit_leaf_costs api m ids params flt oc")
         (auto simp: plan_unilateral_exit_def inputs params_def split: if_splits)
    let ?build = "filter (\<lambda>l. \<not> is_complete_on_chain oc m (sel_id l)) selected"
    from plan False sel obtain assigned fo where fund: "fund_branches api m ?build inputs rate dlen ?dust oc = Inr (assigned, fo)"
        and p: "ep_per_branch_funding plan = collect_assigned selected (fold (\<lambda>(i, v) m. hm_insert i v m) assigned [])" "ep_tree_nodes plan = m"
      by (cases "fund_branches api m ?build inputs rate dlen ?dust oc")
         (auto simp: plan_unilateral_exit_def inputs params_def Let_def split: if_splits)
    note charged = evaluate_charged [OF sel assms(2)]
    have dist: "distinct (map sel_id ?build)" using charged(2) by (simp add: distinct_map_filter)
    have leaves: "\<forall>l \<in> set ?build. sel_cpfp_cost l \<le> sel_estimated_cost l \<and> (\<exists>leaf refund_tx chain. map_of m (sel_id l) = Some leaf
        \<and> tn_refund_tx leaf = Some refund_tx \<and> walk_unilateral_exit_chain m leaf = Inr chain)"
      using charged_in_order_leaves [OF charged(1)] by simp
    note funded = fund_branches_spec [OF fit inputs params_def fund leaves dist]
    define f where "f l = (case map_of (fold (\<lambda>(i, v) m. hm_insert i v m) assigned []) (sel_id l) of None \<Rightarrow> [] | Some ins \<Rightarrow> ins)" for l :: selected_leaf
    have eq: "ep_per_branch_funding plan = map (\<lambda>l. (sel_id l, f l)) selected"
      unfolding p(1) f_def by (rule collect_assigned_lookup [OF charged(2)])
    have "is_complete_on_chain oc m (sel_id l) \<or> branch_funds api m oc params l (f l)" if "l \<in> set selected" for l
    proof (cases "is_complete_on_chain oc m (sel_id l)")
      case False
      with that have "l \<in> set ?build" by simp
      from fold_assigned_lookup [OF funded dist this] obtain funding where
          "map_of (fold (\<lambda>(i, v) m. hm_insert i v m) assigned []) (sel_id l) = Some funding" "branch_funds api m oc params l funding" by blast
      then show ?thesis unfolding f_def by simp
    qed simp
    then have "payable api (lc_fee_rate_sat_per_kw params) m oc [] (ep_per_branch_funding plan)"
      unfolding eq by (intro charged_payable [OF charged(1)]) blast
    with charged(3) p(2) show ?thesis by (auto simp: eq params_def)
  qed
qed

subsection \<open>A planned exit can be built\<close>


lemma example_leaf_ready:
  "exit_ready example_api [(''a'', example_leaf ''a'' 90000 None)] empty_chain_state"
  "inputs_fit example_api [(''a'', example_leaf ''a'' 90000 None)] [example_input ''x'' 3000]"
proof -
  have psbt: "psbt_total example_api" by (simp add: psbt_total_def example_api_def)
  have anchor: "has_anchor (example_tx p v)" for p v by (simp add: has_anchor_def example_tx_def is_ephemeral_anchor_output_def)
  then show "exit_ready example_api [(''a'', example_leaf ''a'' 90000 None)] empty_chain_state"
    unfolding exit_ready_def by (simp add: psbt example_leaf_def empty_chain_state_def)
  have weight: "tx_weight example_api (example_tx p v) = 440" for p v by (simp add: example_api_def example_tx_def)
  have "tree_weights example_api [(''a'', example_leaf ''a'' 90000 None)] = {440}"
    by (auto simp: tree_weights_def example_leaf_def weight)
  then show "inputs_fit example_api [(''a'', example_leaf ''a'' 90000 None)] [example_input ''x'' 3000]"
    by (simp add: inputs_fit_def weight_fits_def example_input_def)
qed

lemma example_exit_facts:
  "tx_weight example_api (example_tx p v) = 440" "compute_cpfp_package_fee example_api 440 230 (Suc (Suc 0)) 250 = 230"
  "ci_script (example_input t x) = ''me''" "ci_signed_input_weight (example_input t x) = 230"
proof -
  show "tx_weight example_api (example_tx p v) = 440" by (simp add: example_api_def example_tx_def)
  show "compute_cpfp_package_fee example_api 440 230 (Suc (Suc 0)) 250 = 230"
    by (simp add: compute_cpfp_package_fee_def fee_sat_def div_ceil_def sat_mul_def u64_max_def add_u64_def wrap64_def)
qed (simp_all add: example_input_def)


subsection \<open>A label is not a confirmation\<close>

lemma example_child:
  assumes "ci_script inp = ''me''" "ci_signed_input_weight inp = 230" "ci_value inp < 1000"
  shows "ci_value inp < 530 \<Longrightarrow> build_cpfp_child example_api (example_tx p v) [inp] 250 = Inl (SE_InsufficientCpfpBudget 530)"
    "530 \<le> ci_value inp \<Longrightarrow> \<exists>child. build_cpfp_child example_api (example_tx p v) [inp] 250 = Inr child
       \<and> ci_script (cc_change_input child) = ''me'' \<and> ci_signed_input_weight (cc_change_input child) = 230
       \<and> ci_value (cc_change_input child) = ci_value inp - 230"
proof -
  have pos: "position is_ephemeral_anchor_output (tx_output (example_tx p v)) = Some 1"
    by (simp add: example_tx_def is_ephemeral_anchor_output_def)
  have sums: "sat_sum [ci_value inp] = ci_value inp" "sat_sum [ci_signed_input_weight inp] = 230" "sat_sum [230] = 230"
    using assms by (simp_all add: sat_sum_min u64_max_def)
  have psbt: "from_unsigned_tx example_api tx = Inr \<lparr>ps_unsigned_tx = tx, ps_inputs = replicate (length (tx_input tx)) \<lparr>psi_witness_utxo = None\<rparr>\<rparr>" for tx
    by (simp add: example_api_def)
  show "ci_value inp < 530 \<Longrightarrow> build_cpfp_child example_api (example_tx p v) [inp] 250 = Inl (SE_InsufficientCpfpBudget 530)"
    using assms(1) by (auto simp: build_cpfp_child_def pos sums example_exit_facts Let_def sat_add_def u64_max_def)
  assume "530 \<le> ci_value inp"
  then show "\<exists>child. build_cpfp_child example_api (example_tx p v) [inp] 250 = Inr child
       \<and> ci_script (cc_change_input child) = ''me'' \<and> ci_signed_input_weight (cc_change_input child) = 230
       \<and> ci_value (cc_change_input child) = ci_value inp - 230"
    using assms(1,2) by (auto simp: build_cpfp_child_def pos sums psbt example_exit_facts Let_def)
qed

lemma restored_empty [simp]:
  "map_of (re_nodes (restored api plan empty_chain_state)) i = None"
  "map_of (re_refunds (restored api plan empty_chain_state)) i = None"
  "re_stopped (restored api plan empty_chain_state) = []"
proof -
  show "map_of (re_nodes (restored api plan empty_chain_state)) i = None" by (simp add: restored_node_None)
  show "map_of (re_refunds (restored api plan empty_chain_state)) i = None"
    using restored_refund(2) [of empty_chain_state i api plan] empty_chain_state_simps(2)
    by (cases "map_of (re_refunds (restored api plan empty_chain_state)) i") (simp_all add: empty_chain_state_def)
  show "re_stopped (restored api plan empty_chain_state) = []"
    using restored_stopped [of api plan empty_chain_state] by (simp add: empty_chain_state_def)
qed

text \<open>The planner does not charge for a node that the operators label on-chain, even when the
  chain state it is given does not confirm it; the builder goes by the chain state alone and pays for that node.
  A plan the planner accepts can therefore fail to build for lack of funding.\<close>

theorem labelled_node_breaks_build:
  "\<exists>leaf plan. tn_status leaf = OnChain
     \<and> plan_unilateral_exit example_api [(''a'', leaf)] [''a''] FilterAll [example_input ''x'' 600] 250 2 empty_chain_state = Inr plan
     \<and> build_unilateral_exit example_api plan empty_chain_state 250 = Inl (WE_ServiceError (SE_InsufficientCpfpBudget 530))"
proof -
  define L where "L = (example_leaf ''a'' 90000 None)\<lparr>tn_status := OnChain\<rparr>"
  have walk: "walk_unilateral_exit_chain [(''a'', L)] L = Inr [L]" by (simp add: walk_unilateral_exit_chain_def exit_walk.simps L_def example_leaf_def)
  have node: "tn_node_tx L = example_tx ''parent of a'' 90000" "tn_refund_tx L = Some (example_tx ''a'' 90000)" "tn_status L = OnChain" "tn_id L = ''a''"
    by (simp_all add: L_def example_leaf_def)
  obtain plan where plan: "plan_unilateral_exit example_api [(''a'', L)] [''a''] FilterAll [example_input ''x'' 600] 250 2 empty_chain_state = Inr plan"
      "ep_per_branch_funding plan = [(''a'', [example_input ''x'' 600])]" "ep_tree_nodes plan = [(''a'', L)]"
    by (simp add: plan_unilateral_exit_def example_exit_facts evaluate_unilateral_exit_leaf_costs_def sort_leaves_def walk node leaf_cpfp_cost_def
        ancestor_cost_def is_complete_on_chain_def fund_branches_def Let_def sat_add_def sat_sum_def u64_max_def)
  let ?R = "restored example_api plan empty_chain_state"
  obtain child where child: "build_cpfp_child example_api (example_tx ''parent of a'' 90000) [example_input ''x'' 600] 250 = Inr child"
      "ci_script (cc_change_input child) = ''me''" "ci_signed_input_weight (cc_change_input child) = 230" "ci_value (cc_change_input child) = 370"
    using example_child(2) [of "example_input ''x'' 600" "''parent of a''" 90000] by (auto simp: example_exit_facts)
  have refund: "build_cpfp_child example_api (example_tx ''a'' 90000) [cc_change_input child] 250 = Inl (SE_InsufficientCpfpBudget 530)"
    by (rule example_child(1)) (simp_all add: child)
  have fails: "build_branch example_api [(''a'', L)] ?R 250 fo (''a'', [example_input ''x'' 600]) bs
      = Inl (WE_ServiceError (SE_InsufficientCpfpBudget 530))" if fresh: "bs_emitted bs = []" for fo bs
  proof -
    obtain st where st: "drive_nodes example_api ?R 250 ''a'' [L] (branch_start [example_input ''x'' 600] fo bs) = Inr st"
        "dr_funding st = [cc_change_input child]"
      using fresh child(1) by (simp add: drive_node_def node node_base_tx_def branch_start_def from_service_def Let_def)
    have "drive_refund example_api ?R 250 ''a'' L False st = Inl (WE_ServiceError (SE_InsufficientCpfpBudget 530))"
      using st(2) refund by (simp add: drive_refund_def node refund_output_value_def from_service_def) (simp add: example_tx_def)
    with st(1) show ?thesis unfolding branch_start_def
      by (simp add: build_branch_def walk Let_def del: drive_nodes.simps)
  qed
  have "build_unilateral_exit example_api plan empty_chain_state 250 = Inl (WE_ServiceError (SE_InsufficientCpfpBudget 530))"
    by (simp add: build_unilateral_exit_def build_exit_def plan(2,3) Let_def fails flip: restored_def)
  with plan(1) node(3) show ?thesis by blast
qed

end
