(* ===== verification/Claim_Transfer.thy ===== *)
theory Claim_Transfer
  imports Exit_Plan
begin

text \<open>
  Claiming one transfer: \<^verbatim>\<open>crates/spark/src/services/transfer.rs\<close> from \<open>try_claim_transfer\<close> to the retry
  loop, with the transfers of \<^verbatim>\<open>crates/spark/src/services/models.rs\<close>.

  Cryptography is the record \<open>claim_crypto\<close>, a parameter: the digest of a payload and the verdict of the
  ECDSA verification. Preparing, signing and submitting the claim package is the parameter \<open>submit\<close>, from the
  leaves to claim to the coordinator's answer.
\<close>

subsection \<open>Transfers\<close>

type_synonym transfer_id = string
type_synonym u32 = nat

datatype transfer_status =
    TS_SenderInitiated | TS_SenderKeyTweakPending | TS_SenderKeyTweaked | TS_ReceiverKeyTweaked
  | TS_ReceiverRefundSigned | TS_Completed | TS_Expired | TS_Returned | TS_SenderInitiatedCoordinator
  | TS_ReceiverKeyTweakLocked | TS_ReceiverKeyTweakApplied | TS_ApplyingSenderKeyTweak

datatype transfer_type =
    TT_PreimageSwap | TT_CooperativeExit | TT_Transfer | TT_UtxoSwap | TT_Swap | TT_CounterSwap
  | TT_PrimarySwapV3 | TT_CounterSwapV3

record transfer_leaf =
  tlf_leaf :: tree_node
  tlf_secret_cipher :: string
  tlf_signature :: "string option"
  tlf_intermediate_refund_tx :: transaction
  tlf_intermediate_direct_refund_tx :: "transaction option"
  tlf_intermediate_direct_from_cpfp_refund_tx :: "transaction option"

record transfer =
  tr_id :: transfer_id
  tr_sender_identity_public_key :: public_key
  tr_receiver_identity_public_key :: public_key
  tr_status :: transfer_status
  tr_total_value :: u64
  tr_expiry_time :: "u64 option"
  tr_leaves :: "transfer_leaf list"
  tr_created_time :: "u64 option"
  tr_updated_time :: "u64 option"
  tr_transfer_type :: transfer_type
  tr_spark_invoice :: "string option"

record leaf_key_tweak =
  lk_node :: tree_node
  lk_incoming_key :: "string option"

definition leaf_with_intermediate_txs :: "transfer_leaf \<Rightarrow> tree_node" where
  "leaf_with_intermediate_txs l =
     (tlf_leaf l)\<lparr>tn_refund_tx := Some (tlf_intermediate_refund_tx l),
       tn_direct_refund_tx := tlf_intermediate_direct_refund_tx l,
       tn_direct_from_cpfp_refund_tx := tlf_intermediate_direct_from_cpfp_refund_tx l\<rparr>"

subsection \<open>Verifying and preparing\<close>

record claim_crypto =
  sha256 :: "string \<Rightarrow> string"
  verify_ecdsa :: "string \<Rightarrow> string \<Rightarrow> public_key \<Rightarrow> (string, unit) rust_result"

definition claim_payload :: "transfer_id \<Rightarrow> transfer_leaf \<Rightarrow> string" where
  "claim_payload tid l = tn_id (tlf_leaf l) @ tid @ tlf_secret_cipher l"

definition verify_transfer_leaf :: "claim_crypto \<Rightarrow> transfer \<Rightarrow> transfer_leaf \<Rightarrow> (service_error, unit) rust_result" where
  "verify_transfer_leaf crypto transfer l =
     (case tlf_signature l of
        None \<Rightarrow> Inl (SE_Generic ''Transfer leaf signature is missing'')
      | Some signature \<Rightarrow>
          (case verify_ecdsa crypto (sha256 crypto (claim_payload (tr_id transfer) l)) signature (tr_sender_identity_public_key transfer) of
             Inl e \<Rightarrow> Inl (SE_SignatureVerificationFailed e)
           | Inr u \<Rightarrow> Inr ()))"

fun verify_loop ::
  "claim_crypto \<Rightarrow> transfer \<Rightarrow> transfer_leaf list \<Rightarrow> (tree_node_id, string) hash_map
     \<Rightarrow> (service_error, (tree_node_id, string) hash_map) rust_result" where
  "verify_loop crypto transfer [] leaf_key_map = Inr leaf_key_map"
| "verify_loop crypto transfer (l # ls) leaf_key_map =
     qbind (verify_transfer_leaf crypto transfer l) (\<lambda>_.
       verify_loop crypto transfer ls (hm_insert (tn_id (tlf_leaf l)) (tlf_secret_cipher l) leaf_key_map))"

definition verify_pending_transfer ::
  "claim_crypto \<Rightarrow> transfer \<Rightarrow> (service_error, (tree_node_id, string) hash_map) rust_result" where
  "verify_pending_transfer crypto transfer = verify_loop crypto transfer (tr_leaves transfer) []"

definition prepare_leaves_for_claiming ::
  "transfer \<Rightarrow> (tree_node_id, string) hash_map \<Rightarrow> (service_error, leaf_key_tweak list) rust_result" where
  "prepare_leaves_for_claiming transfer leaf_key_map =
     (let leaves_to_claim = List.map_filter (\<lambda>l. map_option
            (\<lambda>leaf_key. \<lparr>lk_node = leaf_with_intermediate_txs l, lk_incoming_key = Some leaf_key\<rparr>)
            (map_of leaf_key_map (tn_id (tlf_leaf l)))) (tr_leaves transfer)
      in if leaves_to_claim = [] then Inl SE_NoLeavesToClaim else Inr leaves_to_claim)"

definition try_claim_transfer ::
  "claim_crypto \<Rightarrow> (transfer \<Rightarrow> leaf_key_tweak list \<Rightarrow> (service_error, tree_node list) rust_result) \<Rightarrow> transfer
     \<Rightarrow> (service_error, tree_node list) rust_result" where
  "try_claim_transfer crypto submit transfer =
     qbind (verify_pending_transfer crypto transfer) (\<lambda>leaf_key_map.
     qbind (prepare_leaves_for_claiming transfer leaf_key_map) (\<lambda>leaves_to_claim.
       submit transfer leaves_to_claim))"

text \<open>The leaves of a transfer the coordinator already completed; \<open>query\<close> and \<open>identity\<close> are the answers of the
  coordinator and of the signer.\<close>

definition finalized_leaves_if_already_claimed ::
  "(service_error, transfer option) rust_result \<Rightarrow> (string, public_key) rust_result \<Rightarrow> tree_node list option" where
  "finalized_leaves_if_already_claimed query identity =
     (case query of
        Inr (Some t) \<Rightarrow>
          if tr_status t = TS_Completed
          then (case identity of
                  Inl _ \<Rightarrow> None
                | Inr our_pubkey \<Rightarrow> Some (filter (\<lambda>leaf. tn_owner_identity_public_key leaf = Some our_pubkey) (map tlf_leaf (tr_leaves t))))
          else None
      | _ \<Rightarrow> None)"

subsection \<open>Retrying\<close>

record claim_transfer_config =
  max_retries :: u32
  base_delay_ms :: u64
  max_delay_ms :: u64

definition claim_config_default :: claim_transfer_config where
  "claim_config_default = \<lparr>max_retries = 5, base_delay_ms = 1000, max_delay_ms = 10000\<rparr>"

definition claim_config :: "claim_transfer_config option \<Rightarrow> claim_transfer_config" where
  "claim_config config = (case config of None \<Rightarrow> claim_config_default | Some c \<Rightarrow> c)"

text \<open>The pause before a retry; \<open>None\<close> when one of the 64-bit operations overflows.\<close>

definition claim_delay_ms :: "claim_transfer_config \<Rightarrow> u32 \<Rightarrow> u64 option" where
  "claim_delay_ms config retry_count =
     (if 2 ^ (retry_count - 1) < (2 :: nat) ^ 64 \<and> base_delay_ms config * 2 ^ (retry_count - 1) < 2 ^ 64
      then Some (min (base_delay_ms config * 2 ^ (retry_count - 1)) (max_delay_ms config)) else None)"

datatype 'a loop_control = Return 'a | Retry u32

text \<open>One round of the loop, given the answer to the attempt and to the query that follows a failure.\<close>

definition claim_round ::
  "claim_transfer_config \<Rightarrow> u32 \<Rightarrow> (service_error, tree_node list) rust_result \<Rightarrow> tree_node list option
     \<Rightarrow> (service_error, tree_node list) rust_result loop_control" where
  "claim_round config retry_count attempt finalized =
     (if retry_count \<ge> max_retries config then Return (Inl SE_MaxRetriesExceeded)
      else case attempt of
        Inr nodes \<Rightarrow> Return (Inr nodes)
      | Inl SE_NoLeavesToClaim \<Rightarrow> Return (Inr [])
      | Inl e \<Rightarrow>
          (case finalized of
             Some leaves \<Rightarrow> Return (Inr leaves)
           | None \<Rightarrow> Retry (retry_count + 1)))"

lemma claim_round_Retry:
  "claim_round config n attempt finalized = Retry m \<longleftrightarrow>
     n < max_retries config \<and> m = n + 1 \<and> finalized = None \<and> (\<exists>e. attempt = Inl e \<and> e \<noteq> SE_NoLeavesToClaim)"
  by (auto simp: claim_round_def split: sum.splits service_error.splits option.splits)

text \<open>The loop; \<open>attempts n\<close> and \<open>checks n\<close> are the answers in round \<open>n\<close>. It also reports the pauses taken.\<close>

function claim_loop ::
  "claim_transfer_config \<Rightarrow> (u32 \<Rightarrow> (service_error, tree_node list) rust_result) \<Rightarrow> (u32 \<Rightarrow> tree_node list option) \<Rightarrow> u32
     \<Rightarrow> u64 option list \<times> (service_error, tree_node list) rust_result" where
  "claim_loop config attempts checks retry_count =
     (let pause = (if 0 < retry_count \<and> retry_count < max_retries config then [claim_delay_ms config retry_count] else [])
      in case claim_round config retry_count (attempts retry_count) (checks retry_count) of
        Return r \<Rightarrow> (pause, r)
      | Retry n \<Rightarrow> (case claim_loop config attempts checks n of (pauses, r) \<Rightarrow> (pause @ pauses, r)))"
  by pat_completeness auto
termination
  by (relation "measure (\<lambda>(config, _, _, n). max_retries config - n)") (auto simp: claim_round_Retry)

declare claim_loop.simps [simp del]

definition claim_transfer_with_retries ::
  "claim_transfer_config option \<Rightarrow> (u32 \<Rightarrow> (service_error, tree_node list) rust_result) \<Rightarrow> (u32 \<Rightarrow> tree_node list option)
     \<Rightarrow> u64 option list \<times> (service_error, tree_node list) rust_result" where
  "claim_transfer_with_retries config attempts checks = claim_loop (claim_config config) attempts checks 0"

subsection \<open>A claim submits what the sender signed\<close>

lemma verify_loop_spec:
  "verify_loop crypto transfer ls m =
     (case find (\<lambda>l. \<not> is_ok (verify_transfer_leaf crypto transfer l)) ls of
        Some l \<Rightarrow> Inl (projl (verify_transfer_leaf crypto transfer l))
      | None \<Rightarrow> Inr (fold (\<lambda>l. hm_insert (tn_id (tlf_leaf l)) (tlf_secret_cipher l)) ls m))"
proof (induction ls arbitrary: m)
  case (Cons l ls)
  then show ?case by (cases "verify_transfer_leaf crypto transfer l") (simp_all split: option.split)
qed simp

lemma fold_insert_key:
  assumes "distinct (map k ls)" "l \<in> set ls"
  shows "map_of (fold (\<lambda>l. hm_insert (k l) (v l)) ls m) (k l) = Some (v l)"
proof -
  have other: "map_of (fold (\<lambda>l. hm_insert (k l) (v l)) ls m) i = map_of m i" if "i \<notin> k ` set ls" for ls m i
    using that by (induction ls arbitrary: m) (auto simp: hm_get_insert)
  from assms show ?thesis
    by (induction ls arbitrary: m) (auto simp: other hm_get_insert)
qed

lemma map_filter_all:
  "(\<And>x. x \<in> set xs \<Longrightarrow> f x = Some (g x)) \<Longrightarrow> List.map_filter f xs = map g xs"
  by (induction xs) (simp_all add: List.map_filter_simps)

definition claimed_leaf :: "transfer_leaf \<Rightarrow> leaf_key_tweak" where
  "claimed_leaf l = \<lparr>lk_node = leaf_with_intermediate_txs l, lk_incoming_key = Some (tlf_secret_cipher l)\<rparr>"


definition example_transfer_leaf :: "tree_node_id \<Rightarrow> string option \<Rightarrow> transfer_leaf" where
  "example_transfer_leaf i sig = \<lparr>tlf_leaf = example_leaf i 500 None, tlf_secret_cipher = ''key '' @ i, tlf_signature = sig,
     tlf_intermediate_refund_tx = example_tx i 400, tlf_intermediate_direct_refund_tx = None,
     tlf_intermediate_direct_from_cpfp_refund_tx = None\<rparr>"

definition example_transfer :: "transfer_leaf list \<Rightarrow> transfer" where
  "example_transfer ls = \<lparr>tr_id = ''T'', tr_sender_identity_public_key = ''alice'', tr_receiver_identity_public_key = ''bob'',
     tr_status = TS_SenderKeyTweaked, tr_total_value = 500, tr_expiry_time = None, tr_leaves = ls, tr_created_time = None,
     tr_updated_time = None, tr_transfer_type = TT_Transfer, tr_spark_invoice = None\<rparr>"

definition example_crypto :: claim_crypto where
  "example_crypto = \<lparr>sha256 = rev, verify_ecdsa = (\<lambda>m s pk. if s = pk @ m then Inr () else Inl ''bad signature'')\<rparr>"


subsection \<open>A claim is retried a bounded number of times\<close>

text \<open>The rounds that end the loop, and what they return.\<close>

definition round_stops :: "(service_error, tree_node list) rust_result \<Rightarrow> tree_node list option \<Rightarrow> bool" where
  "round_stops attempt finalized = (is_ok attempt \<or> attempt = Inl SE_NoLeavesToClaim \<or> finalized \<noteq> None)"

definition round_leaves :: "(service_error, tree_node list) rust_result \<Rightarrow> tree_node list option \<Rightarrow> tree_node list" where
  "round_leaves attempt finalized =
     (if is_ok attempt then projr attempt else if attempt = Inl SE_NoLeavesToClaim then [] else the finalized)"

lemma claim_round_eq:
  "claim_round config n attempt finalized =
     (if max_retries config \<le> n then Return (Inl SE_MaxRetriesExceeded)
      else if round_stops attempt finalized then Return (Inr (round_leaves attempt finalized)) else Retry (n + 1))"
  by (auto simp: claim_round_def round_stops_def round_leaves_def split: sum.splits service_error.splits option.splits)

definition pauses_to :: "claim_transfer_config \<Rightarrow> u32 \<Rightarrow> u32 \<Rightarrow> u64 option list" where
  "pauses_to config n m = map (claim_delay_ms config) [max 1 n..<m]"

lemma pauses_to_Cons: "n < m \<Longrightarrow> pauses_to config n m = (if 0 < n then [claim_delay_ms config n] else []) @ pauses_to config (Suc n) m"
  by (cases "n = 0") (simp_all add: pauses_to_def upt_conv_Cons max_def)

lemma claim_loop_eq:
  assumes "n \<le> max_retries config"
  shows "claim_loop config attempts checks n =
     (case find (\<lambda>k. round_stops (attempts k) (checks k)) [n..<max_retries config] of
        Some k \<Rightarrow> (pauses_to config n (Suc k), Inr (round_leaves (attempts k) (checks k)))
      | None \<Rightarrow> (pauses_to config n (max_retries config), Inl SE_MaxRetriesExceeded))"
  using assms
proof (induction "max_retries config - n" arbitrary: n)
  case 0
  then show ?case by (simp add: claim_loop.simps [of config] claim_round_eq pauses_to_def)
next
  case (Suc d)
  then have n: "n < max_retries config" "[n..<max_retries config] = n # [Suc n..<max_retries config]" by (simp_all add: upt_conv_Cons)
  show ?case
  proof (cases "round_stops (attempts n) (checks n)")
    case True
    with n show ?thesis by (simp add: claim_loop.simps [of config attempts checks n] claim_round_eq pauses_to_def max_def)
  next
    case False
    have IH: "claim_loop config attempts checks (Suc n) =
       (case find (\<lambda>k. round_stops (attempts k) (checks k)) [Suc n..<max_retries config] of
          Some k \<Rightarrow> (pauses_to config (Suc n) (Suc k), Inr (round_leaves (attempts k) (checks k)))
        | None \<Rightarrow> (pauses_to config (Suc n) (max_retries config), Inl SE_MaxRetriesExceeded))"
      using Suc n by simp
    have loop: "claim_loop config attempts checks n = (case claim_loop config attempts checks (Suc n) of (pauses, r) \<Rightarrow>
        ((if 0 < n then [claim_delay_ms config n] else []) @ pauses, r))"
      using n False by (simp add: claim_loop.simps [of config attempts checks n] claim_round_eq)
    have later: "n < Suc k" if "find P [Suc n..<m] = Some k" for P k m
      using that by (auto simp: find_Some_iff)
    show ?thesis
      unfolding loop IH n(2) using False pauses_to_Cons [OF n(1)] pauses_to_Cons [of n _ config] later by (auto split: option.splits)
  qed
qed

text \<open>The claim loop always ends, after at most \<open>max_retries\<close> attempts. It returns the leaves of the first
  round that settles the claim (the attempt succeeds, there is nothing to claim, or the coordinator reports the
  transfer completed), with one pause before each repeated attempt and none after the last; when no round
  does, it reports that the retries are exhausted.\<close>

theorem claim_retries_bounded:
  "claim_transfer_with_retries config attempts checks =
     (case find (\<lambda>k. round_stops (attempts k) (checks k)) [0..<max_retries (claim_config config)] of
        Some k \<Rightarrow> (map (claim_delay_ms (claim_config config)) [1..<Suc k], Inr (round_leaves (attempts k) (checks k)))
      | None \<Rightarrow> (map (claim_delay_ms (claim_config config)) [1..<max_retries (claim_config config)], Inl SE_MaxRetriesExceeded))"
  by (simp add: claim_transfer_with_retries_def claim_loop_eq pauses_to_def max_def split: option.split)

text \<open>With the default configuration the pauses double from one second and no operation overflows.\<close>

lemma default_pauses:
  "map (claim_delay_ms (claim_config None)) [1..<max_retries (claim_config None)] = [Some 1000, Some 2000, Some 4000, Some 8000]"
proof -
  have "[1..<5] = [1, 2, 3, 4 :: nat]" by (simp add: upt_rec)
  then show ?thesis by (simp add: claim_config_def claim_config_default_def claim_delay_ms_def)
qed

end
