(* ===== verification/Claim_Locks.thy ===== *)
theory Claim_Locks
  imports Claim_Transfer
begin

text \<open>
  Concurrent claims: \<open>ClaimLocks\<close>, \<open>claim_transfer\<close> and \<open>claim_transfer_locked\<close> of
  \<^verbatim>\<open>crates/spark/src/services/transfer.rs\<close>.

  The registry maps a transfer to its lock and the number of claims that have a handle on it. The locks live on a
  heap, because a handle keeps its lock alive after the registry dropped it; a lock is a tokio mutex with the
  slot it guards. A claim is a task that moves through the phases of \<open>claim_phase\<close>, one for each point of the code
  where another task may run. The registry's own mutex makes \<open>acquire\<close> and \<open>release\<close> atomic. A waiting
  task may be granted the lock whenever it is free, in any order, and a claim may be abandoned in any phase that
  has a handle: this covers a future that is dropped at an await point and one that unwinds from a panic.
\<close>

subsection \<open>The registry\<close>

type_synonym lock_id = nat
type_synonym task = nat
type_synonym claim_result = "(service_error, tree_node list) rust_result"

record claim_lock =
  cl_owner :: "task option"
  cl_slot :: "tree_node list option"

record claim_lock_entry =
  ce_lock :: lock_id
  ce_holders :: nat

record claim_lock_guard =
  cg_transfer_id :: transfer_id
  cg_lock :: lock_id

datatype claim_phase =
    PhIdle
  | PhAcquired claim_lock_guard
  | PhWaiting claim_lock_guard
  | PhPermitted claim_lock_guard bool
  | PhChecking claim_lock_guard
  | PhClaiming claim_lock_guard u32
  | PhReturning claim_lock_guard claim_result
  | PhReleasing claim_lock_guard "claim_result option"
  | PhFinished "claim_result option"

record claim_state =
  cs_locks :: "(transfer_id, claim_lock_entry) hash_map"
  cs_heap :: "lock_id \<Rightarrow> claim_lock"
  cs_next :: lock_id
  cs_tasks :: "task \<Rightarrow> claim_phase"

definition claim_lock_new :: claim_lock where
  "claim_lock_new = \<lparr>cl_owner = None, cl_slot = None\<rparr>"

definition claims_init :: claim_state where
  "claims_init = \<lparr>cs_locks = [], cs_heap = (\<lambda>_. claim_lock_new), cs_next = 0, cs_tasks = (\<lambda>_. PhIdle)\<rparr>"

definition acquire :: "transfer_id \<Rightarrow> claim_state \<Rightarrow> claim_lock_guard \<times> claim_state" where
  "acquire tid s =
     (case map_of (cs_locks s) tid of
        Some entry \<Rightarrow>
          (\<lparr>cg_transfer_id = tid, cg_lock = ce_lock entry\<rparr>,
           s\<lparr>cs_locks := hm_insert tid (entry\<lparr>ce_holders := ce_holders entry + 1\<rparr>) (cs_locks s)\<rparr>)
      | None \<Rightarrow>
          (\<lparr>cg_transfer_id = tid, cg_lock = cs_next s\<rparr>,
           s\<lparr>cs_locks := hm_insert tid \<lparr>ce_lock = cs_next s, ce_holders = 1\<rparr> (cs_locks s),
             cs_heap := (cs_heap s)(cs_next s := claim_lock_new), cs_next := cs_next s + 1\<rparr>))"

text \<open>\<open>None\<close> when the count would underflow.\<close>

definition release :: "transfer_id \<Rightarrow> claim_state \<Rightarrow> claim_state option" where
  "release tid s =
     (case map_of (cs_locks s) tid of
        None \<Rightarrow> Some s
      | Some entry \<Rightarrow>
          if ce_holders entry = 0 then None
          else let holders = ce_holders entry - 1 in
            Some (s\<lparr>cs_locks := (if holders = 0 then hm_remove tid (cs_locks s)
                                 else hm_insert tid (entry\<lparr>ce_holders := holders\<rparr>) (cs_locks s))\<rparr>))"

subsection \<open>Claims\<close>

abbreviation lock_of :: "claim_state \<Rightarrow> claim_lock_guard \<Rightarrow> claim_lock" where
  "lock_of s g \<equiv> cs_heap s (cg_lock g)"

definition set_phase :: "task \<Rightarrow> claim_phase \<Rightarrow> claim_state \<Rightarrow> claim_state" where
  "set_phase t p s = s\<lparr>cs_tasks := (cs_tasks s)(t := p)\<rparr>"

definition set_owner :: "claim_lock_guard \<Rightarrow> task option \<Rightarrow> claim_state \<Rightarrow> claim_state" where
  "set_owner g owner s = s\<lparr>cs_heap := (cs_heap s)(cg_lock g := (lock_of s g)\<lparr>cl_owner := owner\<rparr>)\<rparr>"

definition set_slot :: "claim_lock_guard \<Rightarrow> tree_node list \<Rightarrow> claim_state \<Rightarrow> claim_state" where
  "set_slot g leaves s = s\<lparr>cs_heap := (cs_heap s)(cg_lock g := (lock_of s g)\<lparr>cl_slot := Some leaves\<rparr>)\<rparr>"

text \<open>The handle a phase has, and whether it also has the permit of the lock.\<close>

fun phase_guard :: "claim_phase \<Rightarrow> claim_lock_guard option" where
  "phase_guard (PhAcquired g) = Some g"
| "phase_guard (PhWaiting g) = Some g"
| "phase_guard (PhPermitted g w) = Some g"
| "phase_guard (PhChecking g) = Some g"
| "phase_guard (PhClaiming g n) = Some g"
| "phase_guard (PhReturning g r) = Some g"
| "phase_guard (PhReleasing g r) = Some g"
| "phase_guard _ = None"

fun phase_permit :: "claim_phase \<Rightarrow> claim_lock_guard option" where
  "phase_permit (PhPermitted g w) = Some g"
| "phase_permit (PhChecking g) = Some g"
| "phase_permit (PhClaiming g n) = Some g"
| "phase_permit (PhReturning g r) = Some g"
| "phase_permit _ = None"

text \<open>The steps of a claim after its handle was acquired. The configuration of a task's claim is \<open>cfg t\<close>.\<close>

inductive claim_advance ::
  "(task \<Rightarrow> claim_transfer_config option) \<Rightarrow> task \<Rightarrow> claim_state \<Rightarrow> claim_state \<Rightarrow> bool" for cfg where
  try_lock: "cs_tasks s t = PhAcquired g \<Longrightarrow> cl_owner (lock_of s g) = None \<Longrightarrow>
     claim_advance cfg t s (set_phase t (PhPermitted g False) (set_owner g (Some t) s))"
| try_lock_busy: "cs_tasks s t = PhAcquired g \<Longrightarrow> cl_owner (lock_of s g) \<noteq> None \<Longrightarrow>
     claim_advance cfg t s (set_phase t (PhWaiting g) s)"
| lock_granted: "cs_tasks s t = PhWaiting g \<Longrightarrow> cl_owner (lock_of s g) = None \<Longrightarrow>
     claim_advance cfg t s (set_phase t (PhPermitted g True) (set_owner g (Some t) s))"
| reuse_outcome: "cs_tasks s t = PhPermitted g waited \<Longrightarrow> cl_slot (lock_of s g) = Some leaves \<Longrightarrow>
     claim_advance cfg t s (set_phase t (PhReturning g (Inr leaves)) s)"
| check_first: "cs_tasks s t = PhPermitted g True \<Longrightarrow> cl_slot (lock_of s g) = None \<Longrightarrow>
     claim_advance cfg t s (set_phase t (PhChecking g) s)"
| claim_now: "cs_tasks s t = PhPermitted g False \<Longrightarrow> cl_slot (lock_of s g) = None \<Longrightarrow>
     claim_advance cfg t s (set_phase t (PhClaiming g 0) s)"
| already_claimed: "cs_tasks s t = PhChecking g \<Longrightarrow>
     finalized_leaves_if_already_claimed query identity = Some leaves \<Longrightarrow>
     claim_advance cfg t s (set_phase t (PhReturning g (Inr leaves)) (set_slot g leaves s))"
| not_claimed: "cs_tasks s t = PhChecking g \<Longrightarrow>
     finalized_leaves_if_already_claimed query identity = None \<Longrightarrow>
     claim_advance cfg t s (set_phase t (PhClaiming g 0) s)"
| round_retry: "cs_tasks s t = PhClaiming g n \<Longrightarrow>
     claim_round (claim_config (cfg t)) n attempt finalized = Retry m \<Longrightarrow>
     claim_advance cfg t s (set_phase t (PhClaiming g m) s)"
| round_done: "cs_tasks s t = PhClaiming g n \<Longrightarrow>
     claim_round (claim_config (cfg t)) n attempt finalized = Return (Inr leaves) \<Longrightarrow>
     claim_advance cfg t s (set_phase t (PhReturning g (Inr leaves)) (set_slot g leaves s))"
| round_failed: "cs_tasks s t = PhClaiming g n \<Longrightarrow>
     claim_round (claim_config (cfg t)) n attempt finalized = Return (Inl e) \<Longrightarrow>
     claim_advance cfg t s (set_phase t (PhReturning g (Inl e)) s)"
| drop_permit: "cs_tasks s t = PhReturning g r \<Longrightarrow>
     claim_advance cfg t s (set_phase t (PhReleasing g (Some r)) (set_owner g None s))"
| drop_guard: "cs_tasks s t = PhReleasing g r \<Longrightarrow> release (cg_transfer_id g) s = Some s' \<Longrightarrow>
     claim_advance cfg t s (set_phase t (PhFinished r) s')"

inductive claim_abandon :: "task \<Rightarrow> claim_state \<Rightarrow> claim_state \<Rightarrow> bool" where
  abandon_holding: "phase_permit (cs_tasks s t) = Some g \<Longrightarrow>
     claim_abandon t s (set_phase t (PhReleasing g None) (set_owner g None s))"
| abandon_waiting: "cs_tasks s t = PhAcquired g \<or> cs_tasks s t = PhWaiting g \<Longrightarrow>
     claim_abandon t s (set_phase t (PhReleasing g None) s)"

inductive claim_begin :: "task \<Rightarrow> claim_state \<Rightarrow> claim_state \<Rightarrow> bool" where
  begin_claim: "cs_tasks s t = PhIdle \<Longrightarrow> acquire tid s = (g, s') \<Longrightarrow>
     claim_begin t s (set_phase t (PhAcquired g) s')"

inductive claims_reachable :: "(task \<Rightarrow> claim_transfer_config option) \<Rightarrow> claim_state \<Rightarrow> bool" for cfg where
  reach_init: "claims_reachable cfg claims_init"
| reach_begin: "claims_reachable cfg s \<Longrightarrow> claim_begin t s s' \<Longrightarrow> claims_reachable cfg s'"
| reach_advance: "claims_reachable cfg s \<Longrightarrow> claim_advance cfg t s s' \<Longrightarrow> claims_reachable cfg s'"
| reach_abandon: "claims_reachable cfg s \<Longrightarrow> claim_abandon t s s' \<Longrightarrow> claims_reachable cfg s'"

subsection \<open>The invariant\<close>

abbreviation guard_of :: "claim_state \<Rightarrow> task \<Rightarrow> claim_lock_guard option" where
  "guard_of s t \<equiv> phase_guard (cs_tasks s t)"

abbreviation permit_of :: "claim_state \<Rightarrow> task \<Rightarrow> claim_lock_guard option" where
  "permit_of s t \<equiv> phase_permit (cs_tasks s t)"

text \<open>The claims that have a handle on the lock of a transfer.\<close>

definition holding :: "claim_state \<Rightarrow> transfer_id \<Rightarrow> task set" where
  "holding s tid = {t. \<exists>g. guard_of s t = Some g \<and> cg_transfer_id g = tid}"

text \<open>The phases that may ask the coordinator.\<close>

fun phase_asking :: "claim_phase \<Rightarrow> claim_lock_guard option" where
  "phase_asking (PhChecking g) = Some g"
| "phase_asking (PhClaiming g n) = Some g"
| "phase_asking _ = None"

lemma asking_permit: "phase_asking p = Some g \<Longrightarrow> phase_permit p = Some g"
  by (cases p) auto

lemma permit_guard: "phase_permit p = Some g \<Longrightarrow> phase_guard p = Some g"
  by (cases p) auto

definition handles_ok :: "claim_state \<Rightarrow> bool" where
  "handles_ok s =
     ((\<forall>t g. guard_of s t = Some g \<longrightarrow> (\<exists>e. map_of (cs_locks s) (cg_transfer_id g) = Some e \<and> ce_lock e = cg_lock g))
      \<and> (\<forall>tid e. map_of (cs_locks s) tid = Some e \<longrightarrow> finite (holding s tid) \<and> card (holding s tid) = ce_holders e
           \<and> 0 < ce_holders e \<and> ce_lock e < cs_next s)
      \<and> (\<forall>tid tid' e e'. map_of (cs_locks s) tid = Some e \<longrightarrow> map_of (cs_locks s) tid' = Some e' \<longrightarrow> ce_lock e = ce_lock e' \<longrightarrow> tid = tid'))"

definition permits_ok :: "claim_state \<Rightarrow> bool" where
  "permits_ok s =
     ((\<forall>t g. permit_of s t = Some g \<longrightarrow> cl_owner (lock_of s g) = Some t)
      \<and> (\<forall>t l. l < cs_next s \<longrightarrow> cl_owner (cs_heap s l) = Some t \<longrightarrow> (\<exists>g. permit_of s t = Some g \<and> cg_lock g = l))
      \<and> (\<forall>t g. phase_asking (cs_tasks s t) = Some g \<longrightarrow> cl_slot (lock_of s g) = None))"

definition claims_ok :: "claim_state \<Rightarrow> bool" where
  "claims_ok s = (handles_ok s \<and> permits_ok s)"

lemma handles_okD:
  assumes "handles_ok s" "guard_of s t = Some g"
  obtains e where "map_of (cs_locks s) (cg_transfer_id g) = Some e" "ce_lock e = cg_lock g" "finite (holding s (cg_transfer_id g))"
    "card (holding s (cg_transfer_id g)) = ce_holders e" "0 < ce_holders e" "cg_lock g < cs_next s"
  using assms unfolding handles_ok_def by metis

lemma handles_ok_lock:
  assumes "handles_ok s" "guard_of s t = Some g" "guard_of s t' = Some g'"
  shows "cg_lock g = cg_lock g' \<longleftrightarrow> cg_transfer_id g = cg_transfer_id g'"
proof -
  obtain e where e: "map_of (cs_locks s) (cg_transfer_id g) = Some e" "ce_lock e = cg_lock g" using handles_okD [OF assms(1,2)] by blast
  obtain e' where e': "map_of (cs_locks s) (cg_transfer_id g') = Some e'" "ce_lock e' = cg_lock g'" using handles_okD [OF assms(1,3)] by blast
  show ?thesis
  proof
    assume "cg_lock g = cg_lock g'"
    with e e' assms(1) show "cg_transfer_id g = cg_transfer_id g'" unfolding handles_ok_def by metis
  next
    assume "cg_transfer_id g = cg_transfer_id g'"
    with e e' show "cg_lock g = cg_lock g'" by simp
  qed
qed

lemma permits_ok_unique:
  assumes "permits_ok s" "permit_of s t = Some g" "permit_of s t' = Some g'" "cg_lock g = cg_lock g'"
  shows "t = t'"
  using assms unfolding permits_ok_def by (metis option.inject)

subsubsection \<open>Changing a phase\<close>

text \<open>The handles only depend on the registry and on the handle of each task.\<close>

lemma handles_ok_cong:
  assumes "handles_ok s" "cs_locks s' = cs_locks s" "cs_next s' = cs_next s" "\<And>t. guard_of s' t = guard_of s t"
  shows "handles_ok s'"
proof -
  have "holding s' = holding s" using assms(4) by (simp add: holding_def fun_eq_iff)
  with assms show ?thesis unfolding handles_ok_def by simp
qed

lemma claims_ok_phase:
  assumes "claims_ok s" "phase_guard p = guard_of s t" "phase_permit p = permit_of s t"
    and "\<And>g. phase_asking p = Some g \<Longrightarrow> cl_slot (lock_of s g) = None"
  shows "claims_ok (set_phase t p s)"
proof -
  have "handles_ok (set_phase t p s)"
    by (rule handles_ok_cong [of s]) (use assms in \<open>auto simp: claims_ok_def set_phase_def\<close>)
  moreover have perm: "permit_of (set_phase t p s) t' = permit_of s t'" for t' using assms(3) by (simp add: set_phase_def)
  have "cs_heap (set_phase t p s) = cs_heap s" "cs_next (set_phase t p s) = cs_next s" by (simp_all add: set_phase_def)
  then have "permits_ok (set_phase t p s)"
    using assms(1,4) unfolding permits_ok_def perm claims_ok_def by (auto simp: set_phase_def)
  ultimately show ?thesis by (simp add: claims_ok_def)
qed

text \<open>A task may change the lock it owns, or one that is free.\<close>

lemma permits_ok_update:
  assumes ok: "permits_ok s" and free: "cl_owner (lock_of s g) = None \<or> cl_owner (lock_of s g) = Some t"
    and was: "permit_of s t = None \<or> permit_of s t = Some g"
    and p: "phase_asking p = None" "phase_permit p = Some g \<and> cl_owner L = Some t \<or> phase_permit p = None \<and> cl_owner L = None"
  shows "permits_ok (s\<lparr>cs_heap := (cs_heap s)(cg_lock g := L), cs_tasks := (cs_tasks s)(t := p)\<rparr>)"
proof -
  have own: "cl_owner (lock_of s g') = Some t'" if "permit_of s t' = Some g'" for t' g'
    using ok that unfolding permits_ok_def by blast
  have other: "cg_lock g' \<noteq> cg_lock g" if "permit_of s t' = Some g'" "t' \<noteq> t" for t' g'
    using own [OF that(1)] free that(2) by (metis option.distinct(1) option.inject)
  have owner: "\<exists>g'. permit_of s t' = Some g' \<and> cg_lock g' = l" if "l < cs_next s" "cl_owner (cs_heap s l) = Some t'" for t' l
    using ok that unfolding permits_ok_def by blast
  have ask: "cl_slot (lock_of s g') = None" if "phase_asking (cs_tasks s t') = Some g'" for t' g'
    using ok that unfolding permits_ok_def by blast
  show ?thesis unfolding permits_ok_def
  proof (intro conjI allI impI)
    fix t' g'
    assume "permit_of (s\<lparr>cs_heap := (cs_heap s)(cg_lock g := L), cs_tasks := (cs_tasks s)(t := p)\<rparr>) t' = Some g'"
    then show "cl_owner (lock_of (s\<lparr>cs_heap := (cs_heap s)(cg_lock g := L), cs_tasks := (cs_tasks s)(t := p)\<rparr>) g') = Some t'"
      using p(2) own [of t' g'] other [of t' g'] by (cases "t' = t") auto
  next
    fix t' l
    assume l: "l < cs_next (s\<lparr>cs_heap := (cs_heap s)(cg_lock g := L), cs_tasks := (cs_tasks s)(t := p)\<rparr>)"
      and "cl_owner (cs_heap (s\<lparr>cs_heap := (cs_heap s)(cg_lock g := L), cs_tasks := (cs_tasks s)(t := p)\<rparr>) l) = Some t'"
    then show "\<exists>g'. permit_of (s\<lparr>cs_heap := (cs_heap s)(cg_lock g := L), cs_tasks := (cs_tasks s)(t := p)\<rparr>) t' = Some g' \<and> cg_lock g' = l"
      using p(2) owner [of l t'] was by (cases "l = cg_lock g"; cases "t' = t") auto
  next
    fix t' g'
    assume "phase_asking (cs_tasks (s\<lparr>cs_heap := (cs_heap s)(cg_lock g := L), cs_tasks := (cs_tasks s)(t := p)\<rparr>) t') = Some g'"
    then show "cl_slot (lock_of (s\<lparr>cs_heap := (cs_heap s)(cg_lock g := L), cs_tasks := (cs_tasks s)(t := p)\<rparr>) g') = None"
      using p(1) ask [of t' g'] other [of t' g'] asking_permit [of "cs_tasks s t'" g'] by (cases "t' = t") auto
  qed
qed

lemma claims_ok_update:
  assumes ok: "claims_ok s" and g: "guard_of s t = Some g" and free: "cl_owner (lock_of s g) = None \<or> cl_owner (lock_of s g) = Some t"
    and was: "permit_of s t = None \<or> permit_of s t = Some g" and guard: "phase_guard p = Some g"
    and p: "phase_asking p = None" "phase_permit p = Some g \<and> cl_owner L = Some t \<or> phase_permit p = None \<and> cl_owner L = None"
  shows "claims_ok (s\<lparr>cs_heap := (cs_heap s)(cg_lock g := L), cs_tasks := (cs_tasks s)(t := p)\<rparr>)"
proof -
  have "handles_ok (s\<lparr>cs_heap := (cs_heap s)(cg_lock g := L), cs_tasks := (cs_tasks s)(t := p)\<rparr>)"
    by (rule handles_ok_cong [of s]) (use ok g guard in \<open>auto simp: claims_ok_def\<close>)
  with permits_ok_update [OF _ free was p] ok show ?thesis by (simp add: claims_ok_def)
qed

lemma claims_ok_owner: "claims_ok s \<Longrightarrow> permit_of s t = Some g \<Longrightarrow> cl_owner (lock_of s g) = Some t"
  unfolding claims_ok_def permits_ok_def by blast

lemma claims_ok_asking: "claims_ok s \<Longrightarrow> phase_asking (cs_tasks s t) = Some g \<Longrightarrow> cl_slot (lock_of s g) = None"
  unfolding claims_ok_def permits_ok_def by blast

subsubsection \<open>Changing the registry\<close>

lemma holding_phase:
  "holding (s\<lparr>cs_tasks := (cs_tasks s)(t := p)\<rparr>) tid = holding s tid - {t} \<union> {t'. t' = t \<and> (\<exists>g. phase_guard p = Some g \<and> cg_transfer_id g = tid)}"
  unfolding holding_def by (auto split: if_splits)

lemma holding_iff: "t \<in> holding s tid \<longleftrightarrow> (\<exists>g. guard_of s t = Some g \<and> cg_transfer_id g = tid)"
  by (simp add: holding_def)

lemma release_ok:
  assumes ok: "claims_ok s" and g: "cs_tasks s t = PhReleasing g r"
  shows "\<exists>s'. release (cg_transfer_id g) s = Some s' \<and> claims_ok (set_phase t (PhFinished r) s')"
proof -
  let ?tid = "cg_transfer_id g"
  obtain e where e: "map_of (cs_locks s) ?tid = Some e" "ce_lock e = cg_lock g" "finite (holding s ?tid)"
      "card (holding s ?tid) = ce_holders e" "0 < ce_holders e"
    using handles_okD [of s t g] ok g by (auto simp: claims_ok_def)
  define s' where "s' = s\<lparr>cs_locks := (if ce_holders e - 1 = 0 then hm_remove ?tid (cs_locks s)
      else hm_insert ?tid (e\<lparr>ce_holders := ce_holders e - 1\<rparr>) (cs_locks s))\<rparr>"
  have rel: "release ?tid s = Some s'" using e by (simp add: release_def s'_def Let_def)
  let ?s = "set_phase t (PhFinished r) s'"
  have t: "t \<in> holding s ?tid" using g by (simp add: holding_iff)
  have guards: "guard_of ?s t' = (if t' = t then None else guard_of s t')" for t' by (simp add: set_phase_def s'_def)
  have hold: "holding ?s tid = holding s tid - {t}" for tid unfolding holding_def guards by auto
  have lookup: "map_of (cs_locks ?s) tid = (if tid = ?tid then if ce_holders e = 1 then None else Some (e\<lparr>ce_holders := ce_holders e - 1\<rparr>)
      else map_of (cs_locks s) tid)" for tid
    using e(5) by (auto simp: set_phase_def s'_def hm_get_insert hm_get_remove)
  have card: "card (holding ?s ?tid) = ce_holders e - 1" "finite (holding ?s ?tid)" unfolding hold using e t by simp_all
  have same: "holding ?s tid = holding s tid" if "tid \<noteq> ?tid" for tid unfolding hold using that g by (auto simp: holding_iff)
  note H = ok [unfolded claims_ok_def handles_ok_def, THEN conjunct1]
  have "handles_ok ?s" unfolding handles_ok_def
  proof (intro conjI allI impI)
    fix t' g'
    assume "guard_of ?s t' = Some g'"
    then have t': "t' \<noteq> t" "guard_of s t' = Some g'" by (auto simp: guards split: if_splits)
    have "ce_holders e \<noteq> 1" if "cg_transfer_id g' = ?tid"
    proof
      assume "ce_holders e = 1"
      with card have "holding ?s ?tid = {}" by auto
      moreover have "t' \<in> holding ?s ?tid" using t' that unfolding hold by (simp add: holding_iff)
      ultimately show False by blast
    qed
    moreover obtain e' where "map_of (cs_locks s) (cg_transfer_id g') = Some e'" "ce_lock e' = cg_lock g'" using t'(2) H by blast
    ultimately show "\<exists>e. map_of (cs_locks ?s) (cg_transfer_id g') = Some e \<and> ce_lock e = cg_lock g'"
      using e(1) by (auto simp: lookup)
  next
    fix tid e'
    assume e': "map_of (cs_locks ?s) tid = Some e'"
    have nxt: "cs_next ?s = cs_next s" by (simp add: set_phase_def s'_def)
    have "finite (holding ?s tid) \<and> card (holding ?s tid) = ce_holders e' \<and> 0 < ce_holders e' \<and> ce_lock e' < cs_next ?s"
    proof (cases "tid = ?tid")
      case True
      moreover have "ce_lock e < cs_next s" using H e(1) by blast
      ultimately show ?thesis unfolding nxt using e' card e(5) by (auto simp: lookup split: if_splits)
    next
      case False
      with e' have "map_of (cs_locks s) tid = Some e'" by (simp add: lookup)
      with H have "finite (holding s tid) \<and> card (holding s tid) = ce_holders e' \<and> 0 < ce_holders e' \<and> ce_lock e' < cs_next s" by blast
      then show ?thesis unfolding nxt same [OF False] .
    qed
    then show "finite (holding ?s tid)" "card (holding ?s tid) = ce_holders e'" "0 < ce_holders e'" "ce_lock e' < cs_next ?s" by blast+
  next
    fix tid tid' e1 e2
    assume "map_of (cs_locks ?s) tid = Some e1" "map_of (cs_locks ?s) tid' = Some e2" "ce_lock e1 = ce_lock e2"
    then have "\<exists>e1 e2. map_of (cs_locks s) tid = Some e1 \<and> map_of (cs_locks s) tid' = Some e2 \<and> ce_lock e1 = ce_lock e2"
      using e(1) by (auto simp: lookup split: if_splits)
    with H show "tid = tid'" by blast
  qed
  moreover have perm: "permit_of ?s t' = permit_of s t'" "phase_asking (cs_tasks ?s t') = phase_asking (cs_tasks s t')" for t'
    using g by (simp_all add: set_phase_def s'_def)
  have "cs_heap ?s = cs_heap s" "cs_next ?s = cs_next s" by (simp_all add: set_phase_def s'_def)
  then have "permits_ok ?s" using ok unfolding claims_ok_def permits_ok_def perm by simp
  ultimately show ?thesis using rel by (auto simp: claims_ok_def)
qed

lemma acquire_ok:
  assumes ok: "claims_ok s" and idle: "cs_tasks s t = PhIdle" and acq: "acquire tid0 s = (g, s')"
  shows "claims_ok (set_phase t (PhAcquired g) s')"
proof -
  let ?s = "set_phase t (PhAcquired g) s'"
  note H = ok [unfolded claims_ok_def handles_ok_def, THEN conjunct1]
  obtain e where lock: "cg_transfer_id g = tid0" "cg_lock g = ce_lock e" "0 < ce_holders e" "ce_lock e < cs_next s'" "cs_next s \<le> cs_next s'"
      and locks: "cs_locks s' = hm_insert tid0 e (cs_locks s)" "cs_tasks s' = cs_tasks s"
      and heap: "\<And>l. l < cs_next s \<Longrightarrow> cs_heap s' l = cs_heap s l" "\<And>l. cs_next s \<le> l \<Longrightarrow> l < cs_next s' \<Longrightarrow> cs_heap s' l = claim_lock_new"
      and old: "(\<exists>e0. map_of (cs_locks s) tid0 = Some e0 \<and> ce_lock e0 = ce_lock e \<and> ce_holders e = ce_holders e0 + 1)
        \<or> map_of (cs_locks s) tid0 = None \<and> ce_lock e = cs_next s \<and> ce_holders e = 1"
  proof (cases "map_of (cs_locks s) tid0")
    case None
    with acq that [of "\<lparr>ce_lock = cs_next s, ce_holders = 1\<rparr>"] show thesis by (auto simp: acquire_def)
  next
    case (Some e0)
    have "ce_lock e0 < cs_next s" using H Some by blast
    with acq Some that [of "e0\<lparr>ce_holders := ce_holders e0 + 1\<rparr>"] show thesis by (auto simp: acquire_def)
  qed
  have guards: "guard_of ?s t' = (if t' = t then Some g else guard_of s t')" for t' by (simp add: set_phase_def locks(2))
  have nxt: "cs_next ?s = cs_next s'" by (simp add: set_phase_def)
  have notin: "t \<notin> holding s tid" for tid using idle by (simp add: holding_iff)
  have hold: "holding ?s tid = (if tid = tid0 then insert t (holding s tid) else holding s tid)" for tid
    unfolding holding_def guards using lock(1) idle by auto
  have lookup: "map_of (cs_locks ?s) tid = (if tid = tid0 then Some e else map_of (cs_locks s) tid)" for tid
    by (simp add: set_phase_def locks(1) hm_get_insert)
  have empty: "holding s tid0 = {}" if "map_of (cs_locks s) tid0 = None" using H that unfolding holding_def by fastforce
  have count: "finite (holding ?s tid0) \<and> card (holding ?s tid0) = ce_holders e"
    using old
  proof
    assume "\<exists>e0. map_of (cs_locks s) tid0 = Some e0 \<and> ce_lock e0 = ce_lock e \<and> ce_holders e = ce_holders e0 + 1"
    then obtain e0 where "map_of (cs_locks s) tid0 = Some e0" "ce_holders e = ce_holders e0 + 1" by blast
    with H notin show ?thesis unfolding hold by simp
  next
    assume "map_of (cs_locks s) tid0 = None \<and> ce_lock e = cs_next s \<and> ce_holders e = 1"
    with empty show ?thesis unfolding hold by simp
  qed
  have fresh: "tid = tid0" if "map_of (cs_locks s) tid = Some e'" "ce_lock e' = ce_lock e" for tid e'
    using old
  proof
    assume "\<exists>e0. map_of (cs_locks s) tid0 = Some e0 \<and> ce_lock e0 = ce_lock e \<and> ce_holders e = ce_holders e0 + 1"
    with H that show ?thesis by metis
  next
    assume "map_of (cs_locks s) tid0 = None \<and> ce_lock e = cs_next s \<and> ce_holders e = 1"
    with H that show ?thesis by fastforce
  qed
  have guard_lock: "cg_lock g' < cs_next s" if "guard_of s t' = Some g'" for t' g'
    using handles_okD [of s t' g'] ok that unfolding claims_ok_def by metis
  have "handles_ok ?s" unfolding handles_ok_def
  proof (intro conjI allI impI)
    fix t' g'
    assume t': "guard_of ?s t' = Some g'"
    show "\<exists>e. map_of (cs_locks ?s) (cg_transfer_id g') = Some e \<and> ce_lock e = cg_lock g'"
    proof (cases "t' = t")
      case True
      with t' have "g' = g" by (simp add: guards)
      then show ?thesis unfolding lookup using lock by simp
    next
      case False
      with t' have "guard_of s t' = Some g'" by (simp add: guards)
      then obtain e' where e': "map_of (cs_locks s) (cg_transfer_id g') = Some e'" "ce_lock e' = cg_lock g'" using H by blast
      then show ?thesis using old by (auto simp: lookup)
    qed
  next
    fix tid e'
    assume e': "map_of (cs_locks ?s) tid = Some e'"
    have "finite (holding ?s tid) \<and> card (holding ?s tid) = ce_holders e' \<and> 0 < ce_holders e' \<and> ce_lock e' < cs_next ?s"
    proof (cases "tid = tid0")
      case True
      with e' have "e' = e" by (simp add: lookup)
      with True count lock show ?thesis by (simp add: nxt)
    next
      case False
      with e' have "map_of (cs_locks s) tid = Some e'" by (simp add: lookup)
      with H have "finite (holding s tid) \<and> card (holding s tid) = ce_holders e' \<and> 0 < ce_holders e' \<and> ce_lock e' < cs_next s" by blast
      with False lock(5) show ?thesis unfolding nxt by (simp add: hold)
    qed
    then show "finite (holding ?s tid)" "card (holding ?s tid) = ce_holders e'" "0 < ce_holders e'" "ce_lock e' < cs_next ?s" by blast+
  next
    fix tid tid' e1 e2
    assume "map_of (cs_locks ?s) tid = Some e1" "map_of (cs_locks ?s) tid' = Some e2" "ce_lock e1 = ce_lock e2"
    then show "tid = tid'" using H fresh [of tid e1] fresh [of tid' e2] by (auto simp: lookup split: if_splits)
  qed
  moreover have perm: "permit_of ?s t' = permit_of s t'" "phase_asking (cs_tasks ?s t') = phase_asking (cs_tasks s t')" for t'
    using idle by (simp_all add: set_phase_def locks(2))
  have same: "cs_heap ?s (cg_lock g') = cs_heap s (cg_lock g')" if "permit_of s t' = Some g'" for t' g'
    using heap(1) guard_lock [OF permit_guard [OF that]] by (simp add: set_phase_def)
  have "permits_ok ?s" unfolding permits_ok_def perm
  proof (intro conjI allI impI)
    fix t' g'
    assume "permit_of s t' = Some g'"
    with same claims_ok_owner [OF ok] show "cl_owner (lock_of ?s g') = Some t'" by simp
  next
    fix t' l
    assume l: "l < cs_next ?s" "cl_owner (cs_heap ?s l) = Some t'"
    then have "l < cs_next s" using heap(2) [of l] by (cases "l < cs_next s") (auto simp: set_phase_def claim_lock_new_def)
    with l heap(1) ok show "\<exists>g. permit_of s t' = Some g \<and> cg_lock g = l" by (auto simp: set_phase_def claims_ok_def permits_ok_def)
  next
    fix t' g'
    assume ask: "phase_asking (cs_tasks s t') = Some g'"
    with same [OF asking_permit [OF ask]] claims_ok_asking [OF ok ask] show "cl_slot (lock_of ?s g') = None" by simp
  qed
  ultimately show ?thesis by (simp add: claims_ok_def)
qed

subsubsection \<open>Every reachable state\<close>

lemma claims_ok_advance: "claim_advance cfg t s s' \<Longrightarrow> claims_ok s \<Longrightarrow> claims_ok s'"
proof (induction rule: claim_advance.induct)
  case (try_lock s t g)
  then show ?case using claims_ok_update [of s t g "PhPermitted g False"] by (simp add: set_phase_def set_owner_def)
next
  case (lock_granted s t g)
  then show ?case using claims_ok_update [of s t g "PhPermitted g True"] by (simp add: set_phase_def set_owner_def)
next
  case (already_claimed s t g query identity leaves)
  then show ?case using claims_ok_update [of s t g "PhReturning g (Inr leaves)"] claims_ok_owner [of s t g]
    by (simp add: set_phase_def set_slot_def)
next
  case (not_claimed s t g query identity)
  then show ?case using claims_ok_asking [of s t g] by (intro claims_ok_phase) simp_all
next
  case (round_retry s t g n attempt finalized m)
  then show ?case using claims_ok_asking [of s t g] by (intro claims_ok_phase) simp_all
next
  case (round_done s t g n attempt finalized leaves)
  then show ?case using claims_ok_update [of s t g "PhReturning g (Inr leaves)"] claims_ok_owner [of s t g]
    by (simp add: set_phase_def set_slot_def)
next
  case (drop_permit s t g r)
  then show ?case using claims_ok_update [of s t g "PhReleasing g (Some r)"] claims_ok_owner [of s t g]
    by (simp add: set_phase_def set_owner_def)
next
  case (drop_guard s t g r s')
  then show ?case using release_ok [of s t g r] by auto
qed (auto intro!: claims_ok_phase)

lemma claims_ok_abandon: "claim_abandon t s s' \<Longrightarrow> claims_ok s \<Longrightarrow> claims_ok s'"
proof (induction rule: claim_abandon.induct)
  case (abandon_holding s t g)
  then show ?case using claims_ok_update [of s t g "PhReleasing g None"] claims_ok_owner [of s t g] permit_guard
    by (simp add: set_phase_def set_owner_def)
qed (auto intro!: claims_ok_phase)

lemma reachable_claims_ok: "claims_reachable cfg s \<Longrightarrow> claims_ok s"
proof (induction rule: claims_reachable.induct)
  case reach_init
  then show ?case by (simp add: claims_ok_def handles_ok_def permits_ok_def claims_init_def claim_lock_new_def)
next
  case (reach_begin s t s')
  from reach_begin(2,3) show ?case by (auto elim!: claim_begin.cases intro: acquire_ok)
qed (auto intro: claims_ok_advance claims_ok_abandon)

end
