(* ===== verification/Claim_Locks_Props.thy ===== *)
theory Claim_Locks_Props
  imports Claim_Locks
begin

text \<open>
  What the claim locks guarantee: claims of one transfer run one at a time, the registry follows the handles
  exactly, waiting claims take the outcome that was published, and the claims in flight come to an end.
\<close>

subsection \<open>A run with two claims\<close>

definition example_guard :: claim_lock_guard where
  "example_guard = \<lparr>cg_transfer_id = ''T'', cg_lock = 0\<rparr>"

text \<open>Task 1 claims the transfer while task 2 waits for it.\<close>

definition two_claims :: "claim_phase \<Rightarrow> claim_phase \<Rightarrow> tree_node list option \<Rightarrow> task option \<Rightarrow> claim_state" where
  "two_claims p1 p2 slot owner = \<lparr>cs_locks = [(''T'', \<lparr>ce_lock = 0, ce_holders = 2\<rparr>)],
     cs_heap = (\<lambda>_. claim_lock_new)(0 := \<lparr>cl_owner = owner, cl_slot = slot\<rparr>), cs_next = 1,
     cs_tasks = (\<lambda>_. PhIdle)(1 := p1, 2 := p2)\<rparr>"

lemma two_claims_reachable:
  "claims_reachable (\<lambda>_. None) (two_claims (PhPermitted example_guard False) (PhWaiting example_guard) None (Some 1))"
proof -
  let ?g = example_guard and ?c = "\<lambda>_. None"
  have b1: "claim_begin 1 claims_init (set_phase 1 (PhAcquired ?g) (snd (acquire ''T'' claims_init)))"
    by (rule begin_claim [where tid = "''T''"]) (simp_all add: claims_init_def acquire_def example_guard_def)
  have b2: "claim_begin 2 (set_phase 1 (PhAcquired ?g) (snd (acquire ''T'' claims_init))) (two_claims (PhAcquired ?g) (PhAcquired ?g) None None)"
  proof -
    have "two_claims (PhAcquired ?g) (PhAcquired ?g) None None
        = set_phase 2 (PhAcquired ?g) (snd (acquire ''T'' (set_phase 1 (PhAcquired ?g) (snd (acquire ''T'' claims_init)))))"
      by (simp add: two_claims_def set_phase_def acquire_def claims_init_def claim_lock_new_def fun_eq_iff)
    then show ?thesis by (simp only:) (rule begin_claim [where tid = "''T''"], simp_all add: claims_init_def acquire_def set_phase_def example_guard_def)
  qed
  have a1: "claim_advance ?c 1 (two_claims (PhAcquired ?g) (PhAcquired ?g) None None)
      (two_claims (PhPermitted ?g False) (PhAcquired ?g) None (Some 1))"
    using try_lock [of "two_claims (PhAcquired ?g) (PhAcquired ?g) None None" 1 ?g ?c]
    by (simp add: two_claims_def set_phase_def set_owner_def example_guard_def fun_upd_twist)
  have a2: "claim_advance ?c 2 (two_claims (PhPermitted ?g False) (PhAcquired ?g) None (Some 1))
      (two_claims (PhPermitted ?g False) (PhWaiting ?g) None (Some 1))"
    using try_lock_busy [of "two_claims (PhPermitted ?g False) (PhAcquired ?g) None (Some 1)" 2 ?g ?c]
    by (simp add: two_claims_def set_phase_def example_guard_def)
  from reach_advance [OF reach_advance [OF reach_begin [OF reach_begin [OF reach_init b1] b2] a1] a2] show ?thesis .
qed

subsection \<open>One claim at a time\<close>

text \<open>\<^bold>\<open>C8\<close>. Claims of the same transfer exclude each other: in every reachable state, however the tasks interleave and
  whichever of them are cancelled, at most one task holds the permit under which a transfer is claimed,
  although the registry drops and recreates its locks.\<close>

theorem claims_exclude_each_other:
  assumes "claims_reachable cfg s" and "permit_of s t = Some g" "permit_of s t' = Some g'" and "cg_transfer_id g = cg_transfer_id g'"
  shows "t = t'"
proof -
  have ok: "handles_ok s" "permits_ok s" using reachable_claims_ok [OF assms(1)] by (simp_all add: claims_ok_def)
  have "cg_lock g = cg_lock g'"
    using handles_ok_lock [OF ok(1) permit_guard [OF assms(2)] permit_guard [OF assms(3)]] assms(4) by simp
  then show ?thesis by (rule permits_ok_unique [OF ok(2) assms(2,3)])
qed

lemma claims_exclude_each_other_witness:
  "{t. \<exists>g. permit_of (two_claims (PhPermitted example_guard False) (PhWaiting example_guard) None (Some 1)) t = Some g
     \<and> cg_transfer_id g = ''T''} = {1}"
proof -
  let ?s = "two_claims (PhPermitted example_guard False) (PhWaiting example_guard) None (Some 1)"
  have one: "permit_of ?s 1 = Some example_guard" "cg_transfer_id example_guard = ''T''" by (simp_all add: two_claims_def example_guard_def)
  have "t = 1" if "permit_of ?s t = Some g" "cg_transfer_id g = ''T''" for t g
    by (rule claims_exclude_each_other [OF two_claims_reachable that(1) one(1)]) (simp add: one(2) that(2))
  with one show ?thesis by auto
qed

subsection \<open>The registry follows the handles\<close>

text \<open>The registry has an entry for a transfer exactly while some claim has a handle on its lock, and the entry
  counts these claims; so the map does not grow, a lock is never dropped under a waiting claim, and
  giving up a handle never takes the count below zero.\<close>

theorem claim_registry_exact:
  assumes "claims_reachable cfg s"
  shows "(case map_of (cs_locks s) tid of
            None \<Rightarrow> holding s tid = {}
          | Some e \<Rightarrow> holding s tid \<noteq> {} \<and> finite (holding s tid) \<and> ce_holders e = card (holding s tid))
    \<and> (\<forall>t g r. cs_tasks s t = PhReleasing g r \<longrightarrow> release (cg_transfer_id g) s \<noteq> None)"
proof -
  have ok: "claims_ok s" by (rule reachable_claims_ok [OF assms])
  then have H: "handles_ok s" by (simp add: claims_ok_def)
  have "case map_of (cs_locks s) tid of None \<Rightarrow> holding s tid = {}
          | Some e \<Rightarrow> holding s tid \<noteq> {} \<and> finite (holding s tid) \<and> ce_holders e = card (holding s tid)"
  proof (cases "map_of (cs_locks s) tid")
    case None
    then have "guard_of s t = Some g \<Longrightarrow> cg_transfer_id g \<noteq> tid" for t g
      using H unfolding handles_ok_def by (metis option.distinct(1))
    with None show ?thesis by (auto simp: holding_def)
  next
    case (Some e)
    with H have "finite (holding s tid)" "card (holding s tid) = ce_holders e" "0 < ce_holders e" unfolding handles_ok_def by blast+
    with Some show ?thesis by auto
  qed
  moreover have "release (cg_transfer_id g) s \<noteq> None" if "cs_tasks s t = PhReleasing g r" for t g r
    using release_ok [OF ok that] by auto
  ultimately show ?thesis by blast
qed

lemma claim_registry_exact_witness:
  "holding (two_claims (PhPermitted example_guard False) (PhWaiting example_guard) None (Some 1)) ''U'' = {}
   \<and> card (holding (two_claims (PhPermitted example_guard False) (PhWaiting example_guard) None (Some 1)) ''T'') = 2"
  using claim_registry_exact [OF two_claims_reachable, of "''U''"] claim_registry_exact [OF two_claims_reachable, of "''T''"]
  by (simp add: two_claims_def)

subsection \<open>Waiting claims take the published outcome\<close>

inductive claims_step :: "(task \<Rightarrow> claim_transfer_config option) \<Rightarrow> claim_state \<Rightarrow> claim_state \<Rightarrow> bool" for cfg where
  step_begin: "claim_begin t s s' \<Longrightarrow> claims_step cfg s s'"
| step_advance: "claim_advance cfg t s s' \<Longrightarrow> claims_step cfg s s'"
| step_abandon: "claim_abandon t s s' \<Longrightarrow> claims_step cfg s s'"

lemma reachable_step: "claims_reachable cfg s \<Longrightarrow> claims_step cfg s s' \<Longrightarrow> claims_reachable cfg s'"
  by (auto elim: claims_step.cases intro: reach_begin reach_advance reach_abandon)

text \<open>The phases of a claim whose lock already carries an outcome.\<close>

fun outcome_phase :: "claim_lock_guard \<Rightarrow> tree_node list \<Rightarrow> claim_phase \<Rightarrow> bool" where
  "outcome_phase g leaves (PhAcquired g') = (g' = g)"
| "outcome_phase g leaves (PhWaiting g') = (g' = g)"
| "outcome_phase g leaves (PhPermitted g' w) = (g' = g)"
| "outcome_phase g leaves (PhReturning g' r) = (g' = g \<and> r = Inr leaves)"
| "outcome_phase g leaves (PhReleasing g' r) = (g' = g \<and> (r = None \<or> r = Some (Inr leaves)))"
| "outcome_phase g leaves (PhFinished r) = (r = None \<or> r = Some (Inr leaves))"
| "outcome_phase g leaves _ = False"

lemma release_heap: "release tid s = Some s' \<Longrightarrow> cs_heap s' = cs_heap s \<and> cs_next s' = cs_next s \<and> cs_tasks s' = cs_tasks s"
  by (auto simp: release_def Let_def split: option.splits if_splits)

lemma acquire_heap:
  "acquire tid s = (g, s') \<Longrightarrow> cs_next s \<le> cs_next s' \<and> cs_tasks s' = cs_tasks s \<and> (\<forall>l < cs_next s. cs_heap s' l = cs_heap s l)"
  by (auto simp: acquire_def split: option.splits)

lemma slot_kept_advance:
  assumes "claim_advance cfg t s s'" "claims_ok s" "cl_slot (cs_heap s l) = Some leaves"
  shows "cl_slot (cs_heap s' l) = Some leaves \<and> cs_next s' = cs_next s"
  using assms
proof (induction rule: claim_advance.induct)
  case (already_claimed s t g query identity leaves')
  with claims_ok_asking [of s t g] show ?case by (auto simp: set_phase_def set_slot_def)
next
  case (round_done s t g n attempt finalized leaves')
  with claims_ok_asking [of s t g] show ?case by (auto simp: set_phase_def set_slot_def)
next
  case (drop_guard s t g r s')
  with release_heap show ?case by (auto simp: set_phase_def)
qed (auto simp: set_phase_def set_owner_def)

lemma outcome_step:
  assumes "claims_step cfg s s'" "claims_ok s" "cl_slot (lock_of s g) = Some leaves" "cg_lock g < cs_next s" "outcome_phase g leaves (cs_tasks s t)"
  shows "cl_slot (lock_of s' g) = Some leaves \<and> cg_lock g < cs_next s' \<and> outcome_phase g leaves (cs_tasks s' t)"
  using assms(1)
proof cases
  case (step_begin t')
  then obtain tid g' s1 where b: "cs_tasks s t' = PhIdle" "acquire tid s = (g', s1)" "s' = set_phase t' (PhAcquired g') s1"
    by (auto elim: claim_begin.cases)
  have "t' \<noteq> t" using b(1) assms(5) by auto
  with acquire_heap [OF b(2)] assms(3-5) show ?thesis by (simp add: b(3) set_phase_def)
next
  case (step_advance t')
  have "outcome_phase g leaves (cs_tasks s' t)"
    using step_advance assms(3,5)
  proof (induction rule: claim_advance.induct)
    case (drop_guard s t' g' r s')
    with release_heap show ?case by (auto simp: set_phase_def)
  qed (auto simp: set_phase_def set_owner_def set_slot_def)
  with slot_kept_advance [OF step_advance assms(2,3)] assms(4) show ?thesis by simp
next
  case (step_abandon t')
  then show ?thesis
    using assms(3-5)
  proof (induction rule: claim_abandon.induct)
    case (abandon_holding s t' g')
    then show ?case by (cases "cs_tasks s t'") (auto simp: set_phase_def set_owner_def)
  qed (auto simp: set_phase_def)
qed

text \<open>\<^bold>\<open>C20\<close>. A claim that has its handle when another claim of the transfer publishes an outcome never asks the
  coordinator again: whatever happens from then on, if it runs to its end it returns exactly the published
  leaves.\<close>

theorem waiting_claim_takes_outcome:
  assumes "claims_reachable cfg s" and "cl_slot (lock_of s g) = Some leaves" and "cs_tasks s t \<in> {PhAcquired g, PhWaiting g}"
    and "(claims_step cfg)\<^sup>*\<^sup>* s s'"
  shows "phase_asking (cs_tasks s' t) = None \<and> (\<forall>r. cs_tasks s' t = PhFinished (Some r) \<longrightarrow> r = Inr leaves)"
proof -
  have "guard_of s t = Some g" using assms(3) by auto
  then have lt: "cg_lock g < cs_next s"
    using handles_okD [of s t g] reachable_claims_ok [OF assms(1)] unfolding claims_ok_def by metis
  have ph: "outcome_phase g leaves (cs_tasks s t)" using assms(3) by auto
  from assms(4) have "claims_reachable cfg s' \<and> cl_slot (lock_of s' g) = Some leaves \<and> cg_lock g < cs_next s' \<and> outcome_phase g leaves (cs_tasks s' t)"
  proof (induction rule: rtranclp_induct)
    case (step y z)
    from step(3) have "claims_reachable cfg y" by blast
    with outcome_step [OF step(2) reachable_claims_ok] reachable_step [OF _ step(2)] step(3) show ?case by blast
  qed (use assms(1,2) lt ph in blast)
  then have "outcome_phase g leaves (cs_tasks s' t)" by blast
  then show ?thesis by (cases "cs_tasks s' t") auto
qed

text \<open>Task 1 has published its outcome; task 2 may still be at any point before it looks at the slot.\<close>

lemma published_reachable:
  "claims_reachable (\<lambda>_. None) (two_claims (PhReturning example_guard (Inr [])) (PhWaiting example_guard) (Some []) (Some 1))"
proof -
  let ?g = example_guard and ?c = "\<lambda>_ :: task. None :: claim_transfer_config option"
  let ?s1 = "two_claims (PhPermitted ?g False) (PhWaiting ?g) None (Some 1)"
  let ?s2 = "two_claims (PhClaiming ?g 0) (PhWaiting ?g) None (Some 1)"
  let ?s3 = "two_claims (PhReturning ?g (Inr [])) (PhWaiting ?g) (Some []) (Some 1)"
  have a1: "claim_advance ?c 1 ?s1 ?s2"
    using claim_now [of ?s1 1 ?g ?c] by (simp add: two_claims_def set_phase_def example_guard_def fun_upd_twist)
  have "claim_round (claim_config None) 0 (Inl SE_NoLeavesToClaim) None = Return (Inr [])"
    by (simp add: claim_round_def claim_config_def claim_config_default_def)
  then have a2: "claim_advance ?c 1 ?s2 ?s3"
    using round_done [of ?s2 1 ?g 0 ?c "Inl SE_NoLeavesToClaim" None "[]"]
    by (simp add: two_claims_def set_phase_def set_slot_def example_guard_def fun_upd_twist)
  from reach_advance [OF reach_advance [OF two_claims_reachable a1] a2] show ?thesis .
qed

lemma waiting_claim_takes_outcome_witness:
  "\<exists>s'. (claims_step (\<lambda>_. None))\<^sup>*\<^sup>* (two_claims (PhReturning example_guard (Inr [])) (PhWaiting example_guard) (Some []) (Some 1)) s'
     \<and> cs_tasks s' 1 = PhReleasing example_guard (Some (Inr [])) \<and> phase_asking (cs_tasks s' 2) = None"
proof -
  let ?g = example_guard
  let ?s = "two_claims (PhReturning ?g (Inr [])) (PhWaiting ?g) (Some []) (Some 1)"
  let ?s' = "set_phase 1 (PhReleasing ?g (Some (Inr []))) (set_owner ?g None ?s)"
  have "claim_advance (\<lambda>_. None) 1 ?s ?s'" by (rule drop_permit) (simp add: two_claims_def)
  then have run: "(claims_step (\<lambda>_. None))\<^sup>*\<^sup>* ?s ?s'" by (blast intro: step_advance)
  have "phase_asking (cs_tasks ?s' 2) = None \<and> (\<forall>r. cs_tasks ?s' 2 = PhFinished (Some r) \<longrightarrow> r = Inr [])"
    by (rule waiting_claim_takes_outcome [OF published_reachable, of ?g "[]" 2, OF _ _ run]) (simp_all add: two_claims_def example_guard_def)
  with run show ?thesis by (intro exI [of _ ?s']) (simp add: set_phase_def)
qed

subsection \<open>Claims come to an end\<close>

text \<open>How many steps a claim has left at most.\<close>

fun phase_left :: "claim_transfer_config option \<Rightarrow> claim_phase \<Rightarrow> nat" where
  "phase_left c (PhAcquired g) = max_retries (claim_config c) + 7"
| "phase_left c (PhWaiting g) = max_retries (claim_config c) + 6"
| "phase_left c (PhPermitted g w) = max_retries (claim_config c) + 5"
| "phase_left c (PhChecking g) = max_retries (claim_config c) + 4"
| "phase_left c (PhClaiming g n) = max_retries (claim_config c) - n + 3"
| "phase_left c (PhReturning g r) = 2"
| "phase_left c (PhReleasing g r) = 1"
| "phase_left c _ = 0"

definition in_flight :: "claim_state \<Rightarrow> task set" where
  "in_flight s = {t. guard_of s t \<noteq> None}"

definition claims_left :: "(task \<Rightarrow> claim_transfer_config option) \<Rightarrow> claim_state \<Rightarrow> nat" where
  "claims_left cfg s = (\<Sum>t \<in> in_flight s. phase_left (cfg t) (cs_tasks s t))"

lemma in_flight_finite:
  assumes "claims_ok s"
  shows "finite (in_flight s)"
proof (rule finite_subset)
  have H: "handles_ok s" using assms by (simp add: claims_ok_def)
  show "in_flight s \<subseteq> (\<Union>tid \<in> {tid. map_of (cs_locks s) tid \<noteq> None}. holding s tid)"
  proof
    fix t
    assume "t \<in> in_flight s"
    then obtain g where g: "guard_of s t = Some g" by (auto simp: in_flight_def)
    then obtain e where "map_of (cs_locks s) (cg_transfer_id g) = Some e" using H unfolding handles_ok_def by blast
    with g show "t \<in> (\<Union>tid \<in> {tid. map_of (cs_locks s) tid \<noteq> None}. holding s tid)" by (auto simp: holding_iff)
  qed
  show "finite (\<Union>tid \<in> {tid. map_of (cs_locks s) tid \<noteq> None}. holding s tid)"
    using H finite_dom_map_of [of "cs_locks s"] unfolding handles_ok_def dom_def by auto
qed

lemma advance_decreases:
  assumes "claim_advance cfg t s s'"
  shows "guard_of s t \<noteq> None \<and> phase_left (cfg t) (cs_tasks s' t) < phase_left (cfg t) (cs_tasks s t) \<and> (\<forall>t'. t' \<noteq> t \<longrightarrow> cs_tasks s' t' = cs_tasks s t')"
  using assms
proof (induction rule: claim_advance.induct)
  case (drop_guard s t g r s')
  with release_heap show ?case by (auto simp: set_phase_def)
qed (auto simp: set_phase_def set_owner_def set_slot_def claim_round_Retry)

lemma claims_left_decreases:
  assumes "claims_ok s" "claim_advance cfg t s s'"
  shows "claims_left cfg s' < claims_left cfg s"
proof -
  note adv = advance_decreases [OF assms(2)]
  have fin: "finite (in_flight s)" by (rule in_flight_finite [OF assms(1)])
  have t: "t \<in> in_flight s" using adv by (simp add: in_flight_def)
  have sub: "in_flight s' \<subseteq> in_flight s" using adv unfolding in_flight_def by (metis (mono_tags, lifting) mem_Collect_eq subsetI)
  have "claims_left cfg s' \<le> (\<Sum>t \<in> in_flight s. phase_left (cfg t) (cs_tasks s' t))"
    unfolding claims_left_def by (rule sum_mono2 [OF fin sub]) simp
  also have "\<dots> < claims_left cfg s"
    unfolding claims_left_def
  proof (rule sum_strict_mono_ex1 [OF fin])
    show "\<forall>t' \<in> in_flight s. phase_left (cfg t') (cs_tasks s' t') \<le> phase_left (cfg t') (cs_tasks s t')"
      using adv by (metis less_imp_le order_refl)
    show "\<exists>t' \<in> in_flight s. phase_left (cfg t') (cs_tasks s' t') < phase_left (cfg t') (cs_tasks s t')" using adv t by blast
  qed
  finally show ?thesis .
qed

text \<open>A claim that holds the permit, or gives up its handle, can always go on, whatever it is answered.\<close>

lemma holder_advances:
  assumes "claims_ok s" "permit_of s t = Some g \<or> cs_tasks s t = PhReleasing g r"
  shows "\<exists>s'. claim_advance cfg t s s'"
proof (cases "cs_tasks s t")
  case (PhPermitted g' w)
  show ?thesis
  proof (cases "cl_slot (lock_of s g')")
    case None
    with PhPermitted show ?thesis by (cases w) (auto intro: check_first claim_now)
  qed (use PhPermitted in \<open>blast intro: reuse_outcome\<close>)
next
  case (PhChecking g')
  have "finalized_leaves_if_already_claimed (Inr None) (Inr []) = None" by (simp add: finalized_leaves_if_already_claimed_def)
  with PhChecking show ?thesis by (blast intro: not_claimed)
next
  case (PhClaiming g' n)
  show ?thesis
  proof (cases "claim_round (claim_config (cfg t)) n (Inr []) None")
    case (Return res)
    with PhClaiming show ?thesis by (cases res) (blast intro: round_done round_failed)+
  qed (use PhClaiming in \<open>blast intro: round_retry\<close>)
next
  case (PhReleasing g' r')
  with release_ok [OF assms(1) PhReleasing] show ?thesis by (blast intro: drop_guard)
qed (use assms(2) in \<open>auto intro: drop_permit\<close>)

lemma claims_progress:
  assumes ok: "claims_ok s" and "guard_of s t \<noteq> None"
  shows "\<exists>t' s'. claim_advance cfg t' s s'"
proof -
  obtain g where g: "guard_of s t = Some g" using assms(2) by blast
  have lt: "cg_lock g < cs_next s" using handles_okD [of s t g] ok g unfolding claims_ok_def by metis
  have waiting: "\<exists>t' s'. claim_advance cfg t' s s'" if "cs_tasks s t = PhWaiting g"
  proof (cases "cl_owner (lock_of s g)")
    case None
    with that show ?thesis by (blast intro: lock_granted)
  next
    case (Some t')
    with ok lt obtain g' where "permit_of s t' = Some g'" unfolding claims_ok_def permits_ok_def by blast
    with holder_advances [OF ok] show ?thesis by blast
  qed
  show ?thesis
  proof (cases "permit_of s t")
    case (Some g')
    with holder_advances [OF ok] show ?thesis by blast
  next
    case None
    with g consider "cs_tasks s t = PhAcquired g" | "cs_tasks s t = PhWaiting g" | r where "cs_tasks s t = PhReleasing g r"
      by (cases "cs_tasks s t") auto
    then show ?thesis
    proof cases
      case 1
      then show ?thesis by (cases "cl_owner (lock_of s g)") (blast intro: try_lock try_lock_busy)+
    qed (use waiting holder_advances [OF ok] in blast)+
  qed
qed

abbreviation claims_run :: "(task \<Rightarrow> claim_transfer_config option) \<Rightarrow> nat \<Rightarrow> claim_state \<Rightarrow> claim_state \<Rightarrow> bool" where
  "claims_run cfg n \<equiv> (\<lambda>s s'. \<exists>t. claim_advance cfg t s s') ^^ n"

lemma claims_run_bounded:
  "claims_run cfg n s s' \<Longrightarrow> claims_reachable cfg s \<Longrightarrow> claims_reachable cfg s' \<and> n + claims_left cfg s' \<le> claims_left cfg s"
proof (induction n arbitrary: s')
  case (Suc n)
  from Suc.prems(1) obtain y t where y: "claims_run cfg n s y" "claim_advance cfg t y s'" by auto
  from Suc.IH [OF y(1) Suc.prems(2)] have IH: "claims_reachable cfg y" "n + claims_left cfg y \<le> claims_left cfg s" by blast+
  from claims_left_decreases [OF reachable_claims_ok [OF IH(1)] y(2)] IH y(2) show ?case by (auto intro: reach_advance)
qed simp

text \<open>\<^bold>\<open>C19\<close>. Claims in flight neither deadlock nor go on for ever: from a reachable state they can take at most
  \<open>claims_left\<close> further steps, whatever the coordinator answers and in whatever order the tasks run, and when no step
  is left every claim has finished and the registry is empty.\<close>

theorem claims_come_to_an_end:
  assumes "claims_reachable cfg s" and "claims_run cfg n s s'"
  shows "n \<le> claims_left cfg s
    \<and> ((\<nexists>t s''. claim_advance cfg t s' s'') \<longrightarrow> (\<forall>t. guard_of s' t = None) \<and> (\<forall>tid. map_of (cs_locks s') tid = None))"
proof -
  from claims_run_bounded [OF assms(2,1)] have r: "claims_reachable cfg s'" "n \<le> claims_left cfg s" by auto
  have ok: "claims_ok s'" by (rule reachable_claims_ok [OF r(1)])
  have "map_of (cs_locks s') tid = None" if none: "\<forall>t. guard_of s' t = None" for tid
  proof (rule ccontr)
    assume "map_of (cs_locks s') tid \<noteq> None"
    then obtain e where "map_of (cs_locks s') tid = Some e" by blast
    then have "card (holding s' tid) = ce_holders e" "0 < ce_holders e" using ok unfolding claims_ok_def handles_ok_def by blast+
    moreover have "holding s' tid = {}" using none by (simp add: holding_def)
    ultimately show False by simp
  qed
  with claims_progress [OF ok] r(2) show ?thesis by blast
qed

lemma claims_come_to_an_end_witness:
  "\<exists>s'. claims_run (\<lambda>_. None) 1 (two_claims (PhReturning example_guard (Inr [])) (PhWaiting example_guard) (Some []) (Some 1)) s'
     \<and> 1 \<le> claims_left (\<lambda>_. None) (two_claims (PhReturning example_guard (Inr [])) (PhWaiting example_guard) (Some []) (Some 1))"
proof -
  let ?g = example_guard
  let ?s = "two_claims (PhReturning ?g (Inr [])) (PhWaiting ?g) (Some []) (Some 1)"
  have "claim_advance (\<lambda>_. None) 1 ?s (set_phase 1 (PhReleasing ?g (Some (Inr []))) (set_owner ?g None ?s))"
    by (rule drop_permit) (simp add: two_claims_def)
  then have "claims_run (\<lambda>_. None) 1 ?s (set_phase 1 (PhReleasing ?g (Some (Inr []))) (set_owner ?g None ?s))" by auto
  with claims_come_to_an_end [OF published_reachable this] show ?thesis by blast
qed

end
