(* ===== verification/Refund_Txs.thy ===== *)
theory Refund_Txs
  imports Exit_Plan Timelock
begin

text \<open>
  The transactions of a node and its refunds: \<^verbatim>\<open>crates/spark/src/utils/transactions.rs\<close> and
  \<^verbatim>\<open>crates/spark/src/utils/htlc_transactions.rs\<close>.

  What the bitcoin crate provides beside \<open>bitcoin_api\<close> is the record \<open>script_api\<close>, a parameter: addresses,
  the script builder, taproot trees and the encoding of a block height as a sequence number. Indexing an
  empty list of inputs or outputs panics, which is the outcome \<open>Panicked\<close>.
\<close>

subsection \<open>Outcomes\<close>

datatype (plugins only: size) signer_error =
    SGE_FrostError string | SGE_IdentifierError | SGE_InvalidHash | SGE_KeyDerivationError string
  | SGE_NonceCreationError string | SGE_SecretSharingError string | SGE_SerializationError string
  | SGE_TaprootBuilderError string | SGE_UnknownKey | SGE_UnknownNonceCommitment | SGE_Generic string

datatype 'e failure = Panicked | Failed 'e

datatype network = Mainnet | Regtest | Testnet | Signet

definition index0 :: "'a list \<Rightarrow> ('e failure, 'a) rust_result" where
  "index0 xs = (case xs of [] \<Rightarrow> Inl Panicked | x # _ \<Rightarrow> Inr x)"

definition or_fail :: "'a option \<Rightarrow> 'e \<Rightarrow> ('e failure, 'a) rust_result" where
  "or_fail x e = (case x of None \<Rightarrow> Inl (Failed e) | Some y \<Rightarrow> Inr y)"

text \<open>Items pushed on the crate's script builder.\<close>

datatype script_item = Opcode nat | PushSlice string | PushXOnly string | PushInt int

record script_api =
  p2tr_script :: "string \<Rightarrow> string option \<Rightarrow> network \<Rightarrow> script"
  x_only :: "public_key \<Rightarrow> string"
  parse_public_key :: "string \<Rightarrow> (string, public_key) rust_result"
  into_script :: "script_item list \<Rightarrow> script"
  taproot_merkle_root :: "(nat \<times> script) list \<Rightarrow> string \<Rightarrow> (string, string option) rust_result"
  from_height :: "16 word \<Rightarrow> sequence"
  height_locked :: "sequence \<Rightarrow> bool"

subsection \<open>Single transactions\<close>

record node_transactions =
  nt_cpfp_tx :: transaction
  nt_direct_tx :: transaction

record refund_transactions =
  rt_cpfp_tx :: transaction
  rt_direct_tx :: "transaction option"
  rt_direct_from_cpfp_tx :: "transaction option"

definition ESTIMATED_TX_SIZE :: u64 where "ESTIMATED_TX_SIZE = 191"
definition DEFAULT_FEE_RATE :: u64 where "DEFAULT_FEE_RATE = 5"
definition DEFAULT_FEE_SATS :: u64 where "DEFAULT_FEE_SATS = ESTIMATED_TX_SIZE * DEFAULT_FEE_RATE"

definition maybe_apply_fee :: "u64 \<Rightarrow> u64" where
  "maybe_apply_fee amount_sats = (if amount_sats > DEFAULT_FEE_SATS then amount_sats - DEFAULT_FEE_SATS else amount_sats)"

definition ephemeral_anchor_output :: tx_out where
  "ephemeral_anchor_output = \<lparr>txo_value = 0, txo_script_pubkey = [CHR 0x51, CHR 0x02, CHR 0x4e, CHR 0x73]\<rparr>"

definition create_spark_tx ::
  "bitcoin_outpoint \<Rightarrow> sequence \<Rightarrow> u64 \<Rightarrow> script \<Rightarrow> bool \<Rightarrow> bool \<Rightarrow> transaction" where
  "create_spark_tx previous_output sequence val script_pubkey apply_fee include_anchor =
     \<lparr>tx_version = 3, tx_lock_time = 0,
      tx_input = [tx_in_default\<lparr>txi_previous_output := previous_output, txi_sequence := sequence\<rparr>],
      tx_output = \<lparr>txo_value = (if apply_fee then maybe_apply_fee val else val), txo_script_pubkey = script_pubkey\<rparr>
        # (if include_anchor then [ephemeral_anchor_output] else [])\<rparr>"

definition create_static_deposit_refund_tx :: "bitcoin_outpoint \<Rightarrow> u64 \<Rightarrow> script \<Rightarrow> transaction" where
  "create_static_deposit_refund_tx deposit_outpoint amount_sat refund_script =
     \<lparr>tx_version = 3, tx_lock_time = 0, tx_input = [tx_in_default\<lparr>txi_previous_output := deposit_outpoint\<rparr>],
      tx_output = [\<lparr>txo_value = amount_sat, txo_script_pubkey = refund_script\<rparr>]\<rparr>"

subsection \<open>Node transactions\<close>

definition create_node_txs ::
  "bitcoin_api \<Rightarrow> transaction \<Rightarrow> sequence \<Rightarrow> sequence \<Rightarrow> nat \<Rightarrow> (service_error failure, node_transactions) rust_result" where
  "create_node_txs api parent_tx cpfp_sequence direct_sequence vout =
     qbind (or_fail (if vout < length (tx_output parent_tx) then Some (tx_output parent_tx ! vout) else None) SE_InvalidOutputIndex) (\<lambda>out.
       let parent_outpoint = (compute_txid api parent_tx, vout) in
       Inr \<lparr>nt_cpfp_tx = create_spark_tx parent_outpoint cpfp_sequence (txo_value out) (txo_script_pubkey out) False True,
            nt_direct_tx = create_spark_tx parent_outpoint direct_sequence (txo_value out) (txo_script_pubkey out) True False\<rparr>)"

definition create_root_node_txs ::
  "bitcoin_api \<Rightarrow> script_api \<Rightarrow> transaction \<Rightarrow> nat \<Rightarrow> (service_error failure, node_transactions) rust_result" where
  "create_root_node_txs api sapi parent_tx vout =
     (case initial_root_timelock_sequence (from_height sapi) of (cpfp_sequence, direct_sequence) \<Rightarrow>
        create_node_txs api parent_tx cpfp_sequence direct_sequence vout)"

definition create_initial_timelock_node_txs ::
  "bitcoin_api \<Rightarrow> script_api \<Rightarrow> transaction \<Rightarrow> (service_error failure, node_transactions) rust_result" where
  "create_initial_timelock_node_txs api sapi parent_tx =
     (case initial_timelock_sequence (from_height sapi) of (cpfp_sequence, direct_sequence) \<Rightarrow>
        create_node_txs api parent_tx cpfp_sequence direct_sequence 0)"

definition create_decremented_timelock_node_txs ::
  "bitcoin_api \<Rightarrow> script_api \<Rightarrow> transaction \<Rightarrow> transaction \<Rightarrow> (service_error failure, node_transactions) rust_result" where
  "create_decremented_timelock_node_txs api sapi parent_tx node_tx =
     qbind (index0 (tx_input node_tx)) (\<lambda>input.
     qbind (or_fail (next_sequence (from_height sapi) (height_locked sapi) (txi_sequence input))
              (SE_Generic ''Failed to get next sequence'')) (\<lambda>(cpfp_sequence, direct_sequence).
       create_node_txs api parent_tx cpfp_sequence direct_sequence 0))"

definition create_zero_timelock_node_txs ::
  "bitcoin_api \<Rightarrow> script_api \<Rightarrow> transaction \<Rightarrow> (service_error failure, node_transactions) rust_result" where
  "create_zero_timelock_node_txs api sapi parent_tx =
     (case initial_zero_timelock_sequence (from_height sapi) of (cpfp_sequence, direct_sequence) \<Rightarrow>
        create_node_txs api parent_tx cpfp_sequence direct_sequence 0)"

subsection \<open>Refund transactions\<close>

definition create_refund_txs ::
  "bitcoin_api \<Rightarrow> script_api \<Rightarrow> transaction \<Rightarrow> transaction option \<Rightarrow> sequence \<Rightarrow> sequence \<Rightarrow> public_key \<Rightarrow> network
     \<Rightarrow> ('e failure, refund_transactions) rust_result" where
  "create_refund_txs api sapi node_tx direct_tx cpfp_sequence direct_sequence receiving_pubkey net =
     qbind (index0 (tx_output node_tx)) (\<lambda>node_out.
       let cpfp_outpoint = (compute_txid api node_tx, 0);
           addr = p2tr_script sapi (x_only sapi receiving_pubkey) None net in
       qbind (case direct_tx of
                None \<Rightarrow> Inr None
              | Some tx \<Rightarrow> qbind (index0 (tx_output tx)) (\<lambda>direct_out.
                  Inr (Some (create_spark_tx (compute_txid api tx, 0) direct_sequence (txo_value direct_out) addr True False)))) (\<lambda>direct.
         Inr \<lparr>rt_cpfp_tx = create_spark_tx cpfp_outpoint cpfp_sequence (txo_value node_out) addr False True,
              rt_direct_tx = direct,
              rt_direct_from_cpfp_tx = Some (create_spark_tx cpfp_outpoint direct_sequence (txo_value node_out) addr True False)\<rparr>))"

definition create_initial_timelock_refund_txs ::
  "bitcoin_api \<Rightarrow> script_api \<Rightarrow> transaction \<Rightarrow> transaction option \<Rightarrow> public_key \<Rightarrow> network
     \<Rightarrow> ('e failure, refund_transactions) rust_result" where
  "create_initial_timelock_refund_txs api sapi node_tx direct_tx receiving_pubkey net =
     (case initial_timelock_sequence (from_height sapi) of (cpfp_sequence, direct_sequence) \<Rightarrow>
        create_refund_txs api sapi node_tx direct_tx cpfp_sequence direct_sequence receiving_pubkey net)"

definition push_input :: "bitcoin_outpoint \<Rightarrow> transaction \<Rightarrow> transaction" where
  "push_input outpoint tx = tx\<lparr>tx_input := tx_input tx @ [tx_in_default\<lparr>txi_previous_output := outpoint\<rparr>]\<rparr>"

record connector_refund_txs_params =
  crp_cpfp_sequence :: sequence
  crp_direct_sequence :: sequence
  crp_node_tx :: transaction
  crp_direct_tx :: "transaction option"
  crp_connector_outpoint :: bitcoin_outpoint
  crp_receiving_pubkey :: public_key
  crp_network :: network

definition create_connector_refund_txs ::
  "bitcoin_api \<Rightarrow> script_api \<Rightarrow> connector_refund_txs_params \<Rightarrow> ('e failure, refund_transactions) rust_result" where
  "create_connector_refund_txs api sapi params =
     qbind (index0 (tx_output (crp_node_tx params))) (\<lambda>node_out.
       let cpfp_outpoint = (compute_txid api (crp_node_tx params), 0);
           addr = p2tr_script sapi (x_only sapi (crp_receiving_pubkey params)) None (crp_network params) in
       qbind (case crp_direct_tx params of
                None \<Rightarrow> Inr None
              | Some tx \<Rightarrow> qbind (index0 (tx_output tx)) (\<lambda>direct_out.
                  Inr (Some (push_input (crp_connector_outpoint params)
                    (create_spark_tx (compute_txid api tx, 0) (crp_direct_sequence params) (txo_value direct_out) addr True False))))) (\<lambda>direct.
         Inr \<lparr>rt_cpfp_tx = push_input (crp_connector_outpoint params)
                (create_spark_tx cpfp_outpoint (crp_cpfp_sequence params) (txo_value node_out) addr False True),
              rt_direct_tx = direct,
              rt_direct_from_cpfp_tx = Some (push_input (crp_connector_outpoint params)
                (create_spark_tx cpfp_outpoint (crp_direct_sequence params) (txo_value node_out) addr True False))\<rparr>))"

subsection \<open>Lightning refunds\<close>

definition LIGHTNING_HTLC_TIME_LOCK :: "16 word" where "LIGHTNING_HTLC_TIME_LOCK = 2160"

definition UNSPENDABLE_PUBKEY :: string where
  "UNSPENDABLE_PUBKEY = ''0250929b74c1a04954b78b4b6035e97a5e078a5a0f28ec96d547bfee9ace803ac0''"

definition create_hash_lock_script :: "script_api \<Rightarrow> string \<Rightarrow> public_key \<Rightarrow> script" where
  "create_hash_lock_script sapi hash hash_lock_pubkey =
     into_script sapi [Opcode 0xa8, PushSlice hash, Opcode 0x88, PushXOnly (x_only sapi hash_lock_pubkey), Opcode 0xac]"

definition create_sequence_lock_script :: "script_api \<Rightarrow> sequence \<Rightarrow> public_key \<Rightarrow> script" where
  "create_sequence_lock_script sapi sequence sequence_lock_pubkey =
     into_script sapi [PushInt (uint sequence), Opcode 0xb2, Opcode 0x75, PushXOnly (x_only sapi sequence_lock_pubkey), Opcode 0xac]"

definition create_htlc_taproot_address ::
  "script_api \<Rightarrow> string \<Rightarrow> public_key \<Rightarrow> sequence \<Rightarrow> public_key \<Rightarrow> network \<Rightarrow> (signer_error, script) rust_result" where
  "create_htlc_taproot_address sapi hash hash_lock_pubkey sequence sequence_lock_pubkey net =
     (case parse_public_key sapi UNSPENDABLE_PUBKEY of
        Inl _ \<Rightarrow> Inl SGE_UnknownKey
      | Inr key \<Rightarrow>
          (let unspendable = x_only sapi key in
           case taproot_merkle_root sapi [(1, create_hash_lock_script sapi hash hash_lock_pubkey),
                  (1, create_sequence_lock_script sapi sequence sequence_lock_pubkey)] unspendable of
             Inl e \<Rightarrow> Inl (SGE_TaprootBuilderError e)
           | Inr merkle_root \<Rightarrow> Inr (p2tr_script sapi unspendable merkle_root net)))"

record create_lightning_htlc_refund_txs_params =
  lh_node_tx :: transaction
  lh_direct_tx :: "transaction option"
  lh_cpfp_sequence :: sequence
  lh_direct_sequence :: sequence
  lh_hash :: string
  lh_hash_lock_pubkey :: public_key
  lh_sequence_lock_pubkey :: public_key
  lh_network :: network

definition create_lightning_htlc_tx ::
  "script_api \<Rightarrow> create_lightning_htlc_refund_txs_params \<Rightarrow> bitcoin_outpoint \<Rightarrow> sequence \<Rightarrow> u64 \<Rightarrow> bool \<Rightarrow> bool
     \<Rightarrow> (signer_error failure, transaction) rust_result" where
  "create_lightning_htlc_tx sapi params previous_output sequence val apply_fee include_anchor =
     (case create_htlc_taproot_address sapi (lh_hash params) (lh_hash_lock_pubkey params)
             (from_height sapi LIGHTNING_HTLC_TIME_LOCK) (lh_sequence_lock_pubkey params) (lh_network params) of
        Inl e \<Rightarrow> Inl (Failed e)
      | Inr script_pubkey \<Rightarrow> Inr (create_spark_tx previous_output sequence val script_pubkey apply_fee include_anchor))"

definition create_lightning_htlc_refund_txs ::
  "bitcoin_api \<Rightarrow> script_api \<Rightarrow> create_lightning_htlc_refund_txs_params \<Rightarrow> (signer_error failure, refund_transactions) rust_result" where
  "create_lightning_htlc_refund_txs api sapi params =
     qbind (index0 (tx_output (lh_node_tx params))) (\<lambda>node_out.
       let cpfp_outpoint = (compute_txid api (lh_node_tx params), 0) in
       qbind (create_lightning_htlc_tx sapi params cpfp_outpoint (lh_cpfp_sequence params) (txo_value node_out) False True) (\<lambda>cpfp_tx.
       qbind (case lh_direct_tx params of
                None \<Rightarrow> Inr None
              | Some tx \<Rightarrow> qbind (index0 (tx_output tx)) (\<lambda>direct_out.
                  qbind (create_lightning_htlc_tx sapi params (compute_txid api tx, 0) (lh_direct_sequence params) (txo_value direct_out) True False)
                    (\<lambda>tx. Inr (Some tx)))) (\<lambda>direct.
       qbind (create_lightning_htlc_tx sapi params cpfp_outpoint (lh_direct_sequence params) (txo_value node_out) True False) (\<lambda>dfc.
         Inr \<lparr>rt_cpfp_tx = cpfp_tx, rt_direct_tx = direct, rt_direct_from_cpfp_tx = Some dfc\<rparr>))))"

end
