(* ===== verification/Refund_Signing.thy ===== *)
theory Refund_Signing
  imports Refund_Txs Claim_Transfer
begin

text \<open>
  Signing the refunds of a batch of leaves: the jobs and their regrouping in
  \<^verbatim>\<open>crates/spark/src/services/models.rs\<close>, the batched call of \<^verbatim>\<open>crates/spark/src/utils/frost.rs\<close>, the refunds of a
  transfer in \<^verbatim>\<open>crates/spark/src/utils/refund.rs\<close> and those of a claim in \<open>sign_claim_refunds\<close> of
  \<^verbatim>\<open>crates/spark/src/services/transfer.rs\<close>.

  The signer and the curve operations are the record \<open>signer_api\<close>, a parameter; commitments, nonces and
  signature shares are opaque strings.
\<close>

subsection \<open>Numbers in messages\<close>

fun digits_in :: "nat \<Rightarrow> nat \<Rightarrow> string" where
  "digits_in base n =
     (if base < 2 \<or> n < base then [''0123456789abcdef'' ! (n mod 16)]
      else digits_in base (n div base) @ [''0123456789abcdef'' ! (n mod base mod 16)])"

declare digits_in.simps [simp del]

definition display_nat :: "nat \<Rightarrow> string" where "display_nat n = digits_in 10 n"
definition display_hex :: "nat \<Rightarrow> string" where "display_hex n = ''0x'' @ digits_in 16 n"

subsection \<open>Jobs and shares\<close>

type_synonym commitments = "(string \<times> string) list"

datatype frost_derivation = SigningLeaf tree_node_id | StaticDeposit nat | HtlcPreimage | IdentityKey

record frost_job =
  fj_derivation :: frost_derivation
  fj_sighash :: string
  fj_verifying_key :: public_key
  fj_operator_commitments :: commitments
  fj_adaptor_public_key :: "public_key option"

record frost_share_result =
  fs_commitment :: string
  fs_signature_share :: string

record signed_tx =
  st_node_id :: tree_node_id
  st_signing_public_key :: public_key
  st_tx :: transaction
  st_user_signature :: string
  st_signing_commitments :: commitments
  st_self_nonce_commitment :: string
  st_network :: network

record pending_refund_signature =
  pr_node_id :: tree_node_id
  pr_signing_public_key :: public_key
  pr_refund_tx :: transaction
  pr_operator_commitments :: commitments
  pr_network :: network

record refund_job =
  rj_job :: frost_job
  rj_pending :: pending_refund_signature

record leaf_refund_jobs =
  lj_cpfp :: refund_job
  lj_direct :: "refund_job option"
  lj_direct_from_cpfp :: "refund_job option"

record signed_leaf_refunds =
  sl_cpfp :: signed_tx
  sl_direct :: "signed_tx option"
  sl_direct_from_cpfp :: "signed_tx option"

record leaf_refund_shape =
  ls_has_direct :: bool
  ls_has_direct_from_cpfp :: bool

record signer_api =
  sign_frost :: "frost_job list \<Rightarrow> (signer_error, frost_share_result list) rust_result"
  get_identity_public_key :: "(signer_error, public_key) rust_result"
  get_public_key_for_leaf :: "tree_node_id \<Rightarrow> (signer_error, public_key) rust_result"
  negate_key :: "public_key \<Rightarrow> public_key"
  combine_keys :: "public_key \<Rightarrow> public_key \<Rightarrow> (string, public_key) rust_result"
  taproot_sighash :: "transaction \<Rightarrow> nat \<Rightarrow> tx_out list \<Rightarrow> (string, string) rust_result"

definition into_signed_tx :: "pending_refund_signature \<Rightarrow> frost_share_result \<Rightarrow> signed_tx" where
  "into_signed_tx p share =
     \<lparr>st_node_id = pr_node_id p, st_signing_public_key = pr_signing_public_key p, st_tx = pr_refund_tx p,
      st_user_signature = fs_signature_share share, st_signing_commitments = pr_operator_commitments p,
      st_self_nonce_commitment = fs_commitment share, st_network = pr_network p\<rparr>"

definition build_refund_signing_job ::
  "tree_node_id \<Rightarrow> public_key \<Rightarrow> public_key \<Rightarrow> transaction \<Rightarrow> string \<Rightarrow> commitments \<Rightarrow> public_key option \<Rightarrow> network \<Rightarrow> refund_job" where
  "build_refund_signing_job node_id verifying_key signing_public_key refund_tx sighash operator_commitments adaptor net =
     \<lparr>rj_job = \<lparr>fj_derivation = SigningLeaf node_id, fj_sighash = sighash, fj_verifying_key = verifying_key,
        fj_operator_commitments = operator_commitments, fj_adaptor_public_key = adaptor\<rparr>,
      rj_pending = \<lparr>pr_node_id = node_id, pr_signing_public_key = signing_public_key, pr_refund_tx = refund_tx,
        pr_operator_commitments = operator_commitments, pr_network = net\<rparr>\<rparr>"

subsection \<open>One batch for all leaves\<close>

definition leaf_jobs_list :: "leaf_refund_jobs \<Rightarrow> refund_job list" where
  "leaf_jobs_list leaf = lj_cpfp leaf # (case lj_direct leaf of None \<Rightarrow> [] | Some j \<Rightarrow> [j])
     @ (case lj_direct_from_cpfp leaf of None \<Rightarrow> [] | Some j \<Rightarrow> [j])"

definition flatten_into ::
  "leaf_refund_jobs \<Rightarrow> frost_job list \<times> pending_refund_signature list
     \<Rightarrow> leaf_refund_shape \<times> frost_job list \<times> pending_refund_signature list" where
  "flatten_into leaf buffers =
     (case buffers of (jobs, pending) \<Rightarrow>
        (\<lparr>ls_has_direct = (lj_direct leaf \<noteq> None), ls_has_direct_from_cpfp = (lj_direct_from_cpfp leaf \<noteq> None)\<rparr>,
         jobs @ map rj_job (leaf_jobs_list leaf), pending @ map rj_pending (leaf_jobs_list leaf)))"

fun flatten_leaves ::
  "leaf_refund_jobs list \<Rightarrow> frost_job list \<times> pending_refund_signature list
     \<Rightarrow> leaf_refund_shape list \<times> frost_job list \<times> pending_refund_signature list" where
  "flatten_leaves [] buffers = ([], buffers)"
| "flatten_leaves (leaf # leaves) buffers =
     (case flatten_into leaf buffers of (shape, buffers') \<Rightarrow>
        (case flatten_leaves leaves buffers' of (shapes, buffers'') \<Rightarrow> (shape # shapes, buffers'')))"

definition next_signed :: "signed_tx list \<Rightarrow> (signer_error, signed_tx \<times> signed_tx list) rust_result" where
  "next_signed txs =
     (case txs of [] \<Rightarrow> Inl (SGE_Generic ''sign_frost returned too few shares'') | s # rest \<Rightarrow> Inr (s, rest))"

definition next_if :: "bool \<Rightarrow> signed_tx list \<Rightarrow> (signer_error, signed_tx option \<times> signed_tx list) rust_result" where
  "next_if present txs =
     (if present then qbind (next_signed txs) (\<lambda>(s, rest). Inr (Some s, rest)) else Inr (None, txs))"

definition rebuild ::
  "leaf_refund_shape \<Rightarrow> signed_tx list \<Rightarrow> (signer_error, signed_leaf_refunds \<times> signed_tx list) rust_result" where
  "rebuild shape txs =
     qbind (next_signed txs) (\<lambda>(cpfp, signed1).
     qbind (next_if (ls_has_direct shape) signed1) (\<lambda>(direct, signed2).
     qbind (next_if (ls_has_direct_from_cpfp shape) signed2) (\<lambda>(dfc, signed3).
       Inr (\<lparr>sl_cpfp = cpfp, sl_direct = direct, sl_direct_from_cpfp = dfc\<rparr>, signed3))))"

fun rebuild_all :: "leaf_refund_shape list \<Rightarrow> signed_tx list \<Rightarrow> (signer_error, signed_leaf_refunds list) rust_result" where
  "rebuild_all [] txs = Inr []"
| "rebuild_all (shape # shapes) txs =
     qbind (rebuild shape txs) (\<lambda>(leaf, rest). qbind (rebuild_all shapes rest) (\<lambda>leaves. Inr (leaf # leaves)))"

definition zip_checked :: "'s list \<Rightarrow> 't list \<Rightarrow> (signer_error, ('t \<times> 's) list) rust_result" where
  "zip_checked shares pending =
     (if length shares \<noteq> length pending
      then Inl (SGE_Generic (''sign_frost returned '' @ display_nat (length shares) @ '' shares, expected '' @ display_nat (length pending)))
      else Inr (zip pending shares))"

definition sign_frost_batch ::
  "signer_api \<Rightarrow> frost_job list \<Rightarrow> 't list \<Rightarrow> (signer_error, ('t \<times> frost_share_result) list) rust_result" where
  "sign_frost_batch signer jobs pending = qbind (sign_frost signer jobs) (\<lambda>shares. zip_checked shares pending)"

definition sign_leaf_refunds ::
  "signer_api \<Rightarrow> leaf_refund_jobs list \<Rightarrow> (signer_error, signed_leaf_refunds list) rust_result" where
  "sign_leaf_refunds signer leaves =
     (case flatten_leaves leaves ([], []) of (shapes, jobs, pending) \<Rightarrow>
        qbind (sign_frost_batch signer jobs pending) (\<lambda>txs.
          rebuild_all shapes (map (\<lambda>(p, share). into_signed_tx p share) txs)))"

fun into_signed_tx_groups :: "signed_leaf_refunds list \<Rightarrow> signed_tx list \<times> signed_tx list \<times> signed_tx list" where
  "into_signed_tx_groups [] = ([], [], [])"
| "into_signed_tx_groups (s # ss) =
     (case into_signed_tx_groups ss of (cpfp, direct, dfc) \<Rightarrow>
        (sl_cpfp s # cpfp, (case sl_direct s of None \<Rightarrow> [] | Some d \<Rightarrow> [d]) @ direct,
         (case sl_direct_from_cpfp s of None \<Rightarrow> [] | Some d \<Rightarrow> [d]) @ dfc))"

definition split_signing_commitments_by_variant ::
  "'a list \<Rightarrow> nat \<Rightarrow> (service_error, 'a list \<times> 'a list \<times> 'a list) rust_result" where
  "split_signing_commitments_by_variant commitments node_id_count =
     (if node_id_count = 0 then Inl (SE_InvalidInput ''cannot request signing commitments for zero nodes'')
      else if \<not> node_id_count * 3 < 2 ^ 64 then Inl (SE_InvalidInput ''node count overflow computing commitment total'')
      else let expected = node_id_count * 3 in
        if length commitments \<noteq> expected
        then Inl (SE_Generic (''expected '' @ display_nat expected @ '' signing commitments, got '' @ display_nat (length commitments)))
        else Inr (take node_id_count commitments, take node_id_count (drop node_id_count commitments),
               drop node_id_count (drop node_id_count commitments)))"

subsection \<open>The refunds of a transfer\<close>

definition index_at :: "'a list \<Rightarrow> nat \<Rightarrow> ('e failure, 'a) rust_result" where
  "index_at xs i = (if i < length xs then Inr (xs ! i) else Inl Panicked)"

definition failing :: "('e, 'a) rust_result \<Rightarrow> ('e failure, 'a) rust_result" where
  "failing r = (case r of Inl e \<Rightarrow> Inl (Failed e) | Inr x \<Rightarrow> Inr x)"

definition node_direct_refund_tx :: "tree_node \<Rightarrow> ('e failure, transaction option) rust_result" where
  "node_direct_refund_tx n = (case direct_refund_tx n of Inl _ \<Rightarrow> Inl Panicked | Inr tx \<Rightarrow> Inr tx)"

definition sighash_from_tx :: "signer_api \<Rightarrow> transaction \<Rightarrow> nat \<Rightarrow> tx_out \<Rightarrow> (string, string) rust_result" where
  "sighash_from_tx signer tx input_index prev_output =
     (case taproot_sighash signer tx input_index (replicate (length (tx_input tx)) prev_output) of
        Inl e \<Rightarrow> Inl (''taproot error: '' @ e) | Inr h \<Rightarrow> Inr h)"

definition derive_leaf_signing_public_key :: "signer_api \<Rightarrow> tree_node \<Rightarrow> (signer_error, public_key) rust_result" where
  "derive_leaf_signing_public_key signer node =
     (case combine_keys signer (tn_verifying_public_key node) (negate_key signer (ks_public_key (tn_signing_keyshare node))) of
        Inl e \<Rightarrow> Inl (SGE_Generic (''failed to derive leaf signing key: '' @ e)) | Inr k \<Rightarrow> Inr k)"

record sign_refunds_params =
  sp_leaves :: "leaf_key_tweak list"
  sp_cpfp_signing_commitments :: "commitments list"
  sp_direct_signing_commitments :: "commitments list"
  sp_direct_from_cpfp_signing_commitments :: "commitments list"
  sp_receiver_pubkey :: public_key
  sp_payment_hash :: "string option"
  sp_network :: network
  sp_cpfp_adaptor_public_key :: "public_key option"

definition build_refund_job ::
  "signer_api \<Rightarrow> leaf_key_tweak \<Rightarrow> transaction \<Rightarrow> transaction \<Rightarrow> public_key \<Rightarrow> commitments \<Rightarrow> network \<Rightarrow> public_key option
     \<Rightarrow> (signer_error failure, refund_job) rust_result" where
  "build_refund_job signer leaf tx refund_tx signing_public_key spark_commitments net adaptor =
     qbind (index0 (tx_output tx)) (\<lambda>out.
     qbind (case sighash_from_tx signer refund_tx 0 out of Inl e \<Rightarrow> Inl (Failed (SGE_Generic e)) | Inr h \<Rightarrow> Inr h) (\<lambda>sighash.
       Inr (build_refund_signing_job (tn_id (lk_node leaf)) (tn_verifying_public_key (lk_node leaf)) signing_public_key refund_tx
              sighash spark_commitments adaptor net)))"

definition transfer_refund_txs ::
  "bitcoin_api \<Rightarrow> script_api \<Rightarrow> sign_refunds_params \<Rightarrow> public_key \<Rightarrow> tree_node \<Rightarrow> transaction option \<Rightarrow> sequence
     \<Rightarrow> (signer_error failure, refund_transactions) rust_result" where
  "transfer_refund_txs api sapi params identity node direct_tx old_sequence =
     (case sp_payment_hash params of
        Some payment_hash \<Rightarrow>
          qbind (or_fail (next_lightning_htlc_sequence (from_height sapi) (height_locked sapi) old_sequence)
                   (SGE_Generic ''Failed to get next lightning HTLC sequences'')) (\<lambda>(cpfp_sequence, direct_sequence).
            create_lightning_htlc_refund_txs api sapi
              \<lparr>lh_node_tx = tn_node_tx node, lh_direct_tx = direct_tx, lh_cpfp_sequence = cpfp_sequence,
               lh_direct_sequence = direct_sequence, lh_hash = payment_hash, lh_hash_lock_pubkey = sp_receiver_pubkey params,
               lh_sequence_lock_pubkey = identity, lh_network = sp_network params\<rparr>)
      | None \<Rightarrow>
          qbind (or_fail (next_sequence (from_height sapi) (height_locked sapi) old_sequence)
                   (SGE_Generic ''Failed to get next sequence'')) (\<lambda>(cpfp_sequence, direct_sequence).
            create_refund_txs api sapi (tn_node_tx node) direct_tx cpfp_sequence direct_sequence (sp_receiver_pubkey params) (sp_network params)))"

definition transfer_direct_job ::
  "signer_api \<Rightarrow> sign_refunds_params \<Rightarrow> nat \<Rightarrow> leaf_key_tweak \<Rightarrow> transaction option \<Rightarrow> refund_transactions \<Rightarrow> public_key
     \<Rightarrow> (signer_error failure, refund_job option) rust_result" where
  "transfer_direct_job signer params i leaf direct_tx refunds signing_public_key =
     (case direct_tx of
        None \<Rightarrow> Inr None
      | Some dtx \<Rightarrow>
          qbind (or_fail (rt_direct_tx refunds) (SGE_Generic ''Direct refund transaction is missing'')) (\<lambda>direct_refund.
          qbind (index_at (sp_direct_signing_commitments params) i) (\<lambda>c.
          qbind (build_refund_job signer leaf dtx direct_refund signing_public_key c (sp_network params) None) (\<lambda>j. Inr (Some j)))))"

definition transfer_dfc_job ::
  "signer_api \<Rightarrow> sign_refunds_params \<Rightarrow> nat \<Rightarrow> leaf_key_tweak \<Rightarrow> refund_transactions \<Rightarrow> public_key
     \<Rightarrow> (signer_error failure, refund_job option) rust_result" where
  "transfer_dfc_job signer params i leaf refunds signing_public_key =
     (case rt_direct_from_cpfp_tx refunds of
        None \<Rightarrow> Inr None
      | Some dfc \<Rightarrow>
          qbind (index_at (sp_direct_from_cpfp_signing_commitments params) i) (\<lambda>c.
          qbind (build_refund_job signer leaf (tn_node_tx (lk_node leaf)) dfc signing_public_key c (sp_network params) None) (\<lambda>j. Inr (Some j))))"

definition transfer_leaf_jobs ::
  "bitcoin_api \<Rightarrow> script_api \<Rightarrow> signer_api \<Rightarrow> sign_refunds_params \<Rightarrow> public_key \<Rightarrow> nat \<Rightarrow> leaf_key_tweak
     \<Rightarrow> (signer_error failure, leaf_refund_jobs) rust_result" where
  "transfer_leaf_jobs api sapi signer params identity i leaf =
     (let node = lk_node leaf; node_tx = tn_node_tx node; net = sp_network params in
      qbind (node_direct_refund_tx node) (\<lambda>direct_tx.
      qbind (or_fail (tn_refund_tx node) (SGE_Generic ''No refund transaction'')) (\<lambda>old_refund.
      qbind (index0 (tx_input old_refund)) (\<lambda>input.
      qbind (transfer_refund_txs api sapi params identity node direct_tx (txi_sequence input)) (\<lambda>refunds.
      qbind (failing (derive_leaf_signing_public_key signer node)) (\<lambda>signing_public_key.
      qbind (index_at (sp_cpfp_signing_commitments params) i) (\<lambda>cpfp_commitments.
      qbind (build_refund_job signer leaf node_tx (rt_cpfp_tx refunds) signing_public_key cpfp_commitments net
               (sp_cpfp_adaptor_public_key params)) (\<lambda>cpfp.
      qbind (transfer_direct_job signer params i leaf direct_tx refunds signing_public_key) (\<lambda>direct.
      qbind (transfer_dfc_job signer params i leaf refunds signing_public_key) (\<lambda>dfc.
        Inr \<lparr>lj_cpfp = cpfp, lj_direct = direct, lj_direct_from_cpfp = dfc\<rparr>))))))))))"

fun leaf_jobs_from :: "(nat \<Rightarrow> 'l \<Rightarrow> ('e, 'j) rust_result) \<Rightarrow> nat \<Rightarrow> 'l list \<Rightarrow> ('e, 'j list) rust_result" where
  "leaf_jobs_from f i [] = Inr []"
| "leaf_jobs_from f i (leaf # leaves) =
     qbind (f i leaf) (\<lambda>jobs. qbind (leaf_jobs_from f (Suc i) leaves) (\<lambda>rest. Inr (jobs # rest)))"

record signed_refund_transactions =
  sr_cpfp_signed_tx :: "signed_tx list"
  sr_direct_signed_tx :: "signed_tx list"
  sr_direct_from_cpfp_signed_tx :: "signed_tx list"

definition sign_refunds ::
  "bitcoin_api \<Rightarrow> script_api \<Rightarrow> signer_api \<Rightarrow> sign_refunds_params \<Rightarrow> (signer_error failure, signed_refund_transactions) rust_result" where
  "sign_refunds api sapi signer params =
     qbind (failing (get_identity_public_key signer)) (\<lambda>identity.
     qbind (leaf_jobs_from (transfer_leaf_jobs api sapi signer params identity) 0 (sp_leaves params)) (\<lambda>leaf_jobs.
     qbind (failing (sign_leaf_refunds signer leaf_jobs)) (\<lambda>txs.
       (case into_signed_tx_groups txs of (cpfp, direct, dfc) \<Rightarrow>
          Inr \<lparr>sr_cpfp_signed_tx = cpfp, sr_direct_signed_tx = direct, sr_direct_from_cpfp_signed_tx = dfc\<rparr>))))"

subsection \<open>The refunds of a claim\<close>

fun signer_error_display :: "signer_error \<Rightarrow> string" where
  "signer_error_display (SGE_FrostError m) = ''frost error: '' @ m"
| "signer_error_display SGE_IdentifierError = ''failed to derive identifier''"
| "signer_error_display SGE_InvalidHash = ''invalid hash''"
| "signer_error_display (SGE_KeyDerivationError m) = ''key derivation error: '' @ m"
| "signer_error_display (SGE_NonceCreationError m) = ''failed to create nonce: '' @ m"
| "signer_error_display (SGE_SecretSharingError m) = ''secret sharing error: '' @ m"
| "signer_error_display (SGE_SerializationError m) = ''serialization error: '' @ m"
| "signer_error_display (SGE_TaprootBuilderError m) = ''taproot builder error: '' @ m"
| "signer_error_display SGE_UnknownKey = ''unknown key''"
| "signer_error_display SGE_UnknownNonceCommitment = ''unknown nonce commitment''"
| "signer_error_display (SGE_Generic m) = ''generic error: '' @ m"

definition from_signer :: "(signer_error, 'a) rust_result \<Rightarrow> (service_error failure, 'a) rust_result" where
  "from_signer r = (case r of Inl e \<Rightarrow> Inl (Failed (SE_SignerError (signer_error_display e))) | Inr x \<Rightarrow> Inr x)"

definition first_output :: "transaction \<Rightarrow> tree_node_id \<Rightarrow> string \<Rightarrow> (service_error failure, tx_out) rust_result" where
  "first_output tx node_id what =
     (case tx_output tx of [] \<Rightarrow> Inl (Failed (SE_ValidationError (''leaf '' @ node_id @ '' '' @ what @ '' has no outputs''))) | out # _ \<Rightarrow> Inr out)"

definition node_timelock :: "transaction \<Rightarrow> tree_node_id \<Rightarrow> (service_error failure, sequence) rust_result" where
  "node_timelock node_tx node_id =
     (case tx_input node_tx of [] \<Rightarrow> Inl (Failed (SE_ValidationError (''leaf '' @ node_id @ '' node tx has no inputs'')))
      | i # _ \<Rightarrow> Inr (txi_sequence i))"

definition claim_job ::
  "signer_api \<Rightarrow> network \<Rightarrow> tree_node \<Rightarrow> public_key \<Rightarrow> transaction \<Rightarrow> tx_out \<Rightarrow> commitments list \<Rightarrow> nat
     \<Rightarrow> (service_error failure, refund_job) rust_result" where
  "claim_job signer net node signing_public_key refund_tx prev_out commitment_list i =
     qbind (case sighash_from_tx signer refund_tx 0 prev_out of Inl e \<Rightarrow> Inl (Failed (SE_BitcoinError e)) | Inr h \<Rightarrow> Inr h) (\<lambda>sighash.
     qbind (index_at commitment_list i) (\<lambda>c.
       Inr (build_refund_signing_job (tn_id node) (tn_verifying_public_key node) signing_public_key refund_tx sighash c None net)))"

definition claim_leaf_jobs ::
  "bitcoin_api \<Rightarrow> script_api \<Rightarrow> signer_api \<Rightarrow> network \<Rightarrow> commitments list \<Rightarrow> commitments list \<Rightarrow> commitments list \<Rightarrow> nat \<Rightarrow> leaf_key_tweak
     \<Rightarrow> (service_error failure, leaf_refund_jobs) rust_result" where
  "claim_leaf_jobs api sapi signer net cpfp_commitments direct_commitments dfc_commitments i leaf =
     (let node = lk_node leaf; node_tx = tn_node_tx node; node_id = tn_id node in
      qbind (from_signer (get_public_key_for_leaf signer node_id)) (\<lambda>signing_public_key.
      qbind (node_timelock node_tx node_id) (\<lambda>node_sequence.
      qbind (first_output node_tx node_id ''node tx'') (\<lambda>node_tx_out.
      qbind (or_fail (tn_refund_tx node) (SE_Generic ''No refund tx'')) (\<lambda>refund_tx.
      qbind (or_fail (case tx_input refund_tx of [] \<Rightarrow> None | input # _ \<Rightarrow> Some (txi_sequence input))
               (SE_ValidationError (''leaf '' @ node_id @ '' refund tx has no inputs''))) (\<lambda>old_sequence.
      qbind (or_fail (current_sequence (from_height sapi) (enforce_timelock (from_height sapi) old_sequence))
               (SE_ValidationError (''leaf '' @ node_id @ '' refund tx timelock '' @ display_hex (unat old_sequence)
                  @ '' leaves no room for the direct offset''))) (\<lambda>(cpfp_sequence, direct_sequence).
      qbind (node_direct_refund_tx node) (\<lambda>direct_tx.
      qbind (case direct_tx of None \<Rightarrow> Inr () | Some dtx \<Rightarrow> qbind (first_output dtx node_id ''direct tx'') (\<lambda>_. Inr ())) (\<lambda>_.
      qbind (create_refund_txs api sapi node_tx direct_tx cpfp_sequence direct_sequence signing_public_key net) (\<lambda>refunds.
      qbind (claim_job signer net node signing_public_key (rt_cpfp_tx refunds) node_tx_out cpfp_commitments i) (\<lambda>cpfp.
      qbind (case (tn_direct_tx node, rt_direct_tx refunds) of
               (Some dtx, Some direct_refund) \<Rightarrow>
                 qbind (first_output dtx node_id ''direct tx'') (\<lambda>direct_tx_out.
                 qbind (claim_job signer net node signing_public_key direct_refund direct_tx_out direct_commitments i) (\<lambda>j. Inr (Some j)))
             | _ \<Rightarrow> Inr None) (\<lambda>direct.
      qbind (case rt_direct_from_cpfp_tx refunds of
               None \<Rightarrow> Inr None
             | Some dfc \<Rightarrow> qbind (claim_job signer net node signing_public_key dfc node_tx_out dfc_commitments i) (\<lambda>j. Inr (Some j))) (\<lambda>dfc.
        Inr \<lparr>lj_cpfp = cpfp, lj_direct = direct, lj_direct_from_cpfp = dfc\<rparr>)))))))))))))"

definition sign_claim_refunds ::
  "bitcoin_api \<Rightarrow> script_api \<Rightarrow> signer_api \<Rightarrow> network \<Rightarrow> leaf_key_tweak list \<Rightarrow> commitments list \<Rightarrow> commitments list \<Rightarrow> commitments list
     \<Rightarrow> (service_error failure, signed_tx list \<times> signed_tx list \<times> signed_tx list) rust_result" where
  "sign_claim_refunds api sapi signer net leaves cpfp_commitments direct_commitments dfc_commitments =
     qbind (leaf_jobs_from (claim_leaf_jobs api sapi signer net cpfp_commitments direct_commitments dfc_commitments) 0 leaves) (\<lambda>leaf_jobs.
     qbind (from_signer (sign_leaf_refunds signer leaf_jobs)) (\<lambda>txs. Inr (into_signed_tx_groups txs)))"

end
