(* ===== verification/Refund_Signing_Props.thy ===== *)
theory Refund_Signing_Props
  imports Refund_Signing Exit_Plan_Props
begin

text \<open>
  What signing the refunds guarantees: a batch signs every refund with the share of its own job, a claim never
  panics on what the sender and the operators supply, and the refunds of a transfer become spendable before those
  they replace.
\<close>

subsection \<open>Batches\<close>

definition leaf_shape :: "leaf_refund_jobs \<Rightarrow> leaf_refund_shape" where
  "leaf_shape leaf = \<lparr>ls_has_direct = (lj_direct leaf \<noteq> None), ls_has_direct_from_cpfp = (lj_direct_from_cpfp leaf \<noteq> None)\<rparr>"

definition batch_jobs :: "leaf_refund_jobs list \<Rightarrow> refund_job list" where
  "batch_jobs leaves = concat (map leaf_jobs_list leaves)"

lemma flatten_leaves_eq:
  "flatten_leaves leaves (js, ps) = (map leaf_shape leaves, js @ map rj_job (batch_jobs leaves), ps @ map rj_pending (batch_jobs leaves))"
  by (induction leaves arbitrary: js ps) (simp_all add: flatten_into_def leaf_shape_def batch_jobs_def)

lemma sign_leaf_refunds_eq:
  "sign_leaf_refunds signer leaves =
     qbind (sign_frost signer (map rj_job (batch_jobs leaves))) (\<lambda>shares.
     qbind (zip_checked shares (map rj_pending (batch_jobs leaves))) (\<lambda>pairs.
       rebuild_all (map leaf_shape leaves) (map (\<lambda>(p, share). into_signed_tx p share) pairs)))"
  by (cases "sign_frost signer (map rj_job (batch_jobs leaves))")
     (simp_all add: sign_leaf_refunds_def sign_frost_batch_def flatten_leaves_eq)

definition sign_one :: "(frost_job \<Rightarrow> frost_share_result) \<Rightarrow> refund_job \<Rightarrow> signed_tx" where
  "sign_one f j = into_signed_tx (rj_pending j) (f (rj_job j))"

definition sign_leaf :: "(frost_job \<Rightarrow> frost_share_result) \<Rightarrow> leaf_refund_jobs \<Rightarrow> signed_leaf_refunds" where
  "sign_leaf f leaf = \<lparr>sl_cpfp = sign_one f (lj_cpfp leaf), sl_direct = map_option (sign_one f) (lj_direct leaf),
     sl_direct_from_cpfp = map_option (sign_one f) (lj_direct_from_cpfp leaf)\<rparr>"

lemma rebuild_leaf: "rebuild (leaf_shape leaf) (map (sign_one f) (leaf_jobs_list leaf) @ rest) = Inr (sign_leaf f leaf, rest)"
  by (cases "lj_direct leaf"; cases "lj_direct_from_cpfp leaf")
     (simp_all add: rebuild_def leaf_shape_def leaf_jobs_list_def next_signed_def next_if_def sign_leaf_def)

lemma rebuild_all_leaves: "rebuild_all (map leaf_shape leaves) (map (sign_one f) (batch_jobs leaves)) = Inr (map (sign_leaf f) leaves)"
  by (induction leaves) (simp_all add: batch_jobs_def rebuild_leaf)

lemma sign_leaf_refunds_pointwise:
  assumes "sign_frost signer = (\<lambda>jobs. Inr (map f jobs))"
  shows "sign_leaf_refunds signer leaves = Inr (map (sign_leaf f) leaves)"
proof -
  have "map (\<lambda>(p, share). into_signed_tx p share) (zip (map rj_pending js) (map f (map rj_job js))) = map (sign_one f) js" for js
    by (simp add: sign_one_def zip_map_map map_zip_map2 zip_same_conv_map comp_def)
  then show ?thesis by (simp add: sign_leaf_refunds_eq assms zip_checked_def rebuild_all_leaves)
qed

text \<open>\<^bold>\<open>C34\<close>. Signing the refunds of many leaves in one call is signing each of them separately: when the signer
  answers a batch with one share per job, in order, every leaf gets back exactly the variants it had, each
  signed with the share of its own job.\<close>

theorem batched_signing_is_separate_signing:
  assumes "sign_frost signer = (\<lambda>jobs. Inr (map f jobs))"
  shows "sign_leaf_refunds signer leaves = Inr (map (sign_leaf f) leaves)"
  using assms by (rule sign_leaf_refunds_pointwise)

text \<open>Whatever the signer returns, a refund keeps the transaction it was signed for.\<close>

definition signed_for :: "refund_job \<Rightarrow> signed_tx \<Rightarrow> bool" where
  "signed_for j tx = (st_node_id tx = pr_node_id (rj_pending j) \<and> st_tx tx = pr_refund_tx (rj_pending j))"

definition leaf_signed_for :: "leaf_refund_jobs \<Rightarrow> signed_leaf_refunds \<Rightarrow> bool" where
  "leaf_signed_for leaf s = (signed_for (lj_cpfp leaf) (sl_cpfp s) \<and> rel_option signed_for (lj_direct leaf) (sl_direct s)
     \<and> rel_option signed_for (lj_direct_from_cpfp leaf) (sl_direct_from_cpfp s))"

lemma signed_for_into [simp]: "signed_for j (into_signed_tx (rj_pending j) share)"
  by (simp add: signed_for_def into_signed_tx_def)

lemma rebuild_signed_for:
  assumes "list_all2 signed_for (leaf_jobs_list leaf @ js) txs"
  shows "\<exists>s rest. rebuild (leaf_shape leaf) txs = Inr (s, rest) \<and> leaf_signed_for leaf s \<and> list_all2 signed_for js rest"
  using assms
  by (cases "lj_direct leaf"; cases "lj_direct_from_cpfp leaf")
     (auto simp: rebuild_def leaf_shape_def leaf_jobs_list_def next_signed_def next_if_def leaf_signed_for_def list_all2_Cons1)

lemma rebuild_all_signed_for:
  assumes "list_all2 signed_for (batch_jobs leaves) txs"
  shows "\<exists>out. rebuild_all (map leaf_shape leaves) txs = Inr out \<and> list_all2 leaf_signed_for leaves out"
  using assms
proof (induction leaves arbitrary: txs)
  case (Cons leaf leaves)
  then have "list_all2 signed_for (leaf_jobs_list leaf @ batch_jobs leaves) txs" by (simp add: batch_jobs_def)
  from rebuild_signed_for [OF this] obtain s rest where "rebuild (leaf_shape leaf) txs = Inr (s, rest)" "leaf_signed_for leaf s"
      "list_all2 signed_for (batch_jobs leaves) rest" by blast
  with Cons.IH [of rest] show ?case by auto
qed simp

lemma sign_leaf_refunds_signed_for:
  assumes "sign_leaf_refunds signer leaves = Inr out"
  shows "list_all2 leaf_signed_for leaves out"
proof -
  let ?js = "batch_jobs leaves"
  from assms obtain shares where len: "length shares = length ?js"
      and run: "rebuild_all (map leaf_shape leaves) (map (\<lambda>(p, share). into_signed_tx p share) (zip (map rj_pending ?js) shares)) = Inr out"
    by (auto simp: sign_leaf_refunds_eq zip_checked_def split: if_splits)
  have "list_all2 signed_for ?js (map (\<lambda>(p, share). into_signed_tx p share) (zip (map rj_pending ?js) shares))"
    using len by (simp add: list_all2_conv_all_nth)
  with rebuild_all_signed_for run show ?thesis by fastforce
qed

text \<open>A wrong number of shares is an error, never a shorter batch.\<close>

lemma wrong_share_count:
  "sign_frost signer (map rj_job (batch_jobs leaves)) = Inr shares \<Longrightarrow> length shares \<noteq> length (batch_jobs leaves) \<Longrightarrow>
     \<exists>m. sign_leaf_refunds signer leaves = Inl (SGE_Generic m)"
  by (simp add: sign_leaf_refunds_eq zip_checked_def)

definition example_share :: "frost_job \<Rightarrow> frost_share_result" where
  "example_share j = \<lparr>fs_commitment = fj_verifying_key j, fs_signature_share = fj_sighash j\<rparr>"

definition example_signer :: signer_api where
  "example_signer = \<lparr>sign_frost = (\<lambda>jobs. Inr (map example_share jobs)), get_identity_public_key = Inr ''me'',
     get_public_key_for_leaf = (\<lambda>i. Inr (''key of '' @ i)), negate_key = rev, combine_keys = (\<lambda>a b. Inr (a @ b)),
     taproot_sighash = (\<lambda>tx i outs. Inr (''sighash '' @ concat (map (fst \<circ> txi_previous_output) (tx_input tx))))\<rparr>"

definition example_job :: "tree_node_id \<Rightarrow> string \<Rightarrow> refund_job" where
  "example_job i h = build_refund_signing_job i ''vk'' ''sk'' (example_tx i 500) h [] None Regtest"

lemma batched_signing_is_separate_signing_witness:
  "sign_leaf_refunds example_signer [\<lparr>lj_cpfp = example_job ''a'' ''h1'', lj_direct = None, lj_direct_from_cpfp = Some (example_job ''a'' ''h2'')\<rparr>,
       \<lparr>lj_cpfp = example_job ''b'' ''h3'', lj_direct = Some (example_job ''b'' ''h4''), lj_direct_from_cpfp = None\<rparr>]
     = Inr (map (sign_leaf example_share) [\<lparr>lj_cpfp = example_job ''a'' ''h1'', lj_direct = None, lj_direct_from_cpfp = Some (example_job ''a'' ''h2'')\<rparr>,
       \<lparr>lj_cpfp = example_job ''b'' ''h3'', lj_direct = Some (example_job ''b'' ''h4''), lj_direct_from_cpfp = None\<rparr>])
   \<and> st_user_signature (the (sl_direct (sign_leaf example_share
       \<lparr>lj_cpfp = example_job ''b'' ''h3'', lj_direct = Some (example_job ''b'' ''h4''), lj_direct_from_cpfp = None\<rparr>))) = ''h4''"
proof -
  have "sign_frost example_signer = (\<lambda>jobs. Inr (map example_share jobs))" by (simp add: example_signer_def)
  note batched_signing_is_separate_signing [OF this]
  then show ?thesis
    by (simp add: sign_leaf_def sign_one_def example_job_def example_share_def into_signed_tx_def build_refund_signing_job_def)
qed

subsection \<open>A claim does not panic\<close>

lemma qbind_no_panic:
  "r \<noteq> Inl Panicked \<Longrightarrow> (\<And>x. r = Inr x \<Longrightarrow> f x \<noteq> Inl Panicked) \<Longrightarrow> qbind r f \<noteq> Inl Panicked"
  by (cases r) auto

lemma qbind_panic: "qbind r f = Inl Panicked \<longleftrightarrow> r = Inl Panicked \<or> (\<exists>x. r = Inr x \<and> f x = Inl Panicked)"
  by (cases r) auto

lemma no_panic_simps [simp]:
  "or_fail x e \<noteq> Inl Panicked" "from_signer r \<noteq> Inl Panicked" "first_output tx i w \<noteq> Inl Panicked" "node_timelock tx i \<noteq> Inl Panicked"
  "failing r' \<noteq> Inl Panicked"
  by (auto simp: or_fail_def from_signer_def first_output_def node_timelock_def failing_def split: option.splits sum.splits list.splits)

lemma claim_job_no_panic: "i < length cs \<Longrightarrow> claim_job signer net node pk tx out cs i \<noteq> Inl Panicked"
  unfolding claim_job_def by (intro qbind_no_panic) (auto simp: index_at_def split: sum.splits)

lemma create_refund_txs_no_panic:
  "tx_output node_tx \<noteq> [] \<Longrightarrow> (\<And>d. direct = Some d \<Longrightarrow> tx_output d \<noteq> []) \<Longrightarrow>
     create_refund_txs api sapi node_tx direct c d pk net \<noteq> Inl Panicked"
  by (cases "tx_output node_tx"; cases direct) (auto simp: create_refund_txs_def index0_def Let_def split: list.splits)

lemma first_output_Inr: "first_output tx i w = Inr out \<Longrightarrow> tx_output tx \<noteq> []"
  by (auto simp: first_output_def split: list.splits)

lemma node_direct_refund_tx_no_panic: "node_timelock (tn_node_tx node) i = Inr s \<Longrightarrow> node_direct_refund_tx node \<noteq> Inl Panicked"
  by (cases "tx_input (tn_node_tx node)")
     (auto simp: node_timelock_def node_direct_refund_tx_def direct_refund_tx_def is_zero_timelock_def node_sequence_def first_sequence_def)

lemma claim_leaf_jobs_no_panic:
  assumes "i < length c1" "i < length c2" "i < length c3"
  shows "claim_leaf_jobs api sapi signer net c1 c2 c3 i leaf \<noteq> Inl Panicked"
  unfolding claim_leaf_jobs_def Let_def
proof (intro qbind_no_panic no_panic_simps, goal_cases)
  case (1 pk s out refund old seqs)
  show ?case
  proof (cases seqs)
    case (Pair cseq dseq)
    show ?thesis unfolding Pair prod.case
    proof (intro qbind_no_panic, goal_cases)
      case 1
      show ?case by (rule node_direct_refund_tx_no_panic) fact
    next
      case (2 direct)
      then show ?case by (cases direct) (auto simp: qbind_panic)
    next
      case (3 direct u)
      then have "d \<in> set_option direct \<Longrightarrow> tx_output d \<noteq> []" for d
        by (cases direct) (auto dest: first_output_Inr)
      moreover have "tx_output (tn_node_tx (lk_node leaf)) \<noteq> []" by (rule first_output_Inr) fact
      ultimately show ?case by (intro create_refund_txs_no_panic) auto
    next
      case (4 direct u refunds)
      show ?case by (rule claim_job_no_panic [OF assms(1)])
    next
      case (5 direct u refunds cpfp)
      show ?case
        by (cases "tn_direct_tx (lk_node leaf)"; cases "rt_direct_tx refunds") (auto simp: qbind_panic claim_job_no_panic [OF assms(2)])
    next
      case (6 direct u refunds cpfp d)
      show ?case
        by (cases "rt_direct_from_cpfp_tx refunds") (auto simp: qbind_panic claim_job_no_panic [OF assms(3)])
    qed simp
  qed
qed

lemma leaf_jobs_from_no_panic:
  "(\<And>j leaf. i \<le> j \<Longrightarrow> j < i + length leaves \<Longrightarrow> f j leaf \<noteq> Inl Panicked) \<Longrightarrow> leaf_jobs_from f i leaves \<noteq> Inl Panicked"
proof (induction leaves arbitrary: i)
  case (Cons leaf leaves)
  have "leaf_jobs_from f (Suc i) leaves \<noteq> Inl Panicked" by (rule Cons.IH) (use Cons.prems in auto)
  with Cons.prems [of i leaf] show ?case by (auto simp: qbind_panic)
qed simp

text \<open>\<^bold>\<open>C35\<close>. Signing the refunds of a claim never panics: whatever leaves the sender supplied and whatever commitments
  the operators returned, once the commitments split evenly over the three variants every access to an input, an
  output or a commitment is in range, and everything else that is wrong with a leaf is reported as an error.\<close>

theorem claim_signing_never_panics:
  assumes "split_signing_commitments_by_variant cs (length leaves) = Inr (c1, c2, c3)"
  shows "sign_claim_refunds api sapi signer net leaves c1 c2 c3 \<noteq> Inl Panicked"
proof -
  have len: "length c1 = length leaves" "length c2 = length leaves" "length c3 = length leaves"
    using assms by (auto simp: split_signing_commitments_by_variant_def Let_def split: if_splits)
  have "leaf_jobs_from (claim_leaf_jobs api sapi signer net c1 c2 c3) 0 leaves \<noteq> Inl Panicked"
    by (rule leaf_jobs_from_no_panic) (simp add: claim_leaf_jobs_no_panic len)
  then show ?thesis by (simp add: sign_claim_refunds_def qbind_panic)
qed

definition example_script_api :: script_api where
  "example_script_api = \<lparr>p2tr_script = (\<lambda>k _ _. k), x_only = (\<lambda>k. k), parse_public_key = Inr, into_script = (\<lambda>_. ''script''),
     taproot_merkle_root = (\<lambda>_ _. Inr None), from_height = ucast, height_locked = (\<lambda>_. True)\<rparr>"

lemma claim_signing_never_panics_witness:
  "sign_claim_refunds example_api example_script_api example_signer Regtest [\<lparr>lk_node = (example_leaf ''a'' 500 None)\<lparr>tn_node_tx := (example_tx ''p'' 500)\<lparr>tx_input := []\<rparr>\<rparr>,
       lk_incoming_key = None\<rparr>] [[]] [[]] [[]] \<noteq> Inl Panicked"
  by (rule claim_signing_never_panics [of "[[], [], []]"]) (simp add: split_signing_commitments_by_variant_def)

subsection \<open>The refunds of a transfer come first\<close>

text \<open>A refund of a node: one input on output 0 of the given transactions, with the given sequence.\<close>

definition refund_of :: "bitcoin_api \<Rightarrow> transaction set \<Rightarrow> sequence set \<Rightarrow> transaction \<Rightarrow> bool" where
  "refund_of api parents sequences tx =
     (\<exists>parent \<in> parents. \<exists>s \<in> sequences. tx_input tx = [tx_in_default\<lparr>txi_previous_output := (compute_txid api parent, 0), txi_sequence := s\<rparr>])"

lemma refund_of_spark_tx: "parent \<in> P \<Longrightarrow> s \<in> S \<Longrightarrow> refund_of api P S (create_spark_tx (compute_txid api parent, 0) s v script fee anchor)"
  unfolding refund_of_def create_spark_tx_def by fastforce

definition refunds_of :: "bitcoin_api \<Rightarrow> transaction set \<Rightarrow> sequence set \<Rightarrow> refund_transactions \<Rightarrow> bool" where
  "refunds_of api P S r = (refund_of api P S (rt_cpfp_tx r) \<and> pred_option (refund_of api P S) (rt_direct_tx r)
     \<and> pred_option (refund_of api P S) (rt_direct_from_cpfp_tx r))"

lemma create_refund_txs_refunds:
  assumes "create_refund_txs api sapi node_tx direct c d pk net = Inr r"
  shows "refunds_of api (insert node_tx (set_option direct)) {c, d} r"
  using assms by (cases direct) (auto simp: create_refund_txs_def refunds_of_def Let_def intro!: refund_of_spark_tx)

lemma create_lightning_htlc_tx_Inr:
  "create_lightning_htlc_tx sapi params op s v fee anchor = Inr tx \<Longrightarrow> \<exists>script. tx = create_spark_tx op s v script fee anchor"
  by (auto simp: create_lightning_htlc_tx_def split: sum.splits)

lemma create_lightning_htlc_refund_txs_refunds:
  assumes "create_lightning_htlc_refund_txs api sapi params = Inr r"
  shows "refunds_of api (insert (lh_node_tx params) (set_option (lh_direct_tx params))) {lh_cpfp_sequence params, lh_direct_sequence params} r"
  using assms by (cases "lh_direct_tx params")
    (auto simp: create_lightning_htlc_refund_txs_def refunds_of_def Let_def dest!: create_lightning_htlc_tx_Inr intro!: refund_of_spark_tx)

lemma next_htlc_sequence_spec:
  assumes "encodes_blocks h" "next_lightning_htlc_sequence h l s = Some (c, d)"
  shows "unat (timelock_of c) + 30 = unat (timelock_of s)" "unat (timelock_of d) + 15 = unat (timelock_of s)"
proof -
  from assms(2) have ge: "100 \<le> timelock_of s" by (simp add: next_lightning_htlc_sequence_def check_next_timelock_eq split: if_splits)
  define t where "t = timelock_of s - 100"
  have t: "unat t = unat (timelock_of s) - 100" "100 \<le> unat (timelock_of s)" "unat (timelock_of s) < 2 ^ 16"
    using ge unat_interval [of "timelock_of s"] unsigned_less [of "timelock_of s"] by (simp_all add: t_def word_le_nat_alt)
  have "timelock_of c = t + 70" "timelock_of d = t + 85"
    using assms ge by (auto simp: next_lightning_htlc_sequence_def check_next_timelock_eq t_def timelock_of_to_sequence
        HTLC_TIME_LOCK_OFFSET_def DIRECT_HTLC_TIME_LOCK_OFFSET_def)
  then show "unat (timelock_of c) + 30 = unat (timelock_of s)" "unat (timelock_of d) + 15 = unat (timelock_of s)"
    using t unat_plus_small [of t 70] unat_plus_small [of t 85] by simp_all
qed

text \<open>Refunds that become spendable at least 15 blocks before a given sequence.\<close>

definition earlier :: "sequence \<Rightarrow> sequence set" where
  "earlier old = {s. unat (timelock_of s) + 15 \<le> unat (timelock_of old)}"

lemma refunds_of_mono: "refunds_of api P S r \<Longrightarrow> P \<subseteq> P' \<Longrightarrow> S \<subseteq> S' \<Longrightarrow> refunds_of api P' S' r"
  unfolding refunds_of_def refund_of_def by (auto simp: pred_option_def) blast+

lemma transfer_refund_txs_earlier:
  assumes "encodes_blocks (from_height sapi)" "transfer_refund_txs api sapi params identity node direct old = Inr r"
  shows "refunds_of api (insert (tn_node_tx node) (set_option direct)) (earlier old) r"
proof (cases "sp_payment_hash params")
  case None
  with assms(2) obtain c d where s: "next_sequence (from_height sapi) (height_locked sapi) old = Some (c, d)"
      and run: "create_refund_txs api sapi (tn_node_tx node) direct c d (sp_receiver_pubkey params) (sp_network params)
        = (Inr r :: (signer_error failure, refund_transactions) rust_result)"
    by (auto simp: transfer_refund_txs_def or_fail_def split: option.splits)
  have "{c, d} \<subseteq> earlier old" using next_sequence_spec [OF assms(1), of old "height_locked sapi"] s by (simp add: earlier_def)
  with create_refund_txs_refunds [OF run] show ?thesis by (blast intro: refunds_of_mono)
next
  case (Some h)
  with assms(2) obtain c d where s: "next_lightning_htlc_sequence (from_height sapi) (height_locked sapi) old = Some (c, d)"
      and run: "create_lightning_htlc_refund_txs api sapi \<lparr>lh_node_tx = tn_node_tx node, lh_direct_tx = direct, lh_cpfp_sequence = c,
        lh_direct_sequence = d, lh_hash = h, lh_hash_lock_pubkey = sp_receiver_pubkey params, lh_sequence_lock_pubkey = identity,
        lh_network = sp_network params\<rparr> = Inr r"
    by (auto simp: transfer_refund_txs_def or_fail_def split: option.splits)
  have "{c, d} \<subseteq> earlier old" using next_htlc_sequence_spec [OF assms(1) s] by (simp add: earlier_def)
  with create_lightning_htlc_refund_txs_refunds [OF run] show ?thesis by (force intro: refunds_of_mono)
qed

lemma build_refund_job_Inr:
  "build_refund_job signer leaf tx refund_tx pk c net adaptor = Inr j \<Longrightarrow>
     pr_refund_tx (rj_pending j) = refund_tx \<and> pr_node_id (rj_pending j) = tn_id (lk_node leaf)"
proof (cases "index0 (tx_output tx) :: (signer_error failure, tx_out) rust_result")
  case (Inr out)
  moreover assume "build_refund_job signer leaf tx refund_tx pk c net adaptor = Inr j"
  ultimately show ?thesis
    by (cases "sighash_from_tx signer refund_tx 0 out") (auto simp: build_refund_job_def build_refund_signing_job_def)
qed (simp add: build_refund_job_def)

text \<open>The jobs of a leaf sign refunds of that leaf that come before its current refund.\<close>

definition job_ok :: "bitcoin_api \<Rightarrow> leaf_key_tweak \<Rightarrow> refund_job \<Rightarrow> bool" where
  "job_ok api leaf j =
     (pr_node_id (rj_pending j) = tn_id (lk_node leaf)
      \<and> (\<exists>old input rest. tn_refund_tx (lk_node leaf) = Some old \<and> tx_input old = input # rest
           \<and> refund_of api (insert (tn_node_tx (lk_node leaf)) (set_option (tn_direct_tx (lk_node leaf)))) (earlier (txi_sequence input))
               (pr_refund_tx (rj_pending j))))"

lemma node_direct_subset: "node_direct_refund_tx n = Inr direct \<Longrightarrow> set_option direct \<subseteq> set_option (tn_direct_tx n)"
  by (auto simp: node_direct_refund_tx_def direct_refund_tx_def split: sum.splits if_splits)

lemma refund_job_ok:
  assumes "tn_refund_tx (lk_node leaf) = Some old" "tx_input old = input # rest"
    and "refund_of api (insert (tn_node_tx (lk_node leaf)) (set_option (tn_direct_tx (lk_node leaf)))) (earlier (txi_sequence input)) tx"
    and "build_refund_job signer leaf ptx tx pk c net adaptor = Inr j"
  shows "job_ok api leaf j"
  using assms build_refund_job_Inr [OF assms(4)] unfolding job_ok_def by auto

lemma transfer_leaf_jobs_ok:
  assumes enc: "encodes_blocks (from_height sapi)" and run: "transfer_leaf_jobs api sapi signer params identity i leaf = Inr jobs"
  shows "\<forall>j \<in> set (leaf_jobs_list jobs). job_ok api leaf j"
proof -
  let ?node = "lk_node leaf"
  obtain direct old input refunds pk c cpfp d dfc where
      direct: "node_direct_refund_tx ?node = (Inr direct :: (signer_error failure, transaction option) rust_result)"
      and old: "or_fail (tn_refund_tx ?node) (SGE_Generic ''No refund transaction'') = Inr old"
      and input: "index0 (tx_input old) = (Inr input :: (signer_error failure, tx_in) rust_result)"
      and refunds: "transfer_refund_txs api sapi params identity ?node direct (txi_sequence input) = Inr refunds"
      and cpfp: "build_refund_job signer leaf (tn_node_tx ?node) (rt_cpfp_tx refunds) pk c (sp_network params) (sp_cpfp_adaptor_public_key params) = Inr cpfp"
      and d: "transfer_direct_job signer params i leaf direct refunds pk = Inr d"
      and dfc: "transfer_dfc_job signer params i leaf refunds pk = Inr dfc"
      and jobs: "\<lparr>lj_cpfp = cpfp, lj_direct = d, lj_direct_from_cpfp = dfc\<rparr> = jobs"
    using run unfolding transfer_leaf_jobs_def Let_def qbind_eq_Inr sum.inject by blast
  have r: "refunds_of api (insert (tn_node_tx ?node) (set_option (tn_direct_tx ?node))) (earlier (txi_sequence input)) refunds"
    by (rule refunds_of_mono [OF transfer_refund_txs_earlier [OF enc refunds]]) (use node_direct_subset [OF direct] in auto)
  obtain rest where o: "tn_refund_tx ?node = Some old" "tx_input old = input # rest"
    using old input by (auto simp: or_fail_def index0_def split: option.splits list.splits)
  note ok = refund_job_ok [OF o]
  have "job_ok api leaf cpfp" using r cpfp ok unfolding refunds_of_def by blast
  moreover have "pred_option (job_ok api leaf) d"
    using d r ok unfolding refunds_of_def
    by (cases direct; cases "rt_direct_tx refunds") (auto simp: transfer_direct_job_def or_fail_def)
  moreover have "pred_option (job_ok api leaf) dfc"
    using dfc r ok unfolding refunds_of_def
    by (cases "rt_direct_from_cpfp_tx refunds") (auto simp: transfer_dfc_job_def)
  ultimately show ?thesis unfolding jobs [symmetric] leaf_jobs_list_def by (auto simp: pred_option_def split: option.splits)
qed

lemma failing_eq_Inr [simp]: "failing r = Inr x \<longleftrightarrow> r = Inr x"
  by (cases r) (simp_all add: failing_def)

lemma leaf_jobs_from_all:
  "leaf_jobs_from f i leaves = Inr jobs \<Longrightarrow> list_all2 (\<lambda>leaf j. \<exists>i. f i leaf = Inr j) leaves jobs"
  by (induction leaves arbitrary: i jobs) auto

lemma into_signed_tx_groups_eq:
  "into_signed_tx_groups txs = (map sl_cpfp txs, List.map_filter sl_direct txs, List.map_filter sl_direct_from_cpfp txs)"
  by (induction txs) (simp_all add: List.map_filter_simps split: option.split)

lemma leaf_signed_for_jobs:
  assumes "leaf_signed_for jobs s" "tx = sl_cpfp s \<or> sl_direct s = Some tx \<or> sl_direct_from_cpfp s = Some tx"
  shows "\<exists>j \<in> set (leaf_jobs_list jobs). signed_for j tx"
  using assms unfolding leaf_signed_for_def leaf_jobs_list_def
  by (auto simp: option_rel_Some2)

text \<open>\<^bold>\<open>C6\<close>. The refunds a sender signs for a transfer become spendable before the refund it keeps: each signed refund,
  of every variant and also for a Lightning payment, belongs to one of the leaves, spends the leaf's own node or direct
  transaction, and its relative timelock is at least 15 blocks shorter than that of the leaf's current refund.\<close>

theorem transfer_refunds_come_first:
  assumes enc: "encodes_blocks (from_height sapi)" and run: "sign_refunds api sapi signer params = Inr out"
    and tx: "tx \<in> set (sr_cpfp_signed_tx out) \<union> set (sr_direct_signed_tx out) \<union> set (sr_direct_from_cpfp_signed_tx out)"
  shows "\<exists>leaf \<in> set (sp_leaves params). \<exists>old input rest. tn_refund_tx (lk_node leaf) = Some old \<and> tx_input old = input # rest
    \<and> st_node_id tx = tn_id (lk_node leaf)
    \<and> (\<exists>new. tx_input (st_tx tx) = [new] \<and> unat (timelock_of (txi_sequence new)) + 15 \<le> unat (timelock_of (txi_sequence input))
         \<and> txi_previous_output new \<in> (\<lambda>parent. (compute_txid api parent, 0)) ` insert (tn_node_tx (lk_node leaf)) (set_option (tn_direct_tx (lk_node leaf))))"
proof -
  obtain identity jobs txs where jobs: "leaf_jobs_from (transfer_leaf_jobs api sapi signer params identity) 0 (sp_leaves params) = Inr jobs"
      and txs: "sign_leaf_refunds signer jobs = Inr txs"
      and out: "out = \<lparr>sr_cpfp_signed_tx = map sl_cpfp txs, sr_direct_signed_tx = List.map_filter sl_direct txs,
        sr_direct_from_cpfp_signed_tx = List.map_filter sl_direct_from_cpfp txs\<rparr>"
    using run by (auto simp: sign_refunds_def into_signed_tx_groups_eq)
  from tx out obtain s where s: "s \<in> set txs" "tx = sl_cpfp s \<or> sl_direct s = Some tx \<or> sl_direct_from_cpfp s = Some tx"
    by (auto simp: List.map_filter_def)
  note all = sign_leaf_refunds_signed_for [OF txs] leaf_jobs_from_all [OF jobs]
  from s(1) obtain k where k: "k < length txs" "txs ! k = s" by (auto simp: in_set_conv_nth)
  then have len: "k < length jobs" "k < length (sp_leaves params)" using all list_all2_lengthD by metis+
  have "leaf_signed_for (jobs ! k) s" using list_all2_nthD2 [OF all(1) k(1)] k(2) by simp
  with s(2) obtain j where j: "j \<in> set (leaf_jobs_list (jobs ! k))" "signed_for j tx" using leaf_signed_for_jobs by blast
  obtain i where "transfer_leaf_jobs api sapi signer params identity i (sp_leaves params ! k) = Inr (jobs ! k)"
    using list_all2_nthD [OF all(2) len(2)] by blast
  from transfer_leaf_jobs_ok [OF enc this] j(1) have "job_ok api (sp_leaves params ! k) j" by blast
  with j(2) nth_mem [OF len(2)] show ?thesis
    unfolding job_ok_def signed_for_def refund_of_def earlier_def by (intro bexI [of _ "sp_leaves params ! k"]) auto
qed

definition example_transfer_params :: sign_refunds_params where
  "example_transfer_params = \<lparr>sp_leaves = [\<lparr>lk_node = example_leaf ''a'' 5000 None, lk_incoming_key = None\<rparr>],
     sp_cpfp_signing_commitments = [[]], sp_direct_signing_commitments = [[]], sp_direct_from_cpfp_signing_commitments = [[]],
     sp_receiver_pubkey = ''bob'', sp_payment_hash = None, sp_network = Regtest, sp_cpfp_adaptor_public_key = None\<rparr>"

lemma transfer_refunds_come_first_witness:
  "\<exists>out tx new. sign_refunds example_api example_script_api example_signer example_transfer_params = Inr out
     \<and> sr_cpfp_signed_tx out = [tx] \<and> tx_input (st_tx tx) = [new] \<and> unat (timelock_of (txi_sequence new)) + 15 \<le> 2000"
proof -
  let ?leaf = "\<lparr>lk_node = example_leaf ''a'' 5000 None, lk_incoming_key = None\<rparr>"
  have old: "tn_refund_tx (lk_node ?leaf) = Some (example_tx ''a'' 5000)" by (simp add: example_leaf_def)
  obtain out where run: "sign_refunds example_api example_script_api example_signer example_transfer_params = Inr out"
      and one: "\<exists>tx. sr_cpfp_signed_tx out = [tx]"
  proof -
    let ?n = "example_leaf ''a'' 5000 None"
    have node: "tn_node_tx ?n = example_tx ''parent of a'' 5000" "tn_id ?n = ''a''" by (simp_all add: example_leaf_def)
    have direct: "node_direct_refund_tx ?n = Inr None"
      by (simp add: node_direct_refund_tx_def direct_refund_tx_def is_zero_timelock_def node_sequence_def first_sequence_def example_leaf_def example_tx_def)
    have "\<exists>cd. next_sequence ucast (\<lambda>_. True) 0x400007D0 = Some cd"
      by (simp add: next_sequence_def check_next_timelock_eq timelock_of_ucast)
    then obtain c d where "next_sequence ucast (\<lambda>_. True) 0x400007D0 = Some (c, d)" by auto
    then obtain r where r: "transfer_refund_txs example_api example_script_api example_transfer_params ''me'' ?n None 0x400007D0 = Inr r"
        "rt_direct_from_cpfp_tx r \<noteq> None"
      by (simp add: transfer_refund_txs_def example_transfer_params_def example_script_api_def or_fail_def create_refund_txs_def node example_tx_def index0_def Let_def)
    have job: "\<exists>j. build_refund_job example_signer ?leaf (example_tx ''parent of a'' 5000) tx pk c net ad = Inr j" for tx pk c net ad
      by (simp add: build_refund_job_def index0_def example_tx_def sighash_from_tx_def example_signer_def)
    have input: "\<exists>rest. tx_input (example_tx ''a'' 5000) = \<lparr>txi_previous_output = (''a'', 0), txi_script_sig = [], txi_sequence = 0x400007D0, txi_witness = []\<rparr> # rest"
      by (simp add: example_tx_def)
    obtain pk where pk: "derive_leaf_signing_public_key example_signer ?n = Inr pk"
      by (simp add: derive_leaf_signing_public_key_def example_signer_def)
    have params: "sp_cpfp_signing_commitments example_transfer_params = [[]]" "sp_direct_from_cpfp_signing_commitments example_transfer_params = [[]]"
      "sp_leaves example_transfer_params = [?leaf]"
      by (simp_all add: example_transfer_params_def)
    obtain cpfp where cpfp: "build_refund_job example_signer ?leaf (example_tx ''parent of a'' 5000) (rt_cpfp_tx r) pk [] (sp_network example_transfer_params)
        (sp_cpfp_adaptor_public_key example_transfer_params) = Inr cpfp" using job by blast
    obtain dfc where dfc: "transfer_dfc_job example_signer example_transfer_params 0 ?leaf r pk = Inr dfc"
      using r(2) job by (fastforce simp: transfer_dfc_job_def params index_at_def node)
    have jobs: "transfer_leaf_jobs example_api example_script_api example_signer example_transfer_params ''me'' 0 ?leaf
        = Inr \<lparr>lj_cpfp = cpfp, lj_direct = None, lj_direct_from_cpfp = dfc\<rparr>"
      using r(1) cpfp dfc input old pk
      by (auto simp: transfer_leaf_jobs_def direct or_fail_def index0_def index_at_def params node failing_def transfer_direct_job_def)
    have "sign_frost example_signer = (\<lambda>jobs. Inr (map example_share jobs))" "get_identity_public_key example_signer = Inr ''me''"
      by (simp_all add: example_signer_def)
    with that jobs sign_leaf_refunds_pointwise show thesis
      by (simp add: sign_refunds_def params into_signed_tx_groups_eq sign_leaf_def)
  qed
  then obtain tx where tx: "sr_cpfp_signed_tx out = [tx]" by blast
  have "encodes_blocks (from_height example_script_api)" by (simp add: encodes_blocks_def example_script_api_def)
  from transfer_refunds_come_first [OF this run, of tx] tx old show ?thesis
    using run by (auto simp: example_transfer_params_def example_tx_def timelock_of_ucast)
qed

end
