(* ===== verification/Timelock_Manager.thy ===== *)
theory Timelock_Manager
  imports Refund_Signing
begin

text \<open>
  Renewal of expiring timelocks: \<^verbatim>\<open>crates/spark/src/services/timelock_manager.rs\<close> and
  \<^verbatim>\<open>crates/spark/src/utils/signing_job.rs\<close>.

  The coordinator's answers are the record \<open>renewal_api\<close>, a parameter: nothing is assumed about them. A node in
  an answer is a wire value whose conversion may fail, so it is a result. A request carries the signed
  transactions themselves; \<open>encode_failure\<close> is the error of their conversion, when there is one.
\<close>

subsection \<open>Signing jobs\<close>

datatype signing_job_type =
    CpfpNode | CpfpSplitNode | CpfpRefund | DirectNode | DirectSplitNode | DirectRefund | DirectFromCpfpRefund

record signing_job =
  sj_job_type :: signing_job_type
  sj_node_id :: tree_node_id
  sj_tx :: transaction
  sj_parent_tx_out :: tx_out
  sj_signing_public_key :: public_key
  sj_verifying_public_key :: public_key

record signed_job =
  sd_job_type :: signing_job_type
  sd_signed_tx :: signed_tx

definition renewal_frost_job ::
  "signer_api \<Rightarrow> commitments list \<Rightarrow> nat \<Rightarrow> signing_job \<Rightarrow> (signer_error failure, frost_job) rust_result" where
  "renewal_frost_job signer signing_commitments i job =
     qbind (case sighash_from_tx signer (sj_tx job) 0 (sj_parent_tx_out job) of
              Inl e \<Rightarrow> Inl (Failed (SGE_Generic e)) | Inr h \<Rightarrow> Inr h) (\<lambda>sighash.
     qbind (index_at signing_commitments i) (\<lambda>c.
       Inr \<lparr>fj_derivation = SigningLeaf (sj_node_id job), fj_sighash = sighash,
            fj_verifying_key = sj_verifying_public_key job, fj_operator_commitments = c, fj_adaptor_public_key = None\<rparr>))"

definition into_signed_job :: "network \<Rightarrow> (signing_job \<times> frost_share_result) \<times> commitments \<Rightarrow> signed_job" where
  "into_signed_job net x =
     (case x of ((job, share), c) \<Rightarrow>
        \<lparr>sd_job_type = sj_job_type job,
         sd_signed_tx = \<lparr>st_node_id = sj_node_id job, st_signing_public_key = sj_signing_public_key job, st_tx = sj_tx job,
           st_user_signature = fs_signature_share share, st_signing_commitments = c,
           st_self_nonce_commitment = fs_commitment share, st_network = net\<rparr>\<rparr>)"

definition sign_signing_jobs ::
  "signer_api \<Rightarrow> signing_job list \<Rightarrow> commitments list \<Rightarrow> network \<Rightarrow> (signer_error failure, signed_job list) rust_result" where
  "sign_signing_jobs signer signing_jobs signing_commitments net =
     qbind (leaf_jobs_from (renewal_frost_job signer signing_commitments) 0 signing_jobs) (\<lambda>jobs.
     qbind (failing (sign_frost_batch signer jobs signing_jobs)) (\<lambda>txs.
       Inr (map (into_signed_job net) (zip txs signing_commitments))))"

subsection \<open>The coordinator\<close>

type_synonym wire_node = "(service_error, tree_node) rust_result"

datatype renew_signing_jobs =
    RenewNodeTimelockSigningJob "signed_tx option" "signed_tx option" "signed_tx option" "signed_tx option"
      "signed_tx option" "signed_tx option" "signed_tx option"
      \<comment> \<open>split node, direct split node, node, refund, direct node, direct refund, direct from cpfp refund\<close>
  | RenewRefundTimelockSigningJob "signed_tx option" "signed_tx option" "signed_tx option" "signed_tx option" "signed_tx option"
      \<comment> \<open>node, refund, direct node, direct refund, direct from cpfp refund\<close>
  | RenewNodeZeroTimelockSigningJob "signed_tx option" "signed_tx option" "signed_tx option" "signed_tx option"
      \<comment> \<open>node, refund, direct node, direct from cpfp refund\<close>

record renew_leaf_request =
  rq_leaf_id :: tree_node_id
  rq_signing_jobs :: renew_signing_jobs

datatype renew_result =
    RenewNodeTimelockResult "wire_node option" "wire_node option" \<comment> \<open>split node, node\<close>
  | RenewRefundTimelockResult "wire_node option"
  | RenewNodeZeroTimelockResult "wire_node option" "wire_node option"

record renewal_api =
  get_signing_commitments :: "tree_node_id \<Rightarrow> nat \<Rightarrow> (service_error, commitments list) rust_result"
  encode_failure :: "signed_tx \<Rightarrow> service_error option"
  renew_leaf :: "renew_leaf_request \<Rightarrow> txid option \<Rightarrow> (service_error, renew_result option) rust_result"
  query_with_parents :: "tree_node_id list \<Rightarrow> (service_error, wire_node list) rust_result"

record timelock_manager =
  tm_bitcoin :: bitcoin_api
  tm_script :: script_api
  tm_signer :: signer_api
  tm_network :: network
  tm_operators :: renewal_api

definition from_signer_failure :: "(signer_error failure, 'a) rust_result \<Rightarrow> (service_error failure, 'a) rust_result" where
  "from_signer_failure r =
     (case r of Inl Panicked \<Rightarrow> Inl Panicked | Inl (Failed e) \<Rightarrow> Inl (Failed (SE_SignerError (signer_error_display e))) | Inr x \<Rightarrow> Inr x)"

text \<open>The checks of a node's sequence numbers fail with a generic error or by a panic.\<close>

definition from_tree :: "(tree_service_error, 'a) rust_result \<Rightarrow> (service_error failure, 'a) rust_result" where
  "from_tree r =
     (case r of Inl (TSE_Generic msg) \<Rightarrow> Inl (Failed (SE_Generic msg)) | Inl _ \<Rightarrow> Inl Panicked | Inr x \<Rightarrow> Inr x)"

subsection \<open>The transactions of a renewal\<close>

definition renewal_job :: "tree_node \<Rightarrow> public_key \<Rightarrow> signing_job_type \<Rightarrow> transaction \<Rightarrow> tx_out \<Rightarrow> signing_job" where
  "renewal_job node pk ty tx parent_out =
     \<lparr>sj_job_type = ty, sj_node_id = tn_id node, sj_tx = tx, sj_parent_tx_out = parent_out, sj_signing_public_key = pk,
      sj_verifying_public_key = tn_verifying_public_key node\<rparr>"

text \<open>A variant of a refund that was not built is not signed.\<close>

definition optional_job :: "tree_node \<Rightarrow> public_key \<Rightarrow> signing_job_type \<Rightarrow> transaction option \<Rightarrow> transaction
    \<Rightarrow> (service_error failure, signing_job list) rust_result" where
  "optional_job node pk ty tx parent =
     (case tx of None \<Rightarrow> Inr []
      | Some t \<Rightarrow> qbind (index0 (tx_output parent)) (\<lambda>out. Inr [renewal_job node pk ty t out]))"

definition renew_node_jobs ::
  "timelock_manager \<Rightarrow> tree_node \<Rightarrow> tree_node \<Rightarrow> public_key \<Rightarrow> (service_error failure, signing_job list) rust_result" where
  "renew_node_jobs tm node parent_node pk =
     (let api = tm_bitcoin tm; sapi = tm_script tm; parent_node_tx = tn_node_tx parent_node in
      qbind (create_zero_timelock_node_txs api sapi parent_node_tx) (\<lambda>split.
      qbind (index0 (tx_output parent_node_tx)) (\<lambda>parent_out.
      qbind (create_initial_timelock_node_txs api sapi (nt_cpfp_tx split)) (\<lambda>txs.
      qbind (index0 (tx_output (nt_cpfp_tx split))) (\<lambda>split_out.
      qbind (create_initial_timelock_refund_txs api sapi (nt_cpfp_tx txs) (Some (nt_direct_tx txs)) pk (tm_network tm)) (\<lambda>refunds.
      qbind (index0 (tx_output (nt_cpfp_tx txs))) (\<lambda>node_out.
      qbind (optional_job node pk DirectRefund (rt_direct_tx refunds) (nt_direct_tx txs)) (\<lambda>direct.
      qbind (optional_job node pk DirectFromCpfpRefund (rt_direct_from_cpfp_tx refunds) (nt_cpfp_tx txs)) (\<lambda>dfc.
        Inr ([renewal_job node pk CpfpSplitNode (nt_cpfp_tx split) parent_out,
              renewal_job node pk DirectSplitNode (nt_direct_tx split) parent_out,
              renewal_job node pk CpfpNode (nt_cpfp_tx txs) split_out,
              renewal_job node pk DirectNode (nt_direct_tx txs) split_out,
              renewal_job node pk CpfpRefund (rt_cpfp_tx refunds) node_out] @ direct @ dfc))))))))))"

definition renew_refund_jobs ::
  "timelock_manager \<Rightarrow> tree_node \<Rightarrow> tree_node \<Rightarrow> public_key \<Rightarrow> (service_error failure, signing_job list) rust_result" where
  "renew_refund_jobs tm node parent_node pk =
     (let api = tm_bitcoin tm; sapi = tm_script tm; parent_node_tx = tn_node_tx parent_node in
      qbind (create_decremented_timelock_node_txs api sapi parent_node_tx (tn_node_tx node)) (\<lambda>txs.
      qbind (index0 (tx_output parent_node_tx)) (\<lambda>parent_out.
      qbind (create_initial_timelock_refund_txs api sapi (nt_cpfp_tx txs) (Some (nt_direct_tx txs)) pk (tm_network tm)) (\<lambda>refunds.
      qbind (index0 (tx_output (nt_cpfp_tx txs))) (\<lambda>node_out.
      qbind (optional_job node pk DirectRefund (rt_direct_tx refunds) (nt_direct_tx txs)) (\<lambda>direct.
      qbind (optional_job node pk DirectFromCpfpRefund (rt_direct_from_cpfp_tx refunds) (nt_cpfp_tx txs)) (\<lambda>dfc.
        Inr ([renewal_job node pk CpfpNode (nt_cpfp_tx txs) parent_out,
              renewal_job node pk DirectNode (nt_direct_tx txs) parent_out,
              renewal_job node pk CpfpRefund (rt_cpfp_tx refunds) node_out] @ direct @ dfc))))))))"

definition renew_zero_timelock_jobs ::
  "timelock_manager \<Rightarrow> tree_node \<Rightarrow> public_key \<Rightarrow> (service_error failure, signing_job list) rust_result" where
  "renew_zero_timelock_jobs tm node pk =
     (let api = tm_bitcoin tm; sapi = tm_script tm; node_tx = tn_node_tx node in
      qbind (create_zero_timelock_node_txs api sapi node_tx) (\<lambda>txs.
      qbind (index0 (tx_output node_tx)) (\<lambda>old_out.
      qbind (create_initial_timelock_refund_txs api sapi (nt_cpfp_tx txs) (Some (nt_direct_tx txs)) pk (tm_network tm)) (\<lambda>refunds.
      qbind (index0 (tx_output (nt_cpfp_tx txs))) (\<lambda>node_out.
      qbind (optional_job node pk DirectFromCpfpRefund (rt_direct_from_cpfp_tx refunds) (nt_cpfp_tx txs)) (\<lambda>dfc.
        Inr ([renewal_job node pk CpfpNode (nt_cpfp_tx txs) old_out,
              renewal_job node pk DirectNode (nt_direct_tx txs) old_out,
              renewal_job node pk CpfpRefund (rt_cpfp_tx refunds) node_out] @ dfc)))))))"

subsection \<open>Renewing one leaf\<close>

text \<open>The first signed job of a type, converted for the request.\<close>

definition job_for :: "renewal_api \<Rightarrow> signed_job list \<Rightarrow> signing_job_type \<Rightarrow> (service_error failure, signed_tx option) rust_result" where
  "job_for ops jobs ty =
     (case find (\<lambda>j. sd_job_type j = ty) jobs of
        None \<Rightarrow> Inr None
      | Some j \<Rightarrow> (case encode_failure ops (sd_signed_tx j) of None \<Rightarrow> Inr (Some (sd_signed_tx j)) | Some e \<Rightarrow> Inl (Failed e)))"

definition sign_renewal ::
  "timelock_manager \<Rightarrow> tree_node \<Rightarrow> signing_job list \<Rightarrow> (service_error failure, signed_job list) rust_result" where
  "sign_renewal tm node jobs =
     qbind (failing (get_signing_commitments (tm_operators tm) (tn_id node) (length jobs))) (\<lambda>signing_commitments.
       from_signer_failure (sign_signing_jobs (tm_signer tm) jobs signing_commitments (tm_network tm)))"

definition send_renewal ::
  "timelock_manager \<Rightarrow> tree_node \<Rightarrow> renew_signing_jobs \<Rightarrow> (service_error failure, renew_result option) rust_result" where
  "send_renewal tm node jobs =
     failing (renew_leaf (tm_operators tm) \<lparr>rq_leaf_id = tn_id node, rq_signing_jobs = jobs\<rparr>
       (map_option (compute_txid (tm_bitcoin tm)) (tn_refund_tx node)))"

definition expected_node :: "wire_node option \<Rightarrow> (service_error failure, tree_node) rust_result" where
  "expected_node w = qbind (or_fail w (SE_Generic ''Expected a node in response'')) failing"

definition optional_node :: "wire_node option \<Rightarrow> (service_error failure, tree_node option) rust_result" where
  "optional_node w = (case w of None \<Rightarrow> Inr None | Some r \<Rightarrow> qbind (failing r) (\<lambda>n. Inr (Some n)))"

definition unexpected_response :: "(service_error failure, 'a) rust_result" where
  "unexpected_response = Inl (Failed (SE_Generic ''Expected renew node timelock reponse''))"

definition renew_node ::
  "timelock_manager \<Rightarrow> tree_node \<Rightarrow> tree_node \<Rightarrow> (service_error failure, tree_node \<times> tree_node option) rust_result" where
  "renew_node tm node parent_node =
     (let job = job_for (tm_operators tm) in
      qbind (from_signer (get_public_key_for_leaf (tm_signer tm) (tn_id node))) (\<lambda>pk.
      qbind (renew_node_jobs tm node parent_node pk) (\<lambda>jobs.
      qbind (sign_renewal tm node jobs) (\<lambda>js.
      qbind (job js CpfpSplitNode) (\<lambda>split. qbind (job js DirectSplitNode) (\<lambda>direct_split.
      qbind (job js CpfpNode) (\<lambda>n. qbind (job js CpfpRefund) (\<lambda>refund. qbind (job js DirectNode) (\<lambda>direct_node.
      qbind (job js DirectRefund) (\<lambda>direct_refund. qbind (job js DirectFromCpfpRefund) (\<lambda>dfc.
      qbind (send_renewal tm node (RenewNodeTimelockSigningJob split direct_split n refund direct_node direct_refund dfc)) (\<lambda>response.
        case response of
          Some (RenewNodeTimelockResult split_node new_node) \<Rightarrow>
            qbind (expected_node new_node) (\<lambda>node'. qbind (optional_node split_node) (\<lambda>s. Inr (node', s)))
        | _ \<Rightarrow> unexpected_response))))))))))))"

definition renew_refund ::
  "timelock_manager \<Rightarrow> tree_node \<Rightarrow> tree_node \<Rightarrow> (service_error failure, tree_node \<times> tree_node option) rust_result" where
  "renew_refund tm node parent_node =
     (let job = job_for (tm_operators tm) in
      qbind (from_signer (get_public_key_for_leaf (tm_signer tm) (tn_id node))) (\<lambda>pk.
      qbind (renew_refund_jobs tm node parent_node pk) (\<lambda>jobs.
      qbind (sign_renewal tm node jobs) (\<lambda>js.
      qbind (job js CpfpNode) (\<lambda>n. qbind (job js CpfpRefund) (\<lambda>refund. qbind (job js DirectNode) (\<lambda>direct_node.
      qbind (job js DirectRefund) (\<lambda>direct_refund. qbind (job js DirectFromCpfpRefund) (\<lambda>dfc.
      qbind (send_renewal tm node (RenewRefundTimelockSigningJob n refund direct_node direct_refund dfc)) (\<lambda>response.
        case response of
          Some (RenewRefundTimelockResult new_node) \<Rightarrow> qbind (expected_node new_node) (\<lambda>node'. Inr (node', None))
        | _ \<Rightarrow> unexpected_response))))))))))"

definition renew_zero_timelock ::
  "timelock_manager \<Rightarrow> tree_node \<Rightarrow> (service_error failure, tree_node \<times> tree_node option) rust_result" where
  "renew_zero_timelock tm node =
     (let job = job_for (tm_operators tm) in
      qbind (from_signer (get_public_key_for_leaf (tm_signer tm) (tn_id node))) (\<lambda>pk.
      qbind (renew_zero_timelock_jobs tm node pk) (\<lambda>jobs.
      qbind (sign_renewal tm node jobs) (\<lambda>js.
      qbind (job js CpfpNode) (\<lambda>n. qbind (job js CpfpRefund) (\<lambda>refund. qbind (job js DirectNode) (\<lambda>direct_node.
      qbind (job js DirectFromCpfpRefund) (\<lambda>dfc.
      qbind (send_renewal tm node (RenewNodeZeroTimelockSigningJob n refund direct_node dfc)) (\<lambda>response.
        case response of
          Some (RenewNodeZeroTimelockResult split_node new_node) \<Rightarrow>
            qbind (expected_node new_node) (\<lambda>node'. qbind (optional_node split_node) (\<lambda>s. Inr (node', s)))
        | _ \<Rightarrow> unexpected_response)))))))))"

subsection \<open>The parent a renewal builds on\<close>

lemma fetched_measure:
  assumes "map_of fetched i = Some n" and "\<not> hm_contains i nodes"
  shows "card (fst ` set fetched - fst ` set (hm_insert i n nodes)) < card (fst ` set fetched - fst ` set nodes)"
proof (rule psubset_card_mono)
  have "i \<in> fst ` set fetched" using assms(1) by (force dest: map_of_SomeD)
  with assms(2) show "fst ` set fetched - fst ` set (hm_insert i n nodes) \<subset> fst ` set fetched - fst ` set nodes" by auto
qed simp

function walk_fetched :: "node_map \<Rightarrow> tree_node_id option \<Rightarrow> node_map \<Rightarrow> node_map" where
  "walk_fetched fetched None nodes = nodes"
| "walk_fetched fetched (Some i) nodes =
     (if hm_contains i nodes then nodes
      else case map_of fetched i of
        None \<Rightarrow> nodes
      | Some ancestor \<Rightarrow> walk_fetched fetched (tn_parent_node_id ancestor) (hm_insert i ancestor nodes))"
  by pat_completeness auto
termination
  using fetched_measure
  by (relation "measure (\<lambda>(fetched, _, nodes). card (fst ` set fetched - fst ` set nodes))") auto

declare walk_fetched.simps(2) [simp del]

definition resolve_renewal_parent ::
  "tree_node \<Rightarrow> node_map \<Rightarrow> node_map \<Rightarrow> (service_error failure, tree_node \<times> node_map) rust_result" where
  "resolve_renewal_parent leaf nodes fetched =
     qbind (or_fail (tn_parent_node_id leaf) (SE_Generic (''Node '' @ tn_id leaf @ '' has no parent node''))) (\<lambda>parent_id.
       let nodes' = (if hm_contains parent_id nodes then nodes else walk_fetched fetched (Some parent_id) nodes) in
       qbind (or_fail (map_of nodes' parent_id) (SE_Generic (''Parent node not found for node '' @ tn_id leaf))) (\<lambda>parent.
         Inr (parent, nodes')))"

definition renew_any ::
  "timelock_manager \<Rightarrow> tree_node \<Rightarrow> node_map \<Rightarrow> node_map \<Rightarrow> (service_error failure, (tree_node \<times> tree_node option) \<times> node_map) rust_result" where
  "renew_any tm leaf nodes fetched =
     qbind (from_tree (is_zero_timelock leaf)) (\<lambda>zero.
       if zero then qbind (renew_zero_timelock tm leaf) (\<lambda>r. Inr (r, nodes))
       else
         qbind (resolve_renewal_parent leaf nodes fetched) (\<lambda>(parent, nodes').
         qbind (from_tree (needs_node_tx_renewed leaf)) (\<lambda>node_due.
         qbind (if node_due then renew_node tm leaf parent else renew_refund tm leaf parent) (\<lambda>r. Inr (r, nodes')))))"

definition renew_pedigree ::
  "timelock_manager \<Rightarrow> node_map \<Rightarrow> leaf_pedigree \<Rightarrow> (service_error failure, leaf_pedigree) rust_result" where
  "renew_pedigree tm fetched pedigree =
     qbind (renew_any tm (lp_leaf pedigree) (by_id (lp_ancestors pedigree)) fetched) (\<lambda>((renewed_leaf, split_node), nodes).
       let nodes1 = (case split_node of None \<Rightarrow> nodes | Some s \<Rightarrow> hm_insert (tn_id s) s nodes);
           nodes2 = hm_insert (tn_id renewed_leaf) renewed_leaf nodes1;
           chains = assemble_exit_chains nodes2 [tn_id renewed_leaf]
       in if chains = [] then Inl (Failed (SE_Generic (''Failed to rebuild chain for node '' @ tn_id renewed_leaf)))
          else Inr (last chains))"

subsection \<open>Renewing a batch\<close>

definition lacks_renewal_parent :: "leaf_pedigree \<Rightarrow> (service_error failure, bool) rust_result" where
  "lacks_renewal_parent p =
     qbind (from_tree (is_zero_timelock (lp_leaf p))) (\<lambda>zero.
       Inr (\<not> zero \<and> (case tn_parent_node_id (lp_leaf p) of
              None \<Rightarrow> False | Some parent_id \<Rightarrow> \<not> (\<exists>a \<in> set (lp_ancestors p). tn_id a = parent_id))))"

fun split_by :: "('a \<Rightarrow> ('e, bool) rust_result) \<Rightarrow> 'a list \<Rightarrow> ('e, 'a list \<times> 'a list) rust_result" where
  "split_by P [] = Inr ([], [])"
| "split_by P (x # xs) =
     qbind (P x) (\<lambda>b. qbind (split_by P xs) (\<lambda>(yes, no). Inr (if b then (x # yes, no) else (yes, x # no))))"

fun collect_nodes :: "wire_node list \<Rightarrow> node_map \<Rightarrow> (service_error, node_map) rust_result" where
  "collect_nodes [] nodes = Inr nodes"
| "collect_nodes (w # ws) nodes = qbind w (\<lambda>n. collect_nodes ws (hm_insert (tn_id n) n nodes))"

definition fetch_missing_renewal_parents ::
  "timelock_manager \<Rightarrow> leaf_pedigree list \<Rightarrow> (service_error failure, node_map) rust_result" where
  "fetch_missing_renewal_parents tm renewable =
     qbind (split_by lacks_renewal_parent renewable) (\<lambda>(lacking, _).
       if lacking = [] then Inr []
       else qbind (failing (query_with_parents (tm_operators tm) (map (\<lambda>p. tn_id (lp_leaf p)) lacking))) (\<lambda>items.
              failing (collect_nodes items [])))"

text \<open>One leaf the operators refuse is kept as it arrived; a panic of one future is a panic of all.\<close>

fun keep_unrenewed ::
  "(leaf_pedigree \<times> (service_error failure, leaf_pedigree) rust_result) list \<Rightarrow> (service_error failure, leaf_pedigree list) rust_result" where
  "keep_unrenewed [] = Inr []"
| "keep_unrenewed ((p, r) # rs) =
     (case r of
        Inl Panicked \<Rightarrow> Inl Panicked
      | Inl (Failed e) \<Rightarrow> qbind (keep_unrenewed rs) (\<lambda>ps. Inr (p # ps))
      | Inr renewed \<Rightarrow> qbind (keep_unrenewed rs) (\<lambda>ps. Inr (renewed # ps)))"

definition check_renew_nodes ::
  "timelock_manager \<Rightarrow> leaf_pedigree list \<Rightarrow> (service_error failure, leaf_pedigree list) rust_result" where
  "check_renew_nodes tm pedigrees =
     qbind (split_by (\<lambda>p. from_tree (needs_refund_tx_renewed (lp_leaf p))) pedigrees) (\<lambda>(renewable, ready).
       if renewable = [] then Inr ready
       else qbind (fetch_missing_renewal_parents tm renewable) (\<lambda>fetched.
            qbind (keep_unrenewed (zip renewable (map (renew_pedigree tm fetched) renewable))) (\<lambda>renewed.
              Inr (ready @ renewed))))"

end
