(* ===== verification/Tree_Service.thy ===== *)
theory Tree_Service
  imports Timelock_Manager Tree_Store Paging
begin

text \<open>
  The tree service: \<^verbatim>\<open>crates/spark/src/tree/service.rs\<close>. It drives the leaf store with the answers of the
  operators, the timelock manager and the swap service.

  An operation is a function on a world: the store, the counters of the signals published, and what the outside
  does at each call. Operations of other tasks interleave with the calls of this one: before each call to the
  store, \<open>ce_before\<close> is what they did to it meanwhile. A call may also fail without effect (\<open>ce_fails\<close>), as it does
  when the processor is gone or no permit comes free in time. The operators, the swap service, the renewals and
  the clock are the record \<open>tree_peers\<close>, a parameter: nothing is assumed about them. They answer by call number,
  so that a second try may fare differently.
\<close>

subsection \<open>Effects\<close>

record call_env =
  ce_before :: "leaves_state \<Rightarrow> leaves_state"
  ce_fails :: "tree_service_error option"
  ce_now :: system_time
  ce_now' :: system_time
  ce_uuid :: leaves_reservation_id
  ce_permit :: permit

record tree_world =
  tw_store :: leaves_state
  tw_calls :: "nat \<Rightarrow> call_env"
  tw_step :: nat
  tw_exit_signals :: nat
  tw_leaves_added :: nat

type_synonym 'a operation = "tree_world \<Rightarrow> (tree_service_error, 'a) rust_result \<times> tree_world"

definition op_return :: "'a \<Rightarrow> 'a operation" where
  "op_return x w = (Inr x, w)"

definition op_result :: "(tree_service_error, 'a) rust_result \<Rightarrow> 'a operation" where
  "op_result r w = (r, w)"

definition op_bind :: "'a operation \<Rightarrow> ('a \<Rightarrow> 'b operation) \<Rightarrow> 'b operation" where
  "op_bind m f w = (case m w of (Inl e, w') \<Rightarrow> (Inl e, w') | (Inr x, w') \<Rightarrow> f x w')"

text \<open>Looking at an error instead of returning it; a panic is not caught.\<close>

definition op_match :: "'a operation \<Rightarrow> (tree_service_error \<Rightarrow> 'b operation) \<Rightarrow> ('a \<Rightarrow> 'b operation) \<Rightarrow> 'b operation" where
  "op_match m on_err on_ok w =
     (case m w of
        (Inl e, w') \<Rightarrow> if e = TSE_Panic then (Inl TSE_Panic, w') else on_err e w'
      | (Inr x, w') \<Rightarrow> on_ok x w')"

definition store_call ::
  "(call_env \<Rightarrow> leaves_state \<Rightarrow> (tree_service_error, 'a) rust_result \<times> leaves_state) \<Rightarrow> 'a operation" where
  "store_call f w =
     (let c = tw_calls w (tw_step w); s = ce_before c (tw_store w) in
      case ce_fails c of
        Some e \<Rightarrow> (Inl e, w\<lparr>tw_store := s, tw_step := Suc (tw_step w)\<rparr>)
      | None \<Rightarrow> (case f c s of (r, s') \<Rightarrow> (r, w\<lparr>tw_store := s', tw_step := Suc (tw_step w)\<rparr>)))"

definition ask :: "(nat \<Rightarrow> (tree_service_error, 'a) rust_result) \<Rightarrow> 'a operation" where
  "ask f w = (f (tw_step w), w\<lparr>tw_step := Suc (tw_step w)\<rparr>)"

subsection \<open>The store\<close>

definition st_now :: "system_time operation" where
  "st_now = store_call (\<lambda>c s. (Inr (ce_now c), s))"

definition st_get_leaves :: "leaves operation" where
  "st_get_leaves = store_call (\<lambda>c s. (process_get_leaves s, s))"

definition st_get_verified_leaf_keys :: "(tree_node_id, verified_leaf_keys) hash_map operation" where
  "st_get_verified_leaf_keys = op_bind st_get_leaves (\<lambda>l. op_return (verified_leaf_keys_from_leaves l))"

definition st_get_available_balance :: "u64 operation" where
  "st_get_available_balance = op_bind st_get_leaves (\<lambda>l. op_return (leaves_balance l))"

definition st_add_leaves :: "tree_node list \<Rightarrow> unit operation" where
  "st_add_leaves ls = store_call (\<lambda>c. process_add_leaves (ce_now c) ls)"

definition st_set_leaves :: "tree_node list \<Rightarrow> tree_node list \<Rightarrow> system_time \<Rightarrow> unit operation" where
  "st_set_leaves ls missing started = store_call (\<lambda>c. process_set_leaves (ce_now c) ls missing started)"

definition st_store_ancestors :: "leaf_pedigree list \<Rightarrow> unit operation" where
  "st_store_ancestors ps = store_call (\<lambda>c. process_store_ancestors ps)"

definition st_get_exit_chains :: "tree_node_id list \<Rightarrow> leaf_pedigree list operation" where
  "st_get_exit_chains ids = store_call (\<lambda>c s. (process_get_exit_chains s ids, s))"

definition st_leaves_missing_exit_chains :: "tree_node_id list operation" where
  "st_leaves_missing_exit_chains = store_call (\<lambda>c s. (Inr (process_leaves_missing_exit_chains s), s))"

definition st_try_reserve_leaves :: "target_amounts option \<Rightarrow> bool \<Rightarrow> reservation_purpose \<Rightarrow> reserve_result operation" where
  "st_try_reserve_leaves targets exact_only purpose =
     store_call (\<lambda>c. process_try_reserve_leaves (ce_uuid c) targets exact_only purpose (ce_permit c))"

definition st_try_reserve_leaves_by_ids :: "tree_node_id list \<Rightarrow> reservation_purpose \<Rightarrow> leaves_reservation operation" where
  "st_try_reserve_leaves_by_ids ids purpose =
     store_call (\<lambda>c. process_reserve_leaves_by_ids (ce_uuid c) ids purpose (ce_permit c))"

definition st_try_select_leaves :: "target_amounts option \<Rightarrow> leaf_selection operation" where
  "st_try_select_leaves targets = store_call (\<lambda>c s. (process_try_select_leaves s targets, s))"

definition st_cancel_reservation :: "leaves_reservation_id \<Rightarrow> tree_node list \<Rightarrow> unit operation" where
  "st_cancel_reservation rid keep = store_call (\<lambda>c. process_cancel_reservation (ce_now c) rid keep)"

definition st_finalize_reservation :: "leaves_reservation_id \<Rightarrow> tree_node list option \<Rightarrow> unit operation" where
  "st_finalize_reservation rid new_leaves = store_call (\<lambda>c. process_finalize_reservation (ce_now c) (ce_now' c) rid new_leaves)"

definition st_update_reservation ::
  "leaves_reservation_id \<Rightarrow> tree_node list \<Rightarrow> tree_node list \<Rightarrow> leaves_reservation operation" where
  "st_update_reservation rid reserved change = store_call (\<lambda>c. process_update_reservation (ce_now c) rid reserved change)"

subsection \<open>Queries\<close>

datatype query_source = NodeIds "tree_node_id list" | OwnerIdentityPubkey public_key

record query_nodes_request =
  qr_include_parents :: bool
  qr_limit :: int
  qr_offset :: int
  qr_network :: network
  qr_source :: query_source
  qr_statuses :: "tree_node_status list"

record query_nodes_response =
  qn_nodes :: "(string, tree_node) rust_result list"
  qn_offset :: int

datatype wait_outcome = BalanceChanged | StoreClosed | WaitTimeout

record tree_peers =
  tp_identity :: public_key
  tp_network :: network
  tp_operators :: nat
  tp_rpc :: "nat \<Rightarrow> nat option \<Rightarrow> nat \<Rightarrow> query_nodes_request \<Rightarrow> (string, query_nodes_response) rust_result"
    \<comment> \<open>call number, operator (\<open>None\<close> is the coordinator), page number\<close>
  tp_manager :: "nat \<Rightarrow> timelock_manager"
  tp_swap :: "nat \<Rightarrow> tree_node list \<Rightarrow> u64 list option \<Rightarrow> (service_error failure, tree_node list) rust_result"
  tp_signer :: signer_api
  tp_is_remote :: bool
  tp_publishes :: bool
  tp_wait :: "nat \<Rightarrow> nat \<times> wait_outcome"
  tp_debug :: "service_error \<Rightarrow> string"
  tp_debug_duration :: "nat \<Rightarrow> string"

definition held_leaf_statuses :: "tree_node_status list" where
  "held_leaf_statuses = [Available, OnChain, Exited]"

definition mk_query_nodes_request ::
  "tree_peers \<Rightarrow> query_source option \<Rightarrow> bool \<Rightarrow> paging_filter \<Rightarrow> tree_node_status list \<Rightarrow> query_nodes_request" where
  "mk_query_nodes_request peers source include_parents paging statuses =
     \<lparr>qr_include_parents = include_parents, qr_limit = sint (pf_limit paging), qr_offset = sint (pf_offset paging),
      qr_network = tp_network peers,
      qr_source = (case source of None \<Rightarrow> OwnerIdentityPubkey (tp_identity peers) | Some s \<Rightarrow> s), qr_statuses = statuses\<rparr>"

fun collect_ok :: "('e, 'a) rust_result list \<Rightarrow> ('e, 'a list) rust_result" where
  "collect_ok [] = Inr []"
| "collect_ok (r # rs) = qbind r (\<lambda>x. qbind (collect_ok rs) (\<lambda>xs. Inr (x # xs)))"

definition query_nodes_inner ::
  "tree_peers \<Rightarrow> nat \<Rightarrow> nat option \<Rightarrow> bool \<Rightarrow> query_source option \<Rightarrow> tree_node_status list \<Rightarrow> nat \<Rightarrow> paging_filter
     \<Rightarrow> (tree_service_error, tree_node paging_result) rust_result" where
  "query_nodes_inner peers n client include_parents source statuses page paging =
     (case tp_rpc peers n client page (mk_query_nodes_request peers source include_parents paging statuses) of
        Inl e \<Rightarrow> Inl (TSE_RpcError e)
      | Inr nodes \<Rightarrow>
          (case collect_ok (qn_nodes nodes) of
             Inl e \<Rightarrow> Inl (TSE_Generic (''Failed to deserialize leaves: '' @ e))
           | Inr items \<Rightarrow> Inr \<lparr>pr_items = items, pr_next = next_from_offset paging (qn_offset nodes)\<rparr>))"

definition query_nodes ::
  "tree_peers \<Rightarrow> nat \<Rightarrow> nat option \<Rightarrow> bool \<Rightarrow> query_source option \<Rightarrow> tree_node_status list
     \<Rightarrow> (tree_service_error, tree_node list) rust_result" where
  "query_nodes peers n client include_parents source statuses =
     qbind (pager (query_nodes_inner peers n client include_parents source statuses) paging_filter_default) (\<lambda>r. Inr (pr_items r))"

definition fetch_nodes :: "tree_peers \<Rightarrow> tree_node_id list \<Rightarrow> bool \<Rightarrow> tree_node list operation" where
  "fetch_nodes peers node_ids include_parents =
     (if node_ids = [] then op_return []
      else ask (\<lambda>n. query_nodes peers n None include_parents (Some (NodeIds node_ids)) []))"

definition fetch_pedigrees_from_operators :: "tree_peers \<Rightarrow> tree_node_id list \<Rightarrow> leaf_pedigree list operation" where
  "fetch_pedigrees_from_operators peers ids =
     (if ids = [] then op_return []
      else op_match (fetch_nodes peers ids True) (\<lambda>e. op_return []) (\<lambda>nodes. op_return (assemble_exit_chains (by_id nodes) ids)))"

subsection \<open>Signals\<close>

definition signal_exit_state_changed :: "tree_peers \<Rightarrow> unit operation" where
  "signal_exit_state_changed peers w =
     (Inr (), if tp_publishes peers then w\<lparr>tw_exit_signals := Suc (tw_exit_signals w)\<rparr> else w)"

definition notify_leaves_added :: "tree_node list \<Rightarrow> unit operation" where
  "notify_leaves_added ls w = (Inr (), if ls = [] then w else w\<lparr>tw_leaves_added := Suc (tw_leaves_added w)\<rparr>)"

subsection \<open>Exit chains\<close>

definition load_exit_chains :: "tree_node_id list \<Rightarrow> leaf_pedigree list operation" where
  "load_exit_chains ids = st_get_exit_chains ids"

definition store_exit_chains :: "tree_peers \<Rightarrow> leaf_pedigree list \<Rightarrow> unit operation" where
  "store_exit_chains peers pedigrees =
     (if pedigrees = [] then op_return ()
      else op_bind (st_store_ancestors pedigrees) (\<lambda>_. signal_exit_state_changed peers))"

definition restore_exit_chains :: "leaf_pedigree list \<Rightarrow> unit operation" where
  "restore_exit_chains pedigrees = (if pedigrees = [] then op_return () else st_store_ancestors pedigrees)"

definition leaves_missing_exit_chains :: "tree_node_id list operation" where
  "leaves_missing_exit_chains = st_leaves_missing_exit_chains"

subsection \<open>Renewals\<close>

record renewal_outcome =
  ro_pedigrees :: "leaf_pedigree list"
  ro_any_renewal_landed :: bool

definition bare_pedigrees :: "tree_node list \<Rightarrow> leaf_pedigree list" where
  "bare_pedigrees ls = map (\<lambda>leaf. \<lparr>lp_leaf = leaf, lp_ancestors = []\<rparr>) ls"

text \<open>\<open>refund_sequence().ok()\<close>: an error is dropped, a panic is not.\<close>

definition refund_sequence_ok :: "tree_node \<Rightarrow> (tree_service_error, sequence option) rust_result" where
  "refund_sequence_ok n =
     (case refund_sequence n of Inl TSE_Panic \<Rightarrow> Inl TSE_Panic | Inl _ \<Rightarrow> Inr None | Inr s \<Rightarrow> Inr (Some s))"

fun refund_sequences_from ::
  "(tree_node_id, sequence option) hash_map \<Rightarrow> leaf_pedigree list \<Rightarrow> (tree_service_error, (tree_node_id, sequence option) hash_map) rust_result" where
  "refund_sequences_from m [] = Inr m"
| "refund_sequences_from m (p # ps) =
     qbind (refund_sequence_ok (lp_leaf p)) (\<lambda>s. refund_sequences_from (hm_insert (tn_id (lp_leaf p)) s m) ps)"

definition refund_sequences :: "leaf_pedigree list \<Rightarrow> (tree_service_error, (tree_node_id, sequence option) hash_map) rust_result" where
  "refund_sequences ps = refund_sequences_from [] ps"

fun any_renewal_landed ::
  "(tree_node_id, sequence option) hash_map \<Rightarrow> leaf_pedigree list \<Rightarrow> (tree_service_error, bool) rust_result" where
  "any_renewal_landed before [] = Inr False"
| "any_renewal_landed before (p # ps) =
     (case map_of before (tn_id (lp_leaf p)) of
        None \<Rightarrow> Inr True
      | Some sq \<Rightarrow> qbind (refund_sequence_ok (lp_leaf p)) (\<lambda>sq'. if sq \<noteq> sq' then Inr True else any_renewal_landed before ps))"

fun any_needs_renewal :: "tree_node list \<Rightarrow> (tree_service_error, bool) rust_result" where
  "any_needs_renewal [] = Inr False"
| "any_needs_renewal (leaf # ls) = qbind (needs_refund_tx_renewed leaf) (\<lambda>b. if b then Inr True else any_needs_renewal ls)"

definition svc_check_renew_nodes :: "tree_peers \<Rightarrow> leaf_pedigree list \<Rightarrow> renewal_outcome operation" where
  "svc_check_renew_nodes peers pedigrees =
     op_bind (op_result (refund_sequences pedigrees)) (\<lambda>before.
     op_bind (ask (\<lambda>n. case check_renew_nodes (tp_manager peers n) pedigrees of
                         Inl Panicked \<Rightarrow> Inl TSE_Panic
                       | Inl (Failed e) \<Rightarrow> Inl (TSE_Generic (''Failed to check time lock: '' @ tp_debug peers e))
                       | Inr ps \<Rightarrow> Inr ps)) (\<lambda>ps.
     op_bind (op_result (any_renewal_landed before ps)) (\<lambda>landed.
       op_return \<lparr>ro_pedigrees = ps, ro_any_renewal_landed = landed\<rparr>)))"

definition restorable_chain :: "leaf_pedigree \<Rightarrow> bool" where
  "restorable_chain p = (lp_ancestors p \<noteq> [] \<and> chain_reaches_root (lp_leaf p) (lp_ancestors p))"

definition store_renewed_chains :: "tree_peers \<Rightarrow> leaf_pedigree list \<Rightarrow> bool \<Rightarrow> unit operation" where
  "store_renewed_chains peers pedigrees landed =
     (if \<not> landed then op_return ()
      else let renewed = filter restorable_chain pedigrees in
        if renewed = [] then signal_exit_state_changed peers
        else op_match (st_store_ancestors renewed) (\<lambda>_. signal_exit_state_changed peers) (\<lambda>_. signal_exit_state_changed peers))"

subsection \<open>Ownership\<close>

fun own_keys :: "signer_api \<Rightarrow> tree_node list \<Rightarrow> (tree_service_error, public_key list) rust_result" where
  "own_keys signer [] = Inr []"
| "own_keys signer (leaf # ls) =
     (case get_public_key_for_leaf signer (tn_id leaf) of
        Inl e \<Rightarrow> Inl (TSE_SignerError (signer_error_display e))
      | Inr k \<Rightarrow> qbind (own_keys signer ls) (\<lambda>ks. Inr (k # ks)))"

fun owned_ids :: "signer_api \<Rightarrow> (tree_node \<times> public_key) list \<Rightarrow> (tree_service_error, tree_node_id list) rust_result" where
  "owned_ids signer [] = Inr []"
| "owned_ids signer ((leaf, k) # rest) =
     (case combine_keys signer k (ks_public_key (tn_signing_keyshare leaf)) of
        Inl _ \<Rightarrow> Inl (TSE_Generic ''Failed to combine public keys'')
      | Inr combined \<Rightarrow> qbind (owned_ids signer rest) (\<lambda>ids.
          Inr (if combined = tn_verifying_public_key leaf then tn_id leaf # ids else ids)))"

definition retain_owned :: "tree_peers \<Rightarrow> tree_node list \<Rightarrow> (tree_service_error, tree_node_id list) rust_result" where
  "retain_owned peers ls = qbind (own_keys (tp_signer peers) ls) (\<lambda>ks. owned_ids (tp_signer peers) (zip ls ks))"

subsection \<open>Cancelling and finalising\<close>

text \<open>One leaf of the reservation against the coordinator's answer.\<close>

definition verified_leaf :: "tree_peers \<Rightarrow> node_map \<Rightarrow> tree_node \<Rightarrow> tree_node option" where
  "verified_leaf peers fresh original =
     (case map_of fresh (tn_id original) of
        None \<Rightarrow> None
      | Some n \<Rightarrow> if tn_owner_identity_public_key n \<noteq> Some (tp_identity peers) then None
                  else if tn_status n \<noteq> Available then None else Some n)"

definition VERIFY_MAX_ATTEMPTS :: nat where "VERIFY_MAX_ATTEMPTS = 3"

text \<open>A failed query is tried again after a delay; a panic is not caught.\<close>

fun verify_attempts :: "tree_peers \<Rightarrow> tree_node list \<Rightarrow> nat \<Rightarrow> tree_node list operation" where
  "verify_attempts peers originals 0 = op_return []"
| "verify_attempts peers originals (Suc left) =
     op_match (ask (\<lambda>n. query_nodes peers n None False (Some (NodeIds (map tn_id originals))) []))
       (\<lambda>_. verify_attempts peers originals left)
       (\<lambda>nodes. op_return (List.map_filter (verified_leaf peers (by_id nodes)) originals))"

definition verify_leaves_against_coordinator :: "tree_peers \<Rightarrow> leaves_reservation \<Rightarrow> tree_node list operation" where
  "verify_leaves_against_coordinator peers reservation =
     (if lr_leaves reservation = [] then op_return [] else verify_attempts peers (lr_leaves reservation) VERIFY_MAX_ATTEMPTS)"

definition cancel_reservation :: "tree_peers \<Rightarrow> leaves_reservation \<Rightarrow> unit operation" where
  "cancel_reservation peers reservation =
     op_bind (verify_leaves_against_coordinator peers reservation) (\<lambda>keep. st_cancel_reservation (lr_id reservation) keep)"

definition finalize_reservation :: "leaves_reservation_id \<Rightarrow> tree_node list option \<Rightarrow> unit operation" where
  "finalize_reservation rid new_leaves =
     op_bind (st_finalize_reservation rid new_leaves) (\<lambda>_. notify_leaves_added (case new_leaves of None \<Rightarrow> [] | Some ls \<Rightarrow> ls))"

subsection \<open>Adding leaves\<close>

definition insert_leaves :: "tree_peers \<Rightarrow> tree_node list \<Rightarrow> tree_node list operation" where
  "insert_leaves peers ls =
     op_bind (svc_check_renew_nodes peers (bare_pedigrees ls)) (\<lambda>ro.
       let new_leaves = map lp_leaf (ro_pedigrees ro) in
       op_bind (st_add_leaves new_leaves) (\<lambda>_.
       op_bind (store_renewed_chains peers (ro_pedigrees ro) (ro_any_renewal_landed ro)) (\<lambda>_.
       op_bind (notify_leaves_added new_leaves) (\<lambda>_. op_return new_leaves))))"

definition restore_leaves :: "tree_peers \<Rightarrow> leaf_pedigree list \<Rightarrow> unit operation" where
  "restore_leaves peers ps =
     op_bind (op_result (retain_owned peers (map lp_leaf ps))) (\<lambda>owned.
       let mine = filter (\<lambda>p. tn_id (lp_leaf p) \<in> set owned) ps in
       op_bind (st_add_leaves (map lp_leaf mine)) (\<lambda>_. restore_exit_chains (filter restorable_chain mine)))"

subsection \<open>Refreshing\<close>

definition drop_parents :: "tree_node list \<Rightarrow> tree_node list" where
  "drop_parents nodes =
     (let parent_ids = List.map_filter tn_parent_node_id nodes in filter (\<lambda>n. tn_id n \<notin> set parent_ids) nodes)"

text \<open>The answers of the operators, asked together with the coordinator; the first error is returned.\<close>

definition query_operators :: "tree_peers \<Rightarrow> nat \<Rightarrow> (tree_service_error, tree_node list list) rust_result" where
  "query_operators peers n = collect_ok (map (\<lambda>k. query_nodes peers n (Some k) False None held_leaf_statuses) [0..<tp_operators peers])"

text \<open>The first occurrence of an id in an operator's answer.\<close>

definition operator_agrees :: "tree_node list \<Rightarrow> tree_node \<Rightarrow> bool" where
  "operator_agrees operator_leaves leaf =
     (case find (\<lambda>l. tn_id l = tn_id leaf) operator_leaves of
        None \<Rightarrow> False
      | Some l \<Rightarrow> tn_status l = tn_status leaf
          \<and> ks_public_key (tn_signing_keyshare l) = ks_public_key (tn_signing_keyshare leaf)
          \<and> tn_node_tx l = tn_node_tx leaf \<and> tn_refund_tx l = tn_refund_tx leaf)"

definition missing_from :: "tree_node list \<Rightarrow> tree_node list \<Rightarrow> (tree_node_id, tree_node) hash_map \<Rightarrow> (tree_node_id, tree_node) hash_map" where
  "missing_from coordinator_leaves operator_leaves m =
     fold (\<lambda>leaf m. if operator_agrees operator_leaves leaf then m else hm_insert (tn_id leaf) leaf m) coordinator_leaves m"

definition missing_operator_leaves :: "tree_node list \<Rightarrow> tree_node list list \<Rightarrow> (tree_node_id, tree_node) hash_map" where
  "missing_operator_leaves coordinator_leaves answers = fold (missing_from coordinator_leaves) answers []"

definition already_verified :: "(tree_node_id, verified_leaf_keys) hash_map \<Rightarrow> tree_node \<Rightarrow> bool" where
  "already_verified verified leaf =
     (case map_of verified (tn_id leaf) of
        None \<Rightarrow> False
      | Some keys \<Rightarrow> vk_verifying_public_key keys = tn_verifying_public_key leaf
          \<and> vk_signing_keyshare_public_key keys = ks_public_key (tn_signing_keyshare leaf))"

definition ignored_leaves :: "tree_node list \<Rightarrow> tree_node_id list \<Rightarrow> (tree_node_id, tree_node) hash_map" where
  "ignored_leaves unverified owned =
     fold (\<lambda>leaf m. if tn_id leaf \<in> set owned then m else hm_insert (tn_id leaf) leaf m) unverified []"

definition partition_renewable :: "tree_node list \<Rightarrow> tree_node list \<times> tree_node list" where
  "partition_renewable ls = (filter (\<lambda>l. tn_status l = Available) ls, filter (\<lambda>l. tn_status l \<noteq> Available) ls)"

definition refresh_reported ::
  "tree_peers \<Rightarrow> tree_node list \<Rightarrow> tree_node list list \<Rightarrow> system_time \<Rightarrow> (tree_node_id, verified_leaf_keys) hash_map \<Rightarrow> unit operation" where
  "refresh_reported peers coordinator_leaves answers started verified =
     (let missing = missing_operator_leaves coordinator_leaves answers;
          unverified = filter (\<lambda>l. \<not> already_verified verified l) coordinator_leaves in
      op_bind (op_result (retain_owned peers unverified)) (\<lambda>owned.
        let ignored = ignored_leaves unverified owned;
            new_leaves = filter (\<lambda>l. \<not> hm_contains (tn_id l) missing \<and> \<not> hm_contains (tn_id l) ignored) coordinator_leaves;
            missing_leaves = filter (\<lambda>l. \<not> hm_contains (tn_id l) ignored) (hm_values missing)
        in case partition_renewable new_leaves of (renewable, exiting) \<Rightarrow>
           op_bind (svc_check_renew_nodes peers (bare_pedigrees renewable)) (\<lambda>ro.
             let renewed_leaves = map lp_leaf (ro_pedigrees ro) @ exiting in
             op_bind (st_set_leaves renewed_leaves missing_leaves started) (\<lambda>_.
             op_bind (store_renewed_chains peers (ro_pedigrees ro) (ro_any_renewal_landed ro)) (\<lambda>_.
               notify_leaves_added renewed_leaves)))))"

definition refresh_leaves :: "tree_peers \<Rightarrow> unit operation" where
  "refresh_leaves peers =
     op_bind st_now (\<lambda>refresh_started_at.
     op_bind (ask (\<lambda>n. qbind (query_nodes peers n None False None held_leaf_statuses) (\<lambda>coordinator_nodes.
                         qbind (query_operators peers n) (\<lambda>answers. Inr (drop_parents coordinator_nodes, answers)))))
       (\<lambda>(coordinator_leaves, answers).
     op_bind (if tp_is_remote peers then st_get_verified_leaf_keys else op_return []) (\<lambda>verified.
       refresh_reported peers coordinator_leaves answers refresh_started_at verified)))"

subsection \<open>Selecting leaves for a payment\<close>

definition swap_targets :: "target_amounts \<Rightarrow> u64 list" where
  "swap_targets ta =
     (case ta of AmountAndFee amount fee \<Rightarrow> amount # (case fee of None \<Rightarrow> [] | Some f \<Rightarrow> [f]) | ExactDenominations ds \<Rightarrow> ds)"

definition swap_leaves_internal :: "tree_peers \<Rightarrow> tree_node list \<Rightarrow> target_amounts option \<Rightarrow> renewal_outcome operation" where
  "swap_leaves_internal peers ls targets =
     (if ls = [] then op_result (Inl (TSE_Generic ''no leaves to swap''))
      else op_bind (ask (\<lambda>n. case tp_swap peers n ls (map_option swap_targets targets) of
                               Inl Panicked \<Rightarrow> Inl TSE_Panic
                             | Inl (Failed e) \<Rightarrow> Inl (TSE_ServiceError (tp_debug peers e))
                             | Inr claimed \<Rightarrow> Inr claimed)) (\<lambda>claimed.
             svc_check_renew_nodes peers (bare_pedigrees claimed)))"

definition reservation_matches_target :: "leaves_reservation \<Rightarrow> target_amounts option \<Rightarrow> bool" where
  "reservation_matches_target reservation targets =
     (let total_amount_sats = (case targets of None \<Rightarrow> 0 | Some ta \<Rightarrow> total_sats ta) in
      (total_amount_sats = 0 \<or> leaves_reservation_sum reservation = total_amount_sats)
      \<and> is_ok (select_leaves_by_target_amounts tn_id tn_value (lr_leaves reservation) targets))"

definition wait_for_pending_balance :: "tree_peers \<Rightarrow> nat \<Rightarrow> nat \<Rightarrow> (tree_service_error, unit) rust_result" where
  "wait_for_pending_balance peers wait_count max_wait =
     (case tp_wait peers wait_count of (elapsed, outcome) \<Rightarrow>
        if elapsed > max_wait
        then Inl (TSE_Generic (''Timeout waiting for pending balance after '' @ tp_debug_duration peers elapsed))
        else (case outcome of BalanceChanged \<Rightarrow> Inr () | StoreClosed \<Rightarrow> Inl (TSE_Generic ''Store closed'') | WaitTimeout \<Rightarrow> Inr ()))"

definition renew_reservation_timelocks :: "tree_peers \<Rightarrow> leaves_reservation \<Rightarrow> leaves_reservation operation" where
  "renew_reservation_timelocks peers reservation =
     op_bind (op_result (any_needs_renewal (lr_leaves reservation))) (\<lambda>due.
       if \<not> due then op_return reservation
       else
         op_bind (st_get_exit_chains (map tn_id (lr_leaves reservation))) (\<lambda>pedigrees.
         op_match (svc_check_renew_nodes peers pedigrees)
           (\<lambda>e. op_match (cancel_reservation peers reservation) (\<lambda>_. op_result (Inl e)) (\<lambda>_. op_result (Inl e)))
           (\<lambda>ro.
             let new_leaves = map lp_leaf (ro_pedigrees ro) in
             op_bind (st_add_leaves new_leaves) (\<lambda>_.
             op_bind (store_renewed_chains peers (ro_pedigrees ro) (ro_any_renewal_landed ro)) (\<lambda>_.
             op_bind (notify_leaves_added new_leaves) (\<lambda>_.
               op_return \<lparr>lr_id = lr_id reservation, lr_leaves = new_leaves\<rparr>))))))"

text \<open>After the swap: the leaves that pay the target replace the old ones in the reservation, the rest is change.\<close>

definition settle_swap ::
  "tree_peers \<Rightarrow> leaves_reservation \<Rightarrow> target_amounts option \<Rightarrow> renewal_outcome \<Rightarrow> leaves_reservation operation" where
  "settle_swap peers reservation targets ro =
     (let new_leaves = ro_pedigrees ro in
      op_bind (op_result (select_leaves_by_target_amounts tn_id tn_value (map lp_leaf new_leaves) targets)) (\<lambda>target_leaves.
        let reserved_ids = map tn_id (selected_leaves target_leaves);
            reserved_pedigrees = filter (\<lambda>p. tn_id (lp_leaf p) \<in> set reserved_ids) new_leaves;
            change_pedigrees = filter (\<lambda>p. tn_id (lp_leaf p) \<notin> set reserved_ids) new_leaves;
            reserved_nodes = map lp_leaf reserved_pedigrees; change_nodes = map lp_leaf change_pedigrees;
            renewed = reserved_pedigrees @ change_pedigrees
        in op_match (st_update_reservation (lr_id reservation) reserved_nodes change_nodes)
             (\<lambda>e. op_match (st_finalize_reservation (lr_id reservation) (Some (reserved_nodes @ change_nodes)))
                    (\<lambda>_. op_result (Inl e))
                    (\<lambda>_. op_bind (store_renewed_chains peers renewed (ro_any_renewal_landed ro)) (\<lambda>_. op_result (Inl e))))
             (\<lambda>final_reservation.
                op_bind (store_renewed_chains peers renewed (ro_any_renewal_landed ro)) (\<lambda>_.
                op_bind (notify_leaves_added change_nodes) (\<lambda>_. op_return final_reservation)))))"

definition perform_swap_and_update_reservation ::
  "tree_peers \<Rightarrow> leaves_reservation \<Rightarrow> target_amounts option \<Rightarrow> leaves_reservation operation" where
  "perform_swap_and_update_reservation peers reservation targets =
     op_match (swap_leaves_internal peers (lr_leaves reservation) targets)
       (\<lambda>e. op_match (cancel_reservation peers reservation) (\<lambda>_. op_result (Inl e)) (\<lambda>_. op_result (Inl e)))
       (settle_swap peers reservation targets)"

definition complete_selection :: "tree_peers \<Rightarrow> target_amounts option \<Rightarrow> leaves_reservation \<Rightarrow> leaves_reservation operation" where
  "complete_selection peers targets reservation =
     op_bind (renew_reservation_timelocks peers reservation) (\<lambda>renewed.
       if reservation_matches_target renewed targets then op_return renewed
       else perform_swap_and_update_reservation peers renewed targets)"

partial_function (option) select_loop ::
  "tree_peers \<Rightarrow> target_amounts option \<Rightarrow> reservation_purpose \<Rightarrow> nat \<Rightarrow> nat \<Rightarrow> tree_world
     \<Rightarrow> ((tree_service_error, leaves_reservation) rust_result \<times> tree_world) option" where
  "select_loop peers targets purpose max_wait waits w =
     (case st_try_reserve_leaves targets False purpose w of (r, w1) \<Rightarrow>
        (case r of
           Inl e \<Rightarrow> Some (Inl e, w1)
         | Inr res \<Rightarrow>
             (case res of
                RR_InsufficientFunds \<Rightarrow> Some (Inl TSE_InsufficientFunds, w1)
              | RR_WaitForPending needed available pending \<Rightarrow>
                  if max_wait = 0 then Some (Inl TSE_InsufficientFunds, w1)
                  else (case wait_for_pending_balance peers (Suc waits) max_wait of
                          Inl e \<Rightarrow> Some (Inl e, w1)
                        | Inr _ \<Rightarrow> select_loop peers targets purpose max_wait (Suc waits) w1)
              | RR_Success reservation \<Rightarrow> Some (complete_selection peers targets reservation w1))))"

definition select_leaves ::
  "tree_peers \<Rightarrow> target_amounts option \<Rightarrow> reservation_purpose \<Rightarrow> nat \<Rightarrow> tree_world
     \<Rightarrow> ((tree_service_error, leaves_reservation) rust_result \<times> tree_world) option" where
  "select_leaves peers targets purpose max_wait w = select_loop peers targets purpose max_wait 0 w"

definition reserve_leaves_by_ids :: "tree_node_id list \<Rightarrow> reservation_purpose \<Rightarrow> leaves_reservation operation" where
  "reserve_leaves_by_ids ids purpose = st_try_reserve_leaves_by_ids ids purpose"

definition renew_leaves_timelocks :: "tree_peers \<Rightarrow> tree_node list \<Rightarrow> tree_node list operation" where
  "renew_leaves_timelocks peers ls =
     op_bind (op_result (any_needs_renewal ls)) (\<lambda>due.
       if \<not> due then op_return ls
       else op_bind (st_try_reserve_leaves_by_ids (map tn_id ls) Payment) (\<lambda>reservation.
            op_bind (renew_reservation_timelocks peers reservation) (\<lambda>reservation'.
            op_bind (cancel_reservation peers reservation') (\<lambda>_. op_return (lr_leaves reservation')))))"

definition select_leaves_for_package :: "tree_peers \<Rightarrow> target_amounts option \<Rightarrow> leaf_selection operation" where
  "select_leaves_for_package peers targets =
     op_bind (st_try_select_leaves targets) (\<lambda>sel.
       case sel of
         Exact ls \<Rightarrow> op_bind (renew_leaves_timelocks peers ls) (\<lambda>ls'. op_return (Exact ls'))
       | SwapNeeded ls \<Rightarrow> op_bind (renew_leaves_timelocks peers ls) (\<lambda>ls'. op_return (SwapNeeded ls')))"

definition list_leaves :: "leaves operation" where "list_leaves = st_get_leaves"

definition get_available_balance :: "u64 operation" where "get_available_balance = st_get_available_balance"

subsection \<open>Paying with a reservation\<close>

text \<open>\<open>with_reserved_leaves\<close> of \<^verbatim>\<open>select_helper.rs\<close>: the reservation is finalised when the payment succeeded and cancelled when it
  failed; an error of that is logged and dropped. A panic goes through.\<close>

definition with_reserved_leaves ::
  "tree_peers \<Rightarrow> (tree_world \<Rightarrow> ('e failure, 'r) rust_result \<times> tree_world) \<Rightarrow> leaves_reservation \<Rightarrow> tree_world
     \<Rightarrow> ('e failure, 'r) rust_result \<times> tree_world" where
  "with_reserved_leaves peers f reservation w =
     (case f w of
        (Inl Panicked, w1) \<Rightarrow> (Inl Panicked, w1)
      | (Inr r, w1) \<Rightarrow>
          (case finalize_reservation (lr_id reservation) None w1 of (res, w2) \<Rightarrow> (if res = Inl TSE_Panic then Inl Panicked else Inr r, w2))
      | (Inl (Failed e), w1) \<Rightarrow>
          (case cancel_reservation peers reservation w1 of (res, w2) \<Rightarrow> (if res = Inl TSE_Panic then Inl Panicked else Inl (Failed e), w2)))"

end
