(* ===== verification/Timelock_Manager_Props.thy ===== *)
theory Timelock_Manager_Props
  imports Timelock_Manager Refund_Signing_Props
begin

text \<open>
  What a renewal signs and what a renewal pass gives back (\<open>Timelock_Manager\<close>).

  Every transaction a renewal signs spends the output its signature commits to, the refunds among them pay the
  key the signer holds for the leaf, and only such requests reach the coordinator. A pass neither loses a leaf
  nor fails because the coordinator refuses one.
\<close>

subsection \<open>The transactions signed\<close>

definition refund_type :: "signing_job_type \<Rightarrow> bool" where
  "refund_type ty = (ty \<in> {CpfpRefund, DirectRefund, DirectFromCpfpRefund})"

text \<open>The transaction \<open>tx\<close> has one input, which spends the first output of \<open>parent\<close>.\<close>

definition spends_first :: "bitcoin_api \<Rightarrow> transaction \<Rightarrow> transaction \<Rightarrow> bool" where
  "spends_first api parent tx = (map txi_previous_output (tx_input tx) = [(compute_txid api parent, 0)])"

definition first_out :: "transaction \<Rightarrow> tx_out" where
  "first_out tx = hd (tx_output tx)"

definition pays_key :: "script_api \<Rightarrow> network \<Rightarrow> public_key \<Rightarrow> transaction \<Rightarrow> bool" where
  "pays_key sapi net pk tx =
     (tx_output tx \<noteq> [] \<and> txo_script_pubkey (first_out tx) = p2tr_script sapi (x_only sapi pk) None net)"

definition full_refund_timelock :: "signing_job_type \<Rightarrow> transaction \<Rightarrow> bool" where
  "full_refund_timelock ty tx =
     (\<forall>input \<in> set (tx_input tx). timelock_of (txi_sequence input) = (if ty = CpfpRefund then 2000 else 2050))"

definition good_job :: "timelock_manager \<Rightarrow> tree_node \<Rightarrow> public_key \<Rightarrow> transaction set \<Rightarrow> signing_job \<Rightarrow> bool" where
  "good_job tm node pk parents j =
     (sj_node_id j = tn_id node \<and> sj_signing_public_key j = pk
      \<and> (\<exists>parent \<in> parents. tx_output parent \<noteq> [] \<and> sj_parent_tx_out j = first_out parent
           \<and> spends_first (tm_bitcoin tm) parent (sj_tx j))
      \<and> (refund_type (sj_job_type j) \<longrightarrow> pays_key (tm_script tm) (tm_network tm) pk (sj_tx j)
           \<and> full_refund_timelock (sj_job_type j) (sj_tx j)))"

lemma index0_Inr [simp]: "index0 xs = Inr x \<longleftrightarrow> xs \<noteq> [] \<and> x = hd xs"
  by (cases xs) (auto simp: index0_def)

lemma or_fail_Inr [simp]: "or_fail x e = Inr y \<longleftrightarrow> x = Some y"
  by (cases x) (auto simp: or_fail_def)

lemma create_spark_tx_simps [simp]:
  "tx_output (create_spark_tx op sq v sc fee anchor) \<noteq> []"
  "spends_first api parent (create_spark_tx (compute_txid api parent, 0) sq v sc fee anchor)"
  "first_out (create_spark_tx op sq v sc fee anchor) = \<lparr>txo_value = (if fee then maybe_apply_fee v else v), txo_script_pubkey = sc\<rparr>"
  "txi_sequence ` set (tx_input (create_spark_tx op sq v sc fee anchor)) = {sq}"
  by (simp_all add: create_spark_tx_def spends_first_def first_out_def)

lemma create_node_txs_Inr:
  "create_node_txs api parent cs ds 0 = Inr txs \<longleftrightarrow> tx_output parent \<noteq> [] \<and>
     txs = \<lparr>nt_cpfp_tx = create_spark_tx (compute_txid api parent, 0) cs (txo_value (first_out parent)) (txo_script_pubkey (first_out parent)) False True,
            nt_direct_tx = create_spark_tx (compute_txid api parent, 0) ds (txo_value (first_out parent)) (txo_script_pubkey (first_out parent)) True False\<rparr>"
  by (auto simp: create_node_txs_def Let_def first_out_def hd_conv_nth split: if_splits)

lemma initial_refunds_Inr:
  assumes "encodes_blocks (from_height sapi)"
    and "create_initial_timelock_refund_txs api sapi node_tx (Some direct_tx) pk net = Inr r"
  obtains c d where "timelock_of c = 2000" "timelock_of d = 2050"
    and "rt_cpfp_tx r = create_spark_tx (compute_txid api node_tx, 0) c (txo_value (first_out node_tx)) (p2tr_script sapi (x_only sapi pk) None net) False True"
    and "rt_direct_tx r = Some (create_spark_tx (compute_txid api direct_tx, 0) d (txo_value (first_out direct_tx)) (p2tr_script sapi (x_only sapi pk) None net) True False)"
    and "rt_direct_from_cpfp_tx r = Some (create_spark_tx (compute_txid api node_tx, 0) d (txo_value (first_out node_tx)) (p2tr_script sapi (x_only sapi pk) None net) True False)"
proof -
  obtain c d where cd: "initial_timelock_sequence (from_height sapi) = (c, d)" by fastforce
  have "timelock_of (to_sequence (from_height sapi) b 0) = b" for b
    using timelock_of_to_sequence [OF assms(1), of b 0] by (simp add: spark_sequence_flag_def)
  with cd have "timelock_of c = 2000" "timelock_of d = 2050"
    by (auto simp: initial_timelock_sequence_def timelock_consts)
  then show thesis
    using assms(2) by (intro that [of c d]) (auto simp: create_initial_timelock_refund_txs_def cd create_refund_txs_def Let_def first_out_def)
qed

lemma optional_job_Some [simp]:
  "optional_job node pk ty (Some t) parent = Inr js \<longleftrightarrow> tx_output parent \<noteq> [] \<and> js = [renewal_job node pk ty t (first_out parent)]"
  by (auto simp: optional_job_def first_out_def)

lemma good_jobI:
  assumes "parent \<in> parents" "tx_output parent \<noteq> []" "spends_first (tm_bitcoin tm) parent tx"
    and "refund_type ty \<Longrightarrow> pays_key (tm_script tm) (tm_network tm) pk tx \<and> full_refund_timelock ty tx"
  shows "good_job tm node pk parents (renewal_job node pk ty tx (first_out parent))"
  using assms by (auto simp: good_job_def renewal_job_def)

lemma full_refund_timelock_spark:
  "full_refund_timelock ty (create_spark_tx op sq v sc fee anchor) \<longleftrightarrow> timelock_of sq = (if ty = CpfpRefund then 2000 else 2050)"
  by (simp add: full_refund_timelock_def create_spark_tx_def)

text \<open>What all renewals end with: new refunds of a new node transaction.\<close>

lemma renewal_tail_good:
  assumes enc: "encodes_blocks (from_height (tm_script tm))"
    and r: "create_initial_timelock_refund_txs (tm_bitcoin tm) (tm_script tm) node_tx (Some direct_tx) pk (tm_network tm) = Inr r"
    and outs: "tx_output node_tx \<noteq> []" "tx_output direct_tx \<noteq> []" "node_tx \<in> parents" "direct_tx \<in> parents"
  obtains direct dfc where "rt_direct_tx r = Some direct" "rt_direct_from_cpfp_tx r = Some dfc"
    and "good_job tm node pk parents (renewal_job node pk CpfpRefund (rt_cpfp_tx r) (first_out node_tx))"
    and "good_job tm node pk parents (renewal_job node pk DirectRefund direct (first_out direct_tx))"
    and "good_job tm node pk parents (renewal_job node pk DirectFromCpfpRefund dfc (first_out node_tx))"
  using enc r
proof (rule initial_refunds_Inr)
  fix c d assume "timelock_of c = 2000" "timelock_of d = 2050"
    and eqs: "rt_cpfp_tx r = create_spark_tx (compute_txid (tm_bitcoin tm) node_tx, 0) c (txo_value (first_out node_tx))
           (p2tr_script (tm_script tm) (x_only (tm_script tm) pk) None (tm_network tm)) False True"
      "rt_direct_tx r = Some (create_spark_tx (compute_txid (tm_bitcoin tm) direct_tx, 0) d (txo_value (first_out direct_tx))
           (p2tr_script (tm_script tm) (x_only (tm_script tm) pk) None (tm_network tm)) True False)"
      "rt_direct_from_cpfp_tx r = Some (create_spark_tx (compute_txid (tm_bitcoin tm) node_tx, 0) d (txo_value (first_out node_tx))
           (p2tr_script (tm_script tm) (x_only (tm_script tm) pk) None (tm_network tm)) True False)"
  then show thesis
    by (intro that [OF eqs(2,3)] good_jobI outs) (simp_all add: eqs pays_key_def full_refund_timelock_spark)
qed

lemma good_node_job:
  assumes "tx_output parent \<noteq> []" "parent \<in> parents" "\<not> refund_type ty"
  shows "good_job tm node pk parents (renewal_job node pk ty (create_spark_tx (compute_txid (tm_bitcoin tm) parent, 0) sq v sc fee anchor) (first_out parent))"
  using assms by (intro good_jobI) simp_all

lemma refund_type_simps [simp]:
  "\<not> refund_type CpfpNode" "\<not> refund_type DirectNode" "\<not> refund_type CpfpSplitNode" "\<not> refund_type DirectSplitNode"
  "refund_type CpfpRefund" "refund_type DirectRefund" "refund_type DirectFromCpfpRefund"
  by (simp_all add: refund_type_def)

lemma node_part_good:
  assumes enc: "encodes_blocks (from_height (tm_script tm))"
    and txs: "create_node_txs (tm_bitcoin tm) base cs ds 0 = Inr txs"
    and r: "create_initial_timelock_refund_txs (tm_bitcoin tm) (tm_script tm) (nt_cpfp_tx txs) (Some (nt_direct_tx txs)) pk (tm_network tm)
              = (Inr r :: (service_error failure, refund_transactions) rust_result)"
    and direct: "direct = [] \<or> optional_job node pk DirectRefund (rt_direct_tx r) (nt_direct_tx txs) = Inr direct"
    and dfc: "optional_job node pk DirectFromCpfpRefund (rt_direct_from_cpfp_tx r) (nt_cpfp_tx txs) = Inr dfc"
    and P: "base \<in> P" "nt_cpfp_tx txs \<in> P" "nt_direct_tx txs \<in> P"
  shows "\<forall>j \<in> set ([renewal_job node pk CpfpNode (nt_cpfp_tx txs) (first_out base),
              renewal_job node pk DirectNode (nt_direct_tx txs) (first_out base),
              renewal_job node pk CpfpRefund (rt_cpfp_tx r) (first_out (nt_cpfp_tx txs))] @ direct @ dfc). good_job tm node pk P j"
proof -
  obtain v sc where txs': "tx_output base \<noteq> []"
      "nt_cpfp_tx txs = create_spark_tx (compute_txid (tm_bitcoin tm) base, 0) cs v sc False True"
      "nt_direct_tx txs = create_spark_tx (compute_txid (tm_bitcoin tm) base, 0) ds v sc True False"
    using txs by (auto simp: create_node_txs_Inr)
  have outs: "tx_output (nt_cpfp_tx txs) \<noteq> []" "tx_output (nt_direct_tx txs) \<noteq> []" unfolding txs' by simp_all
  have nodes: "good_job tm node pk P (renewal_job node pk CpfpNode (nt_cpfp_tx txs) (first_out base))"
    "good_job tm node pk P (renewal_job node pk DirectNode (nt_direct_tx txs) (first_out base))"
    unfolding txs'(2,3) by (rule good_node_job [OF txs'(1) P(1)]; simp)+
  show ?thesis
    by (rule renewal_tail_good [OF enc r outs P(2,3), where node = node]) (use nodes direct dfc in auto)
qed

lemma renew_node_jobs_good:
  assumes enc: "encodes_blocks (from_height (tm_script tm))" and jobs: "renew_node_jobs tm node p pk = Inr jobs"
  shows "\<forall>j \<in> set jobs. good_job tm node pk (insert (tn_node_tx p) (sj_tx ` set jobs)) j"
proof -
  let ?P = "insert (tn_node_tx p) (sj_tx ` set jobs)"
  obtain split txs r direct dfc cs ds cs' ds' where split: "create_node_txs (tm_bitcoin tm) (tn_node_tx p) cs ds 0 = Inr split"
      and txs: "create_node_txs (tm_bitcoin tm) (nt_cpfp_tx split) cs' ds' 0 = Inr txs"
      and r: "create_initial_timelock_refund_txs (tm_bitcoin tm) (tm_script tm) (nt_cpfp_tx txs) (Some (nt_direct_tx txs)) pk (tm_network tm)
                = (Inr r :: (service_error failure, refund_transactions) rust_result)"
      and direct: "optional_job node pk DirectRefund (rt_direct_tx r) (nt_direct_tx txs) = Inr direct"
      and dfc: "optional_job node pk DirectFromCpfpRefund (rt_direct_from_cpfp_tx r) (nt_cpfp_tx txs) = Inr dfc"
      and eq: "jobs = [renewal_job node pk CpfpSplitNode (nt_cpfp_tx split) (first_out (tn_node_tx p)),
              renewal_job node pk DirectSplitNode (nt_direct_tx split) (first_out (tn_node_tx p))]
            @ [renewal_job node pk CpfpNode (nt_cpfp_tx txs) (first_out (nt_cpfp_tx split)),
              renewal_job node pk DirectNode (nt_direct_tx txs) (first_out (nt_cpfp_tx split)),
              renewal_job node pk CpfpRefund (rt_cpfp_tx r) (first_out (nt_cpfp_tx txs))] @ direct @ dfc"
    using jobs by (auto simp: renew_node_jobs_def Let_def first_out_def create_zero_timelock_node_txs_def
        create_initial_timelock_node_txs_def case_prod_unfold)
  have P: "nt_cpfp_tx split \<in> ?P" "nt_cpfp_tx txs \<in> ?P" "nt_direct_tx txs \<in> ?P" by (simp_all add: eq renewal_job_def)
  obtain v sc where split': "tx_output (tn_node_tx p) \<noteq> []"
      "nt_cpfp_tx split = create_spark_tx (compute_txid (tm_bitcoin tm) (tn_node_tx p), 0) cs v sc False True"
      "nt_direct_tx split = create_spark_tx (compute_txid (tm_bitcoin tm) (tn_node_tx p), 0) ds v sc True False"
    using split by (auto simp: create_node_txs_Inr)
  have "good_job tm node pk ?P (renewal_job node pk CpfpSplitNode (nt_cpfp_tx split) (first_out (tn_node_tx p)))"
    "good_job tm node pk ?P (renewal_job node pk DirectSplitNode (nt_direct_tx split) (first_out (tn_node_tx p)))"
    unfolding split'(2,3) by (rule good_node_job [OF split'(1)]; simp)+
  moreover note node_part_good [OF enc txs r disjI2 [OF direct] dfc P]
  ultimately show ?thesis unfolding eq by simp
qed

lemma renew_refund_jobs_good:
  assumes enc: "encodes_blocks (from_height (tm_script tm))" and jobs: "renew_refund_jobs tm node p pk = Inr jobs"
  shows "\<forall>j \<in> set jobs. good_job tm node pk (insert (tn_node_tx p) (sj_tx ` set jobs)) j"
proof -
  obtain txs r direct dfc cs ds where txs: "create_node_txs (tm_bitcoin tm) (tn_node_tx p) cs ds 0 = Inr txs"
      and r: "create_initial_timelock_refund_txs (tm_bitcoin tm) (tm_script tm) (nt_cpfp_tx txs) (Some (nt_direct_tx txs)) pk (tm_network tm)
                = (Inr r :: (service_error failure, refund_transactions) rust_result)"
      and direct: "optional_job node pk DirectRefund (rt_direct_tx r) (nt_direct_tx txs) = Inr direct"
      and dfc: "optional_job node pk DirectFromCpfpRefund (rt_direct_from_cpfp_tx r) (nt_cpfp_tx txs) = Inr dfc"
      and eq: "jobs = [renewal_job node pk CpfpNode (nt_cpfp_tx txs) (first_out (tn_node_tx p)),
              renewal_job node pk DirectNode (nt_direct_tx txs) (first_out (tn_node_tx p)),
              renewal_job node pk CpfpRefund (rt_cpfp_tx r) (first_out (nt_cpfp_tx txs))] @ direct @ dfc"
    using jobs by (auto simp: renew_refund_jobs_def Let_def first_out_def create_decremented_timelock_node_txs_def)
  from node_part_good [OF enc txs r disjI2 [OF direct] dfc] show ?thesis unfolding eq by (simp add: renewal_job_def)
qed

lemma renew_zero_jobs_good:
  assumes enc: "encodes_blocks (from_height (tm_script tm))" and jobs: "renew_zero_timelock_jobs tm node pk = Inr jobs"
  shows "\<forall>j \<in> set jobs. good_job tm node pk (insert (tn_node_tx node) (sj_tx ` set jobs)) j"
proof -
  obtain txs r dfc cs ds where txs: "create_node_txs (tm_bitcoin tm) (tn_node_tx node) cs ds 0 = Inr txs"
      and r: "create_initial_timelock_refund_txs (tm_bitcoin tm) (tm_script tm) (nt_cpfp_tx txs) (Some (nt_direct_tx txs)) pk (tm_network tm)
                = (Inr r :: (service_error failure, refund_transactions) rust_result)"
      and dfc: "optional_job node pk DirectFromCpfpRefund (rt_direct_from_cpfp_tx r) (nt_cpfp_tx txs) = Inr dfc"
      and eq: "jobs = [renewal_job node pk CpfpNode (nt_cpfp_tx txs) (first_out (tn_node_tx node)),
              renewal_job node pk DirectNode (nt_direct_tx txs) (first_out (tn_node_tx node)),
              renewal_job node pk CpfpRefund (rt_cpfp_tx r) (first_out (nt_cpfp_tx txs))] @ [] @ dfc"
    using jobs by (auto simp: renew_zero_timelock_jobs_def Let_def first_out_def create_zero_timelock_node_txs_def case_prod_unfold)
  from node_part_good [OF enc txs r _ dfc, where direct = "[]"] show ?thesis unfolding eq by (simp add: renewal_job_def)
qed

subsection \<open>The requests sent\<close>

fun request_txs :: "renew_signing_jobs \<Rightarrow> (signing_job_type \<times> signed_tx option) list" where
  "request_txs (RenewNodeTimelockSigningJob split direct_split n refund direct_node direct_refund dfc) =
     [(CpfpSplitNode, split), (DirectSplitNode, direct_split), (CpfpNode, n), (CpfpRefund, refund), (DirectNode, direct_node),
      (DirectRefund, direct_refund), (DirectFromCpfpRefund, dfc)]"
| "request_txs (RenewRefundTimelockSigningJob n refund direct_node direct_refund dfc) =
     [(CpfpNode, n), (CpfpRefund, refund), (DirectNode, direct_node), (DirectRefund, direct_refund), (DirectFromCpfpRefund, dfc)]"
| "request_txs (RenewNodeZeroTimelockSigningJob n refund direct_node dfc) =
     [(CpfpNode, n), (CpfpRefund, refund), (DirectNode, direct_node), (DirectFromCpfpRefund, dfc)]"

definition own_tx :: "timelock_manager \<Rightarrow> tree_node \<Rightarrow> public_key \<Rightarrow> signing_job_type \<Rightarrow> signed_tx \<Rightarrow> bool" where
  "own_tx tm leaf pk ty t =
     (st_node_id t = tn_id leaf \<and> st_signing_public_key t = pk
      \<and> (refund_type ty \<longrightarrow> pays_key (tm_script tm) (tm_network tm) pk (st_tx t) \<and> full_refund_timelock ty (st_tx t)))"

definition good_request :: "timelock_manager \<Rightarrow> tree_node \<Rightarrow> renew_leaf_request \<Rightarrow> bool" where
  "good_request tm leaf req =
     (rq_leaf_id req = tn_id leaf \<and> (\<exists>pk. get_public_key_for_leaf (tm_signer tm) (tn_id leaf) = Inr pk
        \<and> (\<forall>ty t. (ty, Some t) \<in> set (request_txs (rq_signing_jobs req)) \<longrightarrow> own_tx tm leaf pk ty t)))"

lemma qbind_cong:
  assumes "r = r'" and "\<And>x. r' = Inr x \<Longrightarrow> f x = g x"
  shows "qbind r f = qbind r' g"
  using assms by (cases r') simp_all

lemma from_signer_Inr [simp]: "from_signer r = Inr x \<longleftrightarrow> r = Inr x"
  by (simp add: from_signer_def split: sum.splits)

lemma from_signer_failure_Inr [simp]: "from_signer_failure r = Inr x \<longleftrightarrow> r = Inr x"
  by (simp add: from_signer_failure_def split: sum.splits failure.splits)

lemma sign_renewal_jobs:
  assumes "sign_renewal tm node jobs = Inr js" and "s \<in> set js"
  shows "\<exists>j \<in> set jobs. sd_job_type s = sj_job_type j \<and> st_node_id (sd_signed_tx s) = sj_node_id j
    \<and> st_signing_public_key (sd_signed_tx s) = sj_signing_public_key j \<and> st_tx (sd_signed_tx s) = sj_tx j"
proof -
  obtain cs txs fj where "sign_frost_batch (tm_signer tm) fj jobs = Inr txs" and js: "js = map (into_signed_job (tm_network tm)) (zip txs cs)"
    using assms(1) by (auto simp: sign_renewal_def sign_signing_jobs_def)
  then have fst_txs: "fst ` set txs \<subseteq> set jobs"
    by (auto simp: sign_frost_batch_def zip_checked_def split: if_splits dest: set_zip_leftD)
  from assms(2) js obtain j share c where "((j, share), c) \<in> set (zip txs cs)" "s = into_signed_job (tm_network tm) ((j, share), c)"
    by auto
  with fst_txs show ?thesis by (auto simp: into_signed_job_def dest!: set_zip_leftD intro!: bexI [of _ j])
qed

lemma find_in: "find P xs = Some x \<Longrightarrow> x \<in> set xs \<and> P x"
  by (auto simp: find_Some_iff)

lemma job_for_own:
  assumes jobs: "\<forall>j \<in> set jobs. good_job tm node pk parents j" and sign: "sign_renewal tm node jobs = Inr js"
    and job: "job_for ops js ty = Inr (Some t)"
  shows "own_tx tm node pk ty t"
proof -
  from job obtain s where "s \<in> set js" "sd_job_type s = ty" "t = sd_signed_tx s"
    by (auto simp: job_for_def dest: find_in split: option.splits)
  with sign_renewal_jobs [OF sign] jobs show ?thesis by (fastforce simp: own_tx_def good_job_def)
qed

lemma send_renewal_cong:
  assumes same: "\<forall>req key. good_request tm node req \<longrightarrow> f req key = renew_leaf (tm_operators tm) req key"
    and good: "good_request tm node \<lparr>rq_leaf_id = tn_id node, rq_signing_jobs = js\<rparr>"
  shows "send_renewal (tm\<lparr>tm_operators := (tm_operators tm)\<lparr>renew_leaf := f\<rparr>\<rparr>) node js = send_renewal tm node js"
  using same good by (simp add: send_renewal_def)

lemma renewal_frame [simp]:
  "renew_node_jobs (tm\<lparr>tm_operators := ops\<rparr>) = renew_node_jobs tm"
  "renew_refund_jobs (tm\<lparr>tm_operators := ops\<rparr>) = renew_refund_jobs tm"
  "renew_zero_timelock_jobs (tm\<lparr>tm_operators := ops\<rparr>) = renew_zero_timelock_jobs tm"
  "sign_renewal (tm\<lparr>tm_operators := (tm_operators tm)\<lparr>renew_leaf := f\<rparr>\<rparr>) = sign_renewal tm"
  "job_for ((tm_operators tm)\<lparr>renew_leaf := f\<rparr>) = job_for (tm_operators tm)"
  by (auto simp: fun_eq_iff renew_node_jobs_def renew_refund_jobs_def renew_zero_timelock_jobs_def sign_renewal_def job_for_def
      cong: option.case_cong)

lemma good_requestI:
  assumes pk: "get_public_key_for_leaf (tm_signer tm) (tn_id node) = Inr pk" and jobs: "\<forall>j \<in> set jobs. good_job tm node pk parents j"
    and sign: "sign_renewal tm node jobs = Inr js"
    and req: "\<And>ty t. (ty, Some t) \<in> set (request_txs rs) \<Longrightarrow> job_for ops js ty = Inr (Some t)"
  shows "good_request tm node \<lparr>rq_leaf_id = tn_id node, rq_signing_jobs = rs\<rparr>"
  using pk job_for_own [OF jobs sign req] by (auto simp: good_request_def)

lemma renew_node_cong:
  assumes enc: "encodes_blocks (from_height (tm_script tm))"
    and same: "\<forall>req key. good_request tm node req \<longrightarrow> f req key = renew_leaf (tm_operators tm) req key"
  shows "renew_node (tm\<lparr>tm_operators := (tm_operators tm)\<lparr>renew_leaf := f\<rparr>\<rparr>) node p = renew_node tm node p"
  unfolding renew_node_def Let_def
  by simp (intro qbind_cong refl send_renewal_cong [OF same],
      auto intro!: good_requestI [OF _ renew_node_jobs_good [OF enc]])

lemma renew_refund_cong:
  assumes enc: "encodes_blocks (from_height (tm_script tm))"
    and same: "\<forall>req key. good_request tm node req \<longrightarrow> f req key = renew_leaf (tm_operators tm) req key"
  shows "renew_refund (tm\<lparr>tm_operators := (tm_operators tm)\<lparr>renew_leaf := f\<rparr>\<rparr>) node p = renew_refund tm node p"
  unfolding renew_refund_def Let_def
  by simp (intro qbind_cong refl send_renewal_cong [OF same],
      auto intro!: good_requestI [OF _ renew_refund_jobs_good [OF enc]])

lemma renew_zero_timelock_cong:
  assumes enc: "encodes_blocks (from_height (tm_script tm))"
    and same: "\<forall>req key. good_request tm node req \<longrightarrow> f req key = renew_leaf (tm_operators tm) req key"
  shows "renew_zero_timelock (tm\<lparr>tm_operators := (tm_operators tm)\<lparr>renew_leaf := f\<rparr>\<rparr>) node = renew_zero_timelock tm node"
  unfolding renew_zero_timelock_def Let_def
  by simp (intro qbind_cong refl send_renewal_cong [OF same],
      auto intro!: good_requestI [OF _ renew_zero_jobs_good [OF enc]])

text \<open>\<^bold>\<open>C5\<close>. Only requests whose refunds pay the key that the signer holds for the leaf reach the coordinator, whatever the
  stored keyshare of the leaf or the coordinator says: each carries the leaf's own id and key, and its refunds carry the
  full timelocks. Two coordinators that answer such requests alike cannot be told apart, however they answer others.\<close>

theorem renewal_requests_pay_own_key:
  assumes enc: "encodes_blocks (from_height (tm_script tm))"
    and same: "\<forall>req key. good_request tm (lp_leaf p) req \<longrightarrow> f req key = renew_leaf (tm_operators tm) req key"
  shows "renew_pedigree (tm\<lparr>tm_operators := (tm_operators tm)\<lparr>renew_leaf := f\<rparr>\<rparr>) fetched p = renew_pedigree tm fetched p"
proof -
  have "renew_any (tm\<lparr>tm_operators := (tm_operators tm)\<lparr>renew_leaf := f\<rparr>\<rparr>) (lp_leaf p) nodes fetched = renew_any tm (lp_leaf p) nodes fetched" for nodes
    unfolding renew_any_def renew_node_cong [OF enc same] renew_refund_cong [OF enc same] renew_zero_timelock_cong [OF enc same] ..
  then show ?thesis by (simp add: renew_pedigree_def)
qed

lemma renew_pedigree_Inr:
  assumes "renew_pedigree tm fetched p = Inr q"
  obtains split_node nodes where "renew_any tm (lp_leaf p) (by_id (lp_ancestors p)) fetched = Inr ((lp_leaf q, split_node), nodes)"
    and "lp_ancestors q = walk_ancestors (lp_leaf q) (hm_insert (tn_id (lp_leaf q)) (lp_leaf q)
           (case split_node of None \<Rightarrow> nodes | Some s \<Rightarrow> hm_insert (tn_id s) s nodes))"
  using assms
  by (auto simp: renew_pedigree_def assemble_exit_chains_def List.map_filter_simps update_conv' Let_def split: if_splits)

subsection \<open>A pass over many leaves\<close>

lemma split_by_spec:
  "split_by P xs = Inr (yes, no) \<longleftrightarrow>
     (\<forall>x \<in> set xs. \<exists>b. P x = Inr b) \<and> yes = filter (\<lambda>x. P x = Inr True) xs \<and> no = filter (\<lambda>x. P x = Inr False) xs"
  by (induction xs arbitrary: yes no) (auto split: if_splits)

lemma keep_unrenewed_spec:
  "keep_unrenewed rs = Inr qs \<longleftrightarrow>
     (\<forall>(p, r) \<in> set rs. r \<noteq> Inl Panicked) \<and> qs = map (\<lambda>(p, r). case r of Inl _ \<Rightarrow> p | Inr q \<Rightarrow> q) rs"
  by (induction rs arbitrary: qs rule: keep_unrenewed.induct) (auto split: sum.splits failure.splits)

lemma from_tree_Inr [simp]: "from_tree r = Inr x \<longleftrightarrow> r = Inr x"
  by (simp add: from_tree_def split: sum.splits tree_service_error.splits)

abbreviation renewal_due :: "leaf_pedigree \<Rightarrow> bool" where
  "renewal_due p \<equiv> needs_refund_tx_renewed (lp_leaf p) = Inr True"

definition renewed_or_kept :: "timelock_manager \<Rightarrow> node_map \<Rightarrow> leaf_pedigree \<Rightarrow> leaf_pedigree" where
  "renewed_or_kept tm fetched p = (case renew_pedigree tm fetched p of Inl _ \<Rightarrow> p | Inr q \<Rightarrow> q)"

lemma check_renew_nodes_Inr:
  assumes "check_renew_nodes tm ps = Inr qs"
  obtains fetched where "\<forall>p \<in> set ps. \<exists>b. needs_refund_tx_renewed (lp_leaf p) = Inr b"
    and "qs = filter (\<lambda>p. \<not> renewal_due p) ps @ map (renewed_or_kept tm fetched) (filter renewal_due ps)"
proof -
  let ?P = "\<lambda>p. from_tree (needs_refund_tx_renewed (lp_leaf p))"
  obtain yes no where split: "split_by ?P ps = Inr (yes, no)"
      and rest: "(if yes = [] then Inr no else qbind (fetch_missing_renewal_parents tm yes) (\<lambda>fetched.
            qbind (keep_unrenewed (zip yes (map (renew_pedigree tm fetched) yes))) (\<lambda>renewed. Inr (no @ renewed)))) = Inr qs"
    using assms by (auto simp: check_renew_nodes_def)
  have all: "\<forall>p \<in> set ps. \<exists>b. needs_refund_tx_renewed (lp_leaf p) = Inr b" and yes: "yes = filter renewal_due ps"
    using split by (auto simp: split_by_spec)
  have no: "no = filter (\<lambda>p. \<not> renewal_due p) ps" using split all by (auto simp: split_by_spec intro!: filter_cong)
  have zip_map: "map (\<lambda>(p, r). case r of Inl _ \<Rightarrow> p | Inr q \<Rightarrow> q) (zip ys (map (renew_pedigree tm fetched) ys)) = map (renewed_or_kept tm fetched) ys"
    for fetched ys by (induction ys) (simp_all add: renewed_or_kept_def)
  show thesis
  proof (cases "yes = []")
    case True then show ?thesis using rest yes no by (intro that [of "[]"] all) simp
  next
    case False then show ?thesis using rest yes no that all by (auto simp: keep_unrenewed_spec zip_map)
  qed
qed

text \<open>\<^bold>\<open>C16\<close>. A renewal pass loses no leaf and invents none: as long as the coordinator answers a renewal with the node it
  was asked about, the leaves given back are the leaves given in, those not due come back untouched, and every other
  is either untouched too or the outcome of its own renewal.\<close>

theorem renewal_pass_loses_no_leaf:
  assumes run: "check_renew_nodes tm ps = Inr qs"
    and ids: "\<forall>p \<in> set ps. \<forall>fetched q. renew_pedigree tm fetched p = Inr q \<longrightarrow> tn_id (lp_leaf q) = tn_id (lp_leaf p)"
  shows "mset (map (\<lambda>q. tn_id (lp_leaf q)) qs) = mset (map (\<lambda>p. tn_id (lp_leaf p)) ps)
    \<and> (\<forall>p \<in> set ps. \<not> renewal_due p \<longrightarrow> p \<in> set qs)
    \<and> (\<forall>q \<in> set qs. q \<in> set ps \<or> (\<exists>p \<in> set ps. \<exists>fetched. renewal_due p \<and> renew_pedigree tm fetched p = Inr q))"
proof -
  from run obtain fetched where qs: "qs = filter (\<lambda>p. \<not> renewal_due p) ps @ map (renewed_or_kept tm fetched) (filter renewal_due ps)"
    by (rule check_renew_nodes_Inr)
  have id: "tn_id (lp_leaf (renewed_or_kept tm fetched p)) = tn_id (lp_leaf p)" if "p \<in> set ps" for p
    using ids that by (auto simp: renewed_or_kept_def split: sum.splits)
  have eq: "map (\<lambda>q. tn_id (lp_leaf q)) qs
      = map (\<lambda>q. tn_id (lp_leaf q)) (filter (\<lambda>p. \<not> renewal_due p) ps) @ map (\<lambda>q. tn_id (lp_leaf q)) (filter renewal_due ps)"
    using id by (simp add: qs)
  have part: "mset (map g (filter (\<lambda>p. \<not> Q p) xs) @ map g (filter Q xs)) = mset (map g xs)" for g :: "leaf_pedigree \<Rightarrow> tree_node_id" and Q xs
    by (induction xs) simp_all
  have "mset (map (\<lambda>q. tn_id (lp_leaf q)) qs) = mset (map (\<lambda>p. tn_id (lp_leaf p)) ps)" unfolding eq by (rule part)
  then show ?thesis by (intro conjI) (auto simp: qs renewed_or_kept_def split: sum.splits)
qed

subsection \<open>The chain of a renewed leaf\<close>

lemma by_id_distinct:
  assumes "distinct (map tn_id ns)"
  shows "map_of (by_id ns) k = find (\<lambda>n. tn_id n = k) ns"
proof -
  have "map_of (fold (\<lambda>n m. hm_insert (tn_id n) n m) ns m) k
      = (case find (\<lambda>n. tn_id n = k) ns of None \<Rightarrow> map_of m k | Some n \<Rightarrow> Some n)" if "distinct (map tn_id ns)" for ns m
    using that
  proof (induction ns arbitrary: m)
    case (Cons n ns)
    from Cons.prems have "find (\<lambda>x. tn_id x = tn_id n) ns = None" by (simp add: find_None_iff image_iff) metis
    with Cons show ?case by (auto simp: update_conv' split: option.split)
  qed simp
  from this [OF assms, of "[]"] show ?thesis by (simp add: by_id_def split: option.split)
qed

lemma walked_chain_complete:
  assumes path: "chain_path nodes i ns" and ids: "ids_match nodes" and parent: "tn_parent_node_id leaf = Some i"
  shows "chain_reaches_root leaf (walk_ancestors leaf nodes)"
proof -
  have walk: "walk_ancestors leaf nodes = ns"
    using path_walk_loop [OF path ids, of "[]" "[]"] by (simp add: walk_ancestors_def parent)
  have distinct: "distinct (map tn_id ns)" by (rule chain_path_distinct [OF path ids])
  have "map_of (by_id ns) k = map_of nodes k" if "k \<in> tn_id ` set ns" for k
  proof -
    from that obtain n where n: "find (\<lambda>n. tn_id n = k) ns = Some n" by (cases "find (\<lambda>n. tn_id n = k) ns") (auto simp: find_None_iff)
    then have "n \<in> set ns" "tn_id n = k" by (auto dest: find_in)
    moreover obtain k' where "map_of nodes k' = Some n" using chain_path_in_map [OF path \<open>n \<in> set ns\<close>] by blast
    ultimately have "map_of nodes k = Some n" using ids by (auto simp: ids_match_def)
    with n distinct show ?thesis by (simp add: by_id_distinct)
  qed
  from chain_path_transfer [OF path ids this] show ?thesis
    using path_reaches_loop [OF _ ids_match_by_id, of _ i ns "[]"] by (simp add: chain_reaches_root_def parent walk)
qed

lemma ids_match_insert: "ids_match m \<Longrightarrow> ids_match (hm_insert (tn_id n) n m)"
  by (auto simp: ids_match_def update_conv' split: if_splits)

lemma chain_path_insert:
  assumes "chain_path m i ns" and "ids_match m" and "tn_id n \<notin> tn_id ` set ns"
  shows "chain_path (hm_insert (tn_id n) n m) i ns"
  using assms(3) by (intro chain_path_transfer [OF assms(1,2)]) (auto simp: update_conv' image_iff)

lemma renew_any_nodes:
  assumes "renew_any tm leaf nodes fetched = Inr (r, nodes')" and "\<forall>i. tn_parent_node_id leaf = Some i \<longrightarrow> hm_contains i nodes"
  shows "nodes' = nodes"
  using assms by (auto simp: renew_any_def resolve_renewal_parent_def Let_def split: if_splits)


subsection \<open>Refusals\<close>

lemma from_tree_panic: "from_tree r = Inl Panicked \<longleftrightarrow> (\<exists>e. r = Inl e \<and> (\<forall>m. e \<noteq> TSE_Generic m))"
  by (auto simp: from_tree_def split: sum.splits tree_service_error.splits)

lemma no_panic_renewal [simp]:
  "from_signer r \<noteq> Inl Panicked" "unexpected_response \<noteq> Inl Panicked" "job_for ops js ty \<noteq> Inl Panicked"
  "expected_node w \<noteq> Inl Panicked" "optional_node w \<noteq> Inl Panicked" "send_renewal tm node rs \<noteq> Inl Panicked"
  "index0 xs = Inl Panicked \<longleftrightarrow> xs = []"
  by (auto simp: from_signer_def unexpected_response_def job_for_def expected_node_def optional_node_def send_renewal_def
      qbind_panic index0_def split: sum.splits option.splits list.splits)

definition enough_commitments :: "renewal_api \<Rightarrow> bool" where
  "enough_commitments ops = (\<forall>i n cs. get_signing_commitments ops i n = Inr cs \<longrightarrow> n \<le> length cs)"

lemma sign_renewal_no_panic:
  assumes "enough_commitments (tm_operators tm)"
  shows "sign_renewal tm node jobs \<noteq> Inl Panicked"
proof -
  have "leaf_jobs_from (renewal_frost_job signer cs) i jobs \<noteq> Inl Panicked" if "i + length jobs \<le> length cs" for signer cs i
    using that
    by (induction jobs arbitrary: i) (auto simp: qbind_panic renewal_frost_job_def index_at_def split: sum.splits)
  from this [of 0] show ?thesis
    using assms by (auto simp: sign_renewal_def qbind_panic from_signer_failure_def sign_signing_jobs_def enough_commitments_def
        split: sum.splits failure.splits)
qed

lemma create_node_txs_no_panic: "create_node_txs api parent cs ds v \<noteq> Inl Panicked"
  by (simp add: create_node_txs_def qbind_panic Let_def)

lemma initial_refund_txs_no_panic:
  "tx_output node_tx \<noteq> [] \<Longrightarrow> tx_output direct \<noteq> [] \<Longrightarrow> create_initial_timelock_refund_txs api sapi node_tx (Some direct) pk net \<noteq> Inl Panicked"
  using create_refund_txs_no_panic [of node_tx "Some direct"] by (simp add: create_initial_timelock_refund_txs_def case_prod_unfold)

lemma optional_job_no_panic: "tx_output parent \<noteq> [] \<Longrightarrow> optional_job node pk ty tx parent \<noteq> Inl Panicked"
  by (simp add: optional_job_def qbind_panic split: option.split)

lemma created_node_outputs:
  "create_node_txs api parent cs ds 0 = Inr txs \<Longrightarrow> tx_output parent \<noteq> [] \<and> tx_output (nt_cpfp_tx txs) \<noteq> [] \<and> tx_output (nt_direct_tx txs) \<noteq> []"
  by (simp add: create_node_txs_Inr)

lemmas renewal_panics = qbind_panic create_node_txs_no_panic initial_refund_txs_no_panic optional_job_no_panic
  create_zero_timelock_node_txs_def create_initial_timelock_node_txs_def create_decremented_timelock_node_txs_def case_prod_unfold Let_def

lemma renew_jobs_no_panic:
  "renew_zero_timelock_jobs tm node pk \<noteq> Inl Panicked" "renew_node_jobs tm node p pk \<noteq> Inl Panicked"
  "tx_input (tn_node_tx node) \<noteq> [] \<Longrightarrow> renew_refund_jobs tm node p pk \<noteq> Inl Panicked"
  by (auto simp: renew_zero_timelock_jobs_def renew_node_jobs_def renew_refund_jobs_def renewal_panics dest!: created_node_outputs)

lemma renew_no_panic:
  assumes "enough_commitments (tm_operators tm)" and "tx_input (tn_node_tx node) \<noteq> []"
  shows "renew_zero_timelock tm node \<noteq> Inl Panicked" "renew_node tm node p \<noteq> Inl Panicked" "renew_refund tm node p \<noteq> Inl Panicked"
  using assms sign_renewal_no_panic renew_jobs_no_panic
  by (auto simp: renew_zero_timelock_def renew_node_def renew_refund_def qbind_panic Let_def
      split: option.splits renew_result.splits)

lemma node_checks_ok:
  assumes "tx_input (tn_node_tx node) \<noteq> []"
  shows "\<exists>b. is_zero_timelock node = Inr b" "\<exists>b. needs_node_tx_renewed node = Inr b"
  using assms by (auto simp: is_zero_timelock_def needs_node_tx_renewed_def node_sequence_def first_sequence_def split: list.split)

lemma renew_pedigree_no_panic:
  assumes "enough_commitments (tm_operators tm)" and input: "tx_input (tn_node_tx (lp_leaf p)) \<noteq> []"
  shows "renew_pedigree tm fetched p \<noteq> Inl Panicked"
  using renew_no_panic [OF assms] node_checks_ok [OF input]
  by (auto simp: renew_pedigree_def renew_any_def resolve_renewal_parent_def qbind_panic from_tree_panic Let_def split: if_splits)


subsection \<open>Examples\<close>

text \<open>A coordinator that grants renewals of the refund timelock, and a leaf due for one.\<close>

definition example_due_leaf :: tree_node where
  "example_due_leaf = (example_leaf ''a'' 5000 (Some ''p''))\<lparr>tn_refund_tx :=
     Some ((example_tx ''a'' 5000)\<lparr>tx_input := [\<lparr>txi_previous_output = (''a'', 0), txi_script_sig = [], txi_sequence = 100, txi_witness = []\<rparr>]\<rparr>)\<rparr>"

definition example_coordinator :: "(nat \<Rightarrow> nat) \<Rightarrow> renewal_api" where
  "example_coordinator count_of = \<lparr>get_signing_commitments = (\<lambda>_ n. Inr (replicate (count_of n) [])), encode_failure = (\<lambda>_. None),
     renew_leaf = (\<lambda>req _. case rq_signing_jobs req of
        RenewRefundTimelockSigningJob _ _ _ _ _ \<Rightarrow> Inr (Some (RenewRefundTimelockResult (Some (Inr (example_leaf (rq_leaf_id req) 5000 (Some ''p''))))))
      | _ \<Rightarrow> Inl (SE_Generic ''refused'')),
     query_with_parents = (\<lambda>_. Inl (SE_Generic ''unreachable''))\<rparr>"

definition example_manager :: "(nat \<Rightarrow> nat) \<Rightarrow> timelock_manager" where
  "example_manager count_of = \<lparr>tm_bitcoin = example_api, tm_script = example_script_api, tm_signer = example_signer, tm_network = Regtest,
     tm_operators = example_coordinator count_of\<rparr>"

definition example_due :: leaf_pedigree where
  "example_due = \<lparr>lp_leaf = example_due_leaf, lp_ancestors = [example_leaf ''p'' 5000 None]\<rparr>"

lemma example_due_checks:
  "needs_refund_tx_renewed example_due_leaf = Inr True" "is_zero_timelock example_due_leaf = Inr False"
  "needs_node_tx_renewed example_due_leaf = Inr False" "tn_id example_due_leaf = ''a''" "tn_parent_node_id example_due_leaf = Some ''p''"
  by (simp_all add: example_due_leaf_def needs_refund_tx_renewed_def refund_sequence_def first_sequence_def as_u16_def is_zero_timelock_def
      needs_node_tx_renewed_def node_sequence_def example_leaf_def example_tx_def)

lemma example_jobs:
  "\<exists>jobs. renew_refund_jobs (example_manager count_of) example_due_leaf (example_leaf ''p'' 5000 None) pk = Inr jobs \<and> length jobs = 5"
proof -
  have "\<exists>cd. next_sequence ucast (\<lambda>_. True) 0x400007D0 = Some cd"
    by (simp add: next_sequence_def check_next_timelock_eq timelock_of_ucast)
  then obtain c d where cd: "next_sequence ucast (\<lambda>_. True) 0x400007D0 = Some (c, d)" by auto
  show ?thesis
    by (simp add: renew_refund_jobs_def Let_def create_decremented_timelock_node_txs_def create_node_txs_def create_spark_tx_def
        create_initial_timelock_refund_txs_def create_refund_txs_def optional_job_def example_manager_def example_script_api_def
        example_due_leaf_def example_leaf_def example_tx_def index0_def or_fail_def case_prod_unfold cd)
qed

lemma example_due_renewed:
  "renew_pedigree (example_manager id) [] example_due
     = Inr \<lparr>lp_leaf = example_leaf ''a'' 5000 (Some ''p''), lp_ancestors = [example_leaf ''p'' 5000 None]\<rparr>"
proof -
  let ?tm = "example_manager id"
  obtain jobs where jobs: "renew_refund_jobs ?tm example_due_leaf (example_leaf ''p'' 5000 None) ''key of a'' = Inr jobs" "length jobs = 5"
    using example_jobs by blast
  have enough: "enough_commitments (tm_operators ?tm)" by (simp add: enough_commitments_def example_manager_def example_coordinator_def)
  have frost: "\<exists>fj. leaf_jobs_from (renewal_frost_job example_signer (replicate 5 [])) i js = Inr fj \<and> length fj = length js"
    if "i + length js \<le> 5" for i js
    using that
  proof (induction js arbitrary: i)
    case (Cons j js)
    from Cons.prems have "Suc i + length js \<le> 5" by simp
    from Cons.IH [OF this] obtain fj
      where "leaf_jobs_from (renewal_frost_job example_signer (replicate 5 [])) (Suc i) js = Inr fj" "length fj = length js" by blast
    moreover from Cons.prems have "\<exists>j'. renewal_frost_job example_signer (replicate 5 []) i j = Inr j'"
      by (simp add: renewal_frost_job_def sighash_from_tx_def index_at_def example_signer_def)
    ultimately show ?case by auto
  qed simp
  obtain js where js: "sign_renewal ?tm example_due_leaf jobs = Inr js"
  proof -
    obtain fj where fj: "leaf_jobs_from (renewal_frost_job example_signer (replicate 5 [])) 0 jobs = Inr fj" "length fj = length jobs"
      using frost [of 0 jobs] jobs(2) by auto
    then show thesis
      by (intro that) (simp add: sign_renewal_def example_manager_def example_coordinator_def jobs(2) failing_def sign_signing_jobs_def
          sign_frost_batch_def zip_checked_def from_signer_failure_def example_signer_def)
  qed
  have job: "\<exists>t. job_for (tm_operators ?tm) js ty = Inr t" for ty
    by (auto simp: job_for_def example_manager_def example_coordinator_def split: option.split)
  obtain t1 t2 t3 t4 t5 where t: "job_for (tm_operators ?tm) js CpfpNode = Inr t1" "job_for (tm_operators ?tm) js CpfpRefund = Inr t2"
      "job_for (tm_operators ?tm) js DirectNode = Inr t3" "job_for (tm_operators ?tm) js DirectRefund = Inr t4"
      "job_for (tm_operators ?tm) js DirectFromCpfpRefund = Inr t5"
    using job by metis
  have key: "get_public_key_for_leaf (tm_signer ?tm) ''a'' = Inr ''key of a''" by (simp add: example_manager_def example_signer_def)
  have answer: "send_renewal ?tm example_due_leaf (RenewRefundTimelockSigningJob t1 t2 t3 t4 t5)
      = Inr (Some (RenewRefundTimelockResult (Some (Inr (example_leaf ''a'' 5000 (Some ''p''))))))"
    by (simp add: send_renewal_def example_manager_def example_coordinator_def failing_def example_due_checks)
  have "renew_refund ?tm example_due_leaf (example_leaf ''p'' 5000 None) = Inr (example_leaf ''a'' 5000 (Some ''p''), None)"
    unfolding renew_refund_def Let_def example_due_checks key from_signer_def
    by (simp add: jobs js t answer expected_node_def or_fail_def failing_def)
  then show ?thesis
    by (simp add: renew_pedigree_def renew_any_def example_due_def example_due_checks from_tree_def resolve_renewal_parent_def
        by_id_def or_fail_def assemble_exit_chains_def walk_ancestors_def List.map_filter_simps walk_loop.simps(2))
qed

lemma renew_refund_keeps_parent: "renew_refund tm node parent = Inr (n, s) \<Longrightarrow> s = None"
proof -
  have "(case r of Some (RenewRefundTimelockResult w) \<Rightarrow> qbind (expected_node w) (\<lambda>n. Inr (n, None)) | _ \<Rightarrow> unexpected_response) = Inr (n, s) \<Longrightarrow> s = None" for r
    by (auto simp: unexpected_response_def split: option.splits renew_result.splits)
  then show "renew_refund tm node parent = Inr (n, s) \<Longrightarrow> s = None" by (auto simp: renew_refund_def Let_def)
qed

lemma example_renewal_ids:
  assumes "renew_pedigree (example_manager id) fetched p = Inr q"
  shows "tn_id (lp_leaf q) = tn_id (lp_leaf p)"
proof -
  have "tn_id n = tn_id node" if "renew_refund (example_manager id) node parent = Inr (n, s)" for node parent n s
    using that by (auto simp: renew_refund_def Let_def send_renewal_def example_manager_def example_coordinator_def failing_def
        expected_node_def or_fail_def unexpected_response_def split: option.splits renew_result.splits sum.splits)
  moreover have "renew_node (example_manager id) node parent \<noteq> Inr r" "renew_zero_timelock (example_manager id) node \<noteq> Inr r" for node parent r
    by (auto simp: renew_node_def renew_zero_timelock_def Let_def send_renewal_def example_manager_def example_coordinator_def failing_def)
  ultimately show ?thesis
    using assms by (elim renew_pedigree_Inr) (auto simp: renew_any_def split: if_splits)
qed

lemma example_refund_pass:
  "check_renew_nodes (example_manager id) [example_due, \<lparr>lp_leaf = example_leaf ''b'' 7 None, lp_ancestors = []\<rparr>]
     = Inr [\<lparr>lp_leaf = example_leaf ''b'' 7 None, lp_ancestors = []\<rparr>,
            \<lparr>lp_leaf = example_leaf ''a'' 5000 (Some ''p''), lp_ancestors = [example_leaf ''p'' 5000 None]\<rparr>]"
proof -
  have "needs_refund_tx_renewed (example_leaf ''b'' 7 None) = Inr False"
    by (simp add: needs_refund_tx_renewed_def refund_sequence_def first_sequence_def as_u16_def example_leaf_def example_tx_def)
  moreover have "lacks_renewal_parent example_due = Inr False"
    by (simp add: lacks_renewal_parent_def example_due_def example_due_checks from_tree_def)
  moreover have "needs_refund_tx_renewed (lp_leaf example_due) = Inr True" by (simp add: example_due_def example_due_checks)
  ultimately show ?thesis
    using example_due_renewed by (simp add: check_renew_nodes_def from_tree_def fetch_missing_renewal_parents_def)
qed

lemma renewal_pass_loses_no_leaf_witness:
  "\<exists>qs. check_renew_nodes (example_manager id) [example_due, \<lparr>lp_leaf = example_leaf ''b'' 7 None, lp_ancestors = []\<rparr>] = Inr qs
     \<and> mset (map (\<lambda>q. tn_id (lp_leaf q)) qs) = {#''a'', ''b''#} \<and> qs \<noteq> [example_due]"
  using renewal_pass_loses_no_leaf [OF example_refund_pass] example_renewal_ids example_refund_pass
  by (auto simp: example_due_def example_due_checks)

lemma renewal_requests_pay_own_key_witness:
  "renew_pedigree ((example_manager id)\<lparr>tm_operators := (tm_operators (example_manager id))\<lparr>renew_leaf :=
       (\<lambda>req key. if good_request (example_manager id) example_due_leaf req then renew_leaf (example_coordinator id) req key
                  else Inl (SE_Generic ''never asked''))\<rparr>\<rparr>) [] example_due
     = Inr \<lparr>lp_leaf = example_leaf ''a'' 5000 (Some ''p''), lp_ancestors = [example_leaf ''p'' 5000 None]\<rparr>"
proof -
  have "encodes_blocks (from_height (tm_script (example_manager id)))"
    by (simp add: encodes_blocks_def example_manager_def example_script_api_def)
  moreover have "lp_leaf example_due = example_due_leaf" "tm_operators (example_manager id) = example_coordinator id"
    by (simp_all add: example_due_def example_manager_def)
  ultimately show ?thesis
    using renewal_requests_pay_own_key [where p = example_due and tm = "example_manager id" and fetched = "[]"] example_due_renewed by simp
qed


text \<open>The commitments are indexed by job: a coordinator that sends one too few makes the pass panic.\<close>

lemma short_commitments_panic:
  assumes "i \<le> length cs" and "length cs < i + length js"
  shows "leaf_jobs_from (renewal_frost_job example_signer cs) i js = Inl Panicked"
  using assms
proof (induction js arbitrary: i)
  case (Cons j js)
  show ?case
  proof (cases "i < length cs")
    case True
    then have "\<exists>j'. renewal_frost_job example_signer cs i j = Inr j'"
      by (simp add: renewal_frost_job_def sighash_from_tx_def index_at_def example_signer_def)
    with True Cons show ?thesis by auto
  next
    case False then show ?thesis by (simp add: renewal_frost_job_def sighash_from_tx_def index_at_def example_signer_def)
  qed
qed simp

lemma short_commitments_panic_renewal:
  "check_renew_nodes (example_manager (\<lambda>_. 4)) [example_due] = Inl Panicked"
proof -
  let ?tm = "example_manager (\<lambda>_. 4)"
  obtain jobs where jobs: "renew_refund_jobs ?tm example_due_leaf (example_leaf ''p'' 5000 None) ''key of a'' = Inr jobs" "length jobs = 5"
    using example_jobs by blast
  have sign: "sign_renewal ?tm example_due_leaf jobs = Inl Panicked"
    using short_commitments_panic [of 0 "replicate 4 []" jobs] jobs(2)
    by (simp add: sign_renewal_def example_manager_def example_coordinator_def failing_def sign_signing_jobs_def from_signer_failure_def)
  have key: "get_public_key_for_leaf (tm_signer ?tm) ''a'' = Inr ''key of a''" by (simp add: example_manager_def example_signer_def)
  have "renew_refund ?tm example_due_leaf (example_leaf ''p'' 5000 None) = Inl Panicked"
    unfolding renew_refund_def Let_def example_due_checks key from_signer_def by (simp add: jobs sign)
  then have "renew_pedigree ?tm [] example_due = Inl Panicked"
    by (simp add: renew_pedigree_def renew_any_def example_due_def example_due_checks from_tree_def resolve_renewal_parent_def by_id_def or_fail_def)
  then show ?thesis
    by (simp add: check_renew_nodes_def fetch_missing_renewal_parents_def lacks_renewal_parent_def example_due_def example_due_checks from_tree_def)
qed


end
