(* ===== verification/Tree_Service_Props.thy ===== *)
theory Tree_Service_Props
  imports Tree_Service Tree_Store_Props Timelock_Manager_Props
begin

text \<open>
  What the tree service does to the wallet's leaves (\<open>Tree_Service\<close>): which leaves a refresh, a restored backup and a
  cancelled reservation let into the pool, what a selection returns, and which reservations are left behind.
\<close>

subsection \<open>Running operations\<close>

lemma op_return_simp [simp]: "op_return x w = (Inr x, w)"
  by (simp add: op_return_def)

lemma op_result_simp [simp]: "op_result r w = (r, w)"
  by (simp add: op_result_def)

lemma op_bind_Inr [simp]: "op_bind m f w = (Inr y, w') \<longleftrightarrow> (\<exists>x w1. m w = (Inr x, w1) \<and> f x w1 = (Inr y, w'))"
  by (auto simp: op_bind_def split: prod.split sum.split)

lemma op_match_Inr [simp]:
  "op_match m h f w = (Inr y, w') \<longleftrightarrow>
     (\<exists>e w1. m w = (Inl e, w1) \<and> e \<noteq> TSE_Panic \<and> h e w1 = (Inr y, w')) \<or> (\<exists>x w1. m w = (Inr x, w1) \<and> f x w1 = (Inr y, w'))"
  by (auto simp: op_match_def split: prod.split sum.split)

lemma ask_Inr [simp]: "ask f w = (Inr y, w') \<longleftrightarrow> f (tw_step w) = Inr y \<and> w' = w\<lparr>tw_step := Suc (tw_step w)\<rparr>"
  by (auto simp: ask_def)

text \<open>No other task touches the store while the operation runs.\<close>

definition alone :: "tree_world \<Rightarrow> bool" where
  "alone w = (\<forall>k. ce_before (tw_calls w k) = id)"

lemma store_call_alone:
  assumes "alone w" and "store_call f w = (Inr y, w')"
  shows "f (tw_calls w (tw_step w)) (tw_store w) = (Inr y, tw_store w') \<and> tw_calls w' = tw_calls w"
  using assms by (auto simp: store_call_def alone_def Let_def split: option.splits prod.splits)

text \<open>What holds of the worlds before and after each step holds of sequences and matches of steps.\<close>

locale operation_frame =
  fixes before :: "tree_world \<Rightarrow> bool" and frame :: "tree_world \<Rightarrow> tree_world \<Rightarrow> bool"
  assumes frame_trans: "frame w w1 \<Longrightarrow> frame w1 w2 \<Longrightarrow> frame w w2" and frame_before: "before w \<Longrightarrow> frame w w1 \<Longrightarrow> before w1"
begin

lemma bind_frame:
  assumes "\<And>w. before w \<Longrightarrow> frame w (snd (m w))" and "\<And>x w. before w \<Longrightarrow> frame w (snd (f x w))" and "before w"
  shows "frame w (snd (op_bind m f w))"
proof (cases "m w")
  case (Pair r w1)
  with assms(1) [OF assms(3)] have w1: "frame w w1" by simp
  then have "frame w (snd (f x w1))" for x using assms(2,3) frame_before frame_trans by blast
  with Pair w1 show ?thesis by (cases r) (simp_all add: op_bind_def)
qed

lemma match_frame:
  assumes "\<And>w. before w \<Longrightarrow> frame w (snd (m w))" and "\<And>e w. before w \<Longrightarrow> frame w (snd (h e w))" and "\<And>x w. before w \<Longrightarrow> frame w (snd (f x w))"
    and "before w"
  shows "frame w (snd (op_match m h f w))"
proof (cases "m w")
  case (Pair r w1)
  with assms(1) [OF assms(4)] have w1: "frame w w1" by simp
  then have "frame w (snd (h e w1))" "frame w (snd (f x w1))" for e x using assms(2-4) frame_before frame_trans by blast+
  with Pair w1 show ?thesis by (cases r) (simp_all add: op_match_def)
qed

end

interpretation calls: operation_frame "\<lambda>_. True" "\<lambda>w w'. tw_calls w' = tw_calls w"
  by unfold_locales simp_all

text \<open>An operation keeps the schedule of the outside.\<close>

definition keeps_calls :: "'a operation \<Rightarrow> bool" where
  "keeps_calls m = (\<forall>w. tw_calls (snd (m w)) = tw_calls w)"

lemma keeps_calls_basic [simp]:
  "keeps_calls (op_return x)" "keeps_calls (op_result r)" "keeps_calls (ask g)" "keeps_calls (store_call f)"
  "keeps_calls (signal_exit_state_changed peers)" "keeps_calls (notify_leaves_added ls)"
  by (auto simp: keeps_calls_def op_return_def op_result_def ask_def store_call_def signal_exit_state_changed_def
      notify_leaves_added_def Let_def split: option.split prod.split)

lemma keeps_calls_bind: "keeps_calls m \<Longrightarrow> (\<And>x. keeps_calls (f x)) \<Longrightarrow> keeps_calls (op_bind m f)"
  unfolding keeps_calls_def using calls.bind_frame [of m f] by simp

lemma keeps_calls_match: "keeps_calls m \<Longrightarrow> (\<And>e. keeps_calls (h e)) \<Longrightarrow> (\<And>x. keeps_calls (f x)) \<Longrightarrow> keeps_calls (op_match m h f)"
  unfolding keeps_calls_def using calls.match_frame [of m h f] by simp

lemma keeps_callsD: "keeps_calls m \<Longrightarrow> m w = (r, w') \<Longrightarrow> tw_calls w' = tw_calls w"
  by (metis keeps_calls_def snd_conv)

lemma alone_keeps: "alone w \<Longrightarrow> tw_calls w' = tw_calls w \<Longrightarrow> alone w'"
  by (simp add: alone_def)

subsection \<open>Ownership\<close>

text \<open>The wallet's key for the leaf and the operators' share combine to the leaf's verifying key.\<close>

definition owns :: "signer_api \<Rightarrow> tree_node \<Rightarrow> bool" where
  "owns signer leaf =
     (\<exists>k. get_public_key_for_leaf signer (tn_id leaf) = Inr k
        \<and> combine_keys signer k (ks_public_key (tn_signing_keyshare leaf)) = Inr (tn_verifying_public_key leaf))"

lemma owned_ids_spec:
  assumes "own_keys signer ls = Inr ks" and "owned_ids signer (zip ls ks) = Inr ids"
  shows "set ids = tn_id ` {l \<in> set ls. owns signer l}"
  using assms
proof (induction ls arbitrary: ks ids)
  case (Cons l ls)
  obtain k ks' where k: "get_public_key_for_leaf signer (tn_id l) = Inr k" "own_keys signer ls = Inr ks'" "ks = k # ks'"
    using Cons.prems(1) by (auto split: sum.splits)
  obtain c ids' where c: "combine_keys signer k (ks_public_key (tn_signing_keyshare l)) = Inr c" "owned_ids signer (zip ls ks') = Inr ids'"
      "ids = (if c = tn_verifying_public_key l then tn_id l # ids' else ids')"
    using Cons.prems(2) k(3) by (auto split: sum.splits if_splits)
  from Cons.IH [OF k(2) c(2)] k(1) c(1,3) show ?case by (auto simp: owns_def)
qed simp

lemma retain_owned_spec:
  "retain_owned peers ls = Inr ids \<Longrightarrow> set ids = tn_id ` {l \<in> set ls. owns (tp_signer peers) l}"
  unfolding retain_owned_def using owned_ids_spec by auto

subsection \<open>What the store holds\<close>

definition hm_vals :: "('k, 'v) hash_map \<Rightarrow> 'v set" where
  "hm_vals m = snd ` set m"

definition reserved_held :: "(leaves_reservation_id, reservation_entry) hash_map \<Rightarrow> stored_leaf set" where
  "reserved_held rs = (\<Union>e \<in> hm_vals rs. set (re_leaves e))"

definition held :: "leaves_state \<Rightarrow> stored_leaf set" where
  "held s = hm_vals (ls_leaves s) \<union> reserved_held (ls_leaves_reservations s)"

lemma vals_simps [simp]: "hm_vals [] = {}" "hm_vals ((k, v) # m) = insert v (hm_vals m)" "map_of m k = Some v \<Longrightarrow> v \<in> hm_vals m"
  by (auto simp: hm_vals_def dest: map_of_SomeD intro: rev_image_eqI)

lemma hm_valsI: "(k, v) \<in> set m \<Longrightarrow> v \<in> hm_vals m"
  by (auto simp: hm_vals_def intro: rev_image_eqI)

lemma vals_insert: "hm_vals (hm_insert k v m) \<subseteq> insert v (hm_vals m)"
  using set_insert_subset [of k v m] by (auto simp: hm_vals_def)

lemma vals_remove: "hm_vals (hm_remove k m) \<subseteq> hm_vals m"
  using set_remove_subset [of k m] by (auto simp: hm_vals_def)

lemma reserved_held_simps [simp]: "reserved_held [] = {}" "reserved_held ((k, e) # rs) = set (re_leaves e) \<union> reserved_held rs"
  by (simp_all add: reserved_held_def)

lemma fold_insert_unspent_values: "hm_vals (fold (insert_unspent spent mk) ls pool) \<subseteq> hm_vals pool \<union> mk ` set ls"
proof (induction ls arbitrary: pool)
  case (Cons l ls)
  have "hm_vals (insert_unspent spent mk l pool) \<subseteq> insert (mk l) (hm_vals pool)"
    using vals_insert [of "tn_id l" "mk l" pool] by (auto simp: insert_unspent_def)
  with Cons.IH [of "insert_unspent spent mk l pool"] show ?case by auto
qed simp

lemma fold_preserve_recent_values: "hm_vals (fold (preserve_recent started) old pool) \<subseteq> hm_vals pool \<union> hm_vals old"
proof (induction old arbitrary: pool)
  case (Cons kv old)
  obtain k v where kv: "kv = (k, v)" by fastforce
  have "hm_vals (preserve_recent started kv pool) \<subseteq> insert v (hm_vals pool)"
    using vals_insert [of k v pool] by (auto simp: preserve_recent_def kv)
  with Cons.IH [of "preserve_recent started kv pool"] show ?case by (auto simp: kv)
qed simp

lemma refreshed_pool_values:
  "hm_vals (refreshed_pool now ls missing started spent old)
     \<subseteq> hm_vals old \<union> (\<lambda>l. from_node l now) ` set ls \<union> (\<lambda>l. from_node_missing l now) ` set missing"
proof -
  let ?p1 = "fold (insert_unspent spent (\<lambda>l. from_node l now)) ls []"
  let ?p2 = "fold (insert_unspent spent (\<lambda>l. from_node_missing l now)) missing ?p1"
  have "hm_vals ?p1 \<subseteq> (\<lambda>l. from_node l now) ` set ls" using fold_insert_unspent_values [of spent _ ls "[]"] by simp
  moreover have "hm_vals ?p2 \<subseteq> hm_vals ?p1 \<union> (\<lambda>l. from_node_missing l now) ` set missing" by (rule fold_insert_unspent_values)
  moreover have "hm_vals (fold (preserve_recent started) old ?p2) \<subseteq> hm_vals ?p2 \<union> hm_vals old" by (rule fold_preserve_recent_values)
  ultimately show ?thesis unfolding refreshed_pool_def Let_def by blast
qed

lemma refresh_entry_values:
  "refresh_entry pool sls = (pool', sls') \<Longrightarrow> hm_vals pool' \<subseteq> hm_vals pool \<and> set sls' \<subseteq> set sls \<union> hm_vals pool"
proof (induction pool sls arbitrary: pool' sls' rule: refresh_entry.induct)
  case (2 pool sl sls)
  show ?case
  proof (cases "map_of pool (sl_id sl)")
    case None
    obtain p q where pq: "refresh_entry pool sls = (p, q)" by fastforce
    from 2(1) [OF None pq] 2(3) None pq show ?thesis by auto
  next
    case (Some fresh)
    obtain p q where pq: "refresh_entry (hm_remove (sl_id sl) pool) sls = (p, q)" by fastforce
    then have eq: "pool' = p" "sls' = fresh # q" using 2(3) Some by simp_all
    have "fresh \<in> hm_vals pool" using Some by simp
    with 2(2) [OF Some pq] vals_remove [of "sl_id sl" pool] show ?thesis unfolding eq set_simps by blast
  qed
qed simp

lemma refresh_reservations_values:
  "refresh_reservations pool rs = (pool', rs') \<Longrightarrow> hm_vals pool' \<subseteq> hm_vals pool \<and> reserved_held rs' \<subseteq> reserved_held rs \<union> hm_vals pool"
proof (induction pool rs arbitrary: pool' rs' rule: refresh_reservations.induct)
  case (2 pool r e rs)
  obtain p sls where e: "refresh_entry pool (re_leaves e) = (p, sls)" by fastforce
  obtain p' q where q: "refresh_reservations p rs = (p', q)" by fastforce
  then have eq: "pool' = p'" "rs' = (r, e\<lparr>re_leaves := sls\<rparr>) # q" using 2(2) e by simp_all
  from 2(1) [OF e [symmetric] q] refresh_entry_values [OF e] show ?case
    unfolding eq reserved_held_simps by (simp add: subset_iff) blast
qed simp

lemma set_leaves_held:
  "held (snd (process_set_leaves now ls missing started s))
     \<subseteq> held s \<union> (\<lambda>l. from_node l now) ` set ls \<union> (\<lambda>l. from_node_missing l now) ` set missing"
proof (cases "has_active_swap s \<or> swap_completed_during_refresh s started")
  case False
  let ?spent = "hm_retain (\<lambda>_ spent_at. spent_at \<ge> started) (ls_spent_leaf_ids s)"
  obtain pool rs where r: "refresh_reservations (refreshed_pool now ls missing started ?spent (ls_leaves s)) (ls_leaves_reservations s) = (pool, rs)"
    by fastforce
  have "held (snd (process_set_leaves now ls missing started s)) = hm_vals pool \<union> reserved_held rs"
    unfolding held_def set_leaves_proceed [OF False refl r] by simp
  with refresh_reservations_values [OF r] refreshed_pool_values [of now ls missing started ?spent "ls_leaves s"]
  show ?thesis unfolding held_def [of s] by blast
qed (auto simp: process_set_leaves_def)

lemma store_ancestors_held [simp]: "held (snd (process_store_ancestors ps s)) = held s"
  unfolding process_store_ancestors_def by (induction ps arbitrary: s) (simp_all add: held_def)

lemma st_store_ancestors_alone [simp]: "alone w \<Longrightarrow> held (tw_store (snd (st_store_ancestors ps w))) = held (tw_store w)"
  by (simp add: store_call_def st_store_ancestors_def alone_def Let_def case_prod_unfold split: option.split)

lemma signal_store [simp]: "tw_store (snd (signal_exit_state_changed peers w)) = tw_store w" "tw_store (snd (notify_leaves_added ls w)) = tw_store w"
  by (simp_all add: signal_exit_state_changed_def notify_leaves_added_def)

lemma store_renewed_chains_alone:
  assumes "alone w"
  shows "held (tw_store (snd (store_renewed_chains peers ps landed w))) = held (tw_store w)"
  using assms by (simp add: store_renewed_chains_def op_match_def Let_def case_prod_unfold split: sum.split)

subsection \<open>Refreshing\<close>

lemma missing_operator_leaves_spec:
  "hm_contains i (missing_operator_leaves cl answers) \<longleftrightarrow> (\<exists>a \<in> set answers. \<exists>l \<in> set cl. tn_id l = i \<and> \<not> operator_agrees a l)"
  "hm_vals (missing_operator_leaves cl answers) \<subseteq> set cl"
proof -
  have keys: "fst ` set (missing_from cl a m) = fst ` set m \<union> {tn_id l |l. l \<in> set cl \<and> \<not> operator_agrees a l}" for cl a m
    unfolding missing_from_def by (induction cl arbitrary: m) auto
  have vals: "hm_vals (missing_from cl a m) \<subseteq> hm_vals m \<union> set cl" for cl a m
    unfolding missing_from_def
  proof (induction cl arbitrary: m)
    case (Cons l cl)
    show ?case using Cons.IH [of m] Cons.IH [of "hm_insert (tn_id l) l m"] vals_insert [of "tn_id l" l m] by auto
  qed simp
  have "fst ` set (fold (missing_from cl) answers m) = fst ` set m \<union> {tn_id l |l a. l \<in> set cl \<and> a \<in> set answers \<and> \<not> operator_agrees a l}" for m
    by (induction answers arbitrary: m) (auto simp: keys)
  from this [of "[]"] show "hm_contains i (missing_operator_leaves cl answers) \<longleftrightarrow> (\<exists>a \<in> set answers. \<exists>l \<in> set cl. tn_id l = i \<and> \<not> operator_agrees a l)"
    by (auto simp: missing_operator_leaves_def)
  have "hm_vals (fold (missing_from cl) answers m) \<subseteq> hm_vals m \<union> set cl" for m
  proof (induction answers arbitrary: m)
    case (Cons a as) show ?case using Cons.IH [of "missing_from cl a m"] vals [of cl a m] by auto
  qed simp
  from this [of "[]"] show "hm_vals (missing_operator_leaves cl answers) \<subseteq> set cl" by (simp add: missing_operator_leaves_def)
qed

lemma ignored_leaves_keys: "hm_contains i (ignored_leaves unverified owned) \<longleftrightarrow> i \<in> tn_id ` set unverified - set owned"
proof -
  have "fst ` set (fold (\<lambda>leaf m. if tn_id leaf \<in> set owned then m else hm_insert (tn_id leaf) leaf m) unverified m)
      = fst ` set m \<union> (tn_id ` set unverified - set owned)" for m
    by (induction unverified arbitrary: m) auto
  from this [of "[]"] show ?thesis by (simp add: ignored_leaves_def)
qed

lemma drop_parents_subset: "set (drop_parents nodes) \<subseteq> set nodes"
  by (auto simp: drop_parents_def Let_def)

lemma collect_ok_Inr: "collect_ok rs = Inr xs \<longleftrightarrow> map Inr xs = rs"
  by (induction rs arbitrary: xs) auto

lemma check_renew_nodes_elem:
  assumes "check_renew_nodes tm ps = Inr qs" and "q \<in> set qs"
  shows "q \<in> set ps \<or> (\<exists>p \<in> set ps. \<exists>fetched. renewal_due p \<and> renew_pedigree tm fetched p = Inr q)"
  using assms(1)
proof (rule check_renew_nodes_Inr)
  fix fetched assume "qs = filter (\<lambda>p. \<not> renewal_due p) ps @ map (renewed_or_kept tm fetched) (filter renewal_due ps)"
  with assms(2) show ?thesis by (auto simp: renewed_or_kept_def split: sum.splits)
qed

lemma svc_check_renew_Inr:
  assumes "svc_check_renew_nodes peers ps w = (Inr ro, w')"
  shows "check_renew_nodes (tp_manager peers (tw_step w)) ps = Inr (ro_pedigrees ro) \<and> tw_store w' = tw_store w \<and> tw_calls w' = tw_calls w"
  using assms by (auto simp: svc_check_renew_nodes_def split: sum.splits failure.splits)

text \<open>The wallet can vouch for a leaf: it owns it, or it had stored it with the same keys before (remote signers only).\<close>

definition vouched :: "tree_peers \<Rightarrow> leaves_state \<Rightarrow> tree_node \<Rightarrow> bool" where
  "vouched peers s l =
     (owns (tp_signer peers) l \<or> tp_is_remote peers \<and> (\<exists>sl \<in> held s. sl_id sl = tn_id l
        \<and> tn_verifying_public_key (sl_node sl) = tn_verifying_public_key l
        \<and> ks_public_key (tn_signing_keyshare (sl_node sl)) = ks_public_key (tn_signing_keyshare l)))"

lemma verified_keys_held:
  assumes "process_get_leaves s = Inr lv" and "already_verified (verified_leaf_keys_from_leaves lv) l"
  shows "\<exists>sl \<in> held s. sl_id sl = tn_id l \<and> tn_verifying_public_key (sl_node sl) = tn_verifying_public_key l
    \<and> ks_public_key (tn_signing_keyshare (sl_node sl)) = ks_public_key (tn_signing_keyshare l)"
proof -
  let ?keys = "\<lambda>n. \<lparr>vk_verifying_public_key = tn_verifying_public_key n, vk_signing_keyshare_public_key = ks_public_key (tn_signing_keyshare n)\<rparr>"
  have fold: "map_of (fold (\<lambda>leaf m. hm_insert (tn_id leaf) (?keys leaf) m) ns m) i = Some k
      \<Longrightarrow> (\<exists>n \<in> set ns. tn_id n = i \<and> k = ?keys n) \<or> map_of m i = Some k" for ns m i k
  proof (induction ns arbitrary: m)
    case (Cons n ns)
    from Cons.IH [of "hm_insert (tn_id n) (?keys n) m"] Cons.prems show ?case by (auto simp: update_conv' split: if_splits)
  qed simp
  obtain k where k: "map_of (verified_leaf_keys_from_leaves lv) (tn_id l) = Some k" "vk_verifying_public_key k = tn_verifying_public_key l"
      "vk_signing_keyshare_public_key k = ks_public_key (tn_signing_keyshare l)"
    using assms(2) by (auto simp: already_verified_def split: option.splits)
  from fold [of "all_leaves lv" "[]"] k(1) obtain n where n: "n \<in> set (all_leaves lv)" "tn_id n = tn_id l" "k = ?keys n"
    by (auto simp: verified_leaf_keys_from_leaves_def)
  have "n \<in> sl_node ` held s"
    using n(1) assms(1)
    by (auto simp: process_get_leaves_def Let_def all_leaves_def held_def reserved_held_def entry_nodes_def intro!: imageI dest!: hm_valsI)
  with n k(2,3) show ?thesis by auto
qed

text \<open>A leaf that passes the filters of a refresh is vouched for and every operator reports it as the coordinator does.\<close>

lemma refresh_filters:
  assumes owned: "retain_owned peers (filter (\<lambda>l. \<not> already_verified verified l) cl) = Inr owned" and distinct: "distinct (map tn_id cl)"
    and l: "l \<in> set cl" "\<not> hm_contains (tn_id l) (ignored_leaves (filter (\<lambda>l. \<not> already_verified verified l) cl) owned)"
  shows "owns (tp_signer peers) l \<or> already_verified verified l"
proof (rule ccontr)
  assume not: "\<not> (owns (tp_signer peers) l \<or> already_verified verified l)"
  then have "tn_id l \<in> set owned" using l unfolding ignored_leaves_keys by auto
  then obtain l' where l': "l' \<in> set cl" "owns (tp_signer peers) l'" "tn_id l' = tn_id l"
    using retain_owned_spec [OF owned] by auto
  with l(1) distinct have "l' = l" by (meson distinct_map inj_onD)
  with l' not show False by simp
qed

lemma refresh_reported_run:
  assumes alone: "alone w" and run: "refresh_reported peers cl answers started verified w = (Inr (), w')"
  obtains owned renewable exiting qs ms now where
      "retain_owned peers (filter (\<lambda>l. \<not> already_verified verified l) cl) = Inr owned"
    and "partition_renewable (filter (\<lambda>l. \<not> hm_contains (tn_id l) (missing_operator_leaves cl answers)
           \<and> \<not> hm_contains (tn_id l) (ignored_leaves (filter (\<lambda>l. \<not> already_verified verified l) cl) owned)) cl) = (renewable, exiting)"
    and "check_renew_nodes (tp_manager peers (tw_step w)) (bare_pedigrees renewable) = Inr qs"
    and "ms = filter (\<lambda>l. \<not> hm_contains (tn_id l) (ignored_leaves (filter (\<lambda>l. \<not> already_verified verified l) cl) owned))
           (hm_values (missing_operator_leaves cl answers))"
    and "held (tw_store w') = held (snd (process_set_leaves now (map lp_leaf qs @ exiting) ms started (tw_store w)))"
proof -
  let ?un = "filter (\<lambda>l. \<not> already_verified verified l) cl" and ?missing = "missing_operator_leaves cl answers"
  obtain owned where owned: "retain_owned peers ?un = Inr owned" using run by (auto simp: refresh_reported_def Let_def)
  let ?ig = "ignored_leaves ?un owned"
  obtain renewable exiting where part: "partition_renewable (filter (\<lambda>l. \<not> hm_contains (tn_id l) ?missing \<and> \<not> hm_contains (tn_id l) ?ig) cl)
      = (renewable, exiting)" by fastforce
  obtain ro w1 w2 w3 where ro: "svc_check_renew_nodes peers (bare_pedigrees renewable) w = (Inr ro, w1)"
      and st: "st_set_leaves (map lp_leaf (ro_pedigrees ro) @ exiting)
            (filter (\<lambda>l. \<not> hm_contains (tn_id l) ?ig) (hm_values ?missing)) started w1 = (Inr (), w2)"
      and chains: "store_renewed_chains peers (ro_pedigrees ro) (ro_any_renewal_landed ro) w2 = (Inr (), w3)"
      and added: "notify_leaves_added (map lp_leaf (ro_pedigrees ro) @ exiting) w3 = (Inr (), w')"
    using run by (auto simp: refresh_reported_def Let_def owned part simp del: hm_contains_iff)
  note ro' = svc_check_renew_Inr [OF ro]
  have alone1: "alone w1" using alone ro' by (simp add: alone_def)
  note st' = store_call_alone [OF alone1 st [unfolded st_set_leaves_def]]
  have alone2: "alone w2" using alone1 st' by (simp add: alone_def)
  have eq: "tw_store w2 = snd (process_set_leaves (ce_now (tw_calls w1 (tw_step w1))) (map lp_leaf (ro_pedigrees ro) @ exiting)
      (filter (\<lambda>l. \<not> hm_contains (tn_id l) ?ig) (hm_values ?missing)) started (tw_store w))"
    using st' ro' by (metis snd_conv)
  have "held (tw_store w') = held (tw_store w2)"
    using store_renewed_chains_alone [OF alone2, of peers "ro_pedigrees ro" "ro_any_renewal_landed ro"] chains added
      signal_store(2) [of "map lp_leaf (ro_pedigrees ro) @ exiting" w3] by simp
  from that [OF owned part conjunct1 [OF ro'] refl this [unfolded eq]] show thesis .
qed


subsection \<open>Examples\<close>

text \<open>One operator beside the coordinator, a wallet with nothing in it, and leaves it owns.\<close>

definition example_peers :: "tree_node list \<Rightarrow> tree_node list \<Rightarrow> (tree_node list \<Rightarrow> (service_error failure, tree_node list) rust_result) \<Rightarrow> tree_peers" where
  "example_peers reported confirmed swap_of = \<lparr>tp_identity = ''me'', tp_network = Regtest, tp_operators = 1,
     tp_rpc = (\<lambda>_ client _ _. Inr \<lparr>qn_nodes = map Inr (if client = None then reported else confirmed), qn_offset = 0\<rparr>),
     tp_manager = (\<lambda>_. example_manager id), tp_swap = (\<lambda>_ ls _. swap_of ls), tp_signer = example_signer, tp_is_remote = False,
     tp_publishes = True, tp_wait = (\<lambda>k. (k, WaitTimeout)), tp_debug = (\<lambda>_. []), tp_debug_duration = (\<lambda>_. [])\<rparr>"

definition example_world :: "leaves_state \<Rightarrow> tree_world" where
  "example_world s = \<lparr>tw_store = s, tw_calls = (\<lambda>_. \<lparr>ce_before = id, ce_fails = None, ce_now = 5, ce_now' = 6, ce_uuid = ''r'', ce_permit = 0\<rparr>),
     tw_step = 0, tw_exit_signals = 0, tw_leaves_added = 0\<rparr>"

definition example_owned :: "tree_node_id \<Rightarrow> u64 \<Rightarrow> tree_node" where
  "example_owned i v = (example_leaf i v None)\<lparr>tn_verifying_public_key := ''key of '' @ i @ ''ks''\<rparr>"

lemma example_owned_simps [simp]:
  "tn_id (example_owned i v) = i" "tn_value (example_owned i v) = v" "tn_parent_node_id (example_owned i v) = None"
  "tn_status (example_owned i v) = Available" "tn_verifying_public_key (example_owned i v) = ''key of '' @ i @ ''ks''"
  "ks_public_key (tn_signing_keyshare (example_owned i v)) = ''ks''"
  by (simp_all add: example_owned_def example_leaf_def)

lemma example_owned_not_due: "needs_refund_tx_renewed (example_owned i v) = Inr False" "refund_sequence (example_owned i v) = Inr 0x400007D0"
  "needs_refund_tx_renewed ((example_owned i v)\<lparr>tn_verifying_public_key := k\<rparr>) = Inr False"
  "refund_sequence ((example_owned i v)\<lparr>tn_verifying_public_key := k\<rparr>) = Inr 0x400007D0"
  by (simp_all add: needs_refund_tx_renewed_def refund_sequence_def first_sequence_def as_u16_def example_owned_def example_leaf_def example_tx_def)

lemma collect_ok_map_Inr [simp]: "collect_ok (map Inr xs) = Inr xs"
  by (simp add: collect_ok_Inr)

lemma example_query [simp]:
  "query_nodes (example_peers cn on sw) n client incl src sts = Inr (if client = None then cn else on)"
  by (simp add: query_nodes_def pager_def pager_loop.simps query_nodes_inner_def example_peers_def next_from_offset_def paging_complete_def)

lemma example_alone: "alone (example_world s)"
  by (simp add: alone_def example_world_def)

lemma example_peers_simps [simp]:
  "tp_operators (example_peers cn on sw) = 1" "tp_signer (example_peers cn on sw) = example_signer" "\<not> tp_is_remote (example_peers cn on sw)"
  "tp_identity (example_peers cn on sw) = ''me''" "tp_swap (example_peers cn on sw) n ls t = sw ls" "tp_publishes (example_peers cn on sw)"
  "tp_manager (example_peers cn on sw) n = example_manager id" "tp_wait (example_peers cn on sw) k = (k, WaitTimeout)"
  by (simp_all add: example_peers_def)

definition example_call :: call_env where
  "example_call = \<lparr>ce_before = id, ce_fails = None, ce_now = 5, ce_now' = 6, ce_uuid = ''r'', ce_permit = 0\<rparr>"

lemma example_call_simps [simp]:
  "ce_now example_call = 5" "ce_now' example_call = 6" "ce_uuid example_call = ''r''" "ce_permit example_call = 0"
  "tw_calls (example_world s) k = example_call" "tw_store (example_world s) = s" "tw_step (example_world s) = 0"
  "(example_world s)\<lparr>tw_store := s\<rparr> = example_world s"
  by (simp_all add: example_call_def example_world_def)

lemma example_store_call:
  assumes "tw_calls w (tw_step w) = example_call"
  shows "store_call f w = (case f example_call (tw_store w) of (r, s') \<Rightarrow> (r, w\<lparr>tw_store := s', tw_step := Suc (tw_step w)\<rparr>))"
  using assms by (simp add: store_call_def example_call_def Let_def)

lemma not_due_pass:
  "\<forall>p \<in> set ps. needs_refund_tx_renewed (lp_leaf p) = Inr False \<Longrightarrow> check_renew_nodes tm ps = Inr ps"
proof -
  assume "\<forall>p \<in> set ps. needs_refund_tx_renewed (lp_leaf p) = Inr False"
  then have "split_by (\<lambda>p. from_tree (needs_refund_tx_renewed (lp_leaf p))) ps = Inr ([], ps)"
    by (induction ps) (simp_all add: from_tree_def)
  then show ?thesis by (simp add: check_renew_nodes_def)
qed

lemma not_due_outcome:
  assumes "\<forall>l \<in> set ls. needs_refund_tx_renewed l = Inr False \<and> refund_sequence l = Inr sq"
  shows "svc_check_renew_nodes peers (bare_pedigrees ls) w
    = (Inr \<lparr>ro_pedigrees = bare_pedigrees ls, ro_any_renewal_landed = False\<rparr>, w\<lparr>tw_step := Suc (tw_step w)\<rparr>)"
proof -
  have before: "\<exists>m'. refund_sequences_from m (bare_pedigrees ls) = Inr m' \<and> (\<forall>i v. map_of m' i = Some v \<longrightarrow> v = Some sq) \<and> tn_id ` set ls \<subseteq> dom (map_of m') \<and> dom (map_of m) \<subseteq> dom (map_of m')"
    if "\<forall>i v. map_of m i = Some v \<longrightarrow> v = Some sq" for m
    using that assms
  proof (induction ls arbitrary: m)
    case (Cons l ls)
    have "\<forall>i v. map_of (hm_insert (tn_id l) (Some sq) m) i = Some v \<longrightarrow> v = Some sq" using Cons.prems(1) by (auto simp: update_conv' split: if_splits)
    from Cons.IH [OF this] Cons.prems(2) obtain m' where "refund_sequences_from (hm_insert (tn_id l) (Some sq) m) (bare_pedigrees ls) = Inr m'"
      "\<forall>i v. map_of m' i = Some v \<longrightarrow> v = Some sq" "tn_id ` set ls \<subseteq> dom (map_of m')" "dom (map_of (hm_insert (tn_id l) (Some sq) m)) \<subseteq> dom (map_of m')"
      by auto
    with Cons.prems(2) show ?case by (auto simp: bare_pedigrees_def refund_sequence_ok_def update_conv')
  qed (auto simp: bare_pedigrees_def)
  then obtain m' where m': "refund_sequences (bare_pedigrees ls) = Inr m'" "\<forall>i v. map_of m' i = Some v \<longrightarrow> v = Some sq" "tn_id ` set ls \<subseteq> dom (map_of m')"
    using before [of "[]"] by (auto simp: refund_sequences_def)
  have "any_renewal_landed m' (bare_pedigrees ls) = Inr False"
    using m'(2,3) assms by (induction ls) (auto simp: bare_pedigrees_def refund_sequence_ok_def split: option.splits)
  moreover have "check_renew_nodes tm (bare_pedigrees ls) = Inr (bare_pedigrees ls)" for tm
    using assms by (intro not_due_pass) (auto simp: bare_pedigrees_def)
  ultimately show ?thesis by (simp add: svc_check_renew_nodes_def op_bind_def ask_def m'(1))
qed

lemma example_outcome:
  assumes "\<forall>l \<in> set ls. \<exists>i v k. l = example_owned i v \<or> l = (example_owned i v)\<lparr>tn_verifying_public_key := k\<rparr>"
  shows "svc_check_renew_nodes peers (bare_pedigrees ls) w
    = (Inr \<lparr>ro_pedigrees = bare_pedigrees ls, ro_any_renewal_landed = False\<rparr>, w\<lparr>tw_step := Suc (tw_step w)\<rparr>)"
  using assms by (intro not_due_outcome [of ls "0x400007D0"]) (auto simp: example_owned_not_due)

lemma ask_simp: "ask f w = (f (tw_step w), w\<lparr>tw_step := Suc (tw_step w)\<rparr>)"
  by (simp add: ask_def)

lemma op_bindI: "m w = (Inr x, w1) \<Longrightarrow> f x w1 = r \<Longrightarrow> op_bind m f w = r"
  by (simp add: op_bind_def)

lemma example_refresh_store:
  assumes cl: "drop_parents cn = cn" and missing: "missing_operator_leaves cn [on] = []"
    and owned: "retain_owned (example_peers cn on sw) cn = Inr owned" "tn_id ` set cn \<subseteq> set owned"
    and leaves: "\<forall>l \<in> set cn. \<exists>i v k. l = example_owned i v \<or> l = (example_owned i v)\<lparr>tn_verifying_public_key := k\<rparr>"
  shows "\<exists>w'. refresh_leaves (example_peers cn on sw) (example_world s) = (Inr (), w') \<and> tw_store w' = snd (process_set_leaves 5 cn [] 5 s)"
proof -
  let ?peers = "example_peers cn on sw" and ?w = "(example_world s)\<lparr>tw_step := 2\<rparr>"
  have "fold (\<lambda>leaf m. if tn_id leaf \<in> set owned then m else hm_insert (tn_id leaf) leaf m) cn m = m" for m
    using owned(2) by (induction cn) auto
  then have ig: "ignored_leaves cn owned = []" by (simp add: ignored_leaves_def)
  have part: "partition_renewable cn = (cn, [])"
    using leaves by (auto simp: partition_renewable_def filter_empty_conv intro!: filter_True)
  have unv: "filter (\<lambda>l. \<not> already_verified [] l) cn = cn" by (simp add: already_verified_def)
  have nodes_back: "map lp_leaf (bare_pedigrees cn) = cn" by (simp add: bare_pedigrees_def comp_def)
  obtain w' where run: "refresh_reported ?peers cn [on] 5 [] ?w = (Inr (), w')" "tw_store w' = snd (process_set_leaves 5 cn [] 5 s)"
  proof -
    have ok: "fst (process_set_leaves 5 cn [] 5 s) = Inr ()" by (simp add: process_set_leaves_def Let_def case_prod_unfold)
    then show thesis
      by (intro that [of "snd (notify_leaves_added cn (?w\<lparr>tw_store := snd (process_set_leaves 5 cn [] 5 s), tw_step := 4\<rparr>))"])
         (simp_all add: refresh_reported_def unv owned(1) op_bind_def Let_def missing ig part example_outcome [OF leaves] nodes_back st_set_leaves_def
            example_store_call case_prod_unfold store_renewed_chains_def notify_leaves_added_def del: op_bind_Inr)
  qed
  have "refresh_leaves ?peers (example_world s) = refresh_reported ?peers cn [on] 5 [] ?w"
    by (simp add: refresh_leaves_def op_bind_def st_now_def example_store_call ask_simp query_operators_def cl numeral_2_eq_2)
  with run show ?thesis by auto
qed

lemma example_refresh:
  "\<exists>w'. refresh_leaves (example_peers [example_owned ''a'' 8] [example_owned ''a'' 8] sw) (example_world leaves_state_default) = (Inr (), w')
     \<and> tw_store w' = snd (process_set_leaves 5 [example_owned ''a'' 8] [] 5 leaves_state_default)"
  by (rule example_refresh_store [where owned = "[''a'']"])
     (auto simp: drop_parents_def List.map_filter_simps missing_operator_leaves_def missing_from_def operator_agrees_def retain_owned_def
        example_signer_def)


text \<open>Ownership is remembered by leaf id, so a leaf reported twice, once as it is and once with another verifying key, is let in
  with the other key.\<close>

lemma duplicate_report_bypasses_ownership:
  "\<exists>w'. refresh_leaves (example_peers [example_owned ''a'' 8, (example_owned ''a'' 8)\<lparr>tn_verifying_public_key := ''other''\<rparr>] [example_owned ''a'' 8] sw)
        (example_world leaves_state_default) = (Inr (), w')
     \<and> (\<exists>sl \<in> held (tw_store w'). selectable sl \<and> \<not> owns example_signer (sl_node sl))"
proof -
  let ?fake = "(example_owned ''a'' 8)\<lparr>tn_verifying_public_key := ''other''\<rparr>"
  have fields: "tn_id ?fake = ''a''" "tn_parent_node_id ?fake = None" "tn_status ?fake = Available" "tn_signing_keyshare ?fake = tn_signing_keyshare (example_owned ''a'' 8)"
    "tn_node_tx ?fake = tn_node_tx (example_owned ''a'' 8)" "tn_refund_tx ?fake = tn_refund_tx (example_owned ''a'' 8)" by simp_all
  obtain w' where w': "refresh_leaves (example_peers [example_owned ''a'' 8, ?fake] [example_owned ''a'' 8] sw) (example_world leaves_state_default) = (Inr (), w')"
      "tw_store w' = snd (process_set_leaves 5 [example_owned ''a'' 8, ?fake] [] 5 leaves_state_default)"
    using example_refresh_store [of "[example_owned ''a'' 8, ?fake]" "[example_owned ''a'' 8]" sw "[''a'']" leaves_state_default]
    by (auto simp: drop_parents_def List.map_filter_simps missing_operator_leaves_def missing_from_def operator_agrees_def retain_owned_def example_signer_def)
  have "from_node ?fake 5 \<in> held (tw_store w')"
    by (simp add: w'(2) process_set_leaves_def leaves_state_default_def has_active_swap_def swap_completed_during_refresh_def refreshed_pool_def
        insert_unspent_def held_def hm_retain_def)
  moreover have "selectable (from_node ?fake 5)" "\<not> owns example_signer (sl_node (from_node ?fake 5))"
    by (simp_all add: selectable_def from_node_def owns_def example_signer_def)
  ultimately show ?thesis using w'(1) by blast
qed

subsection \<open>Cancelling\<close>

lemma verify_attempts_Inr:
  assumes "verify_attempts peers originals left w = (Inr keep, w')"
  shows "tw_store w' = tw_store w \<and> tw_calls w' = tw_calls w \<and> (\<forall>n \<in> set keep. \<exists>k < left. \<exists>nodes.
    query_nodes peers (tw_step w + k) None False (Some (NodeIds (map tn_id originals))) [] = Inr nodes
    \<and> n \<in> set nodes \<and> tn_id n \<in> tn_id ` set originals \<and> tn_status n = Available \<and> tn_owner_identity_public_key n = Some (tp_identity peers))"
  using assms
proof (induction left arbitrary: w)
  case (Suc left)
  let ?q = "query_nodes peers (tw_step w) None False (Some (NodeIds (map tn_id originals))) []"
  let ?w = "w\<lparr>tw_step := Suc (tw_step w)\<rparr>"
  show ?case
  proof (cases ?q)
    case (Inl e)
    with Suc.prems have "verify_attempts peers originals left ?w = (Inr keep, w')" by (simp add: op_match_def ask_def split: if_splits)
    from Suc.IH [OF this] show ?thesis
      by (auto dest!: bspec)
  next
    case (Inr nodes)
    with Suc.prems have w': "w' = ?w" and keep: "keep = List.map_filter (verified_leaf peers (by_id nodes)) originals"
      by (simp_all add: op_match_def ask_def)
    have "n \<in> set nodes \<and> tn_id n \<in> tn_id ` set originals \<and> tn_status n = Available \<and> tn_owner_identity_public_key n = Some (tp_identity peers)"
      if "n \<in> set keep" for n
    proof -
      from that obtain orig where orig: "orig \<in> set originals" "verified_leaf peers (by_id nodes) orig = Some n"
        by (auto simp: keep List.map_filter_def)
      then have n: "map_of (by_id nodes) (tn_id orig) = Some n" "tn_status n = Available" "tn_owner_identity_public_key n = Some (tp_identity peers)"
        by (auto simp: verified_leaf_def split: option.splits if_splits)
      moreover have "tn_id n = tn_id orig" using n(1) ids_match_by_id [of nodes] by (simp add: ids_match_def)
      ultimately show ?thesis using by_id_set [OF n(1)] orig(1) by auto
    qed
    with Inr w' show ?thesis by (auto intro!: exI [of _ 0])
  qed
qed simp

lemma insert_nodes_vals: "hm_vals (insert_nodes t ls pool) \<subseteq> hm_vals pool \<union> (\<lambda>l. from_node l t) ` set ls"
  unfolding insert_nodes_def
proof (induction ls arbitrary: pool)
  case (Cons l ls)
  show ?case using Cons.IH [of "hm_insert (tn_id l) (from_node l t) pool"] vals_insert [of "tn_id l" "from_node l t" pool] by auto
qed simp

lemma reserved_held_remove: "reserved_held (hm_remove r rs) \<subseteq> reserved_held rs"
  using vals_remove [of r rs] by (auto simp: reserved_held_def)


definition example_mine :: tree_node where
  "example_mine = (example_owned ''a'' 8)\<lparr>tn_owner_identity_public_key := Some ''me''\<rparr>"

definition example_reserved :: leaves_state where
  "example_reserved = leaves_state_default\<lparr>ls_leaves_reservations := [(''r'', \<lparr>re_leaves = [from_node (example_owned ''a'' 8) 1], re_purpose = Payment,
     re_permit = 0, re_pending_change_amount = 0\<rparr>)]\<rparr>"


end
