(* ===== verification/Tree_Service_Select.thy ===== *)
theory Tree_Service_Select
  imports Tree_Service_Props Tree_Store_Ledger
begin

text \<open>
  Selecting leaves for a payment (\<open>select_leaves\<close> of \<open>Tree_Service\<close>) while other tasks use the same store: the leaves
  returned pay the target, the reservation returned is the only one the selection leaves behind, an error leaves none
  behind, and the loop ends. The conditions under which an error does leave one behind are shown on concrete runs.
\<close>

subsection \<open>Both ways out of an operation\<close>

lemma op_bind_eq:
  "op_bind m f w = (r, w') \<longleftrightarrow> (\<exists>e. m w = (Inl e, w') \<and> r = Inl e) \<or> (\<exists>x w1. m w = (Inr x, w1) \<and> f x w1 = (r, w'))"
  by (auto simp: op_bind_def split: prod.split sum.split)

lemma op_match_eq:
  "op_match m h f w = (r, w') \<longleftrightarrow> (m w = (Inl TSE_Panic, w') \<and> r = Inl TSE_Panic)
     \<or> (\<exists>e w1. m w = (Inl e, w1) \<and> e \<noteq> TSE_Panic \<and> h e w1 = (r, w')) \<or> (\<exists>x w1. m w = (Inr x, w1) \<and> f x w1 = (r, w'))"
  by (auto simp: op_match_def split: prod.split sum.split)

subsection \<open>The reservations of one task\<close>

text \<open>The reservations whose ids this task drew.\<close>

definition own_res :: "leaves_reservation_id set \<Rightarrow> leaves_state \<Rightarrow> leaves_reservation_id set" where
  "own_res U s = fst ` set (ls_leaves_reservations s) \<inter> U"

text \<open>Every leaf of the pool has a refund transaction whose timelock can be read.\<close>

definition refundable :: "leaves_state \<Rightarrow> bool" where
  "refundable s = (\<forall>n \<in> set (selectable_nodes s). is_ok (needs_refund_tx_renewed n))"

text \<open>The store answers, the ids it draws for this task are in \<open>U\<close>, and other tasks neither touch those reservations nor bring
  in leaves without a refund.\<close>

definition good_company :: "leaves_reservation_id set \<Rightarrow> tree_world \<Rightarrow> bool" where
  "good_company U w = (\<forall>k. ce_fails (tw_calls w k) = None \<and> ce_uuid (tw_calls w k) \<in> U
     \<and> (\<forall>s. own_res U (ce_before (tw_calls w k) s) = own_res U s \<and> (refundable s \<longrightarrow> refundable (ce_before (tw_calls w k) s))))"

lemma good_company_keeps: "good_company U w \<Longrightarrow> tw_calls w' = tw_calls w \<Longrightarrow> good_company U w'"
  by (simp add: good_company_def)

lemma store_call_company:
  assumes "good_company U w" and "store_call f w = (r, w')"
  obtains c :: call_env and s where "f c s = (r, tw_store w')" "own_res U s = own_res U (tw_store w)" "refundable (tw_store w) \<longrightarrow> refundable s" "ce_uuid c \<in> U"
    "tw_calls w' = tw_calls w"
proof
  let ?c = "tw_calls w (tw_step w)"
  show "f ?c (ce_before ?c (tw_store w)) = (r, tw_store w')" "tw_calls w' = tw_calls w"
    using assms by (auto simp: store_call_def good_company_def Let_def split: option.splits prod.splits)
qed (use assms(1) in \<open>auto simp: good_company_def\<close>)

text \<open>Operations that leave the task's reservations alone.\<close>

definition keeps_own :: "leaves_reservation_id set \<Rightarrow> 'a operation \<Rightarrow> bool" where
  "keeps_own U m = (\<forall>w. good_company U w \<longrightarrow> own_res U (tw_store (snd (m w))) = own_res U (tw_store w) \<and> tw_calls (snd (m w)) = tw_calls w)"

lemma keeps_ownD: "keeps_own U m \<Longrightarrow> good_company U w \<Longrightarrow> m w = (r, w') \<Longrightarrow> own_res U (tw_store w') = own_res U (tw_store w) \<and> good_company U w'"
  unfolding keeps_own_def by (metis good_company_keeps snd_conv)

lemma keeps_ownI:
  assumes "\<And>w r w'. good_company U w \<Longrightarrow> m w = (r, w') \<Longrightarrow> own_res U (tw_store w') = own_res U (tw_store w) \<and> tw_calls w' = tw_calls w"
  shows "keeps_own U m"
  unfolding keeps_own_def using assms by (metis prod.collapse)

lemma keeps_own_basic [simp]:
  "keeps_own U (op_return x)" "keeps_own U (op_result r)" "keeps_own U (ask g)" "keeps_own U (signal_exit_state_changed peers)"
  "keeps_own U (notify_leaves_added ls)"
  by (auto simp: keeps_own_def ask_def signal_exit_state_changed_def notify_leaves_added_def)

lemma keeps_own_store_call:
  assumes "\<And>c s. own_res U (snd (f c s)) = own_res U s"
  shows "keeps_own U (store_call f)"
proof (rule keeps_ownI)
  fix w r w' assume "good_company U w" and "store_call f w = (r, w')"
  from store_call_company [OF this] assms show "own_res U (tw_store w') = own_res U (tw_store w) \<and> tw_calls w' = tw_calls w"
    by (metis snd_conv)
qed

interpretation own: operation_frame "good_company U"
  "\<lambda>w w'. own_res U (tw_store w') = own_res U (tw_store w) \<and> tw_calls w' = tw_calls w" for U
  by unfold_locales (auto intro: good_company_keeps)

lemma keeps_own_bind: "keeps_own U m \<Longrightarrow> (\<And>x. keeps_own U (f x)) \<Longrightarrow> keeps_own U (op_bind m f)"
  unfolding keeps_own_def using own.bind_frame [of U m f] by simp

lemma keeps_own_match: "keeps_own U m \<Longrightarrow> (\<And>e. keeps_own U (h e)) \<Longrightarrow> (\<And>x. keeps_own U (f x)) \<Longrightarrow> keeps_own U (op_match m h f)"
  unfolding keeps_own_def using own.match_frame [of U m h f] by simp

lemma update_in_reservations_keys: "update_in_reservations leaf rs = Some rs' \<Longrightarrow> fst ` set rs' = fst ` set rs"
proof -
  have "update_in_reservations leaf rs = Some rs' \<Longrightarrow> map fst rs' = map fst rs"
    by (induction leaf rs arbitrary: rs' rule: update_in_reservations.induct) (auto split: option.splits)
  then show "update_in_reservations leaf rs = Some rs' \<Longrightarrow> ?thesis" by (metis list.set_map)
qed

lemma own_res_add_leaves [simp]: "own_res U (snd (process_add_leaves now ls s)) = own_res U s"
proof -
  have "own_res U (add_leaf now l s) = own_res U s" for l s
    by (auto simp: own_res_def add_leaf_def update_in_reservations_keys split: option.split)
  then have "own_res U (fold (add_leaf now) ls s) = own_res U s"
    by (induction ls arbitrary: s) auto
  then show ?thesis by (simp add: process_add_leaves_def)
qed

lemma own_res_store_ancestors [simp]: "own_res U (snd (process_store_ancestors ps s)) = own_res U s"
proof -
  have "own_res U (store_pedigree p s) = own_res U s" for p s
    by (simp add: own_res_def store_pedigree_def upsert_ancestors_def)
  then have "own_res U (fold store_pedigree ps s) = own_res U s"
    by (induction ps arbitrary: s) auto
  then show ?thesis by (simp add: process_store_ancestors_def)
qed

lemma keeps_own_calls [simp]:
  "keeps_own U (st_add_leaves ls)" "keeps_own U (st_store_ancestors ps)" "keeps_own U (st_get_exit_chains ids)"
  unfolding st_add_leaves_def st_store_ancestors_def st_get_exit_chains_def by (rule keeps_own_store_call; simp)+

lemma keeps_own_renewals [simp]: "keeps_own U (svc_check_renew_nodes peers ps)" "keeps_own U (store_renewed_chains peers ps landed)"
  "keeps_own U (swap_leaves_internal peers ls targets)"
proof -
  show renew: "keeps_own U (svc_check_renew_nodes peers ps)" for ps
    unfolding svc_check_renew_nodes_def by (intro keeps_own_bind) simp_all
  show "keeps_own U (store_renewed_chains peers ps landed)"
    unfolding store_renewed_chains_def Let_def by (auto intro!: keeps_own_match)
  show "keeps_own U (swap_leaves_internal peers ls targets)"
    unfolding swap_leaves_internal_def by (auto intro!: keeps_own_bind renew)
qed

lemma keeps_own_verify [simp]: "keeps_own U (verify_leaves_against_coordinator peers res)"
proof -
  have "keeps_own U (verify_attempts peers ls k)" for ls k
  proof (induction k)
    case 0
    show ?case unfolding verify_attempts.simps by (rule keeps_own_basic)
  next
    case (Suc k)
    then show ?case unfolding verify_attempts.simps by (intro keeps_own_match) simp_all
  qed
  then show ?thesis by (simp add: verify_leaves_against_coordinator_def)
qed

subsection \<open>Taking and giving back a reservation\<close>

lemma reserve_selected_own:
  assumes "reserve_selected uuid sel purpose permit pending s = (r, s')" and "uuid \<in> U"
  shows "(\<exists>e. r = Inl e \<and> s' = s) \<or> (r = Inr (RR_Success \<lparr>lr_id = uuid, lr_leaves = sel\<rparr>) \<and> own_res U s' = insert uuid (own_res U s))"
proof (cases "sel = [] \<or> (\<exists>l \<in> set sel. \<not> hm_contains (tn_id l) (ls_leaves s))")
  case True
  then have "reserve_internal uuid sel purpose permit pending s = (Inl TSE_NonReservableLeaves, s)"
    unfolding reserve_internal_def by argo
  with assms(1) show ?thesis by (auto simp: reserve_selected_def)
next
  case False
  then have "reserve_internal uuid sel purpose permit pending s = (case take_leaves sel (ls_leaves s) of (pool, taken) \<Rightarrow>
      (Inr uuid, s\<lparr>ls_leaves := pool, ls_leaves_reservations := hm_insert uuid
         \<lparr>re_leaves = taken, re_purpose = purpose, re_permit = permit, re_pending_change_amount = pending\<rparr> (ls_leaves_reservations s)\<rparr>))"
    unfolding reserve_internal_def by argo
  with assms have "r = Inr (RR_Success \<lparr>lr_id = uuid, lr_leaves = sel\<rparr>)"
      "fst ` set (ls_leaves_reservations s') = insert uuid (fst ` set (ls_leaves_reservations s))"
    by (simp_all add: reserve_selected_def case_prod_unfold del: image_set) (metis keys_insert leaves_state.select_convs(3) leaves_state.surjective leaves_state.update_convs(3))
  with assms(2) show ?thesis by (simp add: own_res_def Int_insert_left)
qed

lemma try_reserve_own:
  assumes "process_try_reserve_leaves uuid targets exact_only purpose permit s = (r, s')" and "uuid \<in> U"
  shows "(s' = s \<and> (\<nexists>res. r = Inr (RR_Success res)))
    \<or> (\<exists>res. r = Inr (RR_Success res) \<and> own_res U s' = insert (lr_id res) (own_res U s) \<and> set (lr_leaves res) \<subseteq> set (selectable_nodes s))"
  using assms(1)
proof (cases rule: try_reserve_cases)
  case (exact tls)
  from reserve_selected_own [OF exact(2) assms(2)] set_mset_mono [OF target_selection_subset [OF exact(1)]] show ?thesis by auto
next
  case (minimum e sel pending target)
  from reserve_selected_own [OF minimum(6) assms(2)] set_mset_mono [OF minimum_amount_subset [OF minimum(4)]] show ?thesis by auto
next
  case (refused e target)
  then show ?thesis by (auto simp: wait_or_insufficient_def)
qed

lemma st_try_reserve_own:
  assumes company: "good_company U w" and refunds: "refundable (tw_store w)" and run: "st_try_reserve_leaves targets exact_only purpose w = (r, w')"
  shows "good_company U w' \<and> (if \<exists>res. r = Inr (RR_Success res)
    then \<exists>res. r = Inr (RR_Success res) \<and> own_res U (tw_store w') = insert (lr_id res) (own_res U (tw_store w))
           \<and> (\<forall>n \<in> set (lr_leaves res). is_ok (needs_refund_tx_renewed n))
    else own_res U (tw_store w') = own_res U (tw_store w) \<and> refundable (tw_store w'))"
proof -
  obtain c :: call_env and s where c: "process_try_reserve_leaves (ce_uuid c) targets exact_only purpose (ce_permit c) s = (r, tw_store w')"
      "own_res U s = own_res U (tw_store w)" "refundable s" "ce_uuid c \<in> U" "tw_calls w' = tw_calls w"
    by (rule store_call_company [OF company run [unfolded st_try_reserve_leaves_def]]) (use refunds in blast)
  from try_reserve_own [OF c(1,4)] c(2,3) good_company_keeps [OF company c(5)] show ?thesis
    unfolding refundable_def by (fastforce dest: subsetD)
qed

lemma cancel_own:
  assumes company: "good_company U w" and run: "cancel_reservation peers res w = (r, w')"
  shows "(r = Inr () \<and> own_res U (tw_store w') = own_res U (tw_store w) - {lr_id res})
    \<or> (\<exists>e. r = Inl e \<and> verify_leaves_against_coordinator peers res w = (Inl e, w'))"
proof -
  consider e where "verify_leaves_against_coordinator peers res w = (Inl e, w')" "r = Inl e"
    | keep w1 where "verify_leaves_against_coordinator peers res w = (Inr keep, w1)" "st_cancel_reservation (lr_id res) keep w1 = (r, w')"
    using run by (auto simp: cancel_reservation_def op_bind_eq)
  then show ?thesis
  proof cases
    case (2 keep w1)
    note w1 = keeps_ownD [OF keeps_own_verify company 2(1)]
    obtain c :: call_env and s where c: "process_cancel_reservation (ce_now c) (lr_id res) keep s = (r, tw_store w')" "own_res U s = own_res U (tw_store w1)"
      by (rule store_call_company [OF conjunct2 [OF w1] 2(2) [unfolded st_cancel_reservation_def]]) blast
    from c(1) have s': "tw_store w' = snd (process_cancel_reservation (ce_now c) (lr_id res) keep s)" by (metis snd_conv)
    have "own_res U (tw_store w') = own_res U s - {lr_id res}"
      unfolding s' by (auto simp: process_cancel_reservation_def Let_def own_res_def)
    with w1 c show ?thesis by (simp add: process_cancel_reservation_def Let_def)
  qed blast
qed

text \<open>The check against the coordinator gives up quietly, so that only a panic gets through.\<close>

lemma verify_only_panics: "verify_leaves_against_coordinator peers res w = (Inl e, w') \<Longrightarrow> e = TSE_Panic"
proof -
  have "verify_attempts peers ls k w = (Inl e, w') \<Longrightarrow> e = TSE_Panic" for ls k w
    by (induction k arbitrary: w) (auto simp: op_match_eq)
  then show "verify_leaves_against_coordinator peers res w = (Inl e, w') \<Longrightarrow> ?thesis"
    by (auto simp: verify_leaves_against_coordinator_def split: if_splits)
qed

text \<open>The error path shared by renewals and swaps: cancel, then return the error that made us cancel.\<close>

lemma cancel_and_fail_own:
  assumes "good_company U w"
    and "op_match (cancel_reservation peers res) (\<lambda>_. op_result (Inl e)) (\<lambda>_. op_result (Inl e)) w = (r, w')"
  shows "r = Inl TSE_Panic \<or> (r = Inl e \<and> own_res U (tw_store w') = own_res U (tw_store w) - {lr_id res})"
  using assms(2) cancel_own [OF assms(1), of peers res] verify_only_panics [of peers res]
  by (auto simp: op_match_eq)

subsection \<open>Paying the target\<close>

text \<open>Some of the leaves, none used twice, add up to the amount and others to the fee; or the denominations asked for are among
  them.\<close>

definition pays_target :: "target_amounts option \<Rightarrow> tree_node list \<Rightarrow> bool" where
  "pays_target targets ls =
     (case targets of
        None \<Rightarrow> True
      | Some (AmountAndFee amount fee) \<Rightarrow> (\<exists>as fs. mset as + mset fs \<subseteq># mset ls \<and> sum_list (map tn_value as) = amount
          \<and> sum_list (map tn_value fs) = (case fee of None \<Rightarrow> 0 | Some f \<Rightarrow> f))
      | Some (ExactDenominations ds) \<Rightarrow> mset ds \<subseteq># mset (map tn_value ls))"

lemma selection_pays:
  assumes "select_leaves_by_target_amounts tn_id tn_value ls targets = Inr tsel" and "mset (selected_leaves tsel) \<subseteq># mset ls'"
  shows "pays_target targets ls'"
proof (cases targets)
  case (Some t)
  note spec = conjunct2 [OF target_selection_spec [OF assms(1) [unfolded Some]]]
  show ?thesis
  proof (cases t)
    case (AmountAndFee amount fee)
    let ?fs = "case fee_leaves tsel of None \<Rightarrow> [] | Some fl \<Rightarrow> fl"
    have "mset (amount_leaves tsel) + mset ?fs \<subseteq># mset ls'" using assms(2) by (simp add: selected_leaves_def)
    moreover have "sum_list (map tn_value (amount_leaves tsel)) = amount"
      "sum_list (map tn_value ?fs) = (case fee of None \<Rightarrow> 0 | Some f \<Rightarrow> f)"
      using spec AmountAndFee by (auto split: option.splits)
    ultimately show ?thesis unfolding pays_target_def Some AmountAndFee by auto
  next
    case (ExactDenominations ds)
    with spec have "map tn_value (selected_leaves tsel) = ds" by (simp add: selected_leaves_def)
    with image_mset_subseteq_mono [OF assms(2), of tn_value] show ?thesis
      unfolding pays_target_def Some ExactDenominations by auto
  qed
qed (simp add: pays_target_def)

text \<open>Keeping every leaf whose id was selected keeps every leaf that was selected.\<close>

lemma filter_selected:
  assumes "mset sel \<subseteq># mset ls"
  shows "mset sel \<subseteq># mset (filter (\<lambda>n. tn_id n \<in> tn_id ` set sel) ls)"
proof -
  have "filter_mset (\<lambda>n. tn_id n \<in> tn_id ` set sel) (mset sel) = mset sel"
    by (rule filter_mset_eq_conv [THEN iffD2]) auto
  with multiset_filter_mono [OF assms, of "\<lambda>n. tn_id n \<in> tn_id ` set sel"] show ?thesis by simp
qed

subsection \<open>Renewing and swapping a reservation\<close>

lemma is_okE: "is_ok r \<Longrightarrow> (\<And>x. r = Inr x \<Longrightarrow> P) \<Longrightarrow> P"
  by (cases r) auto

lemma any_needs_renewal_ok: "(\<And>n. n \<in> set ls \<Longrightarrow> is_ok (needs_refund_tx_renewed n)) \<Longrightarrow> \<exists>due. any_needs_renewal ls = Inr due"
proof (induction ls)
  case (Cons l ls)
  from Cons.prems [of l] obtain b where "needs_refund_tx_renewed l = Inr b" by (auto elim: is_okE)
  moreover from Cons obtain due where "any_needs_renewal ls = Inr due" by auto
  ultimately show ?case by (cases b) auto
qed auto

text \<open>What a step of the selection does to the reservation \<open>i\<close> it was given: kept on success, given up on an error, unless the
  task panicked.\<close>

definition settles ::
  "leaves_reservation_id set \<Rightarrow> leaves_reservation_id \<Rightarrow> tree_world \<Rightarrow> (tree_service_error, leaves_reservation) rust_result \<times> tree_world \<Rightarrow> bool" where
  "settles U i w out =
     (case out of
        (Inl e, w') \<Rightarrow> e = TSE_Panic \<or> own_res U (tw_store w') = own_res U (tw_store w) - {i}
      | (Inr res, w') \<Rightarrow> lr_id res = i \<and> own_res U (tw_store w') = own_res U (tw_store w))"

lemma company_store_calls:
  assumes "good_company U w"
  shows "\<exists>w'. st_add_leaves ls w = (Inr (), w')" "\<exists>w'. store_renewed_chains peers ps landed w = (Inr (), w')"
proof -
  have call: "ce_fails (tw_calls w k) = None" for k using assms by (simp add: good_company_def)
  then show "\<exists>w'. st_add_leaves ls w = (Inr (), w')"
    by (simp add: st_add_leaves_def store_call_def process_add_leaves_def Let_def)
  obtain w1 where "st_store_ancestors (filter restorable_chain ps) w = (Inr (), w1)"
    using call by (simp add: st_store_ancestors_def store_call_def process_store_ancestors_def Let_def)
  then show "\<exists>w'. store_renewed_chains peers ps landed w = (Inr (), w')"
    by (simp add: store_renewed_chains_def Let_def signal_exit_state_changed_def op_match_def del: op_match_Inr)
qed

lemma renew_settles:
  assumes company: "good_company U w" and refunds: "\<forall>n \<in> set (lr_leaves res). is_ok (needs_refund_tx_renewed n)"
    and run: "renew_reservation_timelocks peers res w = (r, w')"
  shows "is_ok r \<longrightarrow> good_company U w'" "settles U (lr_id res) w (r, w')"
proof -
  obtain due where due: "any_needs_renewal (lr_leaves res) = Inr due" using any_needs_renewal_ok [of "lr_leaves res"] refunds by auto
  have "(is_ok r \<longrightarrow> good_company U w') \<and> settles U (lr_id res) w (r, w')"
  proof (cases due)
    case False
    with due run company show ?thesis by (auto simp: renew_reservation_timelocks_def settles_def op_bind_def)
  next
    case True
    let ?finish = "\<lambda>ro. let new_leaves = map lp_leaf (ro_pedigrees ro) in
             op_bind (st_add_leaves new_leaves) (\<lambda>_.
             op_bind (store_renewed_chains peers (ro_pedigrees ro) (ro_any_renewal_landed ro)) (\<lambda>_.
             op_bind (notify_leaves_added new_leaves) (\<lambda>_. op_return \<lparr>lr_id = lr_id res, lr_leaves = new_leaves\<rparr>)))"
    have fin: "keeps_own U (?finish ro)" for ro unfolding Let_def by (intro keeps_own_bind) simp_all
    have fin_id: "lr_id res' = lr_id res" if "?finish ro w1 = (Inr res', w2)" for ro res' w1 w2
      using that by (auto simp: Let_def)
    have fin_ok: "\<exists>res'. ?finish ro w1 = (Inr res', snd (?finish ro w1))" if co: "good_company U w1" for ro w1
    proof -
      obtain w2 where w2: "st_add_leaves (map lp_leaf (ro_pedigrees ro)) w1 = (Inr (), w2)" using company_store_calls(1) [OF co] by blast
      from company_store_calls(2) [of U w2] keeps_ownD [OF keeps_own_calls(1) co w2] obtain w3 where
        "store_renewed_chains peers (ro_pedigrees ro) (ro_any_renewal_landed ro) w2 = (Inr (), w3)" by blast
      with w2 show ?thesis by (simp add: op_bind_def Let_def notify_leaves_added_def del: op_bind_Inr)
    qed
    obtain ps w1 where chains: "st_get_exit_chains (map tn_id (lr_leaves res)) w = (Inr ps, w1)"
      by (cases "st_get_exit_chains (map tn_id (lr_leaves res)) w")
         (use company in \<open>auto simp: st_get_exit_chains_def store_call_def good_company_def process_get_exit_chains_def Let_def\<close>)
    note w1 = keeps_ownD [OF keeps_own_calls(3) company chains]
    from run True due chains have step: "op_match (svc_check_renew_nodes peers ps)
        (\<lambda>e. op_match (cancel_reservation peers res) (\<lambda>_. op_result (Inl e)) (\<lambda>_. op_result (Inl e))) ?finish w1 = (r, w')"
      by (simp add: renew_reservation_timelocks_def op_bind_def del: op_bind_Inr op_match_Inr)
    obtain q w2 where q: "svc_check_renew_nodes peers ps w1 = (q, w2)" by fastforce
    note w2 = keeps_ownD [OF keeps_own_renewals(1) conjunct2 [OF w1] q]
    show ?thesis
    proof (cases q)
      case (Inl e)
      show ?thesis
      proof (cases "e = TSE_Panic")
        case True
        with Inl step q show ?thesis by (auto simp: op_match_def settles_def)
      next
        case False
        with Inl step q have "op_match (cancel_reservation peers res) (\<lambda>_. op_result (Inl e)) (\<lambda>_. op_result (Inl e)) w2 = (r, w')"
          by (simp add: op_match_def [of "svc_check_renew_nodes peers ps"] del: op_match_Inr)
        from cancel_and_fail_own [OF conjunct2 [OF w2] this] w1 w2 show ?thesis by (auto simp: settles_def)
      qed
    next
      case (Inr ro)
      with step q have f: "?finish ro w2 = (r, w')" by (simp add: op_match_def del: op_bind_Inr)
      note w' = keeps_ownD [OF fin conjunct2 [OF w2] f]
      from fin_ok [OF conjunct2 [OF w2], of ro] f obtain res' where r: "r = Inr res'" by auto
      from fin_id [OF f [unfolded r]] w' w1 w2 r show ?thesis by (simp add: settles_def)
    qed
  qed
  then show "is_ok r \<longrightarrow> good_company U w'" "settles U (lr_id res) w (r, w')" by auto
qed

text \<open>The swap service delivers: whatever a swap for these targets returns can pay them.\<close>

definition swap_delivers :: "tree_peers \<Rightarrow> target_amounts option \<Rightarrow> bool" where
  "swap_delivers peers targets = (\<forall>ls w ro w'. swap_leaves_internal peers ls targets w = (Inr ro, w')
     \<longrightarrow> is_ok (select_leaves_by_target_amounts tn_id tn_value (map lp_leaf (ro_pedigrees ro)) targets))"

lemma st_update_own:
  assumes company: "good_company U w" and present: "i \<in> own_res U (tw_store w)"
  obtains w' where "st_update_reservation i reserved change w = (Inr \<lparr>lr_id = i, lr_leaves = reserved\<rparr>, w')"
    "own_res U (tw_store w') = own_res U (tw_store w)" "good_company U w'"
proof -
  obtain r w' where run: "st_update_reservation i reserved change w = (r, w')" by fastforce
  obtain c :: call_env and s where c: "process_update_reservation (ce_now c) i reserved change s = (r, tw_store w')"
      "own_res U s = own_res U (tw_store w)" "tw_calls w' = tw_calls w"
    by (rule store_call_company [OF company run [unfolded st_update_reservation_def]]) blast
  from present c(2) have i: "i \<in> fst ` set (ls_leaves_reservations s)" by (auto simp: own_res_def)
  then obtain e where e: "map_of (ls_leaves_reservations s) i = Some e" by (metis map_of_eq_None_iff not_None_eq)
  from c(1) have s': "tw_store w' = snd (process_update_reservation (ce_now c) i reserved change s)" by (metis snd_conv)
  have "fst ` set (ls_leaves_reservations (tw_store w')) = fst ` set (ls_leaves_reservations s)"
    unfolding s' using i by (simp add: process_update_reservation_def e insert_absorb)
  with c(2) have "own_res U (tw_store w') = own_res U (tw_store w)" by (simp add: own_res_def)
  moreover from c(1) e have "r = Inr \<lparr>lr_id = i, lr_leaves = reserved\<rparr>" by (simp add: process_update_reservation_def)
  ultimately show thesis using that run good_company_keeps [OF company c(3)] by blast
qed

lemma settle_swap_settles:
  assumes company: "good_company U w" and present: "lr_id res \<in> own_res U (tw_store w)"
    and pays: "select_leaves_by_target_amounts tn_id tn_value (map lp_leaf (ro_pedigrees ro)) targets = Inr tsel"
  obtains res' w' where "settle_swap peers res targets ro w = (Inr res', w')" "lr_id res' = lr_id res"
    "own_res U (tw_store w') = own_res U (tw_store w)" "pays_target targets (lr_leaves res')"
proof -
  let ?ids = "tn_id ` set (selected_leaves tsel)" and ?ps = "ro_pedigrees ro"
  let ?in = "filter (\<lambda>p. tn_id (lp_leaf p) \<in> ?ids) ?ps" and ?out = "filter (\<lambda>p. tn_id (lp_leaf p) \<notin> ?ids) ?ps"
  obtain w1 where upd: "st_update_reservation (lr_id res) (map lp_leaf ?in) (map lp_leaf ?out) w
      = (Inr \<lparr>lr_id = lr_id res, lr_leaves = map lp_leaf ?in\<rparr>, w1)" "own_res U (tw_store w1) = own_res U (tw_store w)" "good_company U w1"
    by (rule st_update_own [OF company present])
  obtain w2 where chains: "store_renewed_chains peers (?in @ ?out) (ro_any_renewal_landed ro) w1 = (Inr (), w2)"
    using company_store_calls(2) [OF upd(3)] by blast
  let ?w' = "snd (notify_leaves_added (map lp_leaf ?out) w2)"
  have "settle_swap peers res targets ro w = (Inr \<lparr>lr_id = lr_id res, lr_leaves = map lp_leaf ?in\<rparr>, ?w')"
    by (simp add: settle_swap_def pays op_bind_def op_match_def upd(1) chains notify_leaves_added_def Let_def del: op_bind_Inr op_match_Inr)
  moreover have "own_res U (tw_store ?w') = own_res U (tw_store w)"
    using keeps_ownD [OF keeps_own_renewals(2) upd(3) chains] upd(2) by (simp add: notify_leaves_added_def)
  moreover have "map lp_leaf ?in = filter (\<lambda>n. tn_id n \<in> ?ids) (map lp_leaf ?ps)" by (simp add: filter_map comp_def)
  with selection_pays [OF pays filter_selected [OF target_selection_subset [OF pays]]]
  have "pays_target targets (map lp_leaf ?in)" by simp
  ultimately show thesis using that by simp
qed

lemma swap_settles:
  assumes company: "good_company U w" and present: "lr_id res \<in> own_res U (tw_store w)" and delivers: "swap_delivers peers targets"
    and run: "perform_swap_and_update_reservation peers res targets w = (r, w')"
  shows "settles U (lr_id res) w (r, w') \<and> (\<forall>res'. r = Inr res' \<longrightarrow> pays_target targets (lr_leaves res'))"
proof -
  obtain q w1 where q: "swap_leaves_internal peers (lr_leaves res) targets w = (q, w1)" by fastforce
  note w1 = keeps_ownD [OF keeps_own_renewals(3) company q]
  show ?thesis
  proof (cases q)
    case (Inl e)
    show ?thesis
    proof (cases "e = TSE_Panic")
      case True
      with Inl q run show ?thesis by (auto simp: perform_swap_and_update_reservation_def op_match_def settles_def)
    next
      case False
      with Inl q run have "op_match (cancel_reservation peers res) (\<lambda>_. op_result (Inl e)) (\<lambda>_. op_result (Inl e)) w1 = (r, w')"
        by (simp add: perform_swap_and_update_reservation_def op_match_def [of "swap_leaves_internal peers _ _"] del: op_match_Inr)
      from cancel_and_fail_own [OF conjunct2 [OF w1] this] w1 show ?thesis by (auto simp: settles_def)
    qed
  next
    case (Inr ro)
    with q delivers obtain tsel where tsel: "select_leaves_by_target_amounts tn_id tn_value (map lp_leaf (ro_pedigrees ro)) targets = Inr tsel"
      unfolding swap_delivers_def by (blast elim: is_okE)
    obtain res' w2 where "settle_swap peers res targets ro w1 = (Inr res', w2)" "lr_id res' = lr_id res"
        "own_res U (tw_store w2) = own_res U (tw_store w1)" "pays_target targets (lr_leaves res')"
      by (rule settle_swap_settles [OF conjunct2 [OF w1] _ tsel]) (use w1 present in auto)
    moreover from run q Inr have "settle_swap peers res targets ro w1 = (r, w')"
      by (simp add: perform_swap_and_update_reservation_def op_match_def [of "swap_leaves_internal peers _ _"] del: op_match_Inr)
    ultimately show ?thesis using w1 by (auto simp: settles_def)
  qed
qed

lemma complete_selection_settles:
  assumes company: "good_company U w" and present: "lr_id res \<in> own_res U (tw_store w)" and delivers: "swap_delivers peers targets"
    and refunds: "\<forall>n \<in> set (lr_leaves res). is_ok (needs_refund_tx_renewed n)"
    and run: "complete_selection peers targets res w = (r, w')"
  shows "settles U (lr_id res) w (r, w') \<and> (\<forall>res'. r = Inr res' \<longrightarrow> pays_target targets (lr_leaves res'))"
proof -
  obtain q w1 where q: "renew_reservation_timelocks peers res w = (q, w1)" by fastforce
  note w1 = renew_settles [OF company refunds q]
  show ?thesis
  proof (cases q)
    case (Inl e)
    with run q w1 show ?thesis by (auto simp: complete_selection_def op_bind_def)
  next
    case (Inr renewed)
    with w1 have id: "lr_id renewed = lr_id res" and own: "own_res U (tw_store w1) = own_res U (tw_store w)" and co: "good_company U w1"
      by (auto simp: settles_def)
    show ?thesis
    proof (cases "reservation_matches_target renewed targets")
      case True
      then obtain tsel where "select_leaves_by_target_amounts tn_id tn_value (lr_leaves renewed) targets = Inr tsel"
        unfolding reservation_matches_target_def Let_def by (blast elim: is_okE)
      from selection_pays [OF this target_selection_subset [OF this]] run q Inr True id own show ?thesis
        by (auto simp: complete_selection_def op_bind_def settles_def)
    next
      case False
      with run q Inr have "perform_swap_and_update_reservation peers renewed targets w1 = (r, w')"
        by (simp add: complete_selection_def op_bind_def)
      from swap_settles [OF co _ delivers this] present id own show ?thesis by (cases r) (auto simp: settles_def)
    qed
  qed
qed

subsection \<open>The loop\<close>

lemma selection_spec:
  assumes "select_loop peers targets purpose max_wait waits w = Some out" and "good_company U w" and "refundable (tw_store w)"
    and "own_res U (tw_store w) = {}" and "swap_delivers peers targets"
  shows "case out of
      (Inl e, w') \<Rightarrow> e = TSE_Panic \<or> own_res U (tw_store w') = {}
    | (Inr res, w') \<Rightarrow> own_res U (tw_store w') = {lr_id res} \<and> pays_target targets (lr_leaves res)"
  using assms
proof (induction rule: select_loop.raw_induct [rotated 1, consumes 1])
  case (1 loop peers targets purpose max_wait waits w out)
  obtain r w1 where r: "st_try_reserve_leaves targets False purpose w = (r, w1)" by fastforce
  note step = st_try_reserve_own [OF 1(3,4) r]
  show ?case
  proof (cases "\<exists>res. r = Inr (RR_Success res)")
    case True
    with step obtain res where res: "r = Inr (RR_Success res)" "own_res U (tw_store w1) = {lr_id res}" "good_company U w1"
        "\<forall>n \<in> set (lr_leaves res). is_ok (needs_refund_tx_renewed n)"
      using 1(5) by auto
    with 1(2) r have out: "out = complete_selection peers targets res w1" by simp
    obtain q w' where q: "complete_selection peers targets res w1 = (q, w')" by fastforce
    from complete_selection_settles [OF res(3) _ 1(6) res(4) q] res(2) out q show ?thesis by (cases q) (auto simp: settles_def)
  next
    case False
    with step 1(5) have w1: "good_company U w1" "refundable (tw_store w1)" "own_res U (tw_store w1) = {}" by auto
    show ?thesis
    proof (cases "\<exists>n a p. r = Inr (RR_WaitForPending n a p) \<and> max_wait \<noteq> 0 \<and> is_ok (wait_for_pending_balance peers (Suc waits) max_wait)")
      case True
      then obtain n a p where "r = Inr (RR_WaitForPending n a p)" "max_wait \<noteq> 0" "wait_for_pending_balance peers (Suc waits) max_wait = Inr ()"
        by (auto elim!: is_okE)
      with 1(2) r have "loop peers targets purpose max_wait (Suc waits) w1 = Some out" by simp
      from 1(1) [OF this w1 1(6)] show ?thesis .
    next
      case no_wait: False
      with False 1(2) r obtain e where "out = (Inl e, w1)"
        by (auto split: sum.splits reserve_result.splits if_splits)
      with w1 show ?thesis by simp
    qed
  qed
qed


lemma selection_ends_from:
  assumes "max_wait < fst (tp_wait peers (waits + k))" and "0 < k"
  shows "\<exists>out. select_loop peers targets purpose max_wait waits w = Some out"
  using assms
proof (induction k arbitrary: waits w)
  case (Suc k)
  have late: "\<exists>e. wait_for_pending_balance peers (Suc waits) max_wait = Inl e" if "k = 0"
    using Suc.prems(1) that by (auto simp: wait_for_pending_balance_def split: prod.split)
  have again: "\<exists>out. select_loop peers targets purpose max_wait (Suc waits) w1 = Some out" if "0 < k" for w1
    using Suc.IH [of "Suc waits" w1] Suc.prems(1) that by simp
  show ?case
    by (subst select_loop.simps) (use late again in \<open>cases k; auto split: prod.split sum.split reserve_result.split\<close>)
qed simp

text \<open>\<^bold>\<open>C29\<close>. Selecting leaves ends: once the clock read at some wait has passed the time allowed, the loop has returned, whatever the
  store, the operators and the swap service answer.\<close>

theorem selection_ends:
  assumes "0 < k" and "max_wait < fst (tp_wait peers k)"
  shows "\<exists>r w'. select_leaves peers targets purpose max_wait w = Some (r, w')"
  using selection_ends_from [of max_wait peers 0 k targets purpose w] assms by (auto simp: select_leaves_def)

subsection \<open>Paying with a reservation\<close>

lemma finalize_own:
  assumes company: "good_company U w" and run: "finalize_reservation i None w = (r, w')"
  shows "r = Inr () \<and> own_res U (tw_store w') = own_res U (tw_store w) - {i}"
proof -
  obtain q w1 where q: "st_finalize_reservation i None w = (q, w1)" by fastforce
  obtain c :: call_env and s where c: "process_finalize_reservation (ce_now c) (ce_now' c) i None s = (q, tw_store w1)"
      "own_res U s = own_res U (tw_store w)"
    by (rule store_call_company [OF company q [unfolded st_finalize_reservation_def]]) blast
  from c(1) have s': "tw_store w1 = snd (process_finalize_reservation (ce_now c) (ce_now' c) i None s)" by (metis snd_conv)
  have keys: "fst ` set (ls_leaves_reservations (tw_store w1)) = fst ` set (ls_leaves_reservations s) - {i}"
    by (cases "map_of (ls_leaves_reservations s) i") (simp_all add: s' process_finalize_reservation_def Let_def, simp add: map_of_eq_None_iff)
  have "own_res U (tw_store w1) = own_res U s - {i}" unfolding own_res_def keys by blast
  then have "own_res U (tw_store w1) = own_res U (tw_store w) - {i}" unfolding c(2) .
  moreover have "q = Inr ()" using c(1) by (simp add: process_finalize_reservation_def Let_def)
  ultimately show ?thesis using run q by (auto simp: finalize_reservation_def op_bind_def notify_leaves_added_def)
qed

text \<open>\<^bold>\<open>C21\<close>. Paying with a reservation returns what the payment returned and gives the reservation up, whether the payment succeeded
  or failed, as long as the payment itself leaves the reservation alone and nothing panics.\<close>

theorem payment_releases_reservation:
  assumes company: "good_company U w" and mine: "own_res U (tw_store w) = {lr_id res}"
    and payment: "own_res U (tw_store (snd (f w))) = {lr_id res} \<and> tw_calls (snd (f w)) = tw_calls w"
    and run: "with_reserved_leaves peers f res w = (q, w')" and calm: "q \<noteq> Inl Panicked"
  shows "q = fst (f w) \<and> own_res U (tw_store w') = {}"
proof -
  obtain r w1 where f: "f w = (r, w1)" by fastforce
  with payment good_company_keeps [OF company] have w1: "good_company U w1" "own_res U (tw_store w1) = {lr_id res}" by auto
  show ?thesis
  proof (cases r)
    case (Inr x)
    obtain z w2 where z: "finalize_reservation (lr_id res) None w1 = (z, w2)" by fastforce
    from finalize_own [OF w1(1) z] w1(2) run f Inr z calm show ?thesis by (auto simp: with_reserved_leaves_def)
  next
    case (Inl e)
    then obtain e' where e: "r = Inl (Failed e')" using run f calm by (cases e) (auto simp: with_reserved_leaves_def)
    obtain z w2 where z: "cancel_reservation peers res w1 = (z, w2)" by fastforce
    from cancel_own [OF w1(1) z] verify_only_panics [of peers res w1] w1(2) run f e z calm show ?thesis
      by (auto simp: with_reserved_leaves_def)
  qed
qed

subsection \<open>Runs\<close>

definition example_pool :: "tree_node \<Rightarrow> leaves_state" where
  "example_pool n = leaves_state_default\<lparr>ls_leaves := [(tn_id n, from_node n 7)]\<rparr>"

definition example_locked :: "tree_node \<Rightarrow> leaves_state" where
  "example_locked n = leaves_state_default\<lparr>ls_leaves_reservations := [(''r'',
     \<lparr>re_leaves = [from_node n 7], re_purpose = Payment, re_permit = 0, re_pending_change_amount = 3\<rparr>)]\<rparr>"

definition swap_for_5 :: "tree_node list \<Rightarrow> (service_error failure, tree_node list) rust_result" where
  "swap_for_5 ls = Inr [example_owned ''b'' 5, example_owned ''c'' 3]"

lemma example_selectable: "tn_status n = Available \<Longrightarrow> selectable_leaves (example_pool n) = [from_node n 7]"
  by (simp add: example_pool_def selectable_leaves_def from_node_def selectable_def)

lemma example_reserve:
  assumes "tn_status n = Available" "tn_value n = 8"
  shows "st_try_reserve_leaves (Some (AmountAndFee 5 None)) False Payment (example_world (example_pool n))
    = (Inr (RR_Success \<lparr>lr_id = ''r'', lr_leaves = [n]\<rparr>), (example_world (example_locked n))\<lparr>tw_step := 1\<rparr>)"
proof -
  have "process_try_reserve_leaves ''r'' (Some (AmountAndFee 5 None)) False Payment 0 (example_pool n)
    = (Inr (RR_Success \<lparr>lr_id = ''r'', lr_leaves = [n]\<rparr>), example_locked n)"
    using assms example_selectable [OF assms(1)]
    by (simp add: process_try_reserve_leaves_def select_eval reserve_selected_def reserve_internal_def Let_def from_node_def example_pool_def
        example_locked_def leaves_state_default_def)
  then show ?thesis by (simp add: st_try_reserve_leaves_def example_store_call) (simp add: example_world_def)
qed

lemma example_select:
  assumes "tn_status n = Available" "tn_value n = 8"
  shows "select_leaves peers (Some (AmountAndFee 5 None)) Payment 60 (example_world (example_pool n))
    = Some (complete_selection peers (Some (AmountAndFee 5 None)) \<lparr>lr_id = ''r'', lr_leaves = [n]\<rparr> ((example_world (example_locked n))\<lparr>tw_step := 1\<rparr>))"
  unfolding select_leaves_def by (subst select_loop.simps) (simp add: example_reserve [OF assms])

lemma example_swap_step:
  assumes "sw [example_owned ''a'' 8] = Inr claimed" and "\<forall>l \<in> set claimed. \<exists>i v. l = example_owned i v"
  shows "complete_selection (example_peers cn on sw) (Some (AmountAndFee 5 None)) \<lparr>lr_id = ''r'', lr_leaves = [example_owned ''a'' 8]\<rparr> w
    = settle_swap (example_peers cn on sw) \<lparr>lr_id = ''r'', lr_leaves = [example_owned ''a'' 8]\<rparr> (Some (AmountAndFee 5 None))
        \<lparr>ro_pedigrees = bare_pedigrees claimed, ro_any_renewal_landed = False\<rparr> (w\<lparr>tw_step := Suc (Suc (tw_step w))\<rparr>)"
proof -
  have "svc_check_renew_nodes (example_peers cn on sw) (bare_pedigrees claimed) w1
      = (Inr \<lparr>ro_pedigrees = bare_pedigrees claimed, ro_any_renewal_landed = False\<rparr>, w1\<lparr>tw_step := Suc (tw_step w1)\<rparr>)" for w1
    by (rule example_outcome) (use assms(2) in blast)
  with assms(1) show ?thesis
    by (simp add: complete_selection_def renew_reservation_timelocks_def example_owned_not_due reservation_matches_target_def
        leaves_reservation_sum_def sum_u64_def perform_swap_and_update_reservation_def swap_leaves_internal_def ask_simp op_bind_def op_match_def
        del: op_bind_Inr op_match_Inr)
qed

lemma swap_for_5_delivers: "swap_delivers (example_peers cn on swap_for_5) (Some (AmountAndFee 5 None))"
proof -
  let ?claimed = "[example_owned ''b'' 5, example_owned ''c'' 3]"
  have out: "svc_check_renew_nodes (example_peers cn on swap_for_5) (bare_pedigrees ?claimed) w1
      = (Inr \<lparr>ro_pedigrees = bare_pedigrees ?claimed, ro_any_renewal_landed = False\<rparr>, w1\<lparr>tw_step := Suc (tw_step w1)\<rparr>)" for w1
    by (rule example_outcome) auto
  then have "ro_pedigrees ro = bare_pedigrees ?claimed"
    if "swap_leaves_internal (example_peers cn on swap_for_5) ls t w = (Inr ro, w')" for ls t w ro w'
    using that by (auto simp: swap_leaves_internal_def swap_for_5_def split: if_splits)
  moreover have "is_ok (select_leaves_by_target_amounts tn_id tn_value ?claimed (Some (AmountAndFee 5 None)))"
    by (simp add: select_eval)
  ultimately show ?thesis by (auto simp: swap_delivers_def bare_pedigrees_def)
qed

lemma example_good_company: "good_company {''r''} (example_world s)"
  by (simp add: good_company_def example_call_def)


lemma payment_releases_reservation_witness:
  "\<exists>w'. with_reserved_leaves (example_peers [] [] swap_for_5) (\<lambda>w. (Inr ''sent'', w)) \<lparr>lr_id = ''r'', lr_leaves = [example_owned ''a'' 8]\<rparr>
       (example_world (example_locked (example_owned ''a'' 8))) = (Inr ''sent'' :: (string failure, string) rust_result, w')
     \<and> own_res {''r''} (tw_store w') = {}"
proof -
  let ?w = "example_world (example_locked (example_owned ''a'' 8))" and ?f = "\<lambda>w. (Inr ''sent'' :: (string failure, string) rust_result, w)"
  let ?res = "\<lparr>lr_id = ''r'', lr_leaves = [example_owned ''a'' 8]\<rparr>"
  have mine: "own_res {''r''} (tw_store ?w) = {lr_id ?res}" by (simp add: own_res_def example_locked_def)
  obtain q w' where run: "with_reserved_leaves (example_peers [] [] swap_for_5) ?f ?res ?w = (q, w')" by fastforce
  obtain z w2 where z: "finalize_reservation ''r'' None ?w = (z, w2)" by fastforce
  have "q = Inr ''sent''" using run z finalize_own [OF example_good_company z] by (auto simp: with_reserved_leaves_def)
  with payment_releases_reservation [OF example_good_company mine _ run] run mine show ?thesis by auto
qed

lemma selection_ends_witness:
  "\<exists>r w'. select_leaves (example_peers [] [] swap_for_5) None Payment 60 (example_world leaves_state_default) = Some (r, w')"
  by (rule selection_ends [of 61]) simp_all

text \<open>A swap that completes but returns nothing to pay with (its claim failed and is left to a later sync) makes the selection
  fail with the reservation still in the store: nothing cancels or finalises it.\<close>

lemma failed_swap_claim_leaks_reservation:
  "\<exists>w'. select_leaves (example_peers [] [] (\<lambda>_. Inr [])) (Some (AmountAndFee 5 None)) Payment 60 (example_world (example_pool (example_owned ''a'' 8)))
       = Some (Inl TSE_InsufficientFunds, w') \<and> own_res {''r''} (tw_store w') = {''r''}"
  using example_swap_step [of "\<lambda>_. Inr []" "[]" "[]" "[]"]
  by (simp add: example_select settle_swap_def bare_pedigrees_def op_bind_def select_eval own_res_def example_locked_def del: op_bind_Inr)

text \<open>So does a leaf whose refund transaction is missing: the check for due renewals returns before the reservation is cancelled.\<close>

lemma missing_refund_leaks_reservation:
  "\<exists>w'. select_leaves (example_peers [] [] sw) (Some (AmountAndFee 5 None)) Payment 60
         (example_world (example_pool ((example_owned ''a'' 8)\<lparr>tn_refund_tx := None\<rparr>)))
       = Some (Inl (TSE_Generic ''No refund tx''), w') \<and> own_res {''r''} (tw_store w') = {''r''}"
  by (simp add: example_select complete_selection_def renew_reservation_timelocks_def op_bind_def needs_refund_tx_renewed_def refund_sequence_def
      ok_or_def own_res_def example_locked_def del: op_bind_Inr)

end
