(* ===== verification/Exit_Chain_Resolver.thy ===== *)
theory Exit_Chain_Resolver
  imports Tree_Service_Props Tree_Store_Views Leaf_Optimizer_Props
begin

text \<open>
  The resolver of missing exit chains: \<^verbatim>\<open>crates/spark/src/tree/exit_chain_resolver.rs\<close>. A pass asks the store which leaves lack
  a chain, asks the operators for the chains in batches, stores the complete ones and paces the rest: a leaf that was not
  resolved is held off for a delay that doubles up to a bound. The backoff is the resolver's own state, threaded through
  the operations of the tree service. Times are in nanoseconds.
\<close>

subsection \<open>State and operations\<close>

definition secs :: "nat \<Rightarrow> nat" where "secs n = n * 10 ^ 9"

definition INITIAL_RETRY_DELAY :: nat where "INITIAL_RETRY_DELAY = secs 30"

definition MAX_RETRY_DELAY :: nat where "MAX_RETRY_DELAY = secs (30 * 60)"

definition LEAVES_PER_FETCH :: nat where "LEAVES_PER_FETCH = 500"

record backoff =
  bo_retry_at :: system_time
  bo_delay :: nat

type_synonym backoffs = "(tree_node_id, backoff) hash_map"

definition is_complete :: "leaf_pedigree \<Rightarrow> bool" where
  "is_complete p = chain_reaches_root (lp_leaf p) (lp_ancestors p)"

definition due_leaves :: "backoffs \<Rightarrow> tree_node_id list \<Rightarrow> system_time \<Rightarrow> tree_node_id list" where
  "due_leaves b missing now = filter (\<lambda>i. case map_of b i of None \<Rightarrow> True | Some e \<Rightarrow> bo_retry_at e \<le> now) missing"

definition record_failure :: "system_time \<Rightarrow> tree_node_id \<Rightarrow> backoffs \<Rightarrow> backoffs" where
  "record_failure now i b =
     (if \<exists>e. map_of b i = Some e \<and> now < bo_retry_at e then b
      else let delay = (case map_of b i of None \<Rightarrow> INITIAL_RETRY_DELAY | Some e \<Rightarrow> min (bo_delay e * 2) MAX_RETRY_DELAY)
           in hm_insert i \<lparr>bo_retry_at = now + delay, bo_delay = delay\<rparr> b)"

definition record_outcomes :: "leaf_pedigree list \<Rightarrow> tree_node_id list \<Rightarrow> system_time \<Rightarrow> backoffs \<Rightarrow> backoffs" where
  "record_outcomes resolved failed now b =
     fold (record_failure now) failed (fold (\<lambda>p. hm_remove (tn_id (lp_leaf p))) resolved b)"

definition retain_backoff :: "tree_node_id list \<Rightarrow> backoffs \<Rightarrow> backoffs" where
  "retain_backoff present b = hm_retain (\<lambda>i _. i \<in> set present) b"

definition resolve_batch ::
  "tree_peers \<Rightarrow> tree_node_id list \<Rightarrow> system_time \<Rightarrow> backoffs \<Rightarrow> tree_world \<Rightarrow> (tree_service_error, unit) rust_result \<times> backoffs \<times> tree_world" where
  "resolve_batch peers candidates now b w =
     (case fetch_pedigrees_from_operators peers candidates w of
        (Inl e, w1) \<Rightarrow> (Inl e, b, w1)
      | (Inr fetched, w1) \<Rightarrow>
          let returned = map (\<lambda>p. tn_id (lp_leaf p)) fetched;
              resolved = filter is_complete fetched; unresolved = filter (\<lambda>p. \<not> is_complete p) fetched
          in (case store_exit_chains peers resolved w1 of
                (Inl e, w2) \<Rightarrow> (Inl e, b, w2)
              | (Inr _, w2) \<Rightarrow>
                  let failed = map (\<lambda>p. tn_id (lp_leaf p)) unresolved @ filter (\<lambda>i. i \<notin> set returned) candidates
                  in (Inr (), record_outcomes resolved failed now b, w2)))"

fun resolve_batches ::
  "tree_peers \<Rightarrow> tree_node_id list list \<Rightarrow> system_time \<Rightarrow> backoffs \<Rightarrow> tree_world
     \<Rightarrow> (tree_service_error, unit) rust_result \<times> backoffs \<times> tree_world" where
  "resolve_batches peers [] now b w = (Inr (), b, w)"
| "resolve_batches peers (batch # batches) now b w =
     (case resolve_batch peers batch now b w of
        (Inl e, b1, w1) \<Rightarrow> (Inl e, b1, w1)
      | (Inr _, b1, w1) \<Rightarrow> resolve_batches peers batches now b1 w1)"

text \<open>\<open>SystemTime::now()\<close> reads the clock without touching the store.\<close>

definition clock :: "tree_world \<Rightarrow> system_time" where
  "clock w = ce_now (tw_calls w (tw_step w))"

definition resolve :: "tree_peers \<Rightarrow> bool \<Rightarrow> backoffs \<Rightarrow> tree_world \<Rightarrow> (tree_service_error, unit) rust_result \<times> backoffs \<times> tree_world" where
  "resolve peers honor_backoff b w =
     (case leaves_missing_exit_chains w of
        (Inl e, w1) \<Rightarrow> (Inl e, b, w1)
      | (Inr missing, w1) \<Rightarrow>
          let b1 = retain_backoff missing b in
          if missing = [] then (Inr (), b1, w1)
          else
            let now = clock w1; candidates = (if honor_backoff then due_leaves b1 missing now else missing) in
            if candidates = [] then (Inr (), b1, w1)
            else resolve_batches peers (chunks LEAVES_PER_FETCH candidates) now b1 w1)"

definition resolve_missing_chains :: "tree_peers \<Rightarrow> backoffs \<Rightarrow> tree_world \<Rightarrow> (tree_service_error, unit) rust_result \<times> backoffs \<times> tree_world" where
  "resolve_missing_chains peers = resolve peers True"

definition resolve_all_missing_chains :: "tree_peers \<Rightarrow> backoffs \<Rightarrow> tree_world \<Rightarrow> (tree_service_error, unit) rust_result \<times> backoffs \<times> tree_world" where
  "resolve_all_missing_chains peers = resolve peers False"

subsection \<open>The schedule\<close>

text \<open>Delays are 30 seconds doubled some number of times, at most 30 minutes.\<close>

definition paced :: "backoffs \<Rightarrow> bool" where
  "paced b = (wf_map b \<and> (\<forall>i e. map_of b i = Some e \<longrightarrow> (\<exists>k. bo_delay e = min (INITIAL_RETRY_DELAY * 2 ^ k) MAX_RETRY_DELAY)))"

text \<open>A pass at time \<open>now\<close> leaves a running delay as it is, or lifts it.\<close>

definition keeps_running :: "system_time \<Rightarrow> backoffs \<Rightarrow> backoffs \<Rightarrow> bool" where
  "keeps_running now b b' = (\<forall>i e. map_of b i = Some e \<and> now < bo_retry_at e \<longrightarrow> map_of b' i \<in> {None, Some e})"

lemma record_failure_get:
  "map_of (record_failure now i b) j =
     (if j = i \<and> (\<forall>e. map_of b i = Some e \<longrightarrow> bo_retry_at e \<le> now)
      then let delay = (case map_of b i of None \<Rightarrow> INITIAL_RETRY_DELAY | Some e \<Rightarrow> min (bo_delay e * 2) MAX_RETRY_DELAY)
           in Some \<lparr>bo_retry_at = now + delay, bo_delay = delay\<rparr>
      else map_of b j)"
  by (auto simp: record_failure_def update_conv' Let_def not_less)

lemma delay_doubles:
  "min (min (INITIAL_RETRY_DELAY * 2 ^ k) MAX_RETRY_DELAY * 2) MAX_RETRY_DELAY = min (INITIAL_RETRY_DELAY * 2 ^ Suc k) MAX_RETRY_DELAY"
  by simp

lemma record_failure_paced: "paced b \<Longrightarrow> paced (record_failure now i b)"
proof -
  assume b: "paced b"
  have init: "\<exists>k. INITIAL_RETRY_DELAY = min (INITIAL_RETRY_DELAY * 2 ^ k) MAX_RETRY_DELAY"
    by (rule exI [of _ 0]) (simp add: INITIAL_RETRY_DELAY_def MAX_RETRY_DELAY_def secs_def)
  have "\<exists>k. bo_delay e = min (INITIAL_RETRY_DELAY * 2 ^ k) MAX_RETRY_DELAY" if "map_of (record_failure now i b) j = Some e" for j e
  proof (cases "map_of b j = Some e")
    case True
    with b show ?thesis by (auto simp: paced_def)
  next
    case False
    with that have e: "bo_delay e = (case map_of b i of None \<Rightarrow> INITIAL_RETRY_DELAY | Some e \<Rightarrow> min (bo_delay e * 2) MAX_RETRY_DELAY)"
      by (auto simp: record_failure_get Let_def split: if_splits)
    show ?thesis
    proof (cases "map_of b i")
      case None
      with e init show ?thesis by simp
    next
      case (Some e0)
      with b obtain k where "bo_delay e0 = min (INITIAL_RETRY_DELAY * 2 ^ k) MAX_RETRY_DELAY" unfolding paced_def by blast
      with e Some delay_doubles [of k] show ?thesis by (metis option.simps(5))
    qed
  qed
  moreover have "wf_map (record_failure now i b)" using b by (simp add: record_failure_def paced_def Let_def)
  ultimately show ?thesis by (simp add: paced_def)
qed

lemma paced_subset:
  assumes "paced b" and "wf_map b'" and "\<And>i e. map_of b' i = Some e \<Longrightarrow> map_of b i = Some e"
  shows "paced b'"
  using assms unfolding paced_def by blast

lemma remove_resolved_get:
  "map_of (fold (\<lambda>p. hm_remove (tn_id (lp_leaf p))) ps b) i = (if i \<in> (\<lambda>p. tn_id (lp_leaf p)) ` set ps then None else map_of b i)"
  by (induction ps arbitrary: b) (auto simp: delete_conv')

lemma remove_resolved_paced: "paced b \<Longrightarrow> paced (fold (\<lambda>p. hm_remove (tn_id (lp_leaf p))) ps b)"
proof (rule paced_subset)
  assume "paced b"
  then have "wf_map b" by (simp add: paced_def)
  then show "wf_map (fold (\<lambda>p. hm_remove (tn_id (lp_leaf p))) ps b)" by (induction ps arbitrary: b) simp_all
qed (auto simp: remove_resolved_get split: if_splits)

lemma record_failures_paced: "paced b \<Longrightarrow> paced (fold (record_failure now) ids b)"
  by (induction ids arbitrary: b) (simp_all add: record_failure_paced)

lemma record_outcomes_paced: "paced b \<Longrightarrow> paced (record_outcomes resolved failed now b)"
  by (simp add: record_outcomes_def record_failures_paced remove_resolved_paced)

lemma retain_backoff_get: "wf_map b \<Longrightarrow> map_of (retain_backoff present b) i = (if i \<in> set present then map_of b i else None)"
  by (simp add: retain_backoff_def hm_get_retain split: option.split)

lemma retain_backoff_paced: "paced b \<Longrightarrow> paced (retain_backoff present b)"
proof (rule paced_subset)
  assume "paced b"
  then show "wf_map (retain_backoff present b)" by (simp add: retain_backoff_def paced_def)
  fix i e assume "map_of (retain_backoff present b) i = Some e"
  with \<open>paced b\<close> show "map_of b i = Some e" by (auto simp: retain_backoff_get paced_def split: if_splits)
qed

text \<open>Held off past \<open>now\<close>.\<close>

definition held_off :: "system_time \<Rightarrow> tree_node_id \<Rightarrow> backoffs \<Rightarrow> bool" where
  "held_off now i b = (\<exists>e. map_of b i = Some e \<and> now < bo_retry_at e)"

lemma record_failure_held_off: "paced b \<Longrightarrow> held_off now i (record_failure now i b)"
proof -
  assume b: "paced b"
  have "0 < (case map_of b i of None \<Rightarrow> INITIAL_RETRY_DELAY | Some e \<Rightarrow> min (bo_delay e * 2) MAX_RETRY_DELAY)"
  proof (cases "map_of b i")
    case (Some e)
    with b obtain k where "bo_delay e = min (INITIAL_RETRY_DELAY * 2 ^ k) MAX_RETRY_DELAY" unfolding paced_def by blast
    with Some show ?thesis by (simp add: INITIAL_RETRY_DELAY_def MAX_RETRY_DELAY_def secs_def)
  qed (simp add: INITIAL_RETRY_DELAY_def secs_def)
  then show ?thesis by (auto simp: held_off_def record_failure_get Let_def not_le)
qed

lemma held_off_kept: "paced b \<Longrightarrow> held_off now j b \<Longrightarrow> held_off now j (record_failure now i b)"
  by (auto simp: held_off_def record_failure_get Let_def)

lemma failures_held_off:
  assumes "paced b"
  shows "(\<forall>i \<in> set ids. held_off now i (fold (record_failure now) ids b)) \<and> (\<forall>i. held_off now i b \<longrightarrow> held_off now i (fold (record_failure now) ids b))"
  using assms
proof (induction ids arbitrary: b)
  case (Cons i ids)
  with record_failure_paced [of b now i] show ?case
    using record_failure_held_off [OF Cons.prems, of now i] held_off_kept [OF Cons.prems, of now _ i] by auto
qed simp

lemma running_kept:
  assumes "map_of b i = Some e" and "now < bo_retry_at e"
  shows "map_of (fold (record_failure now) ids b) i = Some e"
  using assms
proof (induction ids arbitrary: b)
  case (Cons j ids)
  then have "map_of (record_failure now j b) i = Some e" by (auto simp: record_failure_get)
  with Cons show ?case by simp
qed simp

lemma failures_frame: "i \<notin> set ids \<Longrightarrow> map_of (fold (record_failure now) ids b) i = map_of b i"
  by (induction ids arbitrary: b) (simp_all add: record_failure_get)

subsection \<open>What the operators return\<close>

lemma fetch_pedigrees_spec:
  assumes "fetch_pedigrees_from_operators peers ids w = (Inr fetched, w1)"
  shows "tw_store w1 = tw_store w \<and> tw_calls w1 = tw_calls w \<and> (fetched = [] \<or> (\<exists>nodes.
    query_nodes peers (tw_step w) None True (Some (NodeIds ids)) [] = Inr nodes \<and> fetched = assemble_exit_chains (by_id nodes) ids))"
  using assms by (auto simp: fetch_pedigrees_from_operators_def fetch_nodes_def ask_def split: if_splits)

lemma assembled:
  assumes "p \<in> set (assemble_exit_chains (by_id nodes) ids)"
  shows "tn_id (lp_leaf p) \<in> set ids \<and> lp_leaf p \<in> set nodes"
proof -
  from assms obtain i where i: "i \<in> set ids" "map_of (by_id nodes) i = Some (lp_leaf p)"
    by (auto simp: assemble_exit_chains_def List.map_filter_def split: option.splits)
  with by_id_set [OF i(2)] ids_match_by_id [of nodes] show ?thesis by (auto simp: ids_match_def)
qed

text \<open>The completeness of a chain depends on the leaf and its id alone, so that one answer never both resolves and fails a leaf.\<close>

lemma assembled_same:
  "p \<in> set (assemble_exit_chains (by_id nodes) ids) \<Longrightarrow> q \<in> set (assemble_exit_chains (by_id nodes) ids)
     \<Longrightarrow> tn_id (lp_leaf p) = tn_id (lp_leaf q) \<Longrightarrow> p = q"
proof -
  have *: "map_of (by_id nodes) (tn_id (lp_leaf p)) = Some (lp_leaf p) \<and> p = \<lparr>lp_leaf = lp_leaf p, lp_ancestors = walk_ancestors (lp_leaf p) (by_id nodes)\<rparr>"
    if "p \<in> set (assemble_exit_chains (by_id nodes) ids)" for p
    using that ids_match_by_id [of nodes] by (auto simp: assemble_exit_chains_def List.map_filter_def ids_match_def split: option.splits)
  assume "p \<in> set (assemble_exit_chains (by_id nodes) ids)" "q \<in> set (assemble_exit_chains (by_id nodes) ids)" "tn_id (lp_leaf p) = tn_id (lp_leaf q)"
  with * [of p] * [of q] show "p = q" by (metis option.inject)
qed

subsection \<open>What gets stored\<close>

definition anc_of :: "leaves_state \<Rightarrow> tree_node_id \<Rightarrow> tree_node list" where
  "anc_of s i = (case map_of (ls_ancestors s) i of None \<Rightarrow> [] | Some ns \<Rightarrow> ns)"

lemma missing_iff:
  "i \<in> set (process_leaves_missing_exit_chains s) \<longleftrightarrow> (\<exists>l \<in> set (stored_nodes s). tn_id l = i \<and> \<not> chain_backs_exit l (anc_of s i))"
  by (auto simp: process_leaves_missing_exit_chains_def anc_of_def)

lemma missing_distinct: "store_inv s \<Longrightarrow> distinct (process_leaves_missing_exit_chains s)"
  using stored_nodes_ids [of s]
  by (simp add: process_leaves_missing_exit_chains_def store_inv_def distinct_map_filter flip: distinct_append)

text \<open>The stored copy of a leaf has the parent the operators report.\<close>

definition same_parent :: "leaves_state \<Rightarrow> tree_node \<Rightarrow> bool" where
  "same_parent s n = (\<forall>l \<in> set (stored_nodes s). tn_id l = tn_id n \<longrightarrow> tn_parent_node_id l = tn_parent_node_id n)"

lemma find_stored_leaf_complete:
  assumes "store_inv s" and "l \<in> set (stored_nodes s)"
  shows "find_stored_leaf s (tn_id l) \<noteq> None"
proof -
  have reserved: "n \<in> set (concat (map entry_nodes es)) \<Longrightarrow> find_reserved_leaf (tn_id n) es \<noteq> None" for n es
    by (induction es) (auto simp: entry_nodes_def find_None_iff split: option.splits)
  have pool: "map_of (ls_leaves s) (tn_id (sl_node sl)) \<noteq> None" if "sl \<in> set (hm_values (ls_leaves s))" for sl
    using that assms(1) by (force simp: store_inv_def wf_pool_def map_of_eq_None_iff)
  from assms(2) consider sl where "sl \<in> set (hm_values (ls_leaves s))" "l = sl_node sl"
    | "l \<in> set (concat (map entry_nodes (hm_values (ls_leaves_reservations s))))"
    unfolding stored_nodes_def by auto
  then show ?thesis
  proof cases
    case 1
    with pool [OF 1(1)] show ?thesis by (auto simp: find_stored_leaf_def)
  next
    case 2
    with reserved [OF 2] show ?thesis by (auto simp: find_stored_leaf_def split: option.split)
  qed
qed

lemma store_pedigree_backs:
  assumes inv: "store_inv s" and complete: "is_complete p" and parent: "same_parent s (lp_leaf p)"
  shows "tn_id (lp_leaf p) \<notin> set (process_leaves_missing_exit_chains (store_pedigree p s))"
proof
  assume "tn_id (lp_leaf p) \<in> set (process_leaves_missing_exit_chains (store_pedigree p s))"
  then obtain l where l: "l \<in> set (stored_nodes s)" "tn_id l = tn_id (lp_leaf p)"
      "\<not> chain_backs_exit l (anc_of (store_pedigree p s) (tn_id (lp_leaf p)))"
    by (auto simp: missing_iff)
  have backs: "chain_backs_exit l (lp_ancestors p)"
    using complete_chain_backs_exit [of "lp_leaf p" "lp_ancestors p"] complete parent l(1,2)
    by (simp add: is_complete_def same_parent_def chain_backs_exit_def)
  from find_stored_leaf_complete [OF inv l(1)] l(2,3) backs show False
    by (cases "lp_ancestors p = []")
       (auto simp: store_pedigree_def upsert_ancestors_def anc_of_def update_conv' chain_backs_exit_def split: option.splits)
qed

lemma store_pedigree_other:
  "i \<noteq> tn_id (lp_leaf p) \<Longrightarrow> map_of (ls_ancestors (store_pedigree p s)) i = map_of (ls_ancestors s) i"
  by (simp add: store_pedigree_def upsert_ancestors_def update_conv')

lemma store_all_backs:
  assumes "store_inv s" and "\<forall>p \<in> set ps. is_complete p \<and> same_parent s (lp_leaf p)"
  shows "stored_nodes (fold store_pedigree ps s) = stored_nodes s \<and> store_inv (fold store_pedigree ps s)
    \<and> (\<forall>i. i \<notin> set (process_leaves_missing_exit_chains s) \<or> i \<in> (\<lambda>p. tn_id (lp_leaf p)) ` set ps
         \<longrightarrow> i \<notin> set (process_leaves_missing_exit_chains (fold store_pedigree ps s)))"
  using assms
proof (induction ps arbitrary: s)
  case (Cons p ps)
  let ?s = "store_pedigree p s"
  have keep: "i \<notin> set (process_leaves_missing_exit_chains ?s)" if "i \<notin> set (process_leaves_missing_exit_chains s) \<or> i = tn_id (lp_leaf p)" for i
  proof (cases "i = tn_id (lp_leaf p)")
    case True
    with store_pedigree_backs [of s p] Cons.prems show ?thesis by simp
  next
    case False
    with that store_pedigree_other [OF False] show ?thesis by (simp add: missing_iff anc_of_def)
  qed
  have "store_inv ?s" using Cons.prems(1) by (rule store_pedigree_inv)
  moreover have "\<forall>q \<in> set ps. is_complete q \<and> same_parent ?s (lp_leaf q)" using Cons.prems(2) by (simp add: same_parent_def)
  ultimately have ih: "stored_nodes (fold store_pedigree ps ?s) = stored_nodes ?s \<and> store_inv (fold store_pedigree ps ?s)
    \<and> (\<forall>i. i \<notin> set (process_leaves_missing_exit_chains ?s) \<or> i \<in> (\<lambda>p. tn_id (lp_leaf p)) ` set ps
         \<longrightarrow> i \<notin> set (process_leaves_missing_exit_chains (fold store_pedigree ps ?s)))" by (rule Cons.IH)
  with keep show ?case by auto
qed simp

text \<open>Every chain in the store afterwards was there before or is a complete one just fetched.\<close>

lemma store_all_complete:
  assumes "\<forall>p \<in> set ps. is_complete p" and "map_of (ls_ancestors (fold store_pedigree ps s)) i = Some anc"
  shows "map_of (ls_ancestors s) i = Some anc \<or> (\<exists>leaf. tn_id leaf = i \<and> chain_reaches_root leaf anc)"
  using assms
proof (induction ps arbitrary: s)
  case (Cons p ps)
  then consider "map_of (ls_ancestors (store_pedigree p s)) i = Some anc" | "\<exists>leaf. tn_id leaf = i \<and> chain_reaches_root leaf anc" by auto
  then show ?case
  proof cases
    case 1
    with Cons.prems(1) show ?thesis
      by (auto simp: store_pedigree_def upsert_ancestors_def update_conv' is_complete_def split: if_splits)
  qed simp
qed simp

lemma store_exit_chains_alone:
  assumes "alone w" and "store_exit_chains peers ps w = (Inr (), w')"
  shows "tw_store w' = fold store_pedigree ps (tw_store w) \<and> alone w'"
proof (cases "ps = []")
  case True
  with assms show ?thesis by (simp add: store_exit_chains_def)
next
  case False
  with assms(2) obtain w1 where w1: "st_store_ancestors ps w = (Inr (), w1)" "signal_exit_state_changed peers w1 = (Inr (), w')"
    by (auto simp: store_exit_chains_def)
  from store_call_alone [OF assms(1) w1(1) [unfolded st_store_ancestors_def]] w1(2) assms(1) show ?thesis
    by (auto simp: process_store_ancestors_def signal_exit_state_changed_def alone_def split: if_splits)
qed

subsection \<open>A pass\<close>

lemma store_call_step: "store_call f w = (r, w') \<Longrightarrow> tw_step w' = Suc (tw_step w)"
  by (auto simp: store_call_def Let_def split: option.splits prod.splits)

text \<open>The leaf has its chain, or the resolver holds it off past \<open>now\<close>.\<close>

definition decided :: "system_time \<Rightarrow> tree_node_id \<Rightarrow> backoffs \<Rightarrow> leaves_state \<Rightarrow> bool" where
  "decided now i b s = (i \<notin> set (process_leaves_missing_exit_chains s) \<or> held_off now i b)"

definition operators_agree :: "tree_peers \<Rightarrow> leaves_state \<Rightarrow> bool" where
  "operators_agree peers s = (\<forall>n ids nodes. query_nodes peers n None True (Some (NodeIds ids)) [] = Inr nodes \<longrightarrow> (\<forall>l \<in> set nodes. same_parent s l))"

lemma resolve_batch_run:
  assumes alone: "alone w" and run: "resolve_batch peers cs now b w = (Inr (), b', w')"
  obtains fetched where "fetched = [] \<or> (\<exists>n nodes. query_nodes peers n None True (Some (NodeIds cs)) [] = Inr nodes \<and> fetched = assemble_exit_chains (by_id nodes) cs)"
    "tw_store w' = fold store_pedigree (filter is_complete fetched) (tw_store w)" "alone w'"
    "b' = record_outcomes (filter is_complete fetched)
        (map (\<lambda>p. tn_id (lp_leaf p)) (filter (\<lambda>p. \<not> is_complete p) fetched) @ filter (\<lambda>i. i \<notin> set (map (\<lambda>p. tn_id (lp_leaf p)) fetched)) cs) now b"
proof -
  obtain fetched w1 where f: "fetch_pedigrees_from_operators peers cs w = (Inr fetched, w1)"
    using run by (auto simp: resolve_batch_def split: prod.splits sum.splits)
  note spec = fetch_pedigrees_spec [OF f]
  obtain w2 where st: "store_exit_chains peers (filter is_complete fetched) w1 = (Inr (), w2)"
    using run by (auto simp: resolve_batch_def f Let_def split: prod.splits sum.splits)
  from store_exit_chains_alone [OF alone_keeps [OF alone conjunct1 [OF conjunct2 [OF spec]]] st] run spec f st show thesis
    by (intro that [of fetched]) (auto simp: resolve_batch_def Let_def)
qed

lemma resolve_batch_decides:
  assumes alone: "alone w" and inv: "store_inv (tw_store w)" and agree: "operators_agree peers (tw_store w)" and b: "paced b"
    and run: "resolve_batch peers cs now b w = (Inr (), b', w')"
  shows "alone w' \<and> store_inv (tw_store w') \<and> operators_agree peers (tw_store w') \<and> paced b'
    \<and> (\<forall>i. i \<in> set cs \<or> decided now i b (tw_store w) \<longrightarrow> decided now i b' (tw_store w'))"
proof -
  obtain fetched where f: "fetched = [] \<or> (\<exists>n nodes. query_nodes peers n None True (Some (NodeIds cs)) [] = Inr nodes
        \<and> fetched = assemble_exit_chains (by_id nodes) cs)"
      "tw_store w' = fold store_pedigree (filter is_complete fetched) (tw_store w)" "alone w'"
      "b' = record_outcomes (filter is_complete fetched)
        (map (\<lambda>p. tn_id (lp_leaf p)) (filter (\<lambda>p. \<not> is_complete p) fetched) @ filter (\<lambda>i. i \<notin> set (map (\<lambda>p. tn_id (lp_leaf p)) fetched)) cs) now b"
    by (rule resolve_batch_run [OF alone run])
  let ?resolved = "filter is_complete fetched"
  let ?failed = "map (\<lambda>p. tn_id (lp_leaf p)) (filter (\<lambda>p. \<not> is_complete p) fetched) @ filter (\<lambda>i. i \<notin> set (map (\<lambda>p. tn_id (lp_leaf p)) fetched)) cs"
  let ?ids = "(\<lambda>p. tn_id (lp_leaf p)) ` set ?resolved"
  have "\<forall>p \<in> set ?resolved. is_complete p \<and> same_parent (tw_store w) (lp_leaf p)"
    using f(1) agree assembled [of _ _ cs] by (auto simp: operators_agree_def)
  note stored = store_all_backs [OF inv this, folded f(2)]
  note rem = remove_resolved_paced [OF b, of ?resolved]
  note fails = failures_held_off [OF rem, where now = now and ids = ?failed]
  have b'_eq: "b' = fold (record_failure now) ?failed (fold (\<lambda>p. hm_remove (tn_id (lp_leaf p))) ?resolved b)"
    by (simp only: f(4) record_outcomes_def)
  have "decided now i b' (tw_store w')" if i: "i \<in> set cs \<or> decided now i b (tw_store w)" for i
  proof (cases "i \<in> ?ids \<or> i \<notin> set (process_leaves_missing_exit_chains (tw_store w))")
    case True
    with stored show ?thesis by (auto simp: decided_def)
  next
    case False
    then consider "i \<in> set cs" | "held_off now i b" using i by (auto simp: decided_def)
    then have "held_off now i b'"
    proof cases
      case 1
      with False have "i \<in> set ?failed" by auto
      with fails show ?thesis unfolding b'_eq by blast
    next
      case 2
      with False have "held_off now i (fold (\<lambda>p. hm_remove (tn_id (lp_leaf p))) ?resolved b)"
        by (simp add: held_off_def remove_resolved_get)
      with fails show ?thesis unfolding b'_eq by blast
    qed
    then show ?thesis by (simp add: decided_def)
  qed
  moreover have "operators_agree peers (tw_store w')" using agree stored by (simp add: operators_agree_def same_parent_def)
  moreover have "paced b'" using record_outcomes_paced [OF b] by (simp only: f(4))
  ultimately show ?thesis using f(3) stored by blast
qed

lemma resolve_batches_decide:
  assumes "alone w" and "store_inv (tw_store w)" and "operators_agree peers (tw_store w)" and "paced b"
    and "resolve_batches peers batches now b w = (Inr (), b', w')"
  shows "\<forall>i. i \<in> set (concat batches) \<or> decided now i b (tw_store w) \<longrightarrow> decided now i b' (tw_store w')"
  using assms
proof (induction batches arbitrary: b w)
  case (Cons batch batches)
  obtain b1 w1 where step: "resolve_batch peers batch now b w = (Inr (), b1, w1)" "resolve_batches peers batches now b1 w1 = (Inr (), b', w')"
    using Cons.prems(5) by (auto split: prod.splits sum.splits)
  note one = resolve_batch_decides [OF Cons.prems(1-4) step(1)]
  with Cons.IH [of w1 b1] step(2) show ?case by auto
qed simp

text \<open>A pass stores complete chains only, and under every answer of the operators.\<close>

lemma resolve_batches_complete:
  assumes "alone w" and "resolve_batches peers batches now b w = (Inr (), b', w')" and "map_of (ls_ancestors (tw_store w')) i = Some anc"
  shows "map_of (ls_ancestors (tw_store w)) i = Some anc \<or> (\<exists>leaf. tn_id leaf = i \<and> chain_reaches_root leaf anc)"
  using assms
proof (induction batches arbitrary: b w)
  case (Cons batch batches)
  obtain b1 w1 where step: "resolve_batch peers batch now b w = (Inr (), b1, w1)" "resolve_batches peers batches now b1 w1 = (Inr (), b', w')"
    using Cons.prems(2) by (auto split: prod.splits sum.splits)
  obtain fetched where f: "tw_store w1 = fold store_pedigree (filter is_complete fetched) (tw_store w)" "alone w1"
    using resolve_batch_run [OF Cons.prems(1) step(1)] by metis
  from Cons.IH [OF f(2) step(2) Cons.prems(3)] store_all_complete [of "filter is_complete fetched" "tw_store w" i anc] f(1)
  show ?case by auto
qed simp


text \<open>What one batch does to the schedule, whether it succeeds or not.\<close>

lemma batch_schedule:
  assumes "resolve_batch peers cs now b w = (r, b', w')"
  shows "(\<forall>i. i \<notin> set cs \<longrightarrow> map_of b' i = map_of b i) \<and> keeps_running now b b' \<and> (paced b \<longrightarrow> paced b')"
proof (cases "b' = b")
  case False
  then obtain fetched w1 where f: "fetch_pedigrees_from_operators peers cs w = (Inr fetched, w1)"
      and b': "b' = record_outcomes (filter is_complete fetched)
        (map (\<lambda>p. tn_id (lp_leaf p)) (filter (\<lambda>p. \<not> is_complete p) fetched) @ filter (\<lambda>i. i \<notin> set (map (\<lambda>p. tn_id (lp_leaf p)) fetched)) cs) now b"
    using assms by (auto simp: resolve_batch_def Let_def split: prod.splits sum.splits)
  let ?resolved = "filter is_complete fetched"
  let ?failed = "map (\<lambda>p. tn_id (lp_leaf p)) (filter (\<lambda>p. \<not> is_complete p) fetched) @ filter (\<lambda>i. i \<notin> set (map (\<lambda>p. tn_id (lp_leaf p)) fetched)) cs"
  have ids: "tn_id (lp_leaf p) \<in> set cs" if "p \<in> set fetched" for p
    using fetch_pedigrees_spec [OF f] that assembled [of p] by auto
  have excl: "i \<notin> set ?failed" if "i \<in> (\<lambda>p. tn_id (lp_leaf p)) ` set ?resolved" for i
  proof -
    from that obtain p where p: "p \<in> set fetched" "is_complete p" "i = tn_id (lp_leaf p)" by auto
    with fetch_pedigrees_spec [OF f] obtain nodes where nodes: "fetched = assemble_exit_chains (by_id nodes) cs" by auto
    have "is_complete q" if "q \<in> set fetched" "tn_id (lp_leaf q) = i" for q
      using assembled_same [of q nodes cs p] that p unfolding nodes by simp
    moreover have "i \<in> set (map (\<lambda>p. tn_id (lp_leaf p)) fetched)" unfolding p(3) using p(1) by simp
    ultimately show ?thesis unfolding set_append set_map set_filter Un_iff by blast
  qed
  have eq: "b' = fold (record_failure now) ?failed (fold (\<lambda>p. hm_remove (tn_id (lp_leaf p))) ?resolved b)"
    by (simp only: b' record_outcomes_def)
  have "map_of b' i = map_of b i" if "i \<notin> set cs" for i
  proof -
    have none: "i \<notin> set ?failed" "i \<notin> (\<lambda>p. tn_id (lp_leaf p)) ` set ?resolved" using that ids by auto
    then show ?thesis unfolding eq failures_frame [OF none(1)] remove_resolved_get by argo
  qed
  moreover have "map_of b' i \<in> {None, Some e}" if "map_of b i = Some e" "now < bo_retry_at e" for i e
  proof (cases "i \<in> (\<lambda>p. tn_id (lp_leaf p)) ` set ?resolved")
    case True
    then have "map_of b' i = None" unfolding eq failures_frame [OF excl [OF True]] remove_resolved_get by argo
    then show ?thesis by simp
  next
    case False
    with that(1) have "map_of (fold (\<lambda>p. hm_remove (tn_id (lp_leaf p))) ?resolved b) i = Some e" unfolding remove_resolved_get by argo
    from running_kept [OF this that(2), of ?failed] show ?thesis unfolding eq by blast
  qed
  ultimately show ?thesis using record_outcomes_paced [of b] by (simp add: keeps_running_def b')
qed (simp add: keeps_running_def)

lemma batches_schedule:
  assumes "resolve_batches peers batches now b w = (r, b', w')" and "distinct (concat batches)"
  shows "(\<forall>i. i \<notin> set (concat batches) \<longrightarrow> map_of b' i = map_of b i) \<and> keeps_running now b b' \<and> (paced b \<longrightarrow> paced b')"
  using assms
proof (induction batches arbitrary: b w)
  case (Cons batch batches)
  obtain q b1 w1 where step: "resolve_batch peers batch now b w = (q, b1, w1)" by (cases "resolve_batch peers batch now b w")
  note one = batch_schedule [OF step]
  show ?case
  proof (cases q)
    case (Inl e)
    with step Cons.prems(1) one show ?thesis by auto
  next
    case (Inr u)
    with step Cons.prems have rest: "resolve_batches peers batches now b1 w1 = (r, b', w')" "distinct (concat batches)" by auto
    note two = Cons.IH [OF rest]
    have "map_of b' i \<in> {None, Some e}" if "map_of b i = Some e" "now < bo_retry_at e" for i e
    proof (cases "i \<in> set batch")
      case True
      with Cons.prems(2) have "i \<notin> set (concat batches)" by auto
      with one two that show ?thesis by (simp add: keeps_running_def)
    next
      case False
      with one that(1) have "map_of b1 i = Some e" by simp
      with two that(2) show ?thesis by (simp add: keeps_running_def)
    qed
    with one two show ?thesis by (simp add: keeps_running_def)
  qed
qed (simp add: keeps_running_def)

text \<open>\<^bold>\<open>C30\<close>. The schedule of the resolver: whatever the operators answer, whether the pass succeeds or fails and whether or not it
  honours the delays, every delay is 30 seconds doubled some number of times and at most 30 minutes, and a delay that is
  still running is kept as it is or lifted, never extended. Other tasks may use the store meanwhile.\<close>

theorem passes_keep_the_schedule:
  assumes b: "paced b" and inv: "store_inv (tw_store w)" and others: "\<forall>k s. store_inv s \<longrightarrow> store_inv (ce_before (tw_calls w k) s)"
    and run: "resolve peers honor b w = (r, b', w')" and now: "now = ce_now (tw_calls w (Suc (tw_step w)))"
  shows "paced b' \<and> (\<forall>i e. map_of b i = Some e \<and> now < bo_retry_at e \<longrightarrow> map_of b' i \<in> {None, Some e})"
proof -
  obtain q w1 where q: "leaves_missing_exit_chains w = (q, w1)" by fastforce
  have calls: "tw_calls w1 = tw_calls w" "tw_step w1 = Suc (tw_step w)"
    using q by (auto simp: leaves_missing_exit_chains_def st_leaves_missing_exit_chains_def store_call_def Let_def split: option.splits)
  have "keeps_running now b b' \<and> paced b'"
  proof (cases q)
    case (Inl e)
    with q run b show ?thesis by (auto simp: resolve_def keeps_running_def)
  next
    case (Inr missing)
    with q have "missing = process_leaves_missing_exit_chains (ce_before (tw_calls w (tw_step w)) (tw_store w))"
      by (auto simp: leaves_missing_exit_chains_def st_leaves_missing_exit_chains_def store_call_def Let_def split: option.splits)
    with inv others have dist: "distinct missing" by (simp add: missing_distinct)
    let ?b1 = "retain_backoff missing b" and ?cs = "if honor then due_leaves (retain_backoff missing b) missing now else missing"
    have wf: "wf_map b" using b by (simp add: paced_def)
    have b1: "paced ?b1" "keeps_running now b ?b1"
      using retain_backoff_paced [OF b] by (simp_all add: keeps_running_def retain_backoff_get [OF wf])
    show ?thesis
    proof (cases "missing = [] \<or> ?cs = []")
      case True
      then have "b' = ?b1" using run Inr q now calls by (auto simp: resolve_def clock_def Let_def split: if_splits)
      with b1 show ?thesis by simp
    next
      case False
      with run Inr q now calls have batches: "resolve_batches peers (chunks LEAVES_PER_FETCH ?cs) now ?b1 w1 = (r, b', w')"
        by (auto simp: resolve_def clock_def Let_def split: if_splits)
      have conc: "concat (chunks LEAVES_PER_FETCH ?cs) = ?cs" by (rule concat_chunks) (simp add: LEAVES_PER_FETCH_def)
      have "distinct (concat (chunks LEAVES_PER_FETCH ?cs))" unfolding conc using dist by (simp add: due_leaves_def)
      note two = batches_schedule [OF batches this]
      have "map_of b' i \<in> {None, Some e}" if "map_of b i = Some e" "now < bo_retry_at e" for i e
      proof (cases "i \<in> set missing")
        case True
        then have "map_of ?b1 i = Some e" using that(1) by (simp add: retain_backoff_get [OF wf])
        with two that(2) show ?thesis by (simp add: keeps_running_def)
      next
        case False
        then have "map_of ?b1 i = None" "i \<notin> set ?cs" by (simp_all add: retain_backoff_get [OF wf] due_leaves_def)
        with two show ?thesis unfolding conc by simp
      qed
      with two b1(1) show ?thesis by (simp add: keeps_running_def)
    qed
  qed
  then show ?thesis by (simp add: keeps_running_def)
qed

subsection \<open>Runs\<close>

definition example_child :: tree_node where "example_child = example_leaf ''a'' 4 (Some ''p'')"

definition example_top :: tree_node where "example_top = example_leaf ''p'' 8 None"

definition other_child :: tree_node where "other_child = example_leaf ''b'' 4 (Some ''p'')"

definition two_children :: leaves_state where
  "two_children = leaves_state_default\<lparr>ls_leaves := [(''a'', from_node example_child 3), (''b'', from_node other_child 3)]\<rparr>"

lemmas resolver_examples = example_child_def example_top_def other_child_def two_children_def

lemma example_resolver_inv: "store_inv two_children"
  by (simp add: store_inv_alt resolver_examples leaves_state_default_def wf_pool_def wf_map_def reserved_ids_def from_node_def example_leaf_def)

lemma example_missing: "process_leaves_missing_exit_chains two_children = [''a'', ''b'']"
  by (simp add: process_leaves_missing_exit_chains_def stored_nodes_def resolver_examples leaves_state_default_def from_node_def example_leaf_def
      chain_backs_exit_def)

text \<open>The operators answer about \<open>a\<close> and say nothing about \<open>b\<close>.\<close>

lemma example_pass:
  "\<exists>w'. resolve (example_peers [example_child, example_top] [] sw) True [] (example_world two_children)
       = (Inr (), [(''b'', \<lparr>bo_retry_at = 5 + INITIAL_RETRY_DELAY, bo_delay = INITIAL_RETRY_DELAY\<rparr>)], w')"
proof -
  let ?peers = "example_peers [example_child, example_top] [] sw" and ?w = "example_world two_children"
  let ?w1 = "?w\<lparr>tw_step := 1\<rparr>"
  let ?pedigree = "\<lparr>lp_leaf = example_child, lp_ancestors = [example_top]\<rparr>"
  have missing: "leaves_missing_exit_chains ?w = (Inr [''a'', ''b''], ?w1)"
    by (simp add: leaves_missing_exit_chains_def st_leaves_missing_exit_chains_def example_store_call example_missing)
  have nodes: "by_id [example_child, example_top] = [(''a'', example_child), (''p'', example_top)]"
    by (simp add: by_id_def example_child_def example_top_def example_leaf_def)
  have sel: "tn_parent_node_id example_child = Some ''p''" "tn_parent_node_id example_top = None"
    by (simp_all add: example_child_def example_top_def example_leaf_def)
  have walk: "walk_ancestors example_child (by_id [example_child, example_top]) = [example_top]"
    unfolding nodes walk_ancestors_def by (simp add: walk_loop.simps sel)
  have chains: "assemble_exit_chains (by_id [example_child, example_top]) [''a'', ''b''] = [?pedigree]"
    using walk by (simp add: assemble_exit_chains_def List.map_filter_simps nodes)
  have complete: "is_complete ?pedigree"
    by (simp add: is_complete_def chain_reaches_root_def reaches_loop.simps by_id_def resolver_examples example_leaf_def)
  have fetch: "fetch_pedigrees_from_operators ?peers [''a'', ''b''] ?w1 = (Inr [?pedigree], ?w1\<lparr>tw_step := 2\<rparr>)"
    by (simp add: fetch_pedigrees_from_operators_def fetch_nodes_def op_match_def ask_simp chains numeral_2_eq_2 del: op_match_Inr)
  obtain w' where st: "store_exit_chains ?peers [?pedigree] (?w1\<lparr>tw_step := 2\<rparr>) = (Inr (), w')"
    by (simp add: store_exit_chains_def op_bind_def st_store_ancestors_def example_store_call process_store_ancestors_def signal_exit_state_changed_def
        del: op_bind_Inr)
  have "resolve_batch ?peers [''a'', ''b''] 5 [] ?w1 = (Inr (), record_outcomes [?pedigree] [''b''] 5 [], w')"
    using fetch st complete by (simp add: resolve_batch_def Let_def example_child_def example_leaf_def)
  moreover have "record_outcomes [?pedigree] [''b''] 5 [] = [(''b'', \<lparr>bo_retry_at = 5 + INITIAL_RETRY_DELAY, bo_delay = INITIAL_RETRY_DELAY\<rparr>)]"
    by (simp add: record_outcomes_def record_failure_def)
  moreover have "chunks LEAVES_PER_FETCH [''a'', ''b''] = [[''a'', ''b'']]"
    by (simp add: LEAVES_PER_FETCH_def chunks.simps)
  ultimately show ?thesis
    by (intro exI [of _ w']) (simp add: resolve_def missing Let_def retain_backoff_def hm_retain_def due_leaves_def clock_def)
qed

lemma example_paced: "paced []"
  by (simp add: paced_def wf_map_def)


lemma passes_keep_the_schedule_witness:
  "\<exists>b' w'. resolve (example_peers [example_child, example_top] [] (\<lambda>_. Inr [])) True [] (example_world two_children) = (Inr (), b', w') \<and> paced b'"
proof -
  let ?w = "example_world two_children"
  obtain b' w' where run: "resolve (example_peers [example_child, example_top] [] (\<lambda>_. Inr [])) True [] ?w = (Inr (), b', w')"
    using example_pass by blast
  have "\<forall>k s. store_inv s \<longrightarrow> store_inv (ce_before (tw_calls ?w k) s)" by (simp add: example_call_def)
  with passes_keep_the_schedule [OF example_paced _ this run refl] example_resolver_inv run show ?thesis by auto
qed

text \<open>When the operators report the stored leaf without the parent it is stored with, its empty chain counts as complete: the
  backoff is lifted and nothing is stored, so that the leaf is asked about again, and the exit state announced again, on
  every pass.\<close>

lemma other_parent_is_never_held_off:
  "\<exists>w'. resolve (example_peers [example_child\<lparr>tn_parent_node_id := None\<rparr>] [] sw) True []
         (example_world (leaves_state_default\<lparr>ls_leaves := [(''a'', from_node example_child 3)]\<rparr>)) = (Inr (), [], w')
     \<and> process_leaves_missing_exit_chains (tw_store w') = [''a''] \<and> tw_exit_signals w' = 1"
proof -
  let ?s = "leaves_state_default\<lparr>ls_leaves := [(''a'', from_node example_child 3)]\<rparr>" and ?root = "example_child\<lparr>tn_parent_node_id := None\<rparr>"
  let ?peers = "example_peers [?root] [] sw" and ?w1 = "(example_world ?s)\<lparr>tw_step := 1\<rparr>"
  let ?pedigree = "\<lparr>lp_leaf = ?root, lp_ancestors = []\<rparr>"
  have lacks: "process_leaves_missing_exit_chains ?s = [''a'']"
    by (simp add: process_leaves_missing_exit_chains_def stored_nodes_def resolver_examples leaves_state_default_def from_node_def example_leaf_def
        chain_backs_exit_def)
  have missing: "leaves_missing_exit_chains (example_world ?s) = (Inr [''a''], ?w1)"
    by (simp add: leaves_missing_exit_chains_def st_leaves_missing_exit_chains_def example_store_call lacks)
  have chains: "assemble_exit_chains (by_id [?root]) [''a''] = [?pedigree]"
    by (simp add: assemble_exit_chains_def List.map_filter_simps by_id_def walk_ancestors_def walk_loop.simps resolver_examples example_leaf_def)
  have complete: "is_complete ?pedigree" by (simp add: is_complete_def chain_reaches_root_def reaches_loop.simps)
  have fetch: "fetch_pedigrees_from_operators ?peers [''a''] ?w1 = (Inr [?pedigree], ?w1\<lparr>tw_step := 2\<rparr>)"
    by (simp add: fetch_pedigrees_from_operators_def fetch_nodes_def op_match_def ask_simp chains numeral_2_eq_2 del: op_match_Inr)
  have st: "store_exit_chains ?peers [?pedigree] (?w1\<lparr>tw_step := 2\<rparr>) = (Inr (), ?w1\<lparr>tw_step := 3, tw_exit_signals := 1\<rparr>)"
    by (simp add: store_exit_chains_def op_bind_def st_store_ancestors_def example_store_call process_store_ancestors_def store_pedigree_def
        upsert_ancestors_def signal_exit_state_changed_def del: op_bind_Inr) (simp add: example_world_def)
  have "resolve_batch ?peers [''a''] 5 [] ?w1 = (Inr (), [], ?w1\<lparr>tw_step := 3, tw_exit_signals := 1\<rparr>)"
    using fetch st complete by (simp add: resolve_batch_def Let_def record_outcomes_def example_child_def example_leaf_def)
  moreover have "chunks LEAVES_PER_FETCH [''a''] = [[''a'']]" by (simp add: LEAVES_PER_FETCH_def chunks.simps)
  ultimately show ?thesis
    by (simp add: resolve_def missing Let_def retain_backoff_def hm_retain_def due_leaves_def clock_def lacks)
qed

end
