(* ===== verification/Secret_Sharing.thy ===== *)
theory Secret_Sharing
  imports Complex_Main Refund_Signing
begin

text \<open>
  Splitting a secret for the operators: \<^verbatim>\<open>crates/spark/src/signer/secret_sharing.rs\<close>, and how the signer hands the shares out
  (\<^verbatim>\<open>find_share\<close> of \<^verbatim>\<open>spark_signer_adapter.rs\<close>, \<^verbatim>\<open>split_secret_with_proofs\<close> of \<^verbatim>\<open>default_signer.rs\<close>). The scalars of the curve are any
  field, its points any type; multiplying the generator, reading a scalar from bytes and turning a point into a public
  key belong to a third-party crate and are the record \<open>curve_api\<close>. Random bytes are an argument.
\<close>

subsection \<open>Splitting\<close>

type_synonym byte = "8 word"

record ('a, 'g, 'p) curve_api =
  cv_from_repr :: "byte list \<Rightarrow> 'a option"
  cv_generator_mul :: "'a \<Rightarrow> 'g"
  cv_from_affine :: "'g \<Rightarrow> 'p option"

record ('a, 'p) polynomial =
  po_coefficients :: "'a list"
  po_proofs :: "'p list"

record 'a secret_share =
  ss_threshold :: nat
  ss_index :: 'a
  ss_share :: 'a

record ('a, 'p) verifiable_secret_share =
  vs_secret_share :: "'a secret_share"
  vs_proofs :: "'p list"

definition evaluate :: "('a :: field, 'p) polynomial \<Rightarrow> 'a \<Rightarrow> 'a" where
  "evaluate p x = fold (\<lambda>coeff result. result * x + coeff) (rev (po_coefficients p)) 0"

definition from_bytes_to_scalar :: "('a, 'g, 'p) curve_api \<Rightarrow> byte list \<Rightarrow> (signer_error, 'a) rust_result" where
  "from_bytes_to_scalar api bytes =
     (if length bytes \<noteq> 32
      then Inl (SGE_SecretSharingError (''Invalid byte length for scalar. Expected 32, got '' @ display_nat (length bytes)))
      else ok_or (cv_from_repr api bytes) (SGE_SecretSharingError ''Failed to convert bytes to scalar''))"

definition scalar_to_pubkey :: "('a, 'g, 'p) curve_api \<Rightarrow> 'a \<Rightarrow> (signer_error, 'p) rust_result" where
  "scalar_to_pubkey api secret =
     ok_or (cv_from_affine api (cv_generator_mul api secret)) (SGE_SecretSharingError ''Failed to convert scalar to public key'')"

text \<open>The random coefficients, from the \<open>k\<close>-th draw on; each is followed by its proof.\<close>

fun draw_coefficients ::
  "('a, 'g, 'p) curve_api \<Rightarrow> (nat \<Rightarrow> byte list) \<Rightarrow> nat \<Rightarrow> nat \<Rightarrow> 'a list \<Rightarrow> 'p list \<Rightarrow> (signer_error, ('a, 'p) polynomial) rust_result" where
  "draw_coefficients api rng k 0 cs ps = Inr \<lparr>po_coefficients = cs, po_proofs = ps\<rparr>"
| "draw_coefficients api rng k (Suc left) cs ps =
     qbind (from_bytes_to_scalar api (rng k)) (\<lambda>c.
     qbind (scalar_to_pubkey api c) (\<lambda>p. draw_coefficients api rng (Suc k) left (cs @ [c]) (ps @ [p])))"

definition generate_polynomial_for_secret_sharing ::
  "('a, 'g, 'p) curve_api \<Rightarrow> (nat \<Rightarrow> byte list) \<Rightarrow> 'a \<Rightarrow> nat \<Rightarrow> (signer_error, ('a, 'p) polynomial) rust_result" where
  "generate_polynomial_for_secret_sharing api rng secret threshold =
     (let degree = threshold - 1 in
      qbind (scalar_to_pubkey api secret) (\<lambda>p. draw_coefficients api rng 0 degree [secret] [p]))"

definition split_secret_with_proofs ::
  "('a :: field, 'g, 'p) curve_api \<Rightarrow> (nat \<Rightarrow> byte list) \<Rightarrow> 'a \<Rightarrow> nat \<Rightarrow> nat
     \<Rightarrow> (signer_error, ('a, 'p) verifiable_secret_share list) rust_result" where
  "split_secret_with_proofs api rng secret_scalar threshold number_of_shares =
     (if threshold = 0 \<or> threshold > number_of_shares
      then Inl (SGE_SecretSharingError (''Threshold ('' @ display_nat threshold
             @ '') must be greater than 0 and less than or equal to the number of shares ('' @ display_nat number_of_shares @ '')''))
      else qbind (generate_polynomial_for_secret_sharing api rng secret_scalar threshold) (\<lambda>polynomial.
        Inr (map (\<lambda>i. let index = of_nat i in
                    \<lparr>vs_secret_share = \<lparr>ss_threshold = threshold, ss_index = index, ss_share = evaluate polynomial index\<rparr>,
                     vs_proofs = po_proofs polynomial\<rparr>) [1..<Suc number_of_shares])))"

definition find_share :: "('a :: field, 'p) verifiable_secret_share list \<Rightarrow> nat \<Rightarrow> ('a, 'p) verifiable_secret_share option" where
  "find_share shares operator_id =
     (let target = of_nat (operator_id + 1) in find (\<lambda>s. ss_index (vs_secret_share s) = target) shares)"

text \<open>\<open>DefaultSigner::split_secret_with_proofs\<close>: the bytes of the secret, read from a key or given as a preimage.\<close>

definition signer_split_secret ::
  "('a :: field, 'g, 'p) curve_api \<Rightarrow> (nat \<Rightarrow> byte list) \<Rightarrow> (signer_error, byte list) rust_result \<Rightarrow> nat \<Rightarrow> nat
     \<Rightarrow> (signer_error, ('a, 'p) verifiable_secret_share list) rust_result" where
  "signer_split_secret api rng secret_bytes threshold num_shares =
     qbind secret_bytes (\<lambda>bytes. qbind (from_bytes_to_scalar api bytes) (\<lambda>secret.
       split_secret_with_proofs api rng secret threshold num_shares))"

subsection \<open>Polynomials as functions\<close>

text \<open>Horner's scheme computes the polynomial with these coefficients.\<close>

definition horner :: "'a :: field list \<Rightarrow> 'a \<Rightarrow> 'a" where
  "horner cs x = foldr (\<lambda>c r. r * x + c) cs 0"

lemma horner_simps [simp]: "horner [] x = 0" "horner (c # cs) x = horner cs x * x + c"
  by (simp_all add: horner_def)

lemma evaluate_horner: "evaluate p x = horner (po_coefficients p) x"
  by (simp add: evaluate_def horner_def foldr_conv_fold)

lemma horner_sum: "horner cs x = (\<Sum>k < length cs. cs ! k * x ^ k)"
proof (induction cs)
  case (Cons c cs)
  have "(\<Sum>k < Suc (length cs). (c # cs) ! k * x ^ k) = c + (\<Sum>k < length cs. cs ! k * x ^ Suc k)"
    by (subst sum.lessThan_Suc_shift) simp
  also have "(\<Sum>k < length cs. cs ! k * x ^ Suc k) = horner cs x * x"
    unfolding Cons.IH sum_distrib_right by (intro sum.cong) simp_all
  finally show ?case by (simp add: add.commute)
qed simp

text \<open>Functions that some polynomial with at most \<open>n\<close> coefficients computes.\<close>

definition poly_fun :: "nat \<Rightarrow> ('a :: field \<Rightarrow> 'a) \<Rightarrow> bool" where
  "poly_fun n f = (\<exists>cs. length cs = n \<and> f = horner cs)"

lemma horner_zeros [simp]: "horner (replicate n 0) x = 0"
  by (induction n) simp_all

lemma horner_add: "length cs = length ds \<Longrightarrow> horner (map2 (+) cs ds) x = horner cs x + horner ds x"
  by (induction cs ds rule: list_induct2) (simp_all add: algebra_simps)

lemma horner_scale: "horner (map ((*) a) cs) x = a * horner cs x"
  by (induction cs) (simp_all add: algebra_simps)

lemma poly_fun_zero: "poly_fun n (\<lambda>x. 0)"
  unfolding poly_fun_def by (rule exI [of _ "replicate n 0"]) auto

lemma poly_fun_add: "poly_fun n f \<Longrightarrow> poly_fun n g \<Longrightarrow> poly_fun n (\<lambda>x. f x + g x)"
  unfolding poly_fun_def by (metis (no_types, lifting) horner_add length_map length_zip min.idem ext)

lemma poly_fun_scale: "poly_fun n f \<Longrightarrow> poly_fun n (\<lambda>x. a * f x)"
  unfolding poly_fun_def by (metis (no_types, lifting) horner_scale length_map ext)

lemma poly_fun_diff: "poly_fun n f \<Longrightarrow> poly_fun n g \<Longrightarrow> poly_fun n (\<lambda>x. f x - g x)"
  using poly_fun_add [OF _ poly_fun_scale [of n g "-1"]] by simp

lemma poly_fun_shift: "poly_fun n f \<Longrightarrow> poly_fun (Suc n) (\<lambda>x. f x * x)"
proof -
  assume "poly_fun n f"
  then obtain cs where "length cs = n" "f = horner cs" by (auto simp: poly_fun_def)
  then show ?thesis unfolding poly_fun_def by (intro exI [of _ "0 # cs"]) auto
qed

lemma poly_fun_widen: "poly_fun n f \<Longrightarrow> poly_fun (Suc n) f"
proof -
  have "horner (cs @ [0]) x = horner cs x" for cs and x :: 'a by (induction cs) simp_all
  moreover assume "poly_fun n f"
  then obtain cs where "length cs = n" "f = horner cs" by (auto simp: poly_fun_def)
  ultimately show ?thesis unfolding poly_fun_def by (intro exI [of _ "cs @ [0]"]) auto
qed

lemma poly_fun_linear: "poly_fun n f \<Longrightarrow> poly_fun (Suc n) (\<lambda>x. (a - x) * f x)"
  using poly_fun_diff [OF poly_fun_scale [OF poly_fun_widen [of n f], of a] poly_fun_shift [of n f]] by (simp add: algebra_simps)

text \<open>Dividing by a root.\<close>

lemma horner_root:
  assumes "horner (c # cs) a = 0"
  shows "\<exists>q. poly_fun (length cs) q \<and> (\<forall>x. horner (c # cs) x = (x - a) * q x)"
proof -
  have "\<exists>q. poly_fun (length cs) q \<and> (\<forall>x. horner (c # cs) x = (x - a) * q x + horner (c # cs) a)" for c
  proof (induction cs arbitrary: c)
    case Nil
    then show ?case by (intro exI [of _ "\<lambda>x. 0"]) (simp add: poly_fun_zero)
  next
    case (Cons d ds)
    obtain q where q: "poly_fun (length ds) q" "\<forall>x. horner (d # ds) x = (x - a) * q x + horner (d # ds) a" using Cons.IH by blast
    have "poly_fun (Suc (length ds)) (\<lambda>x. q x * x + horner (d # ds) a)"
    proof -
      have "poly_fun (Suc (length ds)) (\<lambda>x. horner (d # ds) a)"
        unfolding poly_fun_def by (rule exI [of _ "horner (d # ds) a # replicate (length ds) 0"]) auto
      with poly_fun_add [OF poly_fun_shift [OF q(1)]] show ?thesis by blast
    qed
    moreover have "horner (c # d # ds) x = (x - a) * (q x * x + horner (d # ds) a) + horner (c # d # ds) a" for x
    proof -
      have "horner (c # d # ds) x = horner (d # ds) x * x + c" by (rule horner_simps(2))
      also have "\<dots> = ((x - a) * q x + horner (d # ds) a) * x + c" using q(2) [rule_format, of x] by (simp only:)
      also have "\<dots> = (x - a) * (q x * x + horner (d # ds) a) + (horner (d # ds) a * a + c)"
        by (simp add: algebra_simps del: horner_simps)
      finally show ?thesis unfolding horner_simps(2) [of c "d # ds" a] .
    qed
    ultimately show ?case unfolding length_Cons by blast
  qed
  then show ?thesis using assms by (metis add.right_neutral)
qed

text \<open>A polynomial with at most \<open>n\<close> coefficients and \<open>n\<close> roots is zero.\<close>

lemma poly_fun_roots:
  assumes "poly_fun n f" and "finite A" and "card A = n" and "\<And>a. a \<in> A \<Longrightarrow> f a = 0"
  shows "f x = 0"
  using assms
proof (induction n arbitrary: f A)
  case 0
  then show ?case by (auto simp: poly_fun_def)
next
  case (Suc n)
  then obtain a where a: "a \<in> A" by (metis card_gt_0_iff equals0I zero_less_Suc)
  obtain c cs where f: "f = horner (c # cs)" "length cs = n"
    using Suc.prems(1) by (auto simp: poly_fun_def length_Suc_conv)
  obtain q where q: "poly_fun n q" "\<forall>x. f x = (x - a) * q x"
    using horner_root [of c cs a] Suc.prems(4) [OF a] f by auto
  have "q b = 0" if "b \<in> A - {a}" for b using q(2) Suc.prems(4) [of b] that by auto
  with Suc.IH [OF q(1), of "A - {a}"] Suc.prems(2,3) a q(2) show ?case by simp
qed

subsection \<open>Interpolation\<close>

definition basis :: "'a :: field list \<Rightarrow> nat \<Rightarrow> 'a \<Rightarrow> 'a" where
  "basis xs i x = (\<Prod>j \<in> {..<length xs} - {i}. (xs ! j - x) / (xs ! j - xs ! i))"

definition interpolate :: "('a :: field \<times> 'a) list \<Rightarrow> 'a \<Rightarrow> 'a" where
  "interpolate pts x = (\<Sum>i < length pts. snd (pts ! i) * basis (map fst pts) i x)"

lemma poly_fun_prod: "finite J \<Longrightarrow> poly_fun (Suc (card J)) (\<lambda>x. \<Prod>j \<in> J. (a j - x) / d j)"
proof (induction rule: finite_induct)
  case empty
  show ?case unfolding poly_fun_def by (rule exI [of _ "[1]"]) auto
next
  case (insert j J)
  have "poly_fun (Suc (Suc (card J))) (\<lambda>x. (1 / d j) * ((a j - x) * (\<Prod>j \<in> J. (a j - x) / d j)))"
    by (intro poly_fun_scale poly_fun_linear insert.IH)
  with insert.hyps show ?case by simp
qed

lemma poly_fun_sum: "(\<And>i. i \<in> I \<Longrightarrow> poly_fun n (f i)) \<Longrightarrow> poly_fun n (\<lambda>x. \<Sum>i \<in> I. f i x)"
  by (induction I rule: infinite_finite_induct) (simp_all add: poly_fun_zero poly_fun_add)

lemma poly_fun_interpolate: "poly_fun (length pts) (interpolate pts)"
  unfolding interpolate_def
proof (rule poly_fun_sum)
  fix i assume "i \<in> {..<length pts}"
  then have "Suc (card ({..<length pts} - {i})) = length pts" by (simp add: card_Suc_Diff1)
  with poly_fun_prod [of "{..<length pts} - {i}" "\<lambda>j. map fst pts ! j" "\<lambda>j. map fst pts ! j - map fst pts ! i"]
  show "poly_fun (length pts) (\<lambda>x. snd (pts ! i) * basis (map fst pts) i x)"
    unfolding basis_def by (intro poly_fun_scale) simp
qed

lemma interpolate_at:
  assumes "distinct (map fst pts)" and k: "k < length pts"
  shows "interpolate pts (fst (pts ! k)) = snd (pts ! k)"
proof -
  let ?xs = "map fst pts"
  have ne: "?xs ! j \<noteq> ?xs ! i" if "i < length pts" "j < length pts" "i \<noteq> j" for i j
    using assms(1) that by (metis distinct_conv_nth length_map)
  have one: "basis ?xs k (?xs ! k) = 1"
    unfolding basis_def using ne k by (intro prod.neutral) auto
  have zero: "basis ?xs i (?xs ! k) = 0" if "i < length pts" "i \<noteq> k" for i
    unfolding basis_def using that k by (intro prod_zero) auto
  have "interpolate pts (?xs ! k) = (\<Sum>i < length pts. if i = k then snd (pts ! k) else 0)"
    unfolding interpolate_def by (intro sum.cong) (use one zero in auto)
  with k show ?thesis by simp
qed

lemma interpolate_unique:
  assumes f: "poly_fun (length pts) f" and dist: "distinct (map fst pts)" and through: "\<And>k. k < length pts \<Longrightarrow> f (fst (pts ! k)) = snd (pts ! k)"
  shows "interpolate pts x = f x"
proof -
  have "f x - interpolate pts x = 0"
  proof (rule poly_fun_roots [where A = "set (map fst pts)" and n = "length pts" and f = "\<lambda>x. f x - interpolate pts x"])
    show "poly_fun (length pts) (\<lambda>x. f x - interpolate pts x)" using poly_fun_diff [OF f poly_fun_interpolate] .
    show "card (set (map fst pts)) = length pts" using dist by (metis distinct_card length_map)
    fix a assume "a \<in> set (map fst pts)"
    then obtain k where "k < length pts" "a = fst (pts ! k)" by (auto simp: in_set_conv_nth)
    with through interpolate_at [OF dist] show "f a - interpolate pts a = 0" by simp
  qed simp
  then show ?thesis by simp
qed

subsection \<open>What a split consists of\<close>

definition share_at :: "nat \<Rightarrow> 'a :: field list \<Rightarrow> 'p list \<Rightarrow> nat \<Rightarrow> ('a, 'p) verifiable_secret_share" where
  "share_at threshold cs ps i = \<lparr>vs_secret_share = \<lparr>ss_threshold = threshold, ss_index = of_nat i, ss_share = horner cs (of_nat i)\<rparr>, vs_proofs = ps\<rparr>"

lemma draw_coefficients_spec:
  assumes "draw_coefficients api rng k left cs ps = Inr p" and "list_all2 (\<lambda>c q. scalar_to_pubkey api c = Inr q) cs ps"
  shows "\<exists>cs'. po_coefficients p = cs @ cs' \<and> length cs' = left \<and> list_all2 (\<lambda>c q. scalar_to_pubkey api c = Inr q) (po_coefficients p) (po_proofs p)"
  using assms
proof (induction left arbitrary: k cs ps)
  case (Suc left)
  then obtain c q where c: "scalar_to_pubkey api c = Inr q" "draw_coefficients api rng (Suc k) left (cs @ [c]) (ps @ [q]) = Inr p" by auto
  from Suc.IH [OF c(2)] Suc.prems(2) c(1) show ?case by (auto simp: list_all2_appendI)
qed auto

lemma split_spec:
  assumes "split_secret_with_proofs api rng secret threshold n = Inr shares"
  obtains cs ps where "length (secret # cs) = threshold" "threshold \<le> n" "shares = map (share_at threshold (secret # cs) ps) [1..<Suc n]"
    "list_all2 (\<lambda>c q. scalar_to_pubkey api c = Inr q) (secret # cs) ps"
proof -
  from assms obtain q p where t: "0 < threshold" "threshold \<le> n" and q: "scalar_to_pubkey api secret = Inr q"
      and p: "draw_coefficients api rng 0 (threshold - 1) [secret] [q] = Inr p"
      and shares: "shares = map (\<lambda>i. \<lparr>vs_secret_share = \<lparr>ss_threshold = threshold, ss_index = of_nat i, ss_share = evaluate p (of_nat i)\<rparr>,
        vs_proofs = po_proofs p\<rparr>) [1..<Suc n]"
    by (auto simp: split_secret_with_proofs_def generate_polynomial_for_secret_sharing_def Let_def split: if_splits)
  obtain cs where cs: "po_coefficients p = secret # cs" "length cs = threshold - 1"
      "list_all2 (\<lambda>c q. scalar_to_pubkey api c = Inr q) (po_coefficients p) (po_proofs p)"
    using draw_coefficients_spec [OF p] q by auto
  with t shares show thesis by (intro that [of cs "po_proofs p"]) (auto simp: share_at_def evaluate_horner)
qed

lemma find_share_at:
  fixes cs :: "'a :: field list"
  assumes inj: "inj_on (of_nat :: nat \<Rightarrow> 'a) {..n}" and "op_id < n"
  shows "find_share (map (share_at t cs ps) [1..<Suc n]) op_id = Some (share_at t cs ps (Suc op_id))"
proof -
  let ?P = "\<lambda>s. ss_index (vs_secret_share s) = (of_nat (op_id + 1) :: 'a)"
  have ix: "?P (share_at t cs ps i) \<longleftrightarrow> i = Suc op_id" if "i \<le> n" for i
    using inj_onD [OF inj, of i "Suc op_id"] that assms(2) by (auto simp: share_at_def)
  have "\<exists>k < length (map (share_at t cs ps) [1..<Suc n]). ?P (map (share_at t cs ps) [1..<Suc n] ! k)
      \<and> share_at t cs ps (Suc op_id) = map (share_at t cs ps) [1..<Suc n] ! k \<and> (\<forall>j<k. \<not> ?P (map (share_at t cs ps) [1..<Suc n] ! j))"
    using assms(2) ix by (intro exI [of _ op_id]) (auto simp del: upt_Suc)
  then show ?thesis unfolding find_share_def Let_def find_Some_iff by blast
qed

subsection \<open>Properties\<close>

definition share_point :: "('a, 'p) verifiable_secret_share \<Rightarrow> 'a \<times> 'a" where
  "share_point s = (ss_index (vs_secret_share s), ss_share (vs_secret_share s))"

text \<open>Recovering a secret from shares: the interpolating polynomial at zero.\<close>

definition recover :: "('a :: field, 'p) verifiable_secret_share list \<Rightarrow> 'a" where
  "recover ss = interpolate (map share_point ss) 0"

lemma map_share_at: "map share_point (map (share_at t cs ps) is) = map (\<lambda>i. (of_nat i, horner cs (of_nat i))) is"
  by (simp add: share_point_def share_at_def)

lemma shares_interpolate:
  fixes cs :: "'a :: field list"
  assumes "length cs = length is" and "distinct is" and "inj_on (of_nat :: nat \<Rightarrow> 'a) (set is)"
  shows "interpolate (map (\<lambda>i. (of_nat i, horner cs (of_nat i))) is) x = horner cs x"
proof (rule interpolate_unique)
  show "poly_fun (length (map (\<lambda>i. (of_nat i :: 'a, horner cs (of_nat i))) is)) (horner cs)" using assms(1) by (auto simp: poly_fun_def)
  show "distinct (map fst (map (\<lambda>i. (of_nat i :: 'a, horner cs (of_nat i))) is))" using assms(2,3) by (simp add: distinct_map comp_def)
qed simp

text \<open>\<^bold>\<open>C14\<close>. A secret split for the operators can be recovered by any \<open>threshold\<close> of them: each finds its own share, and the
  polynomial through these shares has the secret at zero. The shares need as many different indices as there are
  operators.\<close>

theorem operators_recover_secret:
  fixes secret :: "'a :: field"
  assumes split: "split_secret_with_proofs api rng secret threshold n = Inr shares" and inj: "inj_on (of_nat :: nat \<Rightarrow> 'a) {..n}"
    and ops: "distinct operators" "set operators \<subseteq> {..<n}" "length operators = threshold"
  shows "\<exists>ss. map (find_share shares) operators = map Some ss \<and> recover ss = secret"
proof -
  obtain cs ps where s: "length (secret # cs) = threshold" "shares = map (share_at threshold (secret # cs) ps) [1..<Suc n]"
    by (rule split_spec [OF split])
  let ?ss = "map (share_at threshold (secret # cs) ps) (map Suc operators)"
  have "map (find_share shares) operators = map Some ?ss"
    unfolding s(2) using ops(2) find_share_at [OF inj, of _ threshold "secret # cs" ps] by auto
  moreover have "recover ?ss = horner (secret # cs) 0"
    unfolding recover_def map_share_at
  proof (rule shares_interpolate)
    show "inj_on (of_nat :: nat \<Rightarrow> 'a) (set (map Suc operators))" by (rule inj_on_subset [OF inj]) (use ops(2) in auto)
  qed (use s(1) ops in \<open>simp_all add: distinct_map\<close>)
  ultimately show ?thesis by (intro exI [of _ ?ss]) simp
qed


text \<open>\<^bold>\<open>C25\<close>. Every share of a split can be checked against its proofs without the polynomial: multiplying the generator by the share
  gives the sum of the proofs, weighted by the powers of the index; the first proof is the public key of the secret.
  This needs the scalars to act on the points and public keys to be read back as the points they were made from.\<close>

theorem shares_verify_against_proofs:
  fixes api :: "('a :: field, 'g :: ab_group_add, 'p) curve_api"
  assumes split: "split_secret_with_proofs api rng secret threshold n = Inr shares" and share: "s \<in> set shares"
    and act: "\<And>a. cv_generator_mul api a = act a gen" "\<And>a b. act (a + b) gen = act a gen + act b gen" "\<And>a b. act a (act b gen) = act (a * b) gen"
    and point: "\<And>g q. cv_from_affine api g = Some q \<Longrightarrow> point_of q = g"
  shows "cv_generator_mul api (ss_share (vs_secret_share s))
      = (\<Sum>k < threshold. act (ss_index (vs_secret_share s) ^ k) (point_of (vs_proofs s ! k)))
    \<and> point_of (vs_proofs s ! 0) = cv_generator_mul api secret \<and> length (vs_proofs s) = threshold"
proof -
  obtain cs ps where sp: "length (secret # cs) = threshold" "shares = map (share_at threshold (secret # cs) ps) [1..<Suc n]"
      "list_all2 (\<lambda>c q. scalar_to_pubkey api c = Inr q) (secret # cs) ps"
    by (rule split_spec [OF split])
  let ?cs = "secret # cs"
  obtain i where s: "s = share_at threshold ?cs ps i" using share sp(2) by auto
  have len: "length ps = threshold" using list_all2_lengthD [OF sp(3)] sp(1) by simp
  have proof_of: "point_of (ps ! k) = act (?cs ! k) gen" if "k < threshold" for k
  proof -
    have "scalar_to_pubkey api (?cs ! k) = Inr (ps ! k)" using list_all2_nthD [OF sp(3)] that sp(1) by simp
    then have "cv_from_affine api (cv_generator_mul api (?cs ! k)) = Some (ps ! k)"
      by (auto simp: scalar_to_pubkey_def ok_or_def split: option.splits)
    from point [OF this] act(1) show ?thesis by simp
  qed
  have zero: "act 0 gen = 0" using act(2) [of 0 0] by simp
  have sums: "act (\<Sum>k \<in> K. f k) gen = (\<Sum>k \<in> K. act (f k) gen)" if "finite K" for f and K :: "nat set"
    using that by induction (simp_all add: zero act(2))
  have "cv_generator_mul api (horner ?cs (of_nat i)) = (\<Sum>k < threshold. act (?cs ! k * of_nat i ^ k) gen)"
    unfolding act(1) horner_sum sp(1) by (rule sums) simp
  also have "\<dots> = (\<Sum>k < threshold. act (of_nat i ^ k) (point_of (ps ! k)))"
    by (intro sum.cong) (simp_all add: proof_of act(3) mult.commute)
  finally show ?thesis using proof_of [of 0] sp(1) len act(1) by (auto simp: s share_at_def)
qed

subsection \<open>A run\<close>

text \<open>The rational numbers in place of the scalars and of the points, with 2 as the generator.\<close>

definition example_curve :: "(rat, rat, rat) curve_api" where
  "example_curve = \<lparr>cv_from_repr = (\<lambda>bs. Some (of_nat (unat (hd bs)))), cv_generator_mul = (\<lambda>a. a * 2),
     cv_from_affine = (\<lambda>g. if g = 0 then None else Some g)\<rparr>"

definition example_rng :: "nat \<Rightarrow> byte list" where
  "example_rng k = 3 # replicate 31 0"

lemma example_split:
  "split_secret_with_proofs example_curve example_rng 5 2 3 = Inr (map (share_at 2 [5, 3] [10, 6]) [1..<Suc 3])"
  by (simp add: split_secret_with_proofs_def generate_polynomial_for_secret_sharing_def scalar_to_pubkey_def from_bytes_to_scalar_def
      example_curve_def example_rng_def evaluate_horner share_at_def upt_rec)

lemma rat_indices: "inj_on (of_nat :: nat \<Rightarrow> rat) A"
  by (simp add: inj_on_def)

lemma operators_recover_secret_witness:
  "\<exists>ss. map (find_share (map (share_at 2 [5, 3] [10 :: rat, 6]) [1..<Suc 3])) [2, 0] = map Some ss \<and> recover ss = (5 :: rat)"
  by (rule operators_recover_secret [OF example_split rat_indices]) auto


lemma shares_verify_against_proofs_witness:
  "(11 :: rat) * 2 = (\<Sum>k < 2. 2 ^ k * ([10, 6] ! k))"
proof -
  let ?s = "share_at 2 [5 :: rat, 3] [10 :: rat, 6] 2"
  have "?s \<in> set (map (share_at 2 [5, 3] [10, 6]) [1..<Suc 3])" unfolding list.set_map by (rule imageI) simp
  then have "cv_generator_mul example_curve (ss_share (vs_secret_share ?s)) = (\<Sum>k < 2. ss_index (vs_secret_share ?s) ^ k * id (vs_proofs ?s ! k))
      \<and> id (vs_proofs ?s ! 0) = cv_generator_mul example_curve 5 \<and> length (vs_proofs ?s) = 2"
    by (rule shares_verify_against_proofs [OF example_split, where act = "(*)" and gen = 2 and point_of = id])
       (auto simp: example_curve_def ring_distribs split: if_splits)
  then show ?thesis by (simp add: example_curve_def share_at_def)
qed

end
