(* ===== verification/Tagged_Hasher.thy ===== *)
theory Tagged_Hasher
  imports Spark_Prelude "HOL-Library.List_Lexorder"
begin

text \<open>
  The messages the wallet signs for the operators: \<^verbatim>\<open>crates/spark/src/utils/tagged_hasher.rs\<close>. A message is the hash of a domain tag,
  twice, followed by the values, each with its length in front. SHA-256 is a parameter. A string is the list of its UTF-8
  bytes.
\<close>

subsection \<open>The hasher\<close>

type_synonym u8 = "8 word"

text \<open>\<open>to_be_bytes\<close>: the last \<open>k\<close> bytes of a number, most significant first.\<close>

fun be_bytes :: "nat \<Rightarrow> nat \<Rightarrow> u8 list" where
  "be_bytes 0 n = []"
| "be_bytes (Suc k) n = be_bytes k (n div 256) @ [of_nat (n mod 256)]"

definition u64_be :: "nat \<Rightarrow> u8 list" where
  "u64_be n = be_bytes 8 (wrap64 n)"

record tagged_hasher =
  th_tag_hash :: "u8 list"
  th_values :: "u8 list"

definition write_length_prefixed :: "u8 list \<Rightarrow> tagged_hasher \<Rightarrow> tagged_hasher" where
  "write_length_prefixed bytes h = h\<lparr>th_values := th_values h @ u64_be (length bytes) @ bytes\<rparr>"

definition compute_tag_hash :: "(u8 list \<Rightarrow> u8 list) \<Rightarrow> u8 list list \<Rightarrow> u8 list" where
  "compute_tag_hash sha256 tag = sha256 (concat (map (\<lambda>component. u64_be (length component) @ component) tag))"

definition tagged_hasher_new :: "(u8 list \<Rightarrow> u8 list) \<Rightarrow> u8 list list \<Rightarrow> tagged_hasher" where
  "tagged_hasher_new sha256 tag = \<lparr>th_tag_hash = compute_tag_hash sha256 tag, th_values = []\<rparr>"

definition add_bytes :: "u8 list \<Rightarrow> tagged_hasher \<Rightarrow> tagged_hasher" where
  "add_bytes bytes h = write_length_prefixed bytes h"

definition add_string :: "u8 list \<Rightarrow> tagged_hasher \<Rightarrow> tagged_hasher" where
  "add_string s h = write_length_prefixed s h"

definition hash_u64 :: "u64 \<Rightarrow> tagged_hasher \<Rightarrow> tagged_hasher" where
  "hash_u64 v h = write_length_prefixed (u64_be v) h"

definition add_map_string_to_bytes :: "(u8 list, u8 list) hash_map \<Rightarrow> tagged_hasher \<Rightarrow> tagged_hasher" where
  "add_map_string_to_bytes m h =
     (let h1 = hash_u64 (length m) h; pairs = sort_key fst m
      in fold (\<lambda>(key, value) h. add_bytes value (add_string key h)) pairs h1)"

definition signable_message :: "tagged_hasher \<Rightarrow> u8 list" where
  "signable_message h = th_tag_hash h @ th_tag_hash h @ th_values h"

definition tagged_hash :: "(u8 list \<Rightarrow> u8 list) \<Rightarrow> tagged_hasher \<Rightarrow> u8 list" where
  "tagged_hash sha256 h = sha256 (signable_message h)"

subsection \<open>Length prefixes\<close>

lemma length_be_bytes [simp]: "length (be_bytes k n) = k"
  by (induction k arbitrary: n) simp_all

lemma length_u64_be [simp]: "length (u64_be n) = 8"
  by (simp add: u64_be_def)

lemma be_bytes_inj: "n < 256 ^ k \<Longrightarrow> m < 256 ^ k \<Longrightarrow> be_bytes k n = be_bytes k m \<Longrightarrow> n = m"
proof (induction k arbitrary: n m)
  case (Suc k)
  have "n div 256 = m div 256"
    using Suc.prems by (intro Suc.IH) (auto simp: less_mult_imp_div_less mult.commute)
  moreover have "n mod 256 = m mod 256"
  proof -
    have "unat (of_nat (n mod 256) :: u8) = unat (of_nat (m mod 256) :: u8)" using Suc.prems(3) by simp
    then show ?thesis by (simp add: unat_of_nat)
  qed
  ultimately show ?case by (metis div_mult_mod_eq)
qed simp

lemma u64_be_inj: "n < 2 ^ 64 \<Longrightarrow> m < 2 ^ 64 \<Longrightarrow> u64_be n = u64_be m \<Longrightarrow> n = m"
  unfolding u64_be_def by (rule be_bytes_inj [of n 8 m]) simp_all

definition framed :: "u8 list \<Rightarrow> u8 list" where
  "framed bytes = u64_be (length bytes) @ bytes"

lemma framed_inj:
  assumes "length a < 2 ^ 64" and "length b < 2 ^ 64" and "framed a @ rest = framed b @ rest'"
  shows "a = b \<and> rest = rest'"
proof -
  from assms(3) have eq: "u64_be (length a) = u64_be (length b)" "a @ rest = b @ rest'" by (simp_all add: framed_def)
  with u64_be_inj [OF assms(1,2)] show ?thesis by simp
qed

lemma framed_ne: "framed a \<noteq> []"
  using length_u64_be [of "length a"] by (auto simp: framed_def simp del: length_u64_be)

lemma frames_inj:
  assumes "concat (map framed xs) = concat (map framed ys)" and "\<forall>x \<in> set xs \<union> set ys. length x < 2 ^ 64"
  shows "xs = ys"
  using assms
proof (induction xs arbitrary: ys)
  case Nil
  then show ?case using framed_ne by (cases ys) auto
next
  case (Cons x xs)
  then obtain y ys' where ys: "ys = y # ys'" using framed_ne by (cases ys) auto
  have "x = y \<and> concat (map framed xs) = concat (map framed ys')"
    using Cons.prems unfolding ys by (intro framed_inj) simp_all
  with Cons ys show ?case by simp
qed

subsection \<open>Messages\<close>

text \<open>The values of a message in the order they are added, and what each one writes.\<close>

datatype field = Bytes_Field "u8 list" | String_Field "u8 list" | U64_Field u64 | Map_Field "(u8 list, u8 list) hash_map"

fun add_field :: "field \<Rightarrow> tagged_hasher \<Rightarrow> tagged_hasher" where
  "add_field (Bytes_Field b) = add_bytes b"
| "add_field (String_Field s) = add_string s"
| "add_field (U64_Field v) = hash_u64 v"
| "add_field (Map_Field m) = add_map_string_to_bytes m"

definition message :: "(u8 list \<Rightarrow> u8 list) \<Rightarrow> u8 list list \<Rightarrow> field list \<Rightarrow> u8 list" where
  "message sha256 tag fs = signable_message (fold add_field fs (tagged_hasher_new sha256 tag))"

definition pair_frames :: "(u8 list \<times> u8 list) list \<Rightarrow> u8 list list" where
  "pair_frames ps = concat (map (\<lambda>(k, v). [k, v]) ps)"

fun frames_of :: "field \<Rightarrow> u8 list list" where
  "frames_of (Bytes_Field b) = [b]"
| "frames_of (String_Field s) = [s]"
| "frames_of (U64_Field v) = [u64_be v]"
| "frames_of (Map_Field m) = u64_be (length m) # pair_frames (sort_key fst m)"

lemma pair_frames_simps [simp]: "pair_frames [] = []" "pair_frames ((k, v) # ps) = k # v # pair_frames ps"
  by (simp_all add: pair_frames_def)

lemma length_pair_frames [simp]: "length (pair_frames ps) = 2 * length ps"
  by (induction ps) auto

lemma pair_frames_inj: "pair_frames ps = pair_frames qs \<Longrightarrow> ps = qs"
proof (induction ps arbitrary: qs)
  case Nil
  then show ?case by (cases qs) auto
next
  case (Cons p ps)
  then show ?case by (cases qs; cases p) auto
qed

lemma write_frames: "th_values (write_length_prefixed b h) = th_values h @ framed b" "th_tag_hash (write_length_prefixed b h) = th_tag_hash h"
  by (simp_all add: write_length_prefixed_def framed_def)

lemma fold_pairs_frames:
  "th_values (fold (\<lambda>(key, value) h. add_bytes value (add_string key h)) ps h) = th_values h @ concat (map framed (pair_frames ps))
   \<and> th_tag_hash (fold (\<lambda>(key, value) h. add_bytes value (add_string key h)) ps h) = th_tag_hash h"
  by (induction ps arbitrary: h) (auto simp: add_bytes_def add_string_def write_frames)

lemma add_field_frames: "th_values (add_field f h) = th_values h @ concat (map framed (frames_of f))" "th_tag_hash (add_field f h) = th_tag_hash h"
proof -
  have "th_values (add_field f h) = th_values h @ concat (map framed (frames_of f)) \<and> th_tag_hash (add_field f h) = th_tag_hash h"
  proof (cases f)
    case (Map_Field m)
    then show ?thesis using fold_pairs_frames [of "sort_key fst m" "hash_u64 (length m) h"]
      by (simp add: add_map_string_to_bytes_def hash_u64_def write_frames Let_def)
  qed (simp_all add: add_bytes_def add_string_def hash_u64_def write_frames)
  then show "th_values (add_field f h) = th_values h @ concat (map framed (frames_of f))" "th_tag_hash (add_field f h) = th_tag_hash h" by simp_all
qed

lemma message_frames: "message sha256 tag fs = compute_tag_hash sha256 tag @ compute_tag_hash sha256 tag @ concat (map framed (concat (map frames_of fs)))"
proof -
  have "th_values (fold add_field fs h) = th_values h @ concat (map framed (concat (map frames_of fs))) \<and> th_tag_hash (fold add_field fs h) = th_tag_hash h" for h
    by (induction fs arbitrary: h) (simp_all add: add_field_frames)
  from this [of "tagged_hasher_new sha256 tag"] show ?thesis by (simp add: message_def signable_message_def tagged_hasher_new_def)
qed

text \<open>Two messages of the same kind, and with the same content: maps are compared as maps.\<close>

fun same_kind :: "field \<Rightarrow> field \<Rightarrow> bool" where
  "same_kind (Bytes_Field _) (Bytes_Field _) = True"
| "same_kind (String_Field _) (String_Field _) = True"
| "same_kind (U64_Field _) (U64_Field _) = True"
| "same_kind (Map_Field _) (Map_Field _) = True"
| "same_kind _ _ = False"

fun same_content :: "field \<Rightarrow> field \<Rightarrow> bool" where
  "same_content (Map_Field m) (Map_Field m') = (set m = set m')"
| "same_content f f' = (f = f')"

fun sized :: "field \<Rightarrow> bool" where
  "sized (Bytes_Field b) = (length b < 2 ^ 64)"
| "sized (String_Field s) = (length s < 2 ^ 64)"
| "sized (U64_Field v) = (v < 2 ^ 64)"
| "sized (Map_Field m) = (wf_map m \<and> length m < 2 ^ 64 \<and> (\<forall>(k, v) \<in> set m. length k < 2 ^ 64 \<and> length v < 2 ^ 64))"

lemma same_map_sorted:
  assumes "wf_map m" and "wf_map m'"
  shows "sort_key fst m = sort_key fst m' \<longleftrightarrow> set m = set m'"
proof
  assume "set m = set m'"
  moreover have "distinct m" "distinct m'" using assms by (auto simp: wf_map_def distinct_map)
  ultimately have "mset m = mset m'" by (simp add: set_eq_iff_mset_eq_distinct)
  then show "sort_key fst m = sort_key fst m'"
    using assms(1) by (intro sort_key_inj_key_eq) (auto simp: wf_map_def distinct_map)
qed (metis set_sort)

lemma frames_same_content:
  assumes "same_kind f f'" and "sized f" and "sized f'"
  shows "(\<exists>rest rest'. frames_of f @ rest = frames_of f' @ rest') \<Longrightarrow> same_content f f'" and "same_content f f' \<Longrightarrow> frames_of f = frames_of f'"
proof -
  show "same_content f f'" if "\<exists>rest rest'. frames_of f @ rest = frames_of f' @ rest'"
  proof (cases f)
    case (U64_Field v)
    with assms that u64_be_inj show ?thesis by (cases f') auto
  next
    case (Map_Field m)
    then obtain m' where m': "f' = Map_Field m'" using assms(1) by (cases f') auto
    from that obtain rest rest' where eq: "u64_be (length m) = u64_be (length m')"
        "pair_frames (sort_key fst m) @ rest = pair_frames (sort_key fst m') @ rest'" by (auto simp: Map_Field m')
    have "length m = length m'" using u64_be_inj [OF _ _ eq(1)] assms(2,3) by (simp add: Map_Field m')
    with eq(2) have "pair_frames (sort_key fst m) = pair_frames (sort_key fst m')" by simp
    with pair_frames_inj same_map_sorted [of m m'] assms(2,3) show ?thesis by (simp add: Map_Field m')
  qed (use assms that in \<open>cases f'; auto\<close>)+
  show "frames_of f = frames_of f'" if "same_content f f'"
  proof (cases f)
    case (Map_Field m)
    then obtain m' where m': "f' = Map_Field m'" using assms(1) by (cases f') auto
    with that same_map_sorted [of m m'] assms(2,3) have "sort_key fst m = sort_key fst m'" by (simp add: Map_Field)
    moreover from this have "length m = length m'" by (metis length_sort)
    ultimately show ?thesis by (simp add: Map_Field m')
  qed (use that in \<open>cases f'; auto\<close>)+
qed

lemma frames_same_contents:
  assumes "list_all2 same_kind fs fs'" and "\<forall>f \<in> set fs \<union> set fs'. sized f"
  shows "concat (map frames_of fs) = concat (map frames_of fs') \<longleftrightarrow> list_all2 same_content fs fs'"
  using assms
proof (induction rule: list_all2_induct)
  case (Cons f fs f' fs')
  note c = frames_same_content [OF Cons.hyps(1)]
  have s: "sized f" "sized f'" using Cons.prems by auto
  show ?case
  proof
    assume eq: "concat (map frames_of (f # fs)) = concat (map frames_of (f' # fs'))"
    then have "frames_of f @ concat (map frames_of fs) = frames_of f' @ concat (map frames_of fs')" by simp
    with c(1) [OF s] have "same_content f f'" by blast
    with c(2) [OF s] eq Cons show "list_all2 same_content (f # fs) (f' # fs')" by auto
  qed (use c(2) [OF s] Cons in auto)
qed simp

lemma frames_sized: "sized f \<Longrightarrow> x \<in> set (frames_of f) \<Longrightarrow> length x < 2 ^ 64"
  by (cases f) (auto simp: pair_frames_def)

text \<open>\<^bold>\<open>C15\<close>. What is signed can be read in one way only: two messages made of the same kinds of values are equal exactly when
  their tags and all their values are, maps by their entries whatever order these were inserted in. This rests on hashes
  of 32 bytes that tell the two tags apart, and on values short enough for their length to fit into eight bytes.\<close>

theorem messages_are_unambiguous:
  assumes kinds: "list_all2 same_kind fs fs'" and sizes: "\<forall>f \<in> set fs \<union> set fs'. sized f" and tags: "\<forall>c \<in> set tag \<union> set tag'. length c < 2 ^ 64"
    and sha: "\<And>m. length (sha256 m) = 32"
    and no_collision: "sha256 (concat (map (\<lambda>c. u64_be (length c) @ c) tag)) = sha256 (concat (map (\<lambda>c. u64_be (length c) @ c) tag'))
      \<Longrightarrow> concat (map (\<lambda>c. u64_be (length c) @ c) tag) = concat (map (\<lambda>c. u64_be (length c) @ c) tag')"
  shows "message sha256 tag fs = message sha256 tag' fs' \<longleftrightarrow> tag = tag' \<and> list_all2 same_content fs fs'"
proof
  assume eq: "message sha256 tag fs = message sha256 tag' fs'"
  have len: "length (compute_tag_hash sha256 t) = 32" for t by (simp add: compute_tag_hash_def sha)
  from eq len have hash: "compute_tag_hash sha256 tag = compute_tag_hash sha256 tag'"
      and vals: "concat (map framed (concat (map frames_of fs))) = concat (map framed (concat (map frames_of fs')))"
    by (simp_all add: message_frames)
  from no_collision hash have "concat (map framed tag) = concat (map framed tag')"
    unfolding compute_tag_hash_def framed_def by blast
  then have "tag = tag'" using tags by (rule frames_inj)
  moreover have "concat (map frames_of fs) = concat (map frames_of fs')"
    using vals sizes frames_sized by (intro frames_inj) auto
  ultimately show "tag = tag' \<and> list_all2 same_content fs fs'" using frames_same_contents [OF kinds sizes] by simp
next
  assume "tag = tag' \<and> list_all2 same_content fs fs'"
  with frames_same_contents [OF kinds sizes] show "message sha256 tag fs = message sha256 tag' fs'" by (simp add: message_frames)
qed

text \<open>A hash that is good enough for two short tags.\<close>

definition example_sha :: "u8 list \<Rightarrow> u8 list" where
  "example_sha m = take 32 (m @ replicate 32 0)"

lemma messages_are_unambiguous_witness:
  "message example_sha [[97], [98]] [U64_Field 2, Map_Field [([2], [5]), ([1], [6])]]
     = message example_sha [[97], [98]] [U64_Field 2, Map_Field [([1], [6]), ([2], [5])]]
   \<and> message example_sha [[97, 98]] [Bytes_Field [1, 2], Bytes_Field [3]] \<noteq> message example_sha [[97, 98]] [Bytes_Field [1], Bytes_Field [2, 3]]"
proof
  have sha: "length (example_sha m) = 32" for m by (simp add: example_sha_def)
  show "message example_sha [[97], [98]] [U64_Field 2, Map_Field [([2], [5]), ([1], [6])]]
     = message example_sha [[97], [98]] [U64_Field 2, Map_Field [([1], [6]), ([2], [5])]]"
    by (subst messages_are_unambiguous) (auto simp: wf_map_def sha)
  show "message example_sha [[97, 98]] [Bytes_Field [1, 2], Bytes_Field [3]] \<noteq> message example_sha [[97, 98]] [Bytes_Field [1], Bytes_Field [2, 3]]"
    by (subst messages_are_unambiguous) (auto simp: sha)
qed

end
