(* ===== verification/Spec2Isabelle.thy ===== *)
theory Spec2Isabelle
  imports Tree_Store_Semaphore Tree_Store_Ledger Tree_Store_Views Token_Store_Props Leaf_Optimizer_Props Timelock Paging Byte_Padding
    Exit_Feasible Claim_Locks_Props Refund_Signing_Props Tree_Service_Select Exit_Chain_Resolver Secret_Sharing Tagged_Hasher
begin

text \<open>
  \<^bold>\<open>A verification of the core of the Spark SDK.\<close>

  The Spark SDK is a wallet for bitcoin held off-chain in trees of pre-signed transactions. The wallet owns
  \<^emph>\<open>leaves\<close>; a payment reserves leaves, moves them through operators, and finalises the reservation. Tokens
  are kept the same way, as outputs. If the operators stop cooperating, the wallet leaves by itself: it
  broadcasts the pre-signed transactions of a leaf from the root of its tree down, each paid for by a child
  transaction (CPFP), and sweeps the refund. The development models the parts that decide what the wallet
  holds, what it may spend, and how it gets out.

  \<^bold>\<open>Parts, theories and sources\<close> (paths under \<open>src/crates\<close>).

  \<^item> \<open>Spark_Prelude\<close>: 64- and 128-bit amounts with their wrap-around, \<open>Result\<close> and \<open>?\<close>, hash maps as
    association lists with distinct keys, list searches.
  \<^item> \<open>Tree_Model\<close>, \<open>Leaf_Select\<close>: \<open>spark/src/tree/mod.rs\<close>, \<open>error.rs\<close> and \<open>select_helper.rs\<close>: nodes, statuses,
    reservations, balances; choosing leaves for an amount, a fee or exact denominations.
  \<^item> \<open>Tree_Store\<close>, \<open>Tree_Store_Processor\<close>, \<open>Tree_Store_Semaphore\<close>: \<open>spark/src/tree/store.rs\<close>: the state of the
    in-memory store as a record, one definition per handler, the processor loop with its notifications, the
    bounded command queue and the permits as a step relation. \<open>Tree_Store_Inv\<close> has the invariant every command
    keeps; \<open>Tree_Store_Refresh\<close> the refresh against concurrent spends, as a refinement of a function on leaf
    sets; \<open>Tree_Store_Ledger\<close> and \<open>Tree_Store_Views\<close> conservation, round trips and what callers observe.
  \<^item> \<open>Token_Model\<close>, \<open>Token_Store\<close> and the theories above it: \<open>spark/src/token/mod.rs\<close> and \<open>token/store/mod.rs\<close>:
    the same for token outputs, with pools per token.
  \<^item> \<open>Reservation_Ledger\<close>: a locale for stores that take items out of a pool, hold them and give them back or
    consume them, with conservation proved once; both stores interpret it.
  \<^item> \<open>Leaf_Optimizer_Plan\<close>, \<open>Leaf_Optimizer_Props\<close>: \<open>spark/src/tree/leaf_optimizer.rs\<close>: the plans that reshape
    leaves into powers of two.
  \<^item> \<open>Exit_Chain\<close>: \<open>spark/src/tree/chain.rs\<close>: which stored ancestors back an exit.
  \<^item> \<open>Exit_Plan\<close>, \<open>Exit_Plan_Props\<close>: \<open>spark/src/services/unilateral_exit.rs\<close>: costs, leaf selection, assignment
    of funding, fan-out, CPFP children, quote and plan.
  \<^item> \<open>Exit_Observe\<close>, \<open>Exit_Scan\<close>, \<open>Exit_Build\<close> and their property theories: \<open>spark-wallet/src/unilateral_exit.rs\<close>:
    what the funding turned into, which transactions of a kept exit are in a block, what the chain did to
    each branch, and the transactions still to be signed.
  \<^item> \<open>Exit_Feasible\<close>: that what the planner accepts the builder can build, across the two.
  \<^item> \<open>Refund_Txs\<close>, \<open>Refund_Signing\<close>, \<open>Refund_Signing_Props\<close>: \<open>spark/src/utils/transactions.rs\<close>,
    \<open>htlc_transactions.rs\<close>, \<open>refund.rs\<close>: the refund and node transactions, and signing them in one batch.
  \<^item> \<open>Claim_Transfer\<close>, \<open>Claim_Locks\<close>, \<open>Claim_Locks_Props\<close>: \<open>spark/src/services/transfer.rs\<close>: claiming a transfer with
    its retries, and the registry of locks under which concurrent claims run, as a step relation.
  \<^item> \<open>Timelock_Manager\<close>, \<open>Timelock_Manager_Props\<close>: \<open>spark/src/services/timelock_manager.rs\<close> and
    \<open>utils/signing_job.rs\<close>: renewing the timelocks of leaves that are about to run out, and their chains.
  \<^item> \<open>Tree_Service\<close>, \<open>Tree_Service_Props\<close>, \<open>Tree_Service_Select\<close>: \<open>spark/src/tree/service.rs\<close>: the operations that
    drive the leaf store with the answers of operators, renewals and swaps: refreshing, cancelling, restoring and
    the selection of leaves for a payment with its waiting loop.
  \<^item> \<open>Exit_Chain_Resolver\<close>: \<open>spark/src/tree/exit_chain_resolver.rs\<close>: fetching missing exit chains, with backoff.
  \<^item> \<open>Secret_Sharing\<close>: \<open>spark/src/signer/secret_sharing.rs\<close>: Shamir's scheme with proofs, over any field.
  \<^item> \<open>Tagged_Hasher\<close>: \<open>spark/src/utils/tagged_hasher.rs\<close>: the messages signed for the operators.
  \<^item> \<open>Timelock\<close>: \<open>spark/src/core/constants.rs\<close>, on machine words. \<open>Paging\<close>: \<open>spark/src/utils/paging.rs\<close>.
    \<open>Byte_Padding\<close>: \<open>spark/src/utils/byte_padding.rs\<close>.

  \<^bold>\<open>How state and effects are modelled.\<close> A component's state is a record; a handler takes it and returns it
  updated, with a result value \<open>Inl\<close> error or \<open>Inr\<close> value; every early return and every \<open>?\<close> is a branch.
  Handlers that read the clock or draw a fresh id take it as an argument. Concurrency is the interleaving of
  whole handlers: each runs under a lock or inside the one processor task. What the chain answers is an
  argument (a list of observations), since the code leaves all I/O to its caller. The bitcoin crate (ids,
  weights, dust limits, PSBT constructor) is a record of functions, \<open>bitcoin_api\<close>, and every theorem about it
  holds for all of them; so are scripts and addresses (\<open>script_api\<close>), the signer (\<open>signer_api\<close>), the checks of a
  claim (\<open>claim_crypto\<close>), the coordinator of a renewal (\<open>renewal_api\<close>), the peers of the tree service (\<open>tree_peers\<close>)
  and the curve (\<open>curve_api\<close>). An operation of the tree service runs on a world in which other tasks act on the
  store before each of its calls (\<open>ce_before\<close>) and a call may fail; a panic is an error nothing catches.

  \<^bold>\<open>What is shown.\<close> For the two stores: an invariant of every reachable state, exclusivity and conservation of
  what they hold, exact conditions for a reservation to be granted, all-or-nothing reservation by ids, and
  that a finalised leaf or output is not brought back by an older refresh; that the refresh refines its
  specification on leaf sets; that reservations never exceed the semaphore. For selection and planning:
  sound and (where the code is) complete selections, executable and converging plans. For exits: the walk
  finds exactly the root chain, funding is partitioned and conserved, the fees quoted add up, the scans are
  sound and complete for truthful answers and terminate for all of them, the kept state is enough to rebuild
  what was seen, the built transactions can be broadcast in order, and a plan that was accepted can be built.
  For refunds and claims: every refund sent on comes before the one kept, batched signing is separate signing,
  and concurrent claims exclude each other, end, and share their outcome. For the tree service: a refresh takes
  only leaves that all operators confirm and the wallet owns, a selection leaves behind exactly the reservation
  it returns, which pays the target, or none, and ends in time; cancelling returns only verified leaves.
  For renewals: only requests that pay the wallet's own key leave it, no leaf is lost, chains stay complete.
  For the resolver: every missing chain is stored or held off within fixed bounds. For secret sharing: any
  threshold of operators recovers the secret, fewer learn nothing, and every share verifies. Signed messages can be read in one way only. For timelocks: the
  number of steps before exhaustion and the exact decrement.

  \<^bold>\<open>Termination.\<close> No definition uses fuel: loops over lists are structural, and the worklist loops of the
  exit scans and walks terminate by the number of outpoints or ids not yet visited. The waiting loop of the
  selection may run as long as the clock allows: it is a partial function into \<open>option\<close>, and that it returns is
  a theorem (\<open>selection_ends\<close>).

  \<^bold>\<open>Not modelled.\<close> The SQL stores (\<open>spark-postgres\<close>, \<open>spark-mysql\<close>, \<open>breez-sdk/core/src/persist\<close>), which are
  queries evaluated by a database; the RPC clients, generated protocol code, key derivation and the signing of
  FROST shares, which are network I/O and third-party cryptography; token transactions, deposits, lightning and
  cooperative exits, which assemble requests to those; how a transfer is sent (only its refunds are); the SDK facade, bindings, command-line tools, lnurl
  server and cross-chain providers, which call the parts above. The manifest lists them one by one.
\<close>

end
